(* ===== verification/Prelude.thy ===== *)
theory Prelude
  imports Main "HOL-Library.Word" "HOL-Library.List_Lexorder" "HOL-Library.Char_ord"
begin

text \<open>
  Shared vocabulary of the development.  Fallible Rust code returns \<^typ>\<open>'e + 'a\<close>
  (\<^term>\<open>Inl\<close> is \<^verbatim>\<open>Err\<close>); the operator \<^verbatim>\<open>?\<close> is
  \<^verbatim>\<open>res_bind\<close>, a guard with an early return is \<^verbatim>\<open>ensure\<close>, and a
  loop whose body may return early is \<^verbatim>\<open>res_all\<close> or \<^verbatim>\<open>res_fold\<close>.
  Machine integers are words; \<^verbatim>\<open>checked_add\<close> and its relatives are the standard
  library's.  A \<^verbatim>\<open>BTreeMap\<close> is a key-sorted association list, so that iteration is
  the source's iteration; \<^verbatim>\<open>BTreeSet\<close> is a sorted list without repetition.
  The locale \<^verbatim>\<open>ordered_map\<close> states what callers rely on, and it is interpreted
  on those lists.
\<close>

named_theorems res_simps \<open>case analysis of fallible results\<close>
named_theorems wrap_simps \<open>checked machine arithmetic read as natural numbers\<close>
named_theorems bmap_simps \<open>lookup laws of ordered maps\<close>

type_synonym u64 = "64 word"
type_synonym u32 = "32 word"
type_synonym u8 = "8 word"
type_synonym timestamp = u64


section \<open>Fallible results\<close>

definition res_bind :: "'e + 'a \<Rightarrow> ('a \<Rightarrow> 'e + 'b) \<Rightarrow> 'e + 'b" where
  "res_bind m f = (case m of Inl e \<Rightarrow> Inl e | Inr x \<Rightarrow> f x)"

definition res_map :: "('a \<Rightarrow> 'b) \<Rightarrow> 'e + 'a \<Rightarrow> 'e + 'b" where
  "res_map f m = (case m of Inl e \<Rightarrow> Inl e | Inr x \<Rightarrow> Inr (f x))"

definition map_err :: "('e \<Rightarrow> 'f) \<Rightarrow> 'e + 'a \<Rightarrow> 'f + 'a" where
  "map_err f m = (case m of Inl e \<Rightarrow> Inl (f e) | Inr x \<Rightarrow> Inr x)"

definition ensure :: "bool \<Rightarrow> 'e \<Rightarrow> 'e + unit" where
  "ensure b e = (if b then Inr () else Inl e)"

definition ok_or :: "'e \<Rightarrow> 'a option \<Rightarrow> 'e + 'a" where
  "ok_or e m = (case m of None \<Rightarrow> Inl e | Some x \<Rightarrow> Inr x)"

definition is_ok :: "'e + 'a \<Rightarrow> bool" where
  "is_ok m = (case m of Inl _ \<Rightarrow> False | Inr _ \<Rightarrow> True)"

primrec res_all :: "('a \<Rightarrow> 'e + unit) \<Rightarrow> 'a list \<Rightarrow> 'e + unit" where
  "res_all f [] = Inr ()"
| "res_all f (x # xs) = res_bind (f x) (\<lambda>_. res_all f xs)"

primrec res_fold :: "('a \<Rightarrow> 's \<Rightarrow> 'e + 's) \<Rightarrow> 'a list \<Rightarrow> 's \<Rightarrow> 'e + 's" where
  "res_fold f [] s = Inr s"
| "res_fold f (x # xs) s = res_bind (f x s) (res_fold f xs)"

text \<open>Collecting an iterator of results: the first error, or every value.\<close>

primrec res_collect :: "('a \<Rightarrow> 'e + 'b) \<Rightarrow> 'a list \<Rightarrow> 'e + 'b list" where
  "res_collect f [] = Inr []"
| "res_collect f (x # xs) = res_bind (f x) (\<lambda>y. res_bind (res_collect f xs) (\<lambda>ys. Inr (y # ys)))"

lemma res_bind_simps [simp]:
  "res_bind (Inl e) f = Inl e"
  "res_bind (Inr x) f = f x"
  by (simp_all add: res_bind_def)

lemma res_map_simps [simp]:
  "res_map f (Inl e) = Inl e"
  "res_map f (Inr x) = Inr (f x)"
  by (simp_all add: res_map_def)

lemma map_err_simps [simp]:
  "map_err f (Inl e) = Inl (f e)"
  "map_err f (Inr x) = Inr x"
  by (simp_all add: map_err_def)

lemma ok_or_simps [simp]:
  "ok_or e None = Inl e"
  "ok_or e (Some x) = Inr x"
  by (simp_all add: ok_or_def)

lemma ensure_simps [simp]:
  "ensure True e = Inr ()"
  "ensure False e = Inl e"
  by (simp_all add: ensure_def)

lemma is_ok_simps [simp]:
  "is_ok (Inl e) \<longleftrightarrow> False"
  "is_ok (Inr x) \<longleftrightarrow> True"
  by (simp_all add: is_ok_def)

lemma res_bind_Inr_iff [res_simps]:
  "res_bind m f = Inr y \<longleftrightarrow> (\<exists>x. m = Inr x \<and> f x = Inr y)"
  by (cases m) simp_all

lemma res_bind_Inl_iff [res_simps]:
  "res_bind m f = Inl e \<longleftrightarrow> m = Inl e \<or> (\<exists>x. m = Inr x \<and> f x = Inl e)"
  by (cases m) simp_all

lemma res_map_Inr_iff [res_simps]:
  "res_map f m = Inr y \<longleftrightarrow> (\<exists>x. m = Inr x \<and> f x = y)"
  by (cases m) simp_all

lemma map_err_Inr_iff [res_simps]: "map_err f m = Inr y \<longleftrightarrow> m = Inr y"
  by (cases m) simp_all

lemma ensure_Inr_iff [res_simps]: "ensure b e = Inr u \<longleftrightarrow> b"
  by (simp add: ensure_def)

lemma ensure_Inl_iff [res_simps]: "ensure b e = Inl e' \<longleftrightarrow> \<not> b \<and> e' = e"
  by (auto simp add: ensure_def)

lemma ok_or_Inr_iff [res_simps]: "ok_or e m = Inr x \<longleftrightarrow> m = Some x"
  by (cases m) simp_all

lemma ok_or_Inl_iff [res_simps]: "ok_or e m = Inl e' \<longleftrightarrow> m = None \<and> e' = e"
  by (cases m) auto

lemma is_ok_iff: "is_ok m \<longleftrightarrow> (\<exists>x. m = Inr x)"
  by (cases m) simp_all

lemma is_ok_bind: "is_ok (res_bind m f) \<longleftrightarrow> (\<exists>x. m = Inr x \<and> is_ok (f x))"
  by (cases m) simp_all

lemma res_all_Inr_iff [res_simps]:
  "res_all f xs = Inr u \<longleftrightarrow> (\<forall>x \<in> set xs. f x = Inr ())"
  by (induction xs) (auto simp add: res_bind_Inr_iff)

text \<open>A fold whose body keeps a property on success keeps it as a whole.\<close>

lemma res_fold_invariant:
  assumes "res_fold f xs s = Inr t"
    and "P s"
    and "\<And>x s s'. x \<in> set xs \<Longrightarrow> P s \<Longrightarrow> f x s = Inr s' \<Longrightarrow> P s'"
  shows "P t"
  using assms
proof (induction xs arbitrary: s)
  case Nil
  then show ?case by simp
next
  case (Cons x xs)
  from Cons.prems(1) obtain s' where s': "f x s = Inr s'" "res_fold f xs s' = Inr t"
    by (auto simp add: res_bind_Inr_iff)
  show ?case
  proof (rule Cons.IH [OF s'(2)])
    show "P s'" using Cons.prems(2,3) s'(1) by auto
    show "\<And>y u u'. y \<in> set xs \<Longrightarrow> P u \<Longrightarrow> f y u = Inr u' \<Longrightarrow> P u'"
      using Cons.prems(3) by auto
  qed
qed

lemma res_fold_append:
  "res_fold f (xs @ ys) s = res_bind (res_fold f xs s) (res_fold f ys)"
proof (induction xs arbitrary: s)
  case (Cons x xs)
  then show ?case by (cases "f x s") simp_all
qed simp


section \<open>Checked machine arithmetic\<close>

definition checked_add :: "'w::len word \<Rightarrow> 'w word \<Rightarrow> 'w word option" where
  "checked_add a b = (if unat a + unat b < 2 ^ LENGTH('w) then Some (a + b) else None)"

definition checked_sub :: "'w::len word \<Rightarrow> 'w word \<Rightarrow> 'w word option" where
  "checked_sub a b = (if b \<le> a then Some (a - b) else None)"

definition checked_mul :: "'w::len word \<Rightarrow> 'w word \<Rightarrow> 'w word option" where
  "checked_mul a b = (if unat a * unat b < 2 ^ LENGTH('w) then Some (a * b) else None)"

definition saturating_sub :: "'w::len word \<Rightarrow> 'w word \<Rightarrow> 'w word" where
  "saturating_sub a b = (if b \<le> a then a - b else 0)"

definition saturating_add :: "'w::len word \<Rightarrow> 'w word \<Rightarrow> 'w word" where
  "saturating_add a b = (if unat a + unat b < 2 ^ LENGTH('w) then a + b else - 1)"

text \<open>\<^verbatim>\<open>usize\<close> counts lengths; it is 64 bits wide and modelled as a natural number.\<close>

definition usize_add :: "nat \<Rightarrow> nat \<Rightarrow> nat option" where
  "usize_add a b = (if a + b < 2 ^ 64 then Some (a + b) else None)"

lemma usize_add_Some [wrap_simps]: "usize_add a b = Some c \<longleftrightarrow> c = a + b \<and> a + b < 2 ^ 64"
  by (auto simp add: usize_add_def)

text \<open>\<^verbatim>\<open>u64::try_from\<close> and \<^verbatim>\<open>u32::try_from\<close> of a length.\<close>

definition try_from_usize :: "nat \<Rightarrow> 'w::len word option" where
  "try_from_usize n = (if n < 2 ^ LENGTH('w) then Some (of_nat n) else None)"

lemma unat_bound: "unat (c :: 'w::len word) < 2 ^ LENGTH('w)"
  by (rule unsigned_less)

lemma checked_add_unat [wrap_simps]:
  "checked_add a b = Some c \<longleftrightarrow> unat c = unat a + unat b"
proof (cases "unat a + unat b < 2 ^ LENGTH('a)")
  case True
  then have "unat (a + b) = unat a + unat b" by (simp add: unat_plus_if')
  with True show ?thesis by (auto simp add: checked_add_def word_unat_eq_iff)
next
  case False
  then show ?thesis
    using unat_bound [of c] by (auto simp add: checked_add_def simp del: unsigned_less)
qed

lemma checked_add_None [wrap_simps]:
  fixes a :: "'w::len word"
  shows "checked_add a b = None \<longleftrightarrow> 2 ^ LENGTH('w) \<le> unat a + unat b"
  by (auto simp add: checked_add_def)

lemma checked_sub_unat [wrap_simps]:
  "checked_sub a b = Some c \<longleftrightarrow> unat b \<le> unat a \<and> unat c = unat a - unat b"
proof (cases "b \<le> a")
  case True
  then have "unat (a - b) = unat a - unat b" by (rule unat_sub)
  with True show ?thesis by (auto simp add: checked_sub_def word_le_nat_alt word_unat_eq_iff)
next
  case False
  then show ?thesis by (auto simp add: checked_sub_def word_le_nat_alt)
qed

lemma checked_sub_None [wrap_simps]: "checked_sub a b = None \<longleftrightarrow> unat a < unat b"
  by (auto simp add: checked_sub_def word_le_nat_alt)

lemma checked_mul_unat [wrap_simps]:
  "checked_mul a b = Some c \<longleftrightarrow> unat c = unat a * unat b"
proof (cases "unat a * unat b < 2 ^ LENGTH('a)")
  case True
  then have "unat (a * b) = unat a * unat b" by (simp add: unat_word_ariths)
  with True show ?thesis by (auto simp add: checked_mul_def word_unat_eq_iff)
next
  case False
  then show ?thesis
    using unat_bound [of c] by (auto simp add: checked_mul_def simp del: unsigned_less)
qed

lemma unat_saturating_sub [wrap_simps]: "unat (saturating_sub a b) = unat a - unat b"
  by (auto simp add: saturating_sub_def unat_sub word_le_nat_alt)

lemma try_from_usize_Some:
  "try_from_usize n = Some (c :: 'w::len word) \<longleftrightarrow> unat c = n \<and> n < 2 ^ LENGTH('w)"
  by (auto simp add: try_from_usize_def unat_of_nat word_unat_eq_iff)

lemmas word_order_nat = word_le_nat_alt word_less_nat_alt


section \<open>Ordered maps\<close>

text \<open>
  \<^verbatim>\<open>BTreeMap\<close>: an association list sorted strictly by key.  \<^verbatim>\<open>get\<close> is
  \<^const>\<open>map_of\<close>, \<^verbatim>\<open>keys\<close> and \<^verbatim>\<open>values\<close> are the projections, and
  \<^verbatim>\<open>values_mut\<close> is \<^verbatim>\<open>bm_map\<close>.
\<close>

type_synonym ('k, 'v) bmap = "('k \<times> 'v) list"

definition bm_wf :: "('k::linorder, 'v) bmap \<Rightarrow> bool" where
  "bm_wf m \<longleftrightarrow> sorted_wrt (<) (map fst m)"

fun bm_insert :: "'k::linorder \<Rightarrow> 'v \<Rightarrow> ('k, 'v) bmap \<Rightarrow> ('k, 'v) bmap" where
  "bm_insert k v [] = [(k, v)]"
| "bm_insert k v ((k', v') # m) =
    (if k < k' then (k, v) # (k', v') # m
     else if k = k' then (k, v) # m
     else (k', v') # bm_insert k v m)"

definition bm_remove :: "'k \<Rightarrow> ('k, 'v) bmap \<Rightarrow> ('k, 'v) bmap" where
  "bm_remove k m = filter (\<lambda>p. fst p \<noteq> k) m"

definition bm_map :: "('k \<Rightarrow> 'v \<Rightarrow> 'w) \<Rightarrow> ('k, 'v) bmap \<Rightarrow> ('k, 'w) bmap" where
  "bm_map f m = map (\<lambda>(k, v). (k, f k v)) m"

definition bm_adjust :: "'k::linorder \<Rightarrow> ('v \<Rightarrow> 'v) \<Rightarrow> ('k, 'v) bmap \<Rightarrow> ('k, 'v) bmap" where
  "bm_adjust k f m = map (\<lambda>(k', v). (k', if k' = k then f v else v)) m"

definition bm_keys :: "('k, 'v) bmap \<Rightarrow> 'k list" where
  "bm_keys m = map fst m"

definition bm_values :: "('k, 'v) bmap \<Rightarrow> 'v list" where
  "bm_values m = map snd m"

definition bm_contains :: "('k, 'v) bmap \<Rightarrow> 'k \<Rightarrow> bool" where
  "bm_contains m k \<longleftrightarrow> k \<in> set (bm_keys m)"

lemma bm_wf_Nil [simp]: "bm_wf []"
  by (simp add: bm_wf_def)

lemma bm_wf_Cons [simp]:
  "bm_wf ((k, v) # m) \<longleftrightarrow> (\<forall>k' \<in> fst ` set m. k < k') \<and> bm_wf m"
  by (auto simp add: bm_wf_def)

lemma bm_wf_distinct: "bm_wf m \<Longrightarrow> distinct (map fst m)"
  unfolding bm_wf_def using strict_sorted_iff by blast

lemma fst_set_bm_insert [simp]:
  "fst ` set (bm_insert k v m) = insert k (fst ` set m)"
  by (induction k v m rule: bm_insert.induct) auto

lemma bm_wf_insert [simp]: "bm_wf m \<Longrightarrow> bm_wf (bm_insert k v m)"
  by (induction k v m rule: bm_insert.induct) auto

lemma map_of_bm_insert [simp, bmap_simps]:
  "bm_wf m \<Longrightarrow> map_of (bm_insert k v m) = (map_of m)(k \<mapsto> v)"
proof (induction k v m rule: bm_insert.induct)
  case (2 k v k' v' m)
  then show ?case by (auto simp add: fun_eq_iff)
qed simp

lemma bm_wf_remove [simp]: "bm_wf m \<Longrightarrow> bm_wf (bm_remove k m)"
  unfolding bm_remove_def by (induction m) auto

lemma map_of_bm_remove [simp, bmap_simps]:
  "map_of (bm_remove k m) = (map_of m)(k := None)"
  unfolding bm_remove_def by (induction m) (auto simp add: fun_eq_iff)

lemma bm_wf_adjust [simp]: "bm_wf (bm_adjust k f m) \<longleftrightarrow> bm_wf m"
  by (simp add: bm_wf_def bm_adjust_def comp_def case_prod_beta)

lemma map_of_bm_adjust [simp, bmap_simps]:
  "map_of (bm_adjust k f m) k' = (if k' = k then map_option f (map_of m k) else map_of m k')"
  unfolding bm_adjust_def by (induction m) auto

lemma bm_wf_map [simp]: "bm_wf (bm_map f m) \<longleftrightarrow> bm_wf m"
  by (simp add: bm_wf_def bm_map_def comp_def case_prod_beta)

lemma map_of_bm_map [simp, bmap_simps]:
  "map_of (bm_map f m) k = map_option (f k) (map_of m k)"
  unfolding bm_map_def by (induction m) auto

lemma bm_keys_map [simp]: "bm_keys (bm_map f m) = bm_keys m"
  by (simp add: bm_keys_def bm_map_def comp_def case_prod_beta)

lemma bm_keys_adjust [simp]: "bm_keys (bm_adjust k f m) = bm_keys m"
  by (simp add: bm_keys_def bm_adjust_def comp_def case_prod_beta)

lemma set_bm_keys: "set (bm_keys m) = dom (map_of m)"
  by (simp add: bm_keys_def dom_map_of_conv_image_fst)

lemma bm_contains_iff [bmap_simps]: "bm_contains m k \<longleftrightarrow> map_of m k \<noteq> None"
  by (auto simp add: bm_contains_def set_bm_keys)

lemma set_bm_values:
  "bm_wf m \<Longrightarrow> v \<in> set (bm_values m) \<longleftrightarrow> (\<exists>k. map_of m k = Some v)"
  using bm_wf_distinct [of m] by (force simp add: bm_values_def map_of_eq_Some_iff)

lemma bm_ext:
  assumes "bm_wf m" "bm_wf n" "\<And>k. map_of m k = map_of n k"
  shows "m = n"
proof -
  have "set m = set n"
    using assms map_of_eq_Some_iff [OF bm_wf_distinct [OF assms(1)]]
      map_of_eq_Some_iff [OF bm_wf_distinct [OF assms(2)]]
    by auto
  moreover have "sorted (map fst m)" "sorted (map fst n)"
    using assms(1,2) by (simp_all add: bm_wf_def strict_sorted_iff)
  moreover have "inj_on fst (set m \<union> set n)"
    using calculation(1) bm_wf_distinct [OF assms(1)] by (simp add: distinct_map)
  ultimately show ?thesis
    using bm_wf_distinct [OF assms(1)] bm_wf_distinct [OF assms(2)]
    by (intro map_sorted_distinct_set_unique [where f = fst]) simp_all
qed

lemma sum_list_count [simp]: "sum_list (map (\<lambda>(k, v). Suc 0) xs) = length xs"
  by (induction xs) auto

text \<open>
  What the tables of the store and the task map of a workflow rely on.  The lemmas on sums
  carry the storage accounting: replacing one row changes a total by that row only.
\<close>

locale ordered_map =
  fixes empty :: "'m"
    and get :: "'m \<Rightarrow> 'k::linorder \<Rightarrow> 'v option"
    and put :: "'k \<Rightarrow> 'v \<Rightarrow> 'm \<Rightarrow> 'm"
    and del :: "'k \<Rightarrow> 'm \<Rightarrow> 'm"
    and entries :: "'m \<Rightarrow> ('k \<times> 'v) list"
    and invar :: "'m \<Rightarrow> bool"
  assumes invar_empty: "invar empty"
    and invar_put: "invar m \<Longrightarrow> invar (put k v m)"
    and invar_del: "invar m \<Longrightarrow> invar (del k m)"
    and get_empty: "get empty k = None"
    and get_put: "invar m \<Longrightarrow> get (put k v m) = (get m)(k \<mapsto> v)"
    and get_del: "invar m \<Longrightarrow> get (del k m) = (get m)(k := None)"
    and entries_sorted: "invar m \<Longrightarrow> sorted_wrt (<) (map fst (entries m))"
    and entries_get: "invar m \<Longrightarrow> map_of (entries m) k = get m k"
begin

lemma entries_distinct: "invar m \<Longrightarrow> distinct (map fst (entries m))"
  using entries_sorted strict_sorted_iff by blast

lemma finite_dom_get: "invar m \<Longrightarrow> finite (dom (get m))"
  using entries_get [of m] finite_dom_map_of [of "entries m"] by (simp add: dom_def)

lemma sum_entries:
  assumes "invar m"
  shows "sum_list (map (\<lambda>(k, v). f k v) (entries m)) =
    (\<Sum>k \<in> dom (get m). f k (the (get m k)) :: nat)"
proof -
  have eq: "map_of (entries m) = get m"
    using entries_get [OF assms] by (rule ext)
  have "sum_list (map (\<lambda>(k, v). f k v) (entries m)) = (\<Sum>(k, v) \<in> set (entries m). f k v)"
    using entries_distinct [OF assms] by (simp add: sum_list_distinct_conv_sum_set distinct_map)
  also have "\<dots> = (\<Sum>k \<in> fst ` set (entries m). f k (the (map_of (entries m) k)))"
    using entries_distinct [OF assms]
    by (subst sum.reindex) (auto simp add: distinct_map intro!: sum.cong)
  finally show ?thesis
    by (simp add: eq flip: dom_map_of_conv_image_fst)
qed

lemma sum_put:
  assumes "invar m"
  shows "sum_list (map (\<lambda>(k, v). f k v) (entries (put k v m))) +
      (case get m k of None \<Rightarrow> 0 | Some old \<Rightarrow> f k old) =
    sum_list (map (\<lambda>(k, v). f k v) (entries m)) + (f k v :: nat)"
proof -
  let ?g = "\<lambda>j. f j (the (get m j))"
  have upd: "get (put k v m) = (get m)(k \<mapsto> v)"
    by (rule get_put [OF assms])
  have "(\<Sum>j \<in> dom (get (put k v m)). f j (the (get (put k v m) j))) =
      f k v + (\<Sum>j \<in> dom (get m) - {k}. ?g j)"
    using finite_dom_get [OF assms] by (simp add: upd sum.insert_remove)
  moreover have "(\<Sum>j \<in> dom (get m). ?g j) =
      (case get m k of None \<Rightarrow> 0 | Some old \<Rightarrow> f k old) + (\<Sum>j \<in> dom (get m) - {k}. ?g j)"
  proof (cases "get m k")
    case None
    then have "dom (get m) - {k} = dom (get m)" by auto
    with None show ?thesis by simp
  next
    case (Some old)
    then have "k \<in> dom (get m)" by auto
    from sum.remove [OF finite_dom_get [OF assms] this, of ?g] Some show ?thesis by simp
  qed
  ultimately show ?thesis
    by (simp add: sum_entries [OF assms] sum_entries [OF invar_put [OF assms]])
qed

lemma length_put_fresh:
  "invar m \<Longrightarrow> get m k = None \<Longrightarrow> length (entries (put k v m)) = Suc (length (entries m))"
  using sum_put [of m "\<lambda>_ _. 1" k v] by simp

end

interpretation btree: ordered_map "[]" map_of bm_insert bm_remove "\<lambda>m. m" bm_wf
  by unfold_locales (simp_all add: bm_wf_def [symmetric])


section \<open>Ordered sets\<close>

type_synonym 'a bset = "'a list"

fun bs_insert :: "'a::linorder \<Rightarrow> 'a bset \<Rightarrow> 'a bset" where
  "bs_insert x [] = [x]"
| "bs_insert x (y # ys) =
    (if x < y then x # y # ys else if x = y then y # ys else y # bs_insert x ys)"

definition bs_of_list :: "'a::linorder list \<Rightarrow> 'a bset" where
  "bs_of_list xs = fold bs_insert xs []"

definition bs_wf :: "'a::linorder bset \<Rightarrow> bool" where
  "bs_wf xs \<longleftrightarrow> sorted_wrt (<) xs"

lemma set_bs_insert [simp]: "set (bs_insert x ys) = insert x (set ys)"
  by (induction x ys rule: bs_insert.induct) auto

lemma bs_wf_insert [simp]: "bs_wf ys \<Longrightarrow> bs_wf (bs_insert x ys)"
  unfolding bs_wf_def by (induction x ys rule: bs_insert.induct) auto

lemma set_fold_bs_insert: "set (fold bs_insert xs ys) = set xs \<union> set ys"
  by (induction xs arbitrary: ys) auto

lemma set_bs_of_list [simp]: "set (bs_of_list xs) = set xs"
  by (simp add: bs_of_list_def set_fold_bs_insert)

lemma bs_wf_of_list [simp]: "bs_wf (bs_of_list xs)"
proof -
  have "bs_wf (fold bs_insert xs ys)" if "bs_wf ys" for ys
    using that by (induction xs arbitrary: ys) auto
  then show ?thesis by (simp add: bs_of_list_def bs_wf_def)
qed

lemma bs_wf_distinct: "bs_wf xs \<Longrightarrow> distinct xs"
  by (simp add: bs_wf_def strict_sorted_iff)

lemma length_bs_of_list_le: "length (bs_of_list xs) \<le> length xs"
  by (metis bs_wf_distinct bs_wf_of_list card_length distinct_card set_bs_of_list)

end
