(* ===== verification/Actions.thy ===== *)
theory Actions
  imports Prelude
begin

text \<open>
  Fallible operations on a mutable world, as the methods of the task runtime are: an action takes the
  world and returns an error or a value together with the world it leaves, which keeps what was
  changed before an early return.  The Hoare triples at the end have two postconditions, one for a
  value and one for an error; their rules, collected in \<^verbatim>\<open>hoare\<close>, carry the proofs about the
  runtime's handlers.
\<close>

type_synonym ('w, 'e, 'a) action = "'w \<Rightarrow> ('e + 'a) \<times> 'w"

definition act_return :: "'a \<Rightarrow> ('w, 'e, 'a) action" where
  "act_return x = (\<lambda>w. (Inr x, w))"

definition act_fail :: "'e \<Rightarrow> ('w, 'e, 'a) action" where
  "act_fail e = (\<lambda>w. (Inl e, w))"

definition act_bind :: "('w, 'e, 'a) action \<Rightarrow> ('a \<Rightarrow> ('w, 'e, 'b) action) \<Rightarrow> ('w, 'e, 'b) action" where
  "act_bind a f = (\<lambda>w. case a w of (Inl e, w') \<Rightarrow> (Inl e, w') | (Inr x, w') \<Rightarrow> f x w')"

text \<open>The \<^verbatim>\<open>?\<close> operator on a pure result.\<close>

definition act_lift :: "'e + 'a \<Rightarrow> ('w, 'e, 'a) action" where
  "act_lift r = (\<lambda>w. (r, w))"

definition act_get :: "('w \<Rightarrow> 'a) \<Rightarrow> ('w, 'e, 'a) action" where
  "act_get f = (\<lambda>w. (Inr (f w), w))"

definition act_update :: "('w \<Rightarrow> 'w) \<Rightarrow> ('w, 'e, unit) action" where
  "act_update f = (\<lambda>w. (Inr (), f w))"

definition act_ensure :: "bool \<Rightarrow> 'e \<Rightarrow> ('w, 'e, unit) action" where
  "act_ensure b e = act_lift (ensure b e)"

text \<open>A \<^verbatim>\<open>for\<close> loop whose body updates an accumulator.\<close>

primrec act_fold :: "('x \<Rightarrow> 's \<Rightarrow> ('w, 'e, 's) action) \<Rightarrow> 'x list \<Rightarrow> 's \<Rightarrow> ('w, 'e, 's) action" where
  "act_fold f [] s = act_return s"
| "act_fold f (x # xs) s = act_bind (f x s) (act_fold f xs)"

text \<open>Matching on the outcome of an action.\<close>

definition act_try :: "('w, 'e, 'a) action \<Rightarrow> ('w, 'e, 'e + 'a) action" where
  "act_try a = (\<lambda>w. case a w of (r, w') \<Rightarrow> (Inr r, w'))"

named_theorems act_simps

lemma act_run [act_simps]:
  "act_return x w = (Inr x, w)" "act_fail e w = (Inl e, w)" "act_lift r w = (r, w)"
  "act_get g w = (Inr (g w), w)" "act_update h w = (Inr (), h w)"
  by (simp_all add: act_return_def act_fail_def act_lift_def act_get_def act_update_def)

lemma act_ensure_run [act_simps]: "act_ensure b e w = (if b then (Inr (), w) else (Inl e, w))"
  by (simp add: act_ensure_def act_lift_def)

lemma act_bind_run [act_simps]:
  "act_bind a f w = (case a w of (Inl e, w') \<Rightarrow> (Inl e, w') | (Inr x, w') \<Rightarrow> f x w')"
  by (simp add: act_bind_def)

lemma act_bind_Inr:
  "act_bind a f w = (Inr y, w'') \<longleftrightarrow> (\<exists>x w'. a w = (Inr x, w') \<and> f x w' = (Inr y, w''))"
  by (auto simp add: act_bind_def split: prod.splits sum.splits)


section \<open>Triples\<close>

definition triple ::
  "('w \<Rightarrow> bool) \<Rightarrow> ('w, 'e, 'a) action \<Rightarrow> ('a \<Rightarrow> 'w \<Rightarrow> bool) \<Rightarrow> ('e \<Rightarrow> 'w \<Rightarrow> bool) \<Rightarrow> bool" where
  "triple P a Q E \<longleftrightarrow> (\<forall>w. P w \<longrightarrow> (case a w of (Inr x, w') \<Rightarrow> Q x w' | (Inl e, w') \<Rightarrow> E e w'))"

named_theorems hoare

lemma tripleI:
  assumes "\<And>w x w'. P w \<Longrightarrow> a w = (Inr x, w') \<Longrightarrow> Q x w'"
    and "\<And>w e w'. P w \<Longrightarrow> a w = (Inl e, w') \<Longrightarrow> E e w'"
  shows "triple P a Q E"
  using assms by (auto simp add: triple_def split: prod.splits sum.splits)

lemma tripleD:
  assumes "triple P a Q E" and "P w"
  shows "a w = (Inr x, w') \<Longrightarrow> Q x w'" and "a w = (Inl e, w') \<Longrightarrow> E e w'"
  using assms by (auto simp add: triple_def dest!: spec [of _ w])

lemma triple_weaken:
  assumes "triple P a Q E" and "\<And>w. P' w \<Longrightarrow> P w" and "\<And>x w. Q x w \<Longrightarrow> Q' x w" and "\<And>e w. E e w \<Longrightarrow> E' e w"
  shows "triple P' a Q' E'"
  using assms by (intro tripleI) (blast dest: tripleD)+

lemma triple_bind [hoare]:
  assumes "triple P a R E" and "\<And>x. triple (R x) (f x) Q E"
  shows "triple P (act_bind a f) Q E"
  using assms by (fastforce simp add: triple_def act_bind_def split: prod.splits sum.splits)

lemma triple_return [hoare]: "(\<And>w. P w \<Longrightarrow> Q x w) \<Longrightarrow> triple P (act_return x) Q E"
  by (simp add: triple_def act_return_def)

lemma triple_fail [hoare]: "(\<And>w. P w \<Longrightarrow> E e w) \<Longrightarrow> triple P (act_fail e) Q E"
  by (simp add: triple_def act_fail_def)

lemma triple_lift [hoare]:
  "(\<And>x w. P w \<Longrightarrow> r = Inr x \<Longrightarrow> Q x w) \<Longrightarrow> (\<And>e w. P w \<Longrightarrow> r = Inl e \<Longrightarrow> E e w) \<Longrightarrow> triple P (act_lift r) Q E"
  by (cases r) (simp_all add: triple_def act_lift_def)

lemma triple_ensure [hoare]:
  "(\<And>w. P w \<Longrightarrow> b \<Longrightarrow> Q () w) \<Longrightarrow> (\<And>w. P w \<Longrightarrow> \<not> b \<Longrightarrow> E e w) \<Longrightarrow> triple P (act_ensure b e) Q E"
  by (cases b) (simp_all add: triple_def act_ensure_def act_lift_def)

lemma triple_get [hoare]: "(\<And>w. P w \<Longrightarrow> Q (g w) w) \<Longrightarrow> triple P (act_get g) Q E"
  by (simp add: triple_def act_get_def)

lemma triple_update [hoare]: "(\<And>w. P w \<Longrightarrow> Q () (g w)) \<Longrightarrow> triple P (act_update g) Q E"
  by (simp add: triple_def act_update_def)

lemma triple_if [hoare]:
  assumes "b \<Longrightarrow> triple P a Q E" and "\<not> b \<Longrightarrow> triple P c Q E"
  shows "triple P (if b then a else c) Q E"
  using assms by simp

lemma triple_try [hoare]:
  assumes "triple P a (\<lambda>x. Q (Inr x)) (\<lambda>e. Q (Inl e))"
  shows "triple P (act_try a) Q E"
proof (rule tripleI)
  fix w x w' assume p: "P w" and "act_try a w = (Inr x, w')"
  then have "a w = (x, w')" by (auto simp add: act_try_def split: prod.splits)
  then show "Q x w'" using tripleD [OF assms p] by (cases x) auto
qed (auto simp add: act_try_def split: prod.splits)

lemma triple_fold:
  assumes "\<And>x s. x \<in> set xs \<Longrightarrow> triple (I s) (f x s) I E"
  shows "triple (I s) (act_fold f xs s) I E"
  using assms by (induction xs arbitrary: s) (auto intro!: triple_return triple_bind)

lemma triple_pure:
  assumes "\<And>w. P w \<Longrightarrow> b" and "b \<Longrightarrow> triple P a Q E"
  shows "triple P a Q E"
  using assms by (auto simp add: triple_def)

end
