(* ===== verification/Text.thy ===== *)
theory Text
  imports Prelude "HOL-Library.Sublist"
begin

text \<open>
  Text and lexical helpers: \<^verbatim>\<open>crates/contracts/src/text.rs\<close>, the blank-text test
  \<^verbatim>\<open>trim().is_empty()\<close> of the validators, the decimal rendering of
  \<^verbatim>\<open>format!\<close>, and the identity rules of the blueprint, capability and authority crates.
  A Rust string is the list of its UTF-8 bytes, one \<^typ>\<open>char\<close> per byte, so
  \<^verbatim>\<open>len()\<close> is \<^const>\<open>length\<close> and the derived order is the lexicographic one.
\<close>

section \<open>Bytes\<close>

definition byte :: "char \<Rightarrow> nat" where
  "byte c = of_char c"

definition is_ascii_digit :: "char \<Rightarrow> bool" where
  "is_ascii_digit c \<longleftrightarrow> 48 \<le> byte c \<and> byte c \<le> 57"

definition is_ascii_uppercase :: "char \<Rightarrow> bool" where
  "is_ascii_uppercase c \<longleftrightarrow> 65 \<le> byte c \<and> byte c \<le> 90"

definition is_ascii_alphabetic :: "char \<Rightarrow> bool" where
  "is_ascii_alphabetic c \<longleftrightarrow>
    65 \<le> byte c \<and> byte c \<le> 90 \<or> 97 \<le> byte c \<and> byte c \<le> 122"

definition is_ascii_alphanumeric :: "char \<Rightarrow> bool" where
  "is_ascii_alphanumeric c \<longleftrightarrow> is_ascii_alphabetic c \<or> is_ascii_digit c"

definition is_ascii_control :: "char \<Rightarrow> bool" where
  "is_ascii_control c \<longleftrightarrow> byte c < 32 \<or> byte c = 127"

definition is_ascii :: "string \<Rightarrow> bool" where
  "is_ascii s \<longleftrightarrow> list_all (\<lambda>c. byte c < 128) s"

definition is_char_boundary_byte :: "char \<Rightarrow> bool" where
  "is_char_boundary_byte c \<longleftrightarrow> byte c < 128 \<or> 192 \<le> byte c"

lemma byte_bound: "byte c < 256"
  by (simp add: byte_def)

lemma byte_char_of [simp]: "byte (char_of n) = n mod 256"
  by (simp add: byte_def)


section \<open>UTF-8 and truncation\<close>

text \<open>The invariant of \<^verbatim>\<open>str\<close>: well-formed UTF-8, by the lead-byte table.\<close>

definition continuation :: "char \<Rightarrow> bool" where
  "continuation c \<longleftrightarrow> 128 \<le> byte c \<and> byte c < 192"

definition second_byte_ok :: "char \<Rightarrow> char \<Rightarrow> bool" where
  "second_byte_ok a b \<longleftrightarrow> continuation b
    \<and> (byte a = 224 \<longrightarrow> 160 \<le> byte b) \<and> (byte a = 237 \<longrightarrow> byte b < 160)
    \<and> (byte a = 240 \<longrightarrow> 144 \<le> byte b) \<and> (byte a = 244 \<longrightarrow> byte b < 144)"

definition utf8_width :: "char \<Rightarrow> nat" where
  "utf8_width c =
    (if byte c < 128 then 1 else if byte c < 194 then 0 else if byte c < 224 then 2
     else if byte c < 240 then 3 else if byte c < 245 then 4 else 0)"

definition utf8_scalar :: "string \<Rightarrow> bool" where
  "utf8_scalar s \<longleftrightarrow> (case s of [] \<Rightarrow> False
    | a # rest \<Rightarrow> length s = utf8_width a \<and> list_all continuation rest
        \<and> (case rest of [] \<Rightarrow> True | b # _ \<Rightarrow> second_byte_ok a b))"

function utf8_valid :: "string \<Rightarrow> bool" where
  "utf8_valid [] = True"
| "utf8_valid (a # s) =
    (utf8_width a \<noteq> 0 \<and> utf8_scalar (take (utf8_width a) (a # s))
      \<and> utf8_valid (drop (utf8_width a - 1) s))"
  by pat_completeness auto
termination by (relation "measure length") auto

function floor_char_boundary :: "string \<Rightarrow> nat \<Rightarrow> nat" where
  "floor_char_boundary s n =
    (if length s \<le> n then length s
     else if n = 0 \<or> is_char_boundary_byte (s ! n) then n
     else floor_char_boundary s (n - 1))"
  by pat_completeness auto
termination by (relation "measure snd") auto

declare floor_char_boundary.simps [simp del]

definition truncate_utf8 :: "string \<Rightarrow> nat \<Rightarrow> string" where
  "truncate_utf8 value maximum_bytes = take (floor_char_boundary value maximum_bytes) value"

definition is_canonical_blake3_digest :: "string \<Rightarrow> bool" where
  "is_canonical_blake3_digest value \<longleftrightarrow>
    take 3 value = ''b3_'' \<and> length (drop 3 value) = 64
    \<and> list_all (\<lambda>c. is_ascii_digit c \<or> 97 \<le> byte c \<and> byte c \<le> 102) (drop 3 value)"


section \<open>Blank text\<close>

text \<open>
  \<^verbatim>\<open>value.trim().is_empty()\<close> holds iff every scalar of the text is Unicode white space;
  on the bytes, the encodings of the \<^verbatim>\<open>White_Space\<close> scalars are recognised one by one.
\<close>

function is_blank :: "string \<Rightarrow> bool" where
  "is_blank [] = True"
| "is_blank (a # s) =
    (if 9 \<le> byte a \<and> byte a \<le> 13 \<or> byte a = 32 then is_blank s
     else case s of [] \<Rightarrow> False
     | b # s' \<Rightarrow>
       if byte a = 194 \<and> (byte b = 133 \<or> byte b = 160) then is_blank s'
       else (case s' of [] \<Rightarrow> False
       | c # s'' \<Rightarrow>
         (byte a = 225 \<and> byte b = 154 \<and> byte c = 128
           \<or> byte a = 226 \<and> byte b = 128
              \<and> (128 \<le> byte c \<and> byte c \<le> 138 \<or> byte c = 168 \<or> byte c = 169 \<or> byte c = 175)
           \<or> byte a = 226 \<and> byte b = 129 \<and> byte c = 159
           \<or> byte a = 227 \<and> byte b = 128 \<and> byte c = 128)
         \<and> is_blank s''))"
  by pat_completeness auto
termination by (relation "measure length") auto


section \<open>Decimal rendering\<close>

fun dec :: "nat \<Rightarrow> string" where
  "dec n = (if n < 10 then [char_of (48 + n)] else dec (n div 10) @ [char_of (48 + n mod 10)])"

declare dec.simps [simp del]

definition undec :: "string \<Rightarrow> nat" where
  "undec s = foldl (\<lambda>n c. 10 * n + (byte c - 48)) 0 s"


section \<open>Truncation keeps whole scalars\<close>

lemma utf8_width_bound: "utf8_width c \<le> 4"
  by (simp add: utf8_width_def)

lemma utf8_scalar_length:
  "utf8_scalar (a # x) \<Longrightarrow> Suc (length x) = utf8_width a"
  by (simp add: utf8_scalar_def)

lemma utf8_valid_scalar_append:
  assumes "utf8_scalar x"
  shows "utf8_valid (x @ y) \<longleftrightarrow> utf8_valid y"
proof (cases x)
  case Nil
  with assms show ?thesis by (simp add: utf8_scalar_def)
next
  case (Cons a r)
  with assms have "Suc (length r) = utf8_width a"
    using utf8_scalar_length by blast
  then have "utf8_width a - 1 = length r" "utf8_width a = length (a # r)" by simp_all
  with assms Cons show ?thesis by simp
qed

lemma utf8_valid_cases:
  assumes "utf8_valid s" "s \<noteq> []"
  obtains x y where "s = x @ y" "utf8_scalar x" "utf8_valid y"
proof (cases s)
  case (Cons a r)
  let ?w = "utf8_width a"
  from assms Cons have v: "?w \<noteq> 0" "utf8_scalar (take ?w (a # r))" "utf8_valid (drop (?w - 1) r)"
    by simp_all
  moreover have "a # r = take ?w (a # r) @ drop (?w - 1) r"
    using v(1) by (cases ?w) simp_all
  ultimately show thesis using that Cons by metis
qed (use assms in simp)

lemma utf8_scalar_boundary:
  assumes "utf8_scalar x" "i < length x"
  shows "is_char_boundary_byte (x ! i) \<longleftrightarrow> i = 0"
proof (cases x)
  case Nil
  with assms show ?thesis by simp
next
  case (Cons a r)
  show ?thesis
  proof (cases i)
    case 0
    with assms Cons have "utf8_width a \<noteq> 0" by (auto simp add: utf8_scalar_def)
    with 0 Cons show ?thesis
      by (auto simp add: utf8_width_def is_char_boundary_byte_def split: if_splits)
  next
    case (Suc j)
    with assms Cons have "continuation (r ! j)"
      by (auto simp add: utf8_scalar_def list_all_length)
    with Suc Cons show ?thesis
      by (simp add: continuation_def is_char_boundary_byte_def)
  qed
qed

lemma utf8_scalar_take:
  assumes "utf8_scalar x" "0 < i" "i < length x"
  shows "\<not> utf8_valid (take i x)"
proof (cases x)
  case Nil
  with assms show ?thesis by simp
next
  case (Cons a r)
  then obtain j where j: "i = Suc j" using assms(2) by (cases i) auto
  have w: "utf8_width a = Suc (length r)"
    using utf8_scalar_length assms(1) Cons by simp
  show ?thesis
  proof
    assume "utf8_valid (take i x)"
    then have "utf8_scalar (take (utf8_width a) (a # take j r))"
      by (simp add: Cons j)
    then have "length (take (utf8_width a) (a # take j r)) = utf8_width a"
      by (simp add: w utf8_scalar_def)
    with assms(3) show False by (simp add: Cons j w)
  qed
qed

lemma utf8_valid_take_iff:
  "utf8_valid s \<Longrightarrow> i \<le> length s \<Longrightarrow>
    utf8_valid (take i s) \<longleftrightarrow> i = length s \<or> is_char_boundary_byte (s ! i)"
proof (induction "length s" arbitrary: s i rule: less_induct)
  case less
  show ?case
  proof (cases "s = []")
    case True
    with less.prems show ?thesis by simp
  next
    case False
    with less.prems(1) obtain x y where s: "s = x @ y" "utf8_scalar x" "utf8_valid y"
      by (rule utf8_valid_cases)
    have x: "x \<noteq> []" using s(2) by (auto simp add: utf8_scalar_def)
    show ?thesis
    proof (cases "i < length x")
      case True
      then have "utf8_valid (take i s) \<longleftrightarrow> i = 0"
        using utf8_scalar_take [OF s(2), of i] s(1) by (cases i) auto
      with True show ?thesis
        using utf8_scalar_boundary [OF s(2) True] s(1) by (simp add: nth_append)
    next
      case False
      then have "utf8_valid (take i s) \<longleftrightarrow> utf8_valid (take (i - length x) y)"
        using utf8_valid_scalar_append [OF s(2)] s(1) by simp
      also have "\<dots> \<longleftrightarrow> i - length x = length y \<or> is_char_boundary_byte (y ! (i - length x))"
        using less.prems(2) False s x by (intro less.hyps) simp_all
      finally show ?thesis
        using False less.prems(2) s(1) by (auto simp add: nth_append)
    qed
  qed
qed

lemma utf8_valid_boundary_0: "utf8_valid s \<Longrightarrow> s \<noteq> [] \<Longrightarrow> is_char_boundary_byte (s ! 0)"
  using utf8_valid_take_iff [of s 0] by simp

lemma floor_char_boundary_le: "floor_char_boundary s n \<le> n \<and> floor_char_boundary s n \<le> length s"
proof (induction s n rule: floor_char_boundary.induct)
  case (1 s n)
  then show ?case by (subst floor_char_boundary.simps, subst (2) floor_char_boundary.simps) auto
qed

lemma floor_char_boundary_greatest:
  assumes "i \<le> n" "i \<le> length s" "i = length s \<or> is_char_boundary_byte (s ! i)"
  shows "i \<le> floor_char_boundary s n"
  using assms
proof (induction s n rule: floor_char_boundary.induct)
  case (1 s n)
  show ?case
  proof (cases "length s \<le> n \<or> n = 0 \<or> is_char_boundary_byte (s ! n)")
    case True
    with 1 show ?thesis by (subst floor_char_boundary.simps) auto
  next
    case False
    with 1 have "i \<le> floor_char_boundary s (n - 1)" by (cases "i = n") auto
    with False show ?thesis by (subst floor_char_boundary.simps) simp
  qed
qed

lemma floor_char_boundary_boundary:
  "utf8_valid s \<Longrightarrow> floor_char_boundary s n = length s
    \<or> is_char_boundary_byte (s ! floor_char_boundary s n)"
proof (induction s n rule: floor_char_boundary.induct)
  case (1 s n)
  show ?case
  proof (cases "length s \<le> n \<or> n = 0 \<or> is_char_boundary_byte (s ! n)")
    case True
    with 1 show ?thesis
      using utf8_valid_boundary_0 by (subst (1 2) floor_char_boundary.simps) auto
  next
    case False
    with 1 show ?thesis by (subst (1 2) floor_char_boundary.simps) simp
  qed
qed

lemma truncate_utf8_length: "length (truncate_utf8 s n) \<le> n"
  using floor_char_boundary_le [of s n] by (simp add: truncate_utf8_def)

lemma truncate_utf8_prefix: "prefix (truncate_utf8 s n) s"
  by (simp add: truncate_utf8_def take_is_prefix)

lemma truncate_utf8_whole: "length s \<le> n \<Longrightarrow> truncate_utf8 s n = s"
  by (simp add: truncate_utf8_def floor_char_boundary.simps)

lemma truncate_utf8_valid: "utf8_valid s \<Longrightarrow> utf8_valid (truncate_utf8 s n)"
  using floor_char_boundary_boundary [of s n] floor_char_boundary_le [of s n]
  by (simp add: truncate_utf8_def utf8_valid_take_iff)

lemma truncate_utf8_longest:
  assumes "utf8_valid s" "prefix p s" "utf8_valid p" "length p \<le> n"
  shows "prefix p (truncate_utf8 s n)"
proof -
  from assms(2) have p: "p = take (length p) s" "length p \<le> length s"
    by (auto simp add: prefix_def)
  with assms(1,3) have "length p = length s \<or> is_char_boundary_byte (s ! length p)"
    using utf8_valid_take_iff [of s "length p"] by simp
  with p(2) assms(4) have "length p \<le> floor_char_boundary s n"
    by (intro floor_char_boundary_greatest)
  with p(1) show ?thesis
    by (metis truncate_utf8_def take_is_prefix min.absorb1 take_take)
qed

text \<open>
  Truncating text to a byte limit keeps well-formed UTF-8, respects the limit, and returns
  the longest well-formed prefix that does.
\<close>

theorem truncate_utf8_correct:
  assumes "utf8_valid s"
  shows "utf8_valid (truncate_utf8 s n) \<and> prefix (truncate_utf8 s n) s
    \<and> length (truncate_utf8 s n) \<le> n
    \<and> (\<forall>p. prefix p s \<and> utf8_valid p \<and> length p \<le> n \<longrightarrow> prefix p (truncate_utf8 s n))"
  using truncate_utf8_longest [OF assms]
  by (simp add: assms truncate_utf8_valid truncate_utf8_length truncate_utf8_prefix)

theorem truncate_utf8_correct_witness:
  "utf8_valid (truncate_utf8 (map char_of [195, 169, 99::nat]) 1) \<and>
    truncate_utf8 (map char_of [195, 169, 99::nat]) 1 = []"
proof -
  have "utf8_valid (map char_of [195, 169, 99::nat])" by code_simp
  then have "utf8_valid (truncate_utf8 (map char_of [195, 169, 99::nat]) 1)"
    using truncate_utf8_correct [of "map char_of [195, 169, 99::nat]" 1] by blast
  moreover have "truncate_utf8 (map char_of [195, 169, 99::nat]) 1 = []" by code_simp
  ultimately show ?thesis by blast
qed


section \<open>Decimal numerals\<close>

lemma undec_snoc [simp]: "undec (s @ [c]) = 10 * undec s + (byte c - 48)"
  by (simp add: undec_def)

lemma undec_dec: "undec (dec n) = n"
proof (induction n rule: dec.induct)
  case (1 n)
  show ?case
  proof (cases "n < 10")
    case True
    then show ?thesis by (subst dec.simps) (simp add: undec_def)
  next
    case False
    then have "undec (dec n) = 10 * undec (dec (n div 10)) + n mod 10"
      by (subst dec.simps) simp
    with 1 False show ?thesis by simp
  qed
qed

lemma dec_inject [simp]: "dec m = dec n \<longleftrightarrow> m = n"
  using undec_dec by metis

lemma dec_digits: "c \<in> set (dec n) \<Longrightarrow> is_ascii_digit c"
proof (induction n rule: dec.induct)
  case (1 n)
  show ?case
  proof (cases "n < 10")
    case True
    with 1 show ?thesis by (subst (asm) dec.simps) (auto simp add: is_ascii_digit_def)
  next
    case False
    with 1 show ?thesis by (subst (asm) (2) dec.simps) (auto simp add: is_ascii_digit_def)
  qed
qed

end
