(* ===== verification/Json.thy ===== *)
theory Json
  imports Text
begin

text \<open>
  The JSON helpers of \<^verbatim>\<open>crates/contracts/src/lib.rs\<close>: structural limits of a parsed
  value and recursive key ordering.  A \<^verbatim>\<open>serde_json::Value\<close> is \<^verbatim>\<open>json\<close>; a number keeps its literal text.
  Encoding to bytes belongs to \<^verbatim>\<open>serde_json\<close> and is a parameter wherever it is used.
\<close>

datatype json =
    JNull
  | JBool bool
  | JNumber string
  | JString string
  | JArray "json list"
  | JObject "(string \<times> json) list"

type_synonym json_error = string
type_synonym 'a encoder = "'a \<Rightarrow> json_error + string"

record json_limits =
  maximum_depth :: nat
  maximum_string_bytes :: nat
  maximum_key_bytes :: nat
  maximum_container_items :: nat

datatype json_bound_kind = DepthBound | StringBound | KeyBound | ArrayBound | ObjectBound

record json_bound_violation =
  jv_path :: string
  jv_kind :: json_bound_kind
  jv_maximum :: nat

definition violation :: "string \<Rightarrow> json_bound_kind \<Rightarrow> nat \<Rightarrow> json_bound_violation" where
  "violation path kind maximum = \<lparr>jv_path = path, jv_kind = kind, jv_maximum = maximum\<rparr>"


section \<open>Structural limits of a parsed value\<close>

lemma size_snd_member [simp]: "size (snd p) < Suc (size_prod (\<lambda>_. 0) size p)"
  by (cases p) simp

text \<open>\<^verbatim>\<open>usize\<close> is 64 bits wide; \<^verbatim>\<open>depth.checked_add(1)\<close> fails at its maximum.\<close>

function validate_value :: "json_limits \<Rightarrow> string \<Rightarrow> nat \<Rightarrow> json \<Rightarrow> json_bound_violation + unit"
  and validate_items :: "json_limits \<Rightarrow> string \<Rightarrow> nat \<Rightarrow> nat \<Rightarrow> json list \<Rightarrow> json_bound_violation + unit"
  and validate_members ::
    "json_limits \<Rightarrow> string \<Rightarrow> nat \<Rightarrow> (string \<times> json) list \<Rightarrow> json_bound_violation + unit" where
  "validate_value limits path depth v =
    (if maximum_depth limits < depth
     then Inl (violation path DepthBound (maximum_depth limits))
     else case v of
       JString text \<Rightarrow> ensure (length text \<le> maximum_string_bytes limits)
         (violation path StringBound (maximum_string_bytes limits))
     | JArray values \<Rightarrow>
         if maximum_container_items limits < length values
         then Inl (violation path ArrayBound (maximum_container_items limits))
         else validate_items limits path depth 0 values
     | JObject members \<Rightarrow>
         if maximum_container_items limits < length members
         then Inl (violation path ObjectBound (maximum_container_items limits))
         else validate_members limits path depth members
     | _ \<Rightarrow> Inr ())"
| "validate_items limits path depth index [] = Inr ()"
| "validate_items limits path depth index (child # rest) =
    (let child_path = path @ ''['' @ dec index @ '']'' in
     if Suc depth < 2 ^ 64
     then res_bind (validate_value limits child_path (Suc depth) child)
            (\<lambda>_. validate_items limits path depth (Suc index) rest)
     else Inl (violation child_path DepthBound (maximum_depth limits)))"
| "validate_members limits path depth [] = Inr ()"
| "validate_members limits path depth (member # rest) =
    (let child_path = path @ ''.'' @ fst member in
     if maximum_key_bytes limits < length (fst member)
     then Inl (violation path KeyBound (maximum_key_bytes limits))
     else if Suc depth < 2 ^ 64
     then res_bind (validate_value limits child_path (Suc depth) (snd member))
            (\<lambda>_. validate_members limits path depth rest)
     else Inl (violation child_path DepthBound (maximum_depth limits)))"
  by pat_completeness auto

termination
  by (relation "measure (\<lambda>x. case x of
      Inl (_, _, _, v) \<Rightarrow> 2 * size v
    | Inr (Inl (_, _, _, _, vs)) \<Rightarrow> Suc (2 * size_list size vs)
    | Inr (Inr (_, _, _, ms)) \<Rightarrow> Suc (2 * size_list (size_prod (\<lambda>_. 0) size) ms))")
    (auto simp add: less_Suc_eq_le)

definition validate_json_value :: "json \<Rightarrow> json_limits \<Rightarrow> json_bound_violation + unit" where
  "validate_json_value v limits = validate_value limits ''$'' 0 v"


section \<open>Canonical key order\<close>

lemma size_member_less: "p \<in> set ms \<Longrightarrow> size (snd p) < Suc (size_list (size_prod (\<lambda>_. 0) size) ms)"
  by (induction ms) (auto simp add: less_Suc_eq_le intro: order_trans le_add1)

function sort_value :: "json \<Rightarrow> json" where
  "sort_value (JObject members) =
    JObject (sort_key fst (map (\<lambda>p. (fst p, sort_value (snd p))) members))"
| "sort_value (JArray values) = JArray (map sort_value values)"
| "sort_value JNull = JNull"
| "sort_value (JBool b) = JBool b"
| "sort_value (JNumber n) = JNumber n"
| "sort_value (JString s) = JString s"
  by pat_completeness auto

termination
  by (relation "measure size") (auto simp add: size_member_less less_Suc_eq_le size_list_estimation')

datatype canonical_json_error = CanonicalJson json_error | CanonicalBounds json_bound_violation

definition canonical_json_bytes ::
  "json encoder \<Rightarrow> ('a \<Rightarrow> json_error + json) \<Rightarrow> 'a \<Rightarrow> json_limits \<Rightarrow> canonical_json_error + string" where
  "canonical_json_bytes to_vec to_value x limits =
    res_bind (map_err CanonicalJson (to_value x)) (\<lambda>v.
    res_bind (map_err CanonicalBounds (validate_json_value v limits)) (\<lambda>_.
    map_err CanonicalJson (to_vec (sort_value v))))"

end
