(* ===== verification/Capability.thy ===== *)
theory Capability
  imports Json
begin

text \<open>
  Contracts of \<^verbatim>\<open>crates/capability/src\<close>: identities (\<^verbatim>\<open>identity.rs\<close>), bounded
  extensions (\<^verbatim>\<open>bounded.rs\<close>), placement (\<^verbatim>\<open>placement.rs\<close>), descriptors and
  requirements (\<^verbatim>\<open>descriptor.rs\<close>), resolved snapshots (\<^verbatim>\<open>resolved.rs\<close>),
  admission envelopes (\<^verbatim>\<open>admission.rs\<close>), and invocation requests, events and terminal
  outcomes (\<^verbatim>\<open>invocation.rs\<close>).  A validated constructor returns its value or the
  source's \<^verbatim>\<open>ContractError\<close>.  The byte encoding of extensions and of a snapshot's digest
  payload belong to \<^verbatim>\<open>serde_json\<close> and \<^verbatim>\<open>blake3\<close> and are arguments.
\<close>

datatype contract_error =
    InvalidIdentity string string
  | Bounds string string
  | UnsupportedVersion string u32 u32
  | InvalidJson json_error
  | InvalidContract string


section \<open>Identities\<close>

datatype id_rule = Simple | Namespaced | Extension

definition split_once :: "char \<Rightarrow> string \<Rightarrow> (string \<times> string) option" where
  "split_once c s = (case dropWhile (\<lambda>x. x \<noteq> c) s of [] \<Rightarrow> None
    | _ # rest \<Rightarrow> Some (takeWhile (\<lambda>x. x \<noteq> c) s, rest))"

definition starts_with_char :: "char \<Rightarrow> string \<Rightarrow> bool" where
  "starts_with_char c s \<longleftrightarrow> (case s of [] \<Rightarrow> False | x # _ \<Rightarrow> x = c)"

definition namespace_ok :: "id_rule \<Rightarrow> string \<Rightarrow> bool" where
  "namespace_ok rule s = (case rule of
      Simple \<Rightarrow> True
    | Namespaced \<Rightarrow> (case split_once (CHR ''.'') s of None \<Rightarrow> False
        | Some (namespace, name) \<Rightarrow>
            namespace \<noteq> [] \<and> name \<noteq> [] \<and> \<not> starts_with_char (CHR ''.'') name)
    | Extension \<Rightarrow> (case split_once (CHR ''/'') s of None \<Rightarrow> False
        | Some (namespace, name) \<Rightarrow>
            CHR ''.'' \<in> set namespace \<and> \<not> starts_with_char (CHR ''.'') namespace
            \<and> \<not> starts_with_char (CHR ''.'') (rev namespace) \<and> name \<noteq> []))"

definition id_char :: "char \<Rightarrow> bool" where
  "id_char c \<longleftrightarrow> is_ascii_alphanumeric c \<or> c \<in> set ''-_.:/''"

definition first_alphanumeric :: "string \<Rightarrow> bool" where
  "first_alphanumeric s \<longleftrightarrow> (case s of [] \<Rightarrow> False | c # _ \<Rightarrow> is_ascii_alphanumeric c)"

definition validate_id :: "string \<Rightarrow> string \<Rightarrow> nat \<Rightarrow> id_rule \<Rightarrow> contract_error + unit" where
  "validate_id s type_name max_bytes rule =
    (if s = [] \<or> max_bytes < length s
     then Inl (InvalidIdentity type_name
       (''length must be between 1 and '' @ dec max_bytes @ '' bytes''))
     else if \<not> is_ascii s
     then Inl (InvalidIdentity type_name ''must contain ASCII characters only'')
     else if \<not> list_all id_char s \<or> \<not> first_alphanumeric s
     then Inl (InvalidIdentity type_name (''must start with an alphanumeric character and use only''
       @ '' alphanumerics, '' @ [CHR 0x27] @ ''-'' @ [CHR 0x27] @ '', '' @ [CHR 0x27] @ ''_'' @ [CHR 0x27]
       @ '', '' @ [CHR 0x27] @ ''.'' @ [CHR 0x27] @ '', '' @ [CHR 0x27] @ '':'' @ [CHR 0x27]
       @ '', or '' @ [CHR 0x27] @ ''/'' @ [CHR 0x27]))
     else if \<not> namespace_ok rule s
     then Inl (InvalidIdentity type_name (case rule of
         Simple \<Rightarrow> ''invalid identity''
       | Namespaced \<Rightarrow> ''must be namespaced as '' @ [CHR 0x27] @ ''namespace.name'' @ [CHR 0x27]
       | Extension \<Rightarrow> ''must use a DNS-like namespace followed by '' @ [CHR 0x27] @ ''/'' @ [CHR 0x27]
           @ '', for example '' @ [CHR 0x27] @ ''org.example/key'' @ [CHR 0x27]))
     else Inr ())"

type_synonym capability_id = string
type_synonym operation_id = string
type_synonym feature_id = string
type_synonym provider_profile_ref = string
type_synonym invocation_id = string
type_synonym idempotency_key = string
type_synonym schema_id = string
type_synonym extension_key = string
type_synonym trust_zone = string
type_synonym peer_id = string


section \<open>Bounded extensions\<close>

type_synonym extensions = "(extension_key, json) bmap"

definition "MAX_EXTENSION_ENTRIES = (64 :: nat)"
definition "MAX_EXTENSION_BYTES = (65536 :: nat)"

definition DOCUMENT_JSON_LIMITS :: json_limits where
  "DOCUMENT_JSON_LIMITS = \<lparr>maximum_depth = 48, maximum_string_bytes = 32768,
    maximum_key_bytes = 192, maximum_container_items = 4096\<rparr>"

definition contract_bound :: "json_bound_violation \<Rightarrow> contract_error" where
  "contract_bound v = Bounds (jv_path v) (case jv_kind v of
      DepthBound \<Rightarrow> ''nesting exceeds depth '' @ dec (jv_maximum v)
    | StringBound \<Rightarrow> ''string exceeds '' @ dec (jv_maximum v) @ '' bytes''
    | KeyBound \<Rightarrow> ''object key exceeds '' @ dec (jv_maximum v) @ '' bytes''
    | ArrayBound \<Rightarrow> ''array exceeds '' @ dec (jv_maximum v) @ '' items''
    | ObjectBound \<Rightarrow> ''object exceeds '' @ dec (jv_maximum v) @ '' entries'')"

definition bounded_json_new :: "json encoder \<Rightarrow> json \<Rightarrow> contract_error + json" where
  "bounded_json_new to_vec v =
    res_bind (map_err contract_bound (validate_json_value v DOCUMENT_JSON_LIMITS)) (\<lambda>_.
    res_bind (map_err InvalidJson (to_vec v)) (\<lambda>bytes.
    if MAX_EXTENSION_BYTES < length bytes
    then Inl (Bounds ''$'' (''value exceeds '' @ dec MAX_EXTENSION_BYTES @ '' serialized bytes''))
    else Inr v))"

definition validate_extensions :: "extensions encoder \<Rightarrow> extensions \<Rightarrow> contract_error + unit" where
  "validate_extensions to_vec exts =
    (if MAX_EXTENSION_ENTRIES < length exts
     then Inl (Bounds ''extensions'' (''at most '' @ dec MAX_EXTENSION_ENTRIES @ '' entries are allowed''))
     else res_bind (map_err InvalidJson (to_vec exts)) (\<lambda>bytes.
       ensure (length bytes \<le> MAX_EXTENSION_BYTES)
         (Bounds ''extensions'' (''extensions exceed '' @ dec MAX_EXTENSION_BYTES @ '' serialized bytes''))))"


section \<open>Closed vocabularies\<close>

datatype capability_category = Model | Tool | Process | Human | Peer | Custom feature_id
datatype streaming_mode = StreamNone | Progress | OutputFragments
datatype cancellation_behavior = CancelUnsupported | BestEffort | Acknowledged
datatype idempotency_behavior = IdemUnsupported | CapabilityScoped | ProviderProfileScoped
datatype side_effect_class = NoEffect | ReadOnly | IdempotentWrite | NonIdempotentWrite | UnknownEffect
datatype locality = LocalHost | PeerHost | RemoteHost | UnspecifiedHost
datatype execution_trust_class = TrustUnspecified | TrustedHostProcess | SandboxedProcess

text \<open>The derived \<^verbatim>\<open>Ord\<close> of the side-effect classes is their declaration order.\<close>

primrec side_effect_rank :: "side_effect_class \<Rightarrow> nat" where
  "side_effect_rank NoEffect = 0"
| "side_effect_rank ReadOnly = 1"
| "side_effect_rank IdempotentWrite = 2"
| "side_effect_rank NonIdempotentWrite = 3"
| "side_effect_rank UnknownEffect = 4"

instantiation side_effect_class :: linorder
begin

definition less_eq_side_effect_class :: "side_effect_class \<Rightarrow> side_effect_class \<Rightarrow> bool" where
  "a \<le> b \<longleftrightarrow> side_effect_rank a \<le> side_effect_rank b"

definition less_side_effect_class :: "side_effect_class \<Rightarrow> side_effect_class \<Rightarrow> bool" where
  "a < b \<longleftrightarrow> side_effect_rank a < side_effect_rank b"

instance
proof
  show "x \<le> y \<Longrightarrow> y \<le> x \<Longrightarrow> x = y" for x y :: side_effect_class
    by (cases x; cases y; simp add: less_eq_side_effect_class_def)
qed (auto simp add: less_eq_side_effect_class_def less_side_effect_class_def)

end


section \<open>Placement\<close>

record placement_requirement =
  pl_localities :: "locality bset option"
  pl_peers :: "peer_id bset option"

definition opt_all :: "('a \<Rightarrow> bool) \<Rightarrow> 'a option \<Rightarrow> bool" where
  "opt_all P m = (case m of None \<Rightarrow> True | Some x \<Rightarrow> P x)"

definition opt_any :: "('a \<Rightarrow> bool) \<Rightarrow> 'a option \<Rightarrow> bool" where
  "opt_any P m = (case m of None \<Rightarrow> False | Some x \<Rightarrow> P x)"

lemma opt_all_simps [simp]: "opt_all P None" "opt_all P (Some x) \<longleftrightarrow> P x"
  by (simp_all add: opt_all_def)

lemma opt_any_simps [simp]: "\<not> opt_any P None" "opt_any P (Some x) \<longleftrightarrow> P x"
  by (simp_all add: opt_any_def)

definition placement_new ::
  "locality bset option \<Rightarrow> peer_id bset option \<Rightarrow> contract_error + placement_requirement" where
  "placement_new localities peers =
    (if opt_any (\<lambda>ps. 128 < length ps) peers
     then Inl (InvalidContract ''placement permits at most 128 exact peers'')
     else if opt_any (\<lambda>ps. ps \<noteq> []) peers \<and> opt_any (\<lambda>ls. PeerHost \<notin> set ls) localities
     then Inl (InvalidContract ''required peers contradict the permitted localities'')
     else Inr \<lparr>pl_localities = localities, pl_peers = peers\<rparr>)"

definition denies_all :: "placement_requirement \<Rightarrow> bool" where
  "denies_all r \<longleftrightarrow> opt_any (\<lambda>ls. ls = []) (pl_localities r) \<or> opt_any (\<lambda>ps. ps = []) (pl_peers r)"

definition placement_matches :: "placement_requirement \<Rightarrow> locality \<Rightarrow> peer_id option \<Rightarrow> bool" where
  "placement_matches r loc peer \<longleftrightarrow>
    opt_all (\<lambda>ls. loc \<in> set ls) (pl_localities r)
    \<and> opt_all (\<lambda>ps. loc = PeerHost \<and> opt_any (\<lambda>p. p \<in> set ps) peer) (pl_peers r)"


section \<open>Descriptors\<close>

record schema_contract =
  sch_id :: schema_id
  sch_version :: u32
  sch_schema :: json

record feature_contract =
  ft_identity :: feature_id
  ft_settings_schema :: "schema_contract option"

record operation_contract =
  oc_input :: schema_contract
  oc_output :: schema_contract
  oc_streaming :: "streaming_mode bset"
  oc_cancellation :: cancellation_behavior
  oc_idempotency :: idempotency_behavior
  oc_side_effect :: side_effect_class
  oc_features :: "(feature_id, feature_contract) bmap"

record admission_constraints =
  max_concurrent :: u32
  max_queued :: u32

record resource_observations =
  estimated_cost_micros :: "u64 option"
  estimated_duration_ms :: "u64 option"
  ro_currency :: "string option"

record capability_descriptor =
  cd_identity :: capability_id
  cd_revision :: u64
  cd_provider_profile :: "provider_profile_ref option"
  cd_category :: capability_category
  cd_operations :: "(operation_id, operation_contract) bmap"
  cd_admission :: admission_constraints
  cd_locality :: locality
  cd_peer :: "peer_id option"
  cd_trust_zones :: "trust_zone bset"
  cd_execution_trust :: execution_trust_class
  cd_resources :: "resource_observations option"
  cd_labels :: "string bset"
  cd_extensions :: extensions

definition schema_validate :: "schema_contract \<Rightarrow> contract_error + unit" where
  "schema_validate s = ensure (sch_version s \<noteq> 0) (InvalidContract ''schema version must be nonzero'')"

definition feature_validate :: "feature_contract \<Rightarrow> contract_error + unit" where
  "feature_validate f = (case ft_settings_schema f of None \<Rightarrow> Inr () | Some s \<Rightarrow> schema_validate s)"

definition validate_side_effect_idempotency ::
  "side_effect_class \<Rightarrow> idempotency_behavior \<Rightarrow> contract_error + unit" where
  "validate_side_effect_idempotency effect idem =
    ensure (\<not> (effect = IdempotentWrite \<and> idem = IdemUnsupported))
      (InvalidContract ''an idempotent-write operation must advertise an idempotency-key scope'')"

definition operation_validate :: "operation_contract \<Rightarrow> contract_error + unit" where
  "operation_validate oc =
    res_bind (schema_validate (oc_input oc)) (\<lambda>_.
    res_bind (schema_validate (oc_output oc)) (\<lambda>_.
    res_bind (ensure (oc_streaming oc \<noteq> [] \<and> length (oc_features oc) \<le> 256)
      (InvalidContract ''operation needs a streaming mode and bounded features'')) (\<lambda>_.
    res_bind (res_all (\<lambda>(identity, feature).
        res_bind (ensure (identity = ft_identity feature)
          (InvalidContract ''feature map keys must equal feature identities'')) (\<lambda>_.
        feature_validate feature)) (oc_features oc)) (\<lambda>_.
    validate_side_effect_idempotency (oc_side_effect oc) (oc_idempotency oc)))))"

definition iso_currency :: "string \<Rightarrow> bool" where
  "iso_currency c \<longleftrightarrow> length c = 3 \<and> list_all is_ascii_uppercase c"

definition resources_validate :: "resource_observations \<Rightarrow> contract_error + unit" where
  "resources_validate r =
    res_bind (ensure ((estimated_cost_micros r \<noteq> None) = (ro_currency r \<noteq> None))
      (InvalidContract ''estimated cost and currency must be supplied together'')) (\<lambda>_.
    ensure (opt_all iso_currency (ro_currency r))
      (InvalidContract ''currency must be a three-letter uppercase ISO code''))"

definition descriptor_build ::
  "extensions encoder \<Rightarrow> capability_descriptor \<Rightarrow> contract_error + capability_descriptor" where
  "descriptor_build to_vec d =
    res_bind (ensure (cd_revision d \<noteq> 0) (InvalidContract ''descriptor revision must be nonzero'')) (\<lambda>_.
    res_bind (ensure (cd_operations d \<noteq> [] \<and> length (cd_operations d) \<le> 256)
      (Bounds ''descriptor.operations'' ''operation count must be between 1 and 256'')) (\<lambda>_.
    res_bind (res_all operation_validate (bm_values (cd_operations d))) (\<lambda>_.
    res_bind (ensure (max_concurrent (cd_admission d) \<noteq> 0)
      (InvalidContract ''max_concurrent must be nonzero'')) (\<lambda>_.
    res_bind (ensure ((cd_peer d \<noteq> None) = (cd_locality d = PeerHost))
      (InvalidContract ''peer identity must be present exactly for peer-locality descriptors'')) (\<lambda>_.
    res_bind (ensure (length (cd_labels d) \<le> 64
        \<and> list_all (\<lambda>l. l \<noteq> [] \<and> length l \<le> 96) (cd_labels d))
      (Bounds ''descriptor.labels'' ''at most 64 nonempty labels of 96 bytes are allowed'')) (\<lambda>_.
    res_bind (ensure (length (cd_trust_zones d) \<le> 64)
      (Bounds ''descriptor.trust_zones'' ''at most 64 trust zones are allowed'')) (\<lambda>_.
    res_bind (case cd_resources d of None \<Rightarrow> Inr () | Some r \<Rightarrow> resources_validate r) (\<lambda>_.
    res_bind (validate_extensions to_vec (cd_extensions d)) (\<lambda>_.
    Inr d)))))))))"


section \<open>Requirements\<close>

record capability_requirement =
  rq_exact_capability :: "capability_id option"
  rq_provider_profile :: "provider_profile_ref option"
  rq_categories :: "capability_category bset"
  rq_operation :: operation_id
  rq_required_features :: "feature_id bset"
  rq_streaming :: "streaming_mode option"
  rq_cancellation_required :: bool
  rq_maximum_side_effect :: side_effect_class
  rq_trust_zones :: "trust_zone bset"
  rq_execution_trust :: "execution_trust_class option"
  rq_placement :: "placement_requirement option"

definition requirement_new :: "operation_id \<Rightarrow> capability_requirement" where
  "requirement_new operation = \<lparr>rq_exact_capability = None, rq_provider_profile = None,
    rq_categories = [], rq_operation = operation, rq_required_features = [], rq_streaming = None,
    rq_cancellation_required = False, rq_maximum_side_effect = UnknownEffect,
    rq_trust_zones = [], rq_execution_trust = None, rq_placement = None\<rparr>"

definition requirement_validate :: "capability_requirement \<Rightarrow> contract_error + unit" where
  "requirement_validate r =
    ensure (length (rq_categories r) \<le> 32 \<and> length (rq_required_features r) \<le> 256
        \<and> length (rq_trust_zones r) \<le> 64)
      (Bounds ''capability_requirement''
        ''requirement category, feature, or trust-zone count exceeded'')"

text \<open>The mismatch reasons of \<^verbatim>\<open>CapabilityDescriptor::matches\<close>, in the order it pushes them.\<close>

definition reason_if :: "bool \<Rightarrow> string \<Rightarrow> string list" where
  "reason_if b r = (if b then [r] else [])"

definition operation_mismatches :: "operation_contract \<Rightarrow> capability_requirement \<Rightarrow> string list" where
  "operation_mismatches oc r =
    reason_if (\<not> list_all (\<lambda>f. bm_contains (oc_features oc) f) (rq_required_features r)) ''features''
    @ reason_if (opt_any (\<lambda>m. m \<notin> set (oc_streaming oc)) (rq_streaming r)) ''streaming''
    @ reason_if (rq_cancellation_required r \<and> oc_cancellation oc = CancelUnsupported) ''cancellation''
    @ reason_if (rq_maximum_side_effect r < oc_side_effect oc) ''side_effect''"

definition descriptor_matches :: "capability_descriptor \<Rightarrow> capability_requirement \<Rightarrow> string list" where
  "descriptor_matches d r =
    reason_if (opt_any (\<lambda>c. c \<noteq> cd_identity d) (rq_exact_capability r)) ''capability_identity''
    @ reason_if (opt_any (\<lambda>p. cd_provider_profile d \<noteq> Some p) (rq_provider_profile r)) ''provider_profile''
    @ reason_if (rq_categories r \<noteq> [] \<and> cd_category d \<notin> set (rq_categories r)) ''category''
    @ (case map_of (cd_operations d) (rq_operation r) of
        None \<Rightarrow> [''operation'']
      | Some oc \<Rightarrow> operation_mismatches oc r)
    @ reason_if (\<not> list_all (\<lambda>z. z \<in> set (cd_trust_zones d)) (rq_trust_zones r)) ''trust_zone''
    @ reason_if (opt_any (\<lambda>t. t \<noteq> cd_execution_trust d) (rq_execution_trust r)) ''execution_trust''
    @ reason_if (opt_any (\<lambda>p. \<not> placement_matches p (cd_locality d) (cd_peer d)) (rq_placement r))
        ''placement''"


section \<open>Invocation requests\<close>

definition "MAX_DURABLE_REFERENCE_BYTES = (1024 :: nat)"
definition "MAX_INPUT_NAME = (128 :: nat)"
definition "MAX_EVENT_TEXT = (4096 :: nat)"
definition "MAX_INPUTS = (256 :: nat)"

record artifact_reference =
  ar_identity :: string
  ar_digest :: string
  ar_media_type :: "string option"
  ar_size_bytes :: "u64 option"

definition lower_hex :: "char \<Rightarrow> bool" where
  "lower_hex c \<longleftrightarrow> is_ascii_digit c \<or> 97 \<le> byte c \<and> byte c \<le> 102"

definition artifact_new ::
  "string \<Rightarrow> string \<Rightarrow> string option \<Rightarrow> u64 option \<Rightarrow> contract_error + artifact_reference" where
  "artifact_new identity digest media_type size_bytes =
    res_bind (ensure (identity \<noteq> [] \<and> length identity \<le> MAX_DURABLE_REFERENCE_BYTES)
      (Bounds ''artifact.identity'' (''must contain 1 to '' @ dec MAX_DURABLE_REFERENCE_BYTES @ '' bytes''))) (\<lambda>_.
    res_bind (ensure (length digest = 64 \<and> list_all lower_hex digest)
      (InvalidContract ''artifact digest must be 64 lowercase hexadecimal characters'')) (\<lambda>_.
    res_bind (ensure (opt_all (\<lambda>m. m \<noteq> [] \<and> length m \<le> 255) media_type)
      (Bounds ''artifact.media_type'' ''must contain 1 to 255 bytes when supplied'')) (\<lambda>_.
    Inr \<lparr>ar_identity = identity, ar_digest = digest, ar_media_type = media_type,
      ar_size_bytes = size_bytes\<rparr>)))"

definition artifact_validate :: "artifact_reference \<Rightarrow> contract_error + unit" where
  "artifact_validate r = res_map (\<lambda>_. ())
    (artifact_new (ar_identity r) (ar_digest r) (ar_media_type r) (ar_size_bytes r))"

datatype invocation_value_reference =
    Artifact artifact_reference
  | WorkspaceValue string string
  | Inline json

primrec value_validate :: "invocation_value_reference \<Rightarrow> contract_error + unit" where
  "value_validate (Artifact r) = artifact_validate r"
| "value_validate (WorkspaceValue identity version) =
    ensure (identity \<noteq> [] \<and> length identity \<le> MAX_DURABLE_REFERENCE_BYTES
        \<and> version \<noteq> [] \<and> length version \<le> MAX_DURABLE_REFERENCE_BYTES)
      (Bounds ''workspace_value'' (''identity and version must contain 1 to ''
        @ dec MAX_DURABLE_REFERENCE_BYTES @ '' bytes''))"
| "value_validate (Inline v) = Inr ()"

record input_reference =
  in_name :: string
  in_value :: invocation_value_reference

definition validate_input_name :: "string \<Rightarrow> contract_error + unit" where
  "validate_input_name name =
    ensure (name \<noteq> [] \<and> length name \<le> MAX_INPUT_NAME
        \<and> list_all (\<lambda>c. is_ascii_alphanumeric c \<or> c \<in> set ''_-.:'') name)
      (Bounds ''input.name'' (''must contain 1 to '' @ dec MAX_INPUT_NAME @ '' safe ASCII bytes''))"

definition input_validate :: "input_reference \<Rightarrow> contract_error + unit" where
  "input_validate i = res_bind (validate_input_name (in_name i)) (\<lambda>_. value_validate (in_value i))"

definition input_new :: "string \<Rightarrow> invocation_value_reference \<Rightarrow> contract_error + input_reference" where
  "input_new name v = (let i = \<lparr>in_name = name, in_value = v\<rparr> in
    res_map (\<lambda>_. i) (input_validate i))"

record invocation_request =
  ir_invocation :: invocation_id
  ir_capability :: capability_id
  ir_operation :: operation_id
  ir_provider_profile :: "provider_profile_ref option"
  ir_idempotency_key :: "idempotency_key option"
  ir_inputs :: "input_reference list"
  ir_extensions :: extensions

primrec check_inputs :: "input_reference list \<Rightarrow> string bset \<Rightarrow> contract_error + unit" where
  "check_inputs [] names = Inr ()"
| "check_inputs (i # rest) names =
    res_bind (input_validate i) (\<lambda>_.
    if in_name i \<in> set names
    then Inl (InvalidContract (''duplicate input name '' @ [CHR 0x27] @ in_name i @ [CHR 0x27]))
    else check_inputs rest (bs_insert (in_name i) names))"

definition request_new ::
  "extensions encoder \<Rightarrow> invocation_request \<Rightarrow> contract_error + invocation_request" where
  "request_new to_vec r =
    res_bind (ensure (length (ir_inputs r) \<le> MAX_INPUTS)
      (Bounds ''invocation.inputs'' (''at most '' @ dec MAX_INPUTS @ '' inputs are allowed''))) (\<lambda>_.
    res_bind (check_inputs (ir_inputs r) []) (\<lambda>_.
    res_bind (validate_extensions to_vec (ir_extensions r)) (\<lambda>_.
    Inr r)))"


section \<open>Resolved snapshots\<close>

record resolved_snapshot =
  sn_capability :: capability_id
  sn_revision :: u64
  sn_provider_profile :: "provider_profile_ref option"
  sn_category :: capability_category
  sn_operation :: operation_id
  sn_contract :: operation_contract
  sn_execution_trust :: execution_trust_class
  sn_extensions :: extensions
  sn_locality :: locality
  sn_peer :: "peer_id option"
  sn_trust_zones :: "trust_zone bset"
  sn_digest :: string

text \<open>
  \<^verbatim>\<open>SnapshotDigestPayload\<close> is the snapshot without its digest.  The argument
  \<^verbatim>\<open>payload_digest\<close> is the canonical encoding of that payload followed by the
  domain-separated hash; only its dependence on the payload matters.
\<close>

definition snapshot_digest ::
  "(resolved_snapshot \<Rightarrow> contract_error + string) \<Rightarrow> resolved_snapshot \<Rightarrow> contract_error + string" where
  "snapshot_digest payload_digest s = payload_digest (s\<lparr>sn_digest := []\<rparr>)"

definition snapshot_from_descriptor ::
  "(resolved_snapshot \<Rightarrow> contract_error + string) \<Rightarrow> capability_descriptor \<Rightarrow> operation_id
    \<Rightarrow> contract_error + resolved_snapshot" where
  "snapshot_from_descriptor payload_digest d operation =
    res_bind (ok_or (InvalidContract (''descriptor '' @ [CHR 0x27] @ cd_identity d @ [CHR 0x27]
        @ '' does not advertise operation '' @ [CHR 0x27] @ operation @ [CHR 0x27]))
      (map_of (cd_operations d) operation)) (\<lambda>oc.
    let s = \<lparr>sn_capability = cd_identity d, sn_revision = cd_revision d,
      sn_provider_profile = cd_provider_profile d, sn_category = cd_category d,
      sn_operation = operation, sn_contract = oc, sn_execution_trust = cd_execution_trust d,
      sn_extensions = cd_extensions d, sn_locality = cd_locality d, sn_peer = cd_peer d,
      sn_trust_zones = cd_trust_zones d, sn_digest = []\<rparr> in
    res_bind (snapshot_digest payload_digest s) (\<lambda>digest. Inr (s\<lparr>sn_digest := digest\<rparr>)))"

definition snapshot_validate ::
  "(resolved_snapshot \<Rightarrow> contract_error + string) \<Rightarrow> resolved_snapshot \<Rightarrow> contract_error + unit" where
  "snapshot_validate payload_digest s =
    res_bind (ensure (sn_revision s \<noteq> 0)
      (InvalidContract ''resolved capability snapshot descriptor revision must be nonzero'')) (\<lambda>_.
    res_bind (ensure (length (sn_trust_zones s) \<le> 64
        \<and> (sn_locality s = PeerHost) = (sn_peer s \<noteq> None))
      (InvalidContract ''snapshot placement facts are incomplete or contradictory'')) (\<lambda>_.
    res_bind (snapshot_digest payload_digest s) (\<lambda>expected.
    ensure (sn_digest s = expected)
      (InvalidContract ''resolved capability snapshot digest does not match its exact facts''))))"

definition snapshot_validate_placement ::
  "resolved_snapshot \<Rightarrow> placement_requirement \<Rightarrow> contract_error + unit" where
  "snapshot_validate_placement s r = ensure (placement_matches r (sn_locality s) (sn_peer s))
    (InvalidContract ''resolved placement does not satisfy the task requirement'')"

definition snapshot_validate_against ::
  "(resolved_snapshot \<Rightarrow> contract_error + string) \<Rightarrow> resolved_snapshot \<Rightarrow> capability_descriptor
    \<Rightarrow> contract_error + unit" where
  "snapshot_validate_against payload_digest s d =
    res_bind (snapshot_validate payload_digest s) (\<lambda>_.
    res_bind (ok_or (InvalidContract (''descriptor '' @ [CHR 0x27] @ cd_identity d @ [CHR 0x27]
        @ '' does not advertise snapshot operation '' @ [CHR 0x27] @ sn_operation s @ [CHR 0x27]))
      (map_of (cd_operations d) (sn_operation s))) (\<lambda>oc.
    ensure (sn_capability s = cd_identity d \<and> sn_revision s = cd_revision d
        \<and> sn_provider_profile s = cd_provider_profile d \<and> sn_category s = cd_category d
        \<and> sn_contract s = oc \<and> sn_execution_trust s = cd_execution_trust d
        \<and> sn_extensions s = cd_extensions d \<and> sn_locality s = cd_locality d
        \<and> sn_peer s = cd_peer d \<and> sn_trust_zones s = cd_trust_zones d)
      (InvalidContract ''resolved capability snapshot does not match the exact descriptor revision'')))"

definition snapshot_validate_request ::
  "(resolved_snapshot \<Rightarrow> contract_error + string) \<Rightarrow> resolved_snapshot \<Rightarrow> invocation_request
    \<Rightarrow> contract_error + unit" where
  "snapshot_validate_request payload_digest s r =
    res_bind (snapshot_validate payload_digest s) (\<lambda>_.
    res_bind (ensure (ir_capability r = sn_capability s \<and> ir_operation r = sn_operation s
        \<and> ir_provider_profile r = sn_provider_profile s)
      (InvalidContract ''invocation selection does not equal the resolved capability snapshot'')) (\<lambda>_.
    res_bind (ensure (\<not> (oc_idempotency (sn_contract s) = IdemUnsupported
        \<and> ir_idempotency_key r \<noteq> None))
      (InvalidContract ''an operation advertising unsupported idempotency cannot receive a key'')) (\<lambda>_.
    ensure (\<not> (oc_side_effect (sn_contract s) = IdempotentWrite
        \<and> (oc_idempotency (sn_contract s) = IdemUnsupported \<or> ir_idempotency_key r = None)))
      (InvalidContract ''an idempotent write requires advertised idempotency and a stable key''))))"

end
