(* ===== verification/Invocation.thy ===== *)
theory Invocation
  imports Capability
begin

text \<open>
  Admission envelopes (\<^verbatim>\<open>crates/capability/src/admission.rs\<close>) and the ordered evidence
  an executor reports (\<^verbatim>\<open>crates/capability/src/invocation.rs\<close>,
  \<^verbatim>\<open>invocation/usage.rs\<close>): progress, outputs, one terminal outcome, cancellation requests
  and acknowledgements.
\<close>

section \<open>Admission envelopes\<close>

record invocation_counts =
  ic_process :: u64
  ic_model :: u64

definition counts_contains :: "invocation_counts \<Rightarrow> invocation_counts \<Rightarrow> bool" where
  "counts_contains c requested \<longleftrightarrow> ic_process requested \<le> ic_process c \<and> ic_model requested \<le> ic_model c"

record nested_work_usage =
  nw_invocations :: invocation_counts
  nw_artifact_bytes :: u64

datatype 'a admission_bound = Bounded 'a | NotApplicable | UnknownBound

primrec bounded :: "'a admission_bound \<Rightarrow> 'a option" where
  "bounded (Bounded x) = Some x"
| "bounded NotApplicable = None"
| "bounded UnknownBound = None"

record monetary_bound =
  mb_maximum_micros :: u64
  mb_currency :: string

definition monetary_new :: "u64 \<Rightarrow> string \<Rightarrow> contract_error + monetary_bound" where
  "monetary_new maximum_micros currency =
    res_bind (ensure (iso_currency currency)
      (InvalidContract ''admission currency must be a three-letter uppercase code'')) (\<lambda>_.
    Inr \<lparr>mb_maximum_micros = maximum_micros, mb_currency = currency\<rparr>)"

datatype admission_unit = UnknownUnit | ModelTokens

record admission_envelope =
  ae_nested_invocations :: "invocation_counts option"
  ae_unit :: admission_unit
  ae_input_units :: "u64 admission_bound"
  ae_output_units :: "u64 admission_bound"
  ae_artifact_bytes :: "u64 admission_bound"
  ae_monetary_cost :: "monetary_bound admission_bound"
  ae_execution_duration_ms :: "u64 admission_bound"

definition envelope_new ::
  "admission_unit \<Rightarrow> u64 admission_bound \<Rightarrow> u64 admission_bound \<Rightarrow> u64 admission_bound
    \<Rightarrow> monetary_bound admission_bound \<Rightarrow> admission_envelope" where
  "envelope_new unit inputs outputs artifacts cost = \<lparr>ae_nested_invocations = None, ae_unit = unit,
    ae_input_units = inputs, ae_output_units = outputs, ae_artifact_bytes = artifacts,
    ae_monetary_cost = cost, ae_execution_duration_ms = UnknownBound\<rparr>"

definition envelope_not_applicable :: admission_envelope where
  "envelope_not_applicable =
    envelope_new UnknownUnit NotApplicable NotApplicable NotApplicable NotApplicable
      \<lparr>ae_execution_duration_ms := NotApplicable\<rparr>"

definition envelope_unknown :: admission_envelope where
  "envelope_unknown = envelope_new UnknownUnit UnknownBound UnknownBound UnknownBound UnknownBound"


section \<open>Failures, usage and terminal outcomes\<close>

datatype error_class =
    Authentication | Authorization | InvalidRequest | RateLimit | Transport | Provider | Adapter
  | Unsupported | UnknownClass

record invocation_failure =
  if_class :: error_class
  if_retryable :: bool
  if_code :: string
  if_message :: string
  if_retry_after_ms :: "u64 option"

definition failure_validate :: "invocation_failure \<Rightarrow> contract_error + unit" where
  "failure_validate f =
    ensure (if_code f \<noteq> [] \<and> length (if_code f) \<le> 128 \<and> length (if_message f) \<le> MAX_EVENT_TEXT)
      (Bounds ''invocation.failure''
        (''code must be 1..=128 bytes and message at most '' @ dec MAX_EVENT_TEXT))"

record usage_observation =
  us_nested_work :: "nested_work_usage option"
  us_input_units :: "u64 option"
  us_output_units :: "u64 option"
  us_duration_ms :: "u64 option"
  us_cost_micros :: "u64 option"
  us_currency :: "string option"
  us_extensions :: extensions

definition usage_validate :: "extensions encoder \<Rightarrow> usage_observation \<Rightarrow> contract_error + unit" where
  "usage_validate to_vec u =
    res_bind (ensure ((us_cost_micros u \<noteq> None) = (us_currency u \<noteq> None))
      (InvalidContract ''usage cost and currency must be supplied together'')) (\<lambda>_.
    res_bind (ensure (opt_all iso_currency (us_currency u))
      (InvalidContract ''usage currency must be a three-letter uppercase ISO code'')) (\<lambda>_.
    validate_extensions to_vec (us_extensions u)))"

datatype terminal_status = Success | Failure | Cancelled | Rejected | Uncertain

record invocation_terminal =
  tm_status :: terminal_status
  tm_outputs :: "artifact_reference list"
  tm_failure :: "invocation_failure option"
  tm_usage :: "usage_observation option"
  tm_side_effect :: side_effect_class

definition requires_failure :: "terminal_status \<Rightarrow> bool" where
  "requires_failure st \<longleftrightarrow> st = Failure \<or> st = Rejected \<or> st = Uncertain"

definition terminal_validate :: "extensions encoder \<Rightarrow> invocation_terminal \<Rightarrow> contract_error + unit" where
  "terminal_validate to_vec t =
    res_bind (ensure (length (tm_outputs t) \<le> MAX_INPUTS)
      (Bounds ''terminal.outputs'' (''at most '' @ dec MAX_INPUTS @ '' output references are allowed''))) (\<lambda>_.
    res_bind (res_all artifact_validate (tm_outputs t)) (\<lambda>_.
    res_bind (ensure (requires_failure (tm_status t) = (tm_failure t \<noteq> None))
      (InvalidContract ''failure details must be present exactly for failure, rejection, or uncertainty'')) (\<lambda>_.
    res_bind (ensure (tm_status t = Success \<or> tm_status t = Uncertain \<or> tm_outputs t = [])
      (InvalidContract ''outputs are permitted only for success or uncertain terminal outcomes'')) (\<lambda>_.
    res_bind (case tm_failure t of None \<Rightarrow> Inr () | Some f \<Rightarrow> failure_validate f) (\<lambda>_.
    (case tm_usage t of None \<Rightarrow> Inr () | Some u \<Rightarrow> usage_validate to_vec u))))))"

definition terminal_new :: "extensions encoder \<Rightarrow> invocation_terminal \<Rightarrow> contract_error + invocation_terminal" where
  "terminal_new to_vec t = res_map (\<lambda>_. t) (terminal_validate to_vec t)"


section \<open>Ordered events\<close>

datatype invocation_event_kind =
    ProgressEvent string "u64 option" "u64 option"
  | OutputEvent string artifact_reference
  | TerminalEvent invocation_terminal

primrec kind_output :: "invocation_event_kind \<Rightarrow> (string \<times> artifact_reference) option" where
  "kind_output (ProgressEvent m c t) = None"
| "kind_output (OutputEvent n r) = Some (n, r)"
| "kind_output (TerminalEvent t) = None"

primrec kind_terminal :: "invocation_event_kind \<Rightarrow> invocation_terminal option" where
  "kind_terminal (ProgressEvent m c t) = None"
| "kind_terminal (OutputEvent n r) = None"
| "kind_terminal (TerminalEvent t) = Some t"

primrec kind_validate :: "extensions encoder \<Rightarrow> invocation_event_kind \<Rightarrow> contract_error + unit" where
  "kind_validate to_vec (ProgressEvent message completed_units total_units) =
    res_bind (ensure (length message \<le> MAX_EVENT_TEXT)
      (Bounds ''event.progress.message'' (''must not exceed '' @ dec MAX_EVENT_TEXT @ '' bytes''))) (\<lambda>_.
    ensure (case (completed_units, total_units) of
        (Some d, Some t) \<Rightarrow> d \<le> t | _ \<Rightarrow> True)
      (InvalidContract ''completed progress units cannot exceed total units''))"
| "kind_validate to_vec (OutputEvent name reference) =
    res_bind (ensure (name \<noteq> [] \<and> length name \<le> MAX_INPUT_NAME)
      (Bounds ''event.output.name'' (''must contain 1 to '' @ dec MAX_INPUT_NAME @ '' bytes''))) (\<lambda>_.
    artifact_validate reference)"
| "kind_validate to_vec (TerminalEvent t) = terminal_validate to_vec t"

record invocation_event =
  ev_invocation :: invocation_id
  ev_sequence :: u64
  ev_kind :: invocation_event_kind

definition event_new ::
  "extensions encoder \<Rightarrow> invocation_id \<Rightarrow> u64 \<Rightarrow> invocation_event_kind
    \<Rightarrow> contract_error + invocation_event" where
  "event_new to_vec invocation sequence kind =
    res_bind (ensure (sequence \<noteq> 0) (InvalidContract ''event sequence must start at one'')) (\<lambda>_.
    res_bind (kind_validate to_vec kind) (\<lambda>_.
    Inr \<lparr>ev_invocation = invocation, ev_sequence = sequence, ev_kind = kind\<rparr>))"


section \<open>Cancellation\<close>

record cancellation_request =
  cr_invocation :: invocation_id
  cr_sequence :: u64
  cr_reason :: string

definition cancellation_new ::
  "invocation_id \<Rightarrow> u64 \<Rightarrow> string \<Rightarrow> contract_error + cancellation_request" where
  "cancellation_new invocation sequence reason =
    res_bind (ensure (sequence \<noteq> 0 \<and> reason \<noteq> [] \<and> length reason \<le> 512)
      (InvalidContract ''cancellation sequence must be nonzero and reason must contain 1..=512 bytes'')) (\<lambda>_.
    Inr \<lparr>cr_invocation = invocation, cr_sequence = sequence, cr_reason = reason\<rparr>)"

record cancellation_acknowledgement =
  ca_invocation :: invocation_id
  ca_sequence :: u64
  ca_accepted :: bool
  ca_terminal_boundary :: bool
  ca_detail :: "string option"

definition acknowledgement_validate :: "cancellation_acknowledgement \<Rightarrow> contract_error + unit" where
  "acknowledgement_validate a =
    ensure (ca_sequence a \<noteq> 0 \<and> opt_all (\<lambda>d. length d \<le> 512) (ca_detail a)
        \<and> (ca_accepted a \<or> \<not> ca_terminal_boundary a))
      (InvalidContract ''invalid cancellation acknowledgement semantics'')"

end
