(* ===== verification/Blueprint.thy ===== *)
theory Blueprint
  imports Invocation
begin

text \<open>
  Task definitions of \<^verbatim>\<open>crates/blueprint/src/task.rs\<close>: values and bindings, one
  definition's validation, workflow limits, the closed set of edits, and
  \<^verbatim>\<open>validate_task_set\<close>, which refuses missing references and every dependency cycle.
  Paths are Unix paths.  \<^verbatim>\<open>serde_json\<close> and \<^verbatim>\<open>blake3\<close> are the fields of
  \<^verbatim>\<open>blueprint_codec\<close>.
\<close>

type_synonym workflow_id = string
type_synonym node_id = string
type_synonym task_id = string
type_synonym revision_id = string

definition "DEFAULT_WORKFLOW_TASKS = (256 :: u32)"
definition "MAX_TASK_BATCH_ACTIONS = (32 :: nat)"
definition "MAX_TASK_DEFINITION_BYTES = (1048576 :: nat)"
definition "MAX_TASK_TEXT_BYTES = (16384 :: nat)"
definition "MAX_TASK_OUTPUT_BYTES = (2097152 :: u64)"
definition "MAX_TASK_RENDERED_BYTES = (24576 :: nat)"

datatype identity_error = IdentityError string string

definition validate_identity :: "string \<Rightarrow> string \<Rightarrow> nat \<Rightarrow> identity_error + unit" where
  "validate_identity s kind max_bytes =
    (if s = [] \<or> max_bytes < length s
     then Inl (IdentityError kind (''length must be between 1 and '' @ dec max_bytes @ '' bytes''))
     else ensure (is_ascii s \<and> first_alphanumeric s
         \<and> list_all (\<lambda>c. is_ascii_alphanumeric c \<or> c \<in> set ''-_.:'') s)
       (IdentityError kind ''must start with an alphanumeric and contain safe ASCII identity characters''))"

definition validate_digest_identity :: "string \<Rightarrow> string \<Rightarrow> string \<Rightarrow> identity_error + unit" where
  "validate_digest_identity s kind pre =
    (if take (length pre) s \<noteq> pre
     then Inl (IdentityError kind (''must begin with '' @ [CHR 0x27] @ pre @ [CHR 0x27]))
     else ensure (length (drop (length pre) s) = 64 \<and> list_all lower_hex (drop (length pre) s))
       (IdentityError kind ''must contain a lowercase 32-byte BLAKE3 digest''))"


section \<open>Values, bindings and declarations\<close>

datatype task_input_value =
    Text string
  | TextFile string string string "string option"
  | JsonInput json
  | ArtifactInput artifact_reference
  | Absent

datatype task_input_binding =
    InlineBinding task_input_value
  | Supplied string bool
  | TaskOutput task_id string bool
  | SettledOutcome task_id

record task_path_access =
  pa_path :: string
  pa_write :: bool

record task_output_declaration =
  od_required :: bool
  od_media_type :: "string option"
  od_max_bytes :: u64

record task_binding_redirect =
  rd_consumer :: task_id
  rd_expected_version :: u64
  rd_input :: string

datatype task_tool = ReadFile | WriteFile | ProcessTool capability_requirement

record task_action_policy =
  automatic_repair :: bool

record task_definition =
  td_actions :: "task_action_policy option"
  td_title :: string
  td_description :: string
  td_instructions :: string
  td_capability :: capability_requirement
  td_inputs :: "(string, task_input_binding) bmap"
  td_outputs :: "(string, task_output_declaration) bmap"
  td_dependencies :: "task_id bset"
  td_required :: bool
  td_corrective_of :: "task_id option"
  td_paths :: "task_path_access list"
  td_tools :: "task_tool list"

record workflow_limits =
  wl_tasks :: u32
  wl_concurrent_tasks :: u32
  wl_model_batches :: u32
  wl_rejected_responses :: u32
  wl_corrective_failures :: u32
  wl_active_execution_ms :: u64
  wl_tool_calls_per_task :: u32

datatype task_change =
    DismissAdmission task_id
  | Add task_id task_definition
  | Revise task_id u64 task_definition
  | Remove task_id u64
  | BindInput string task_input_value
  | Stop task_id
  | AdoptCorrection task_id task_id "task_binding_redirect list"
  | SetLimits workflow_limits
  | Continue
  | Wait string
  | Finish

record task_batch =
  tb_expected_generation :: u64
  tb_changes :: "task_change list"

record new_task =
  nt_alias :: task_id
  nt_definition :: task_definition

record workflow_create =
  wc_title :: string
  wc_description :: string
  wc_tasks :: "new_task list"
  wc_inputs :: "(string, task_input_value) bmap"
  wc_limits :: workflow_limits
  wc_finish_when_settled :: bool

datatype task_definition_error = TaskDefinitionError string

definition definition_display :: "task_definition_error \<Rightarrow> string" where
  "definition_display e = (case e of TaskDefinitionError text \<Rightarrow> ''invalid task definition: '' @ text)"

record blueprint_codec =
  bc_input :: "task_input_value encoder"
  bc_json :: "json encoder"
  bc_tool :: "task_tool encoder"
  bc_definition :: "task_definition encoder"
  bc_text :: "string encoder"
  bc_blake3 :: "string \<Rightarrow> string"

definition encode :: "'a encoder \<Rightarrow> 'a \<Rightarrow> task_definition_error + string" where
  "encode enc x = map_err TaskDefinitionError (enc x)"


section \<open>One definition\<close>

definition content_bytes :: "blueprint_codec \<Rightarrow> task_input_value \<Rightarrow> task_definition_error + nat" where
  "content_bytes codec v = (case v of
      Text text \<Rightarrow> Inr (length text)
    | TextFile _ text _ _ \<Rightarrow> Inr (length text)
    | JsonInput j \<Rightarrow> res_map length (encode (bc_json codec) j)
    | ArtifactInput _ \<Rightarrow> Inr 0
    | Absent \<Rightarrow> Inr 0)"

definition text_digest :: "blueprint_codec \<Rightarrow> string \<Rightarrow> string" where
  "text_digest codec text = ''b3_'' @ bc_blake3 codec text"

definition file_validate :: "blueprint_codec \<Rightarrow> task_input_value \<Rightarrow> task_definition_error + unit" where
  "file_validate codec v = (case v of
      TextFile name text digest source \<Rightarrow>
        res_bind (ensure (name \<noteq> [] \<and> length name \<le> 255
            \<and> list_all (\<lambda>c. c \<noteq> CHR ''/'' \<and> c \<noteq> CHR 0x5C \<and> c \<noteq> CHR 0x00) name)
          (TaskDefinitionError ''captured file name must be a bounded basename'')) (\<lambda>_.
        res_bind (ensure (digest = text_digest codec text)
          (TaskDefinitionError ''captured text-file digest differs from its bytes'')) (\<lambda>_.
        ensure (opt_all (\<lambda>i. i \<noteq> [] \<and> length i \<le> 1024) source)
          (TaskDefinitionError ''captured file source identity is invalid'')))
    | _ \<Rightarrow> Inr ())"

definition input_value_validate ::
  "blueprint_codec \<Rightarrow> task_input_value \<Rightarrow> task_definition_error + unit" where
  "input_value_validate codec v =
    res_bind (encode (bc_input codec) v) (\<lambda>bytes.
    res_bind (ensure (length bytes \<le> MAX_TASK_DEFINITION_BYTES)
      (TaskDefinitionError ''input exceeds 1 MiB'')) (\<lambda>_.
    res_bind (content_bytes codec v) (\<lambda>content.
    res_bind (ensure (content \<le> MAX_TASK_TEXT_BYTES)
      (TaskDefinitionError
        ''task text or JSON input exceeds 16 KiB; shorten or split the input before submission'')) (\<lambda>_.
    file_validate codec v))))"

definition text_file ::
  "blueprint_codec \<Rightarrow> string \<Rightarrow> string \<Rightarrow> task_definition_error + task_input_value" where
  "text_file codec name text =
    (let v = TextFile name text (text_digest codec text) None in
     res_map (\<lambda>_. v) (input_value_validate codec v))"

definition validate_reference ::
  "task_output_declaration \<Rightarrow> artifact_reference \<Rightarrow> task_definition_error + unit" where
  "validate_reference decl reference =
    res_bind (ensure (opt_any (\<lambda>bytes. bytes \<le> od_max_bytes decl) (ar_size_bytes reference))
      (TaskDefinitionError ''output size is unknown or exceeds its allowance'')) (\<lambda>_.
    ensure (opt_all (\<lambda>expected. ar_media_type reference = Some expected) (od_media_type decl))
      (TaskDefinitionError ''output media type differs from its contract''))"

definition validate_name :: "string \<Rightarrow> task_definition_error + unit" where
  "validate_name name =
    ensure (name \<noteq> [] \<and> length name \<le> 128
        \<and> list_all (\<lambda>c. is_ascii_alphanumeric c \<or> c \<in> set ''_-.'') name)
      (TaskDefinitionError ''input/output name must contain 1..=128 safe ASCII bytes'')"

primrec check_tools ::
  "blueprint_codec \<Rightarrow> task_path_access list \<Rightarrow> task_tool list \<Rightarrow> string bset
    \<Rightarrow> task_definition_error + unit" where
  "check_tools codec paths [] keys = Inr ()"
| "check_tools codec paths (tool # rest) keys =
    res_bind (encode (bc_tool codec) tool) (\<lambda>key.
    if key \<in> set keys then Inl (TaskDefinitionError ''duplicate model tool selection'')
    else if tool = ReadFile \<and> paths = [] \<or> tool = WriteFile \<and> \<not> list_ex pa_write paths
    then Inl (TaskDefinitionError ''file tools require matching task path claims'')
    else check_tools codec paths rest (bs_insert key keys))"

definition check_output :: "string \<times> task_output_declaration \<Rightarrow> u64 \<Rightarrow> task_definition_error + u64" where
  "check_output entry output_bytes = (case entry of (name, decl) \<Rightarrow>
    res_bind (validate_name name) (\<lambda>_.
    res_bind (ensure (od_max_bytes decl \<noteq> 0 \<and> opt_all (\<lambda>m. m \<noteq> [] \<and> length m \<le> 255
        \<and> list_all (\<lambda>c. c \<noteq> CHR 0x0D \<and> c \<noteq> CHR 0x0A) m) (od_media_type decl))
      (TaskDefinitionError ''output declaration needs a positive byte bound and valid media type'')) (\<lambda>_.
    ok_or (TaskDefinitionError ''output byte bound overflow'')
      (checked_add output_bytes (od_max_bytes decl)))))"

definition check_binding ::
  "blueprint_codec \<Rightarrow> task_id bset \<Rightarrow> string \<times> task_input_binding \<Rightarrow> task_definition_error + unit" where
  "check_binding codec dependencies entry = (case entry of (name, binding) \<Rightarrow>
    res_bind (validate_name name) (\<lambda>_.
    res_bind (ensure (name \<noteq> ''instructions'' \<and> name \<noteq> ''milkdrift.model_task'')
      (TaskDefinitionError ''task input name is reserved for the execution request'')) (\<lambda>_.
    (case binding of
      InlineBinding v \<Rightarrow> input_value_validate codec v
    | Supplied supplied_name _ \<Rightarrow> validate_name supplied_name
    | TaskOutput task output _ \<Rightarrow>
        res_bind (validate_name output) (\<lambda>_.
        ensure (task \<in> set dependencies)
          (TaskDefinitionError (''output binding requires dependency '' @ task)))
    | SettledOutcome task \<Rightarrow>
        ensure (task \<in> set dependencies)
          (TaskDefinitionError (''outcome binding requires dependency '' @ task))))))"

definition check_path :: "task_path_access \<Rightarrow> task_definition_error + unit" where
  "check_path access = ensure (starts_with_char (CHR ''/'') (pa_path access)
      \<and> length (pa_path access) \<le> 4096 \<and> CHR 0x00 \<notin> set (pa_path access))
    (TaskDefinitionError ''native task paths must be bounded absolute paths'')"

definition definition_validate :: "blueprint_codec \<Rightarrow> task_definition \<Rightarrow> task_definition_error + unit" where
  "definition_validate codec d =
    res_bind (ensure (\<not> is_blank (td_title d) \<and> length (td_title d) \<le> 256
        \<and> length (td_description d) \<le> 4096)
      (TaskDefinitionError ''task title or description is empty or oversized'')) (\<lambda>_.
    res_bind (ensure (\<not> is_blank (td_instructions d)
        \<and> length (td_instructions d) \<le> MAX_TASK_TEXT_BYTES \<and> length (td_inputs d) \<le> 64
        \<and> length (td_outputs d) \<le> 64 \<and> length (td_dependencies d) \<le> 256
        \<and> length (td_paths d) \<le> 32 \<and> length (td_tools d) \<le> 32)
      (TaskDefinitionError ''task instructions or collection bounds are invalid'')) (\<lambda>_.
    res_bind (check_tools codec (td_paths d) (td_tools d) []) (\<lambda>_.
    res_bind (res_fold check_output (td_outputs d) 0) (\<lambda>output_bytes.
    res_bind (ensure (output_bytes \<le> MAX_TASK_OUTPUT_BYTES)
      (TaskDefinitionError ''task declared output allowance exceeds 2 MiB'')) (\<lambda>_.
    res_bind (res_all (check_binding codec (td_dependencies d)) (td_inputs d)) (\<lambda>_.
    res_bind (res_all check_path (td_paths d)) (\<lambda>_.
    res_bind (encode (bc_definition codec) d) (\<lambda>bytes.
    ensure (length bytes \<le> MAX_TASK_DEFINITION_BYTES)
      (TaskDefinitionError ''task definition exceeds 1 MiB'')))))))))"


definition encoded_text :: "blueprint_codec \<Rightarrow> string \<Rightarrow> task_definition_error + nat" where
  "encoded_text codec text = res_map length (encode (bc_text codec) text)"

definition add_budget :: "nat \<Rightarrow> nat \<Rightarrow> task_definition_error + nat" where
  "add_budget sum_bytes n = ok_or (TaskDefinitionError ''task input budget overflow'') (usize_add sum_bytes n)"

definition rendered_value :: "blueprint_codec \<Rightarrow> task_input_value \<Rightarrow> task_definition_error + string" where
  "rendered_value codec v = (case v of
      Text text \<Rightarrow> Inr text
    | TextFile _ text _ _ \<Rightarrow> Inr text
    | JsonInput j \<Rightarrow> encode (bc_json codec) j
    | ArtifactInput _ \<Rightarrow> Inr ''[immutable named artifact supplied with this request]''
    | Absent \<Rightarrow> Inr ''[explicitly absent optional input]'')"

definition bound_value ::
  "(string, task_input_value) bmap \<Rightarrow> task_input_binding \<Rightarrow> task_input_value option" where
  "bound_value supplied binding = (case binding of
      InlineBinding v \<Rightarrow> Some v
    | Supplied name _ \<Rightarrow> map_of supplied name
    | TaskOutput _ _ _ \<Rightarrow> None
    | SettledOutcome _ \<Rightarrow> None)"

definition charge_input ::
  "blueprint_codec \<Rightarrow> (string, task_input_value) bmap \<Rightarrow> string \<times> task_input_binding \<Rightarrow> nat
    \<Rightarrow> task_definition_error + nat" where
  "charge_input codec supplied entry sum_bytes = (case entry of (name, binding) \<Rightarrow>
    res_bind (encoded_text codec ([CHR 0x0A, CHR 0x0A] @ ''Input '' @ name @ '':'' @ [CHR 0x0A])) (\<lambda>label.
    res_bind (add_budget sum_bytes label) (\<lambda>sum_bytes.
    (case bound_value supplied binding of
      None \<Rightarrow> Inr sum_bytes
    | Some v \<Rightarrow>
        res_bind (input_value_validate codec v) (\<lambda>_.
        res_bind (rendered_value codec v) (\<lambda>rendered.
        res_bind (encoded_text codec rendered) (\<lambda>n.
        add_budget sum_bytes n)))))))"

definition validate_supplied_inputs ::
  "blueprint_codec \<Rightarrow> task_definition \<Rightarrow> (string, task_input_value) bmap \<Rightarrow> task_definition_error + unit" where
  "validate_supplied_inputs codec d supplied =
    res_bind (encoded_text codec (td_instructions d)) (\<lambda>start.
    res_bind (res_fold (charge_input codec supplied) (td_inputs d) start) (\<lambda>sum_bytes.
    ensure (sum_bytes \<le> MAX_TASK_RENDERED_BYTES)
      (TaskDefinitionError (''task instructions and supplied inputs exceed the combined 24 KiB ''
        @ ''escaped-content budget; shorten or split the task''))))"


section \<open>Workflow limits\<close>

definition default_limits :: workflow_limits where
  "default_limits = \<lparr>wl_tasks = DEFAULT_WORKFLOW_TASKS, wl_concurrent_tasks = 4,
    wl_model_batches = 32, wl_rejected_responses = 3, wl_corrective_failures = 3,
    wl_active_execution_ms = 3600000, wl_tool_calls_per_task = 16\<rparr>"

definition limits_validate :: "workflow_limits \<Rightarrow> task_definition_error + unit" where
  "limits_validate l =
    ensure (\<not> (wl_tasks l = 0 \<or> 4096 < wl_tasks l \<or> wl_concurrent_tasks l = 0
        \<or> wl_tasks l < wl_concurrent_tasks l \<or> 64 < wl_concurrent_tasks l
        \<or> wl_model_batches l = 0 \<or> 4096 < wl_model_batches l \<or> wl_rejected_responses l = 0
        \<or> wl_corrective_failures l = 0 \<or> wl_active_execution_ms l = 0
        \<or> 604800000 < wl_active_execution_ms l \<or> wl_tool_calls_per_task l = 0
        \<or> 1024 < wl_tool_calls_per_task l))
      (TaskDefinitionError ''workflow limits are outside bounded supported values'')"


section \<open>The complete task set\<close>

type_synonym task_set = "(task_id, task_definition) bmap"

text \<open>The walk along \<^verbatim>\<open>corrective_of\<close> from one task, with the identities seen so far.\<close>

function correction_walk :: "task_set \<Rightarrow> task_id bset \<Rightarrow> task_id option \<Rightarrow> task_definition_error + unit" where
  "correction_walk tasks seen None = Inr ()"
| "correction_walk tasks seen (Some current) =
    (if current \<in> set seen then Inl (TaskDefinitionError ''corrective origins contain a cycle'')
     else correction_walk tasks (bs_insert current seen)
       (Option.bind (map_of tasks current) td_corrective_of))"
  by pat_completeness auto
termination
proof (relation "measure (\<lambda>(tasks, seen, origin). case origin of None \<Rightarrow> 0
    | Some _ \<Rightarrow> Suc (card (set (bm_keys tasks) - set seen)))", goal_cases)
  case (2 tasks seen current)
  show ?case
  proof (cases "map_of tasks current")
    case (Some d)
    then have "current \<in> set (bm_keys tasks) - set seen"
      using 2 by (auto simp add: set_bm_keys)
    then have "card (set (bm_keys tasks) - insert current (set seen)) < card (set (bm_keys tasks) - set seen)"
      by (metis Diff_insert card_Diff1_less finite_Diff List.finite_set)
    then show ?thesis by (auto split: option.splits)
  qed simp
qed simp

definition check_origin :: "task_set \<Rightarrow> task_id \<Rightarrow> task_definition \<Rightarrow> task_definition_error + unit" where
  "check_origin tasks task d = (case td_corrective_of d of
      None \<Rightarrow> Inr ()
    | Some corrected \<Rightarrow>
        res_bind (ensure (corrected \<noteq> task \<and> bm_contains tasks corrected)
          (TaskDefinitionError (''task '' @ task @ '' has an invalid correction origin''))) (\<lambda>_.
        correction_walk tasks [task] (Some corrected)))"

definition check_produced ::
  "task_set \<Rightarrow> (task_id \<Rightarrow> string \<Rightarrow> artifact_reference option) \<Rightarrow> task_id \<Rightarrow> task_input_binding
    \<Rightarrow> task_definition_error + unit" where
  "check_produced tasks published_output task binding = (case binding of
      TaskOutput producer output _ \<Rightarrow>
        (case Option.bind (map_of tasks producer) (\<lambda>d. map_of (td_outputs d) output) of
          Some _ \<Rightarrow> Inr ()
        | None \<Rightarrow>
            (case published_output producer output of
              None \<Rightarrow> Inl (TaskDefinitionError (''task '' @ task @ '' references output '' @ producer @ ''/''
                @ output @ '' without a declaration or retained publication''))
            | Some reference \<Rightarrow>
                res_bind (ensure (ar_media_type reference \<noteq> None)
                  (TaskDefinitionError (''task '' @ task @ '' references output '' @ producer @ ''/''
                    @ output @ '' without a retained media type''))) (\<lambda>_.
                validate_reference \<lparr>od_required = True, od_media_type = None,
                  od_max_bytes = MAX_TASK_OUTPUT_BYTES\<rparr> reference)))
    | _ \<Rightarrow> Inr ())"

definition waits_for :: "task_definition \<Rightarrow> task_id bset" where
  "waits_for d = (case td_corrective_of d of
      None \<Rightarrow> td_dependencies d
    | Some corrected \<Rightarrow> bs_insert corrected (td_dependencies d))"

definition check_task ::
  "blueprint_codec \<Rightarrow> task_set \<Rightarrow> (task_id \<Rightarrow> string \<Rightarrow> artifact_reference option)
    \<Rightarrow> task_id \<times> task_definition \<Rightarrow> task_definition_error + unit" where
  "check_task codec tasks published_output entry = (case entry of (task, d) \<Rightarrow>
    res_bind (definition_validate codec d) (\<lambda>_.
    res_bind (ensure (\<not> list_ex (\<lambda>dependency. dependency = task \<or> \<not> bm_contains tasks dependency)
        (td_dependencies d))
      (TaskDefinitionError (''task '' @ task @ '' has a missing or self dependency''))) (\<lambda>_.
    res_bind (check_origin tasks task d) (\<lambda>_.
    res_all (check_produced tasks published_output task) (bm_values (td_inputs d))))))"

text \<open>The elimination loop: remove every task that waits for nothing, until none is left.\<close>

type_synonym waiting = "(task_id, task_id bset) bmap"

definition ready_ids :: "waiting \<Rightarrow> task_id bset" where
  "ready_ids remaining = map fst (filter (\<lambda>(_, dependencies). dependencies = []) remaining)"

definition retire :: "task_id bset \<Rightarrow> waiting \<Rightarrow> waiting" where
  "retire ready remaining =
    map (\<lambda>(task, dependencies). (task, filter (\<lambda>d. d \<notin> set ready) dependencies))
      (filter (\<lambda>(task, _). task \<notin> set ready) remaining)"

lemma retire_shorter: "ready_ids remaining \<noteq> [] \<Longrightarrow> length (retire (ready_ids remaining) remaining) < length remaining"
proof -
  assume "ready_ids remaining \<noteq> []"
  then obtain i where i: "i \<in> set (ready_ids remaining)"
    by (cases "ready_ids remaining") auto
  then obtain e where "e \<in> set remaining" "fst e \<in> set (ready_ids remaining)"
    by (auto simp add: ready_ids_def)
  then show ?thesis
    unfolding retire_def by (simp add: length_filter_less case_prod_beta)
qed

function eliminate :: "waiting \<Rightarrow> task_definition_error + unit" where
  "eliminate remaining =
    (if remaining = [] then Inr ()
     else let ready = ready_ids remaining in
       if ready = [] then Inl (TaskDefinitionError ''task dependencies contain a cycle'')
       else eliminate (retire ready remaining))"
  by pat_completeness auto
termination by (relation "measure length") (simp_all add: retire_shorter)

declare eliminate.simps [simp del]

definition validate_task_set ::
  "blueprint_codec \<Rightarrow> task_set \<Rightarrow> workflow_limits
    \<Rightarrow> (task_id \<Rightarrow> string \<Rightarrow> artifact_reference option) \<Rightarrow> task_definition_error + unit" where
  "validate_task_set codec tasks limits published_output =
    res_bind (limits_validate limits) (\<lambda>_.
    res_bind (ensure (length tasks \<le> unat (wl_tasks limits))
      (TaskDefinitionError ''workflow task capacity exhausted'')) (\<lambda>_.
    res_bind (res_all (check_task codec tasks published_output) tasks) (\<lambda>_.
    eliminate (map (\<lambda>(task, d). (task, waits_for d)) tasks))))"


section \<open>Elimination decides acyclicity\<close>

definition waits_on :: "waiting \<Rightarrow> (task_id \<times> task_id) set" where
  "waits_on remaining = {(d, t). \<exists>dependencies. (t, dependencies) \<in> set remaining \<and> d \<in> set dependencies}"

definition closed_waiting :: "waiting \<Rightarrow> bool" where
  "closed_waiting remaining \<longleftrightarrow>
    distinct (map fst remaining) \<and> (\<forall>(t, dependencies) \<in> set remaining. set dependencies \<subseteq> fst ` set remaining)"

lemma set_ready_ids: "set (ready_ids remaining) = {t. (t, []) \<in> set remaining}"
  by (force simp add: ready_ids_def)

lemma waits_on_retire:
  "waits_on (retire ready remaining) = {(d, t) \<in> waits_on remaining. d \<notin> set ready \<and> t \<notin> set ready}"
  by (fastforce simp add: waits_on_def retire_def)

lemma waits_on_not_ready:
  assumes "closed_waiting remaining" "(d, t) \<in> waits_on remaining"
  shows "t \<notin> set (ready_ids remaining)"
proof
  assume "t \<in> set (ready_ids remaining)"
  then have "(t, []) \<in> set remaining" by (simp add: set_ready_ids)
  moreover from assms(2) obtain ds where "(t, ds) \<in> set remaining" "d \<in> set ds"
    by (auto simp add: waits_on_def)
  moreover have "distinct (map fst remaining)" using assms(1) by (simp add: closed_waiting_def)
  ultimately show False using eq_key_imp_eq_value [of remaining t "[]" ds] by auto
qed

lemma finite_waits_on: "finite (waits_on remaining)"
proof -
  have "waits_on remaining \<subseteq> (\<Union>(t, ds) \<in> set remaining. (\<lambda>d. (d, t)) ` set ds)"
    by (auto simp add: waits_on_def)
  moreover have "finite \<dots>" by auto
  ultimately show ?thesis by (rule finite_subset)
qed

lemma map_fst_retire: "map fst (retire ready remaining) = filter (\<lambda>t. t \<notin> set ready) (map fst remaining)"
  by (induction remaining) (auto simp add: retire_def)

lemma closed_waiting_retire:
  assumes "closed_waiting remaining"
  shows "closed_waiting (retire (ready_ids remaining) remaining)"
proof -
  let ?ready = "ready_ids remaining"
  have keys: "fst ` set (retire ?ready remaining) = {t \<in> fst ` set remaining. t \<notin> set ?ready}"
    using arg_cong [OF map_fst_retire [of ?ready remaining], of set] by auto
  have "set ds \<subseteq> fst ` set (retire ?ready remaining)" if "(t, ds) \<in> set (retire ?ready remaining)" for t ds
  proof -
    from that obtain es where "(t, es) \<in> set remaining" "ds = filter (\<lambda>d. d \<notin> set ?ready) es"
      by (auto simp add: retire_def)
    with assms show ?thesis unfolding keys by (auto simp add: closed_waiting_def)
  qed
  moreover have "distinct (map fst (retire ?ready remaining))"
    using assms by (simp add: map_fst_retire closed_waiting_def)
  ultimately show ?thesis unfolding closed_waiting_def by blast
qed

lemma cycle_survives_retire:
  assumes "closed_waiting remaining" "(x, y) \<in> (waits_on remaining)\<^sup>+"
    and "x \<notin> set (ready_ids remaining)"
  shows "(x, y) \<in> (waits_on (retire (ready_ids remaining) remaining))\<^sup>+ \<and> y \<notin> set (ready_ids remaining)"
  using assms(2)
proof (induction rule: trancl_induct)
  case (base y)
  then show ?case
    using assms(3) waits_on_not_ready [OF assms(1)] by (auto simp add: waits_on_retire)
next
  case (step y z)
  then have "(y, z) \<in> waits_on (retire (ready_ids remaining) remaining)"
    using waits_on_not_ready [OF assms(1)] by (auto simp add: waits_on_retire)
  with step show ?case
    using waits_on_not_ready [OF assms(1) step.hyps(2)] by (meson trancl.trancl_into_trancl)
qed

lemma acyclic_retire:
  assumes "closed_waiting remaining"
  shows "acyclic (waits_on (retire (ready_ids remaining) remaining)) \<longleftrightarrow> acyclic (waits_on remaining)"
proof
  assume a: "acyclic (waits_on (retire (ready_ids remaining) remaining))"
  show "acyclic (waits_on remaining)"
  proof (rule acyclicI, intro allI notI)
    fix x assume c: "(x, x) \<in> (waits_on remaining)\<^sup>+"
    then have "x \<notin> set (ready_ids remaining)"
      using waits_on_not_ready [OF assms] by (metis tranclD2)
    with cycle_survives_retire [OF assms c] a show False
      by (simp add: acyclic_def)
  qed
next
  assume "acyclic (waits_on remaining)"
  then show "acyclic (waits_on (retire (ready_ids remaining) remaining))"
    by (rule acyclic_subset) (auto simp add: waits_on_retire)
qed

lemma acyclic_has_ready:
  assumes "closed_waiting remaining" "acyclic (waits_on remaining)" "remaining \<noteq> []"
  shows "ready_ids remaining \<noteq> []"
proof -
  have "wf (waits_on remaining)"
    using assms(2) finite_waits_on by (intro finite_acyclic_wf)
  moreover have "fst (hd remaining) \<in> fst ` set remaining" using assms(3) by simp
  ultimately obtain t where t: "t \<in> fst ` set remaining"
    and least: "\<And>d. (d, t) \<in> waits_on remaining \<Longrightarrow> d \<notin> fst ` set remaining"
    using wfE_min [of "waits_on remaining" "fst (hd remaining)" "fst ` set remaining"] by metis
  from t obtain ds where ds: "(t, ds) \<in> set remaining" by auto
  have "ds = []"
  proof (cases ds)
    case (Cons d rest)
    then have "(d, t) \<in> waits_on remaining" using ds by (auto simp add: waits_on_def)
    moreover have "d \<in> fst ` set remaining"
      using assms(1) ds Cons by (auto simp add: closed_waiting_def)
    ultimately show ?thesis using least by blast
  qed
  with ds have "t \<in> set (ready_ids remaining)" by (simp add: set_ready_ids)
  then show ?thesis by auto
qed

lemma eliminate_iff_acyclic:
  "closed_waiting remaining \<Longrightarrow> eliminate remaining = Inr () \<longleftrightarrow> acyclic (waits_on remaining)"
proof (induction remaining rule: eliminate.induct)
  case (1 remaining)
  show ?case
  proof (cases "remaining = []")
    case True
    then show ?thesis by (simp add: eliminate.simps waits_on_def acyclic_def)
  next
    case False
    show ?thesis
    proof (cases "ready_ids remaining = []")
      case True
      with False acyclic_has_ready [OF 1(2)] show ?thesis
        by (subst eliminate.simps) auto
    next
      case ready: False
      with False have "eliminate remaining = eliminate (retire (ready_ids remaining) remaining)"
        by (subst eliminate.simps) simp
      with 1(1) [OF False refl ready closed_waiting_retire [OF 1(2)]] show ?thesis
        by (simp add: acyclic_retire [OF 1(2)])
    qed
  qed
qed


section \<open>What an accepted task set guarantees\<close>

definition depends_on :: "task_set \<Rightarrow> (task_id \<times> task_id) set" where
  "depends_on tasks = {(p, c). \<exists>d. map_of tasks c = Some d
    \<and> (p \<in> set (td_dependencies d) \<or> td_corrective_of d = Some p)}"

lemma set_waits_for:
  "set (waits_for d) = set (td_dependencies d) \<union> set_option (td_corrective_of d)"
  by (auto simp add: waits_for_def split: option.splits)

lemma waits_on_tasks:
  assumes "bm_wf tasks"
  shows "waits_on (map (\<lambda>(t, d). (t, waits_for d)) tasks) = depends_on tasks"
  using map_of_eq_Some_iff [OF bm_wf_distinct [OF assms]]
  by (force simp add: waits_on_def depends_on_def set_waits_for)

lemma check_task_closed:
  assumes "check_task codec tasks published (t, d) = Inr ()"
  shows "set (waits_for d) \<subseteq> set (bm_keys tasks)"
  using assms
  by (auto simp add: check_task_def res_simps check_origin_def set_waits_for list_ex_iff
      bm_contains_def split: option.splits)

lemma closed_waiting_tasks:
  assumes "bm_wf tasks" "\<And>e. e \<in> set tasks \<Longrightarrow> check_task codec tasks published e = Inr ()"
  shows "closed_waiting (map (\<lambda>(t, d). (t, waits_for d)) tasks)"
proof -
  let ?w = "map (\<lambda>(t, d). (t, waits_for d)) tasks"
  have keys: "map fst ?w = map fst tasks"
    by (simp add: comp_def case_prod_beta)
  have "set ds \<subseteq> fst ` set ?w" if w: "(t, ds) \<in> set ?w" for t ds
  proof -
    from w obtain d where d: "(t, d) \<in> set tasks" "ds = waits_for d" by auto
    have "fst ` set ?w = set (bm_keys tasks)" by (metis keys list.set_map bm_keys_def)
    with check_task_closed [OF assms(2) [OF d(1)]] d(2) show ?thesis by simp
  qed
  moreover have "distinct (map fst ?w)"
    unfolding keys by (rule bm_wf_distinct [OF assms(1)])
  ultimately show ?thesis unfolding closed_waiting_def by blast
qed

lemma check_output_InrD:
  assumes "check_output (name, decl) start = Inr t"
  shows "validate_name name = Inr ()" "od_max_bytes decl \<noteq> 0"
    "unat t = unat start + unat (od_max_bytes decl)"
  using assms by (auto simp add: check_output_def res_simps wrap_simps)

lemma check_output_sum:
  "res_fold check_output outputs start = Inr t \<Longrightarrow>
    unat t = unat start + sum_list (map (\<lambda>(_, decl). unat (od_max_bytes decl)) outputs)"
proof (induction outputs arbitrary: start)
  case (Cons entry outputs)
  obtain name decl where entry: "entry = (name, decl)" by (cases entry)
  from Cons.prems obtain mid where "check_output (name, decl) start = Inr mid"
    and "res_fold check_output outputs mid = Inr t"
    by (auto simp add: res_simps entry)
  with Cons.IH [of mid] check_output_InrD(3) show ?case by (fastforce simp add: entry)
qed simp

lemma check_output_entry:
  "res_fold check_output outputs start = Inr t \<Longrightarrow> (name, decl) \<in> set outputs \<Longrightarrow>
    od_max_bytes decl \<noteq> 0 \<and> validate_name name = Inr ()"
proof (induction outputs arbitrary: start)
  case (Cons entry outputs)
  from Cons.prems(1) obtain mid where "check_output entry start = Inr mid"
    and "res_fold check_output outputs mid = Inr t"
    by (auto simp add: res_simps)
  with Cons.IH [of mid] Cons.prems(2) check_output_InrD show ?case by auto
qed simp

lemmas definition_validate_simps = definition_validate_def res_simps

lemma definition_validate_allowance:
  assumes "definition_validate codec d = Inr ()"
  shows "sum_list (map (\<lambda>(_, decl). unat (od_max_bytes decl)) (td_outputs d)) \<le> 2097152"
proof -
  from assms obtain t where "res_fold check_output (td_outputs d) 0 = Inr t" "t \<le> MAX_TASK_OUTPUT_BYTES"
    by (auto simp add: definition_validate_simps)
  with check_output_sum [of "td_outputs d" 0 t] show ?thesis
    by (simp add: MAX_TASK_OUTPUT_BYTES_def word_le_nat_alt)
qed

lemma check_binding_dependency:
  assumes "check_binding codec dependencies (name, binding) = Inr ()"
  shows "case binding of TaskOutput t _ _ \<Rightarrow> t \<in> set dependencies
    | SettledOutcome t \<Rightarrow> t \<in> set dependencies | _ \<Rightarrow> True"
  using assms by (cases binding) (simp_all add: check_binding_def res_simps)

lemma definition_validate_binding:
  assumes "definition_validate codec d = Inr ()" "(name, binding) \<in> set (td_inputs d)"
  shows "check_binding codec (td_dependencies d) (name, binding) = Inr ()"
  using assms by (auto simp add: definition_validate_simps)

text \<open>
  C9.  A task set is accepted exactly when its limits are valid, it fits the task limit, every
  task passes its own checks, and the relation "waits for a dependency or for the task it
  corrects" has no cycle.
\<close>

theorem validate_task_set_exact:
  assumes "bm_wf tasks"
  shows "validate_task_set codec tasks limits published = Inr () \<longleftrightarrow>
    limits_validate limits = Inr () \<and> length tasks \<le> unat (wl_tasks limits)
    \<and> (\<forall>e \<in> set tasks. check_task codec tasks published e = Inr ()) \<and> acyclic (depends_on tasks)"
proof (cases "\<forall>e \<in> set tasks. check_task codec tasks published e = Inr ()")
  case True
  then have "closed_waiting (map (\<lambda>(t, d). (t, waits_for d)) tasks)"
    by (intro closed_waiting_tasks [OF assms]) blast
  then have "eliminate (map (\<lambda>(t, d). (t, waits_for d)) tasks) = Inr () \<longleftrightarrow> acyclic (depends_on tasks)"
    by (simp add: eliminate_iff_acyclic waits_on_tasks [OF assms])
  with True show ?thesis
    by (auto simp add: validate_task_set_def res_simps)
next
  case False
  then show ?thesis by (auto simp add: validate_task_set_def res_simps)
qed

definition sample_codec :: blueprint_codec where
  "sample_codec = \<lparr>bc_input = (\<lambda>_. Inr ''i''), bc_json = (\<lambda>_. Inr ''j''),
    bc_tool = (\<lambda>t. Inr (case t of ReadFile \<Rightarrow> ''r'' | WriteFile \<Rightarrow> ''w'' | ProcessTool _ \<Rightarrow> ''p'')),
    bc_definition = (\<lambda>_. Inr ''d''), bc_text = (\<lambda>t. Inr (CHR 0x22 # t @ [CHR 0x22])),
    bc_blake3 = (\<lambda>_. replicate 64 (CHR ''a''))\<rparr>"

definition sample_definition :: "string \<Rightarrow> task_id bset \<Rightarrow> task_definition" where
  "sample_definition title dependencies = \<lparr>td_actions = None, td_title = title, td_description = [],
    td_instructions = ''do'', td_capability = requirement_new ''model.generate'', td_inputs = [],
    td_outputs = [(''out'', \<lparr>od_required = True, od_media_type = None, od_max_bytes = 64\<rparr>)],
    td_dependencies = dependencies, td_required = True, td_corrective_of = None, td_paths = [],
    td_tools = []\<rparr>"

lemmas text_eval = byte_def is_ascii_alphanumeric_def is_ascii_alphabetic_def is_ascii_digit_def
  is_ascii_uppercase_def lower_hex_def

lemmas blueprint_eval = text_eval definition_validate_def check_output_def validate_name_def encode_def
  checked_add_def MAX_TASK_TEXT_BYTES_def MAX_TASK_OUTPUT_BYTES_def MAX_TASK_DEFINITION_BYTES_def
  limits_validate_def default_limits_def DEFAULT_WORKFLOW_TASKS_def

lemma sample_definition_valid:
  "definition_validate sample_codec (sample_definition ''A'' dependencies) = Inr ()"
  if "length dependencies \<le> 256"
  using that by (simp add: blueprint_eval sample_definition_def sample_codec_def)

lemma default_limits_valid: "limits_validate default_limits = Inr ()"
  by (simp add: blueprint_eval)

theorem validate_task_set_exact_witness:
  "acyclic (depends_on [(''a'', sample_definition ''A'' []), (''b'', sample_definition ''A'' [''a''])])
    \<and> \<not> acyclic (depends_on [(''a'', sample_definition ''A'' [''b'']), (''b'', sample_definition ''A'' [''a''])])"
proof
  let ?good = "[(''a'', sample_definition ''A'' []), (''b'', sample_definition ''A'' [''a''])]"
  let ?bad = "[(''a'', sample_definition ''A'' [''b'']), (''b'', sample_definition ''A'' [''a''])]"
  note eval = validate_task_set_def check_task_def check_origin_def bm_contains_def bm_keys_def
    bm_values_def sample_definition_valid default_limits_valid waits_for_def ready_ids_def retire_def
    eliminate.simps
  have fields: "td_dependencies (sample_definition t ds) = ds" "td_corrective_of (sample_definition t ds) = None"
    "td_inputs (sample_definition t ds) = []" "unat (wl_tasks default_limits) = 256" for t ds
    by (simp_all add: sample_definition_def blueprint_eval)
  have "validate_task_set sample_codec ?good default_limits (\<lambda>_ _. None) = Inr ()"
    by (simp add: eval fields)
  with validate_task_set_exact [of ?good sample_codec default_limits "\<lambda>_ _. None"]
  show "acyclic (depends_on ?good)" by simp
  have "validate_task_set sample_codec ?bad default_limits (\<lambda>_ _. None) \<noteq> Inr ()"
    and "\<forall>e \<in> set ?bad. check_task sample_codec ?bad (\<lambda>_ _. None) e = Inr ()"
    by (simp_all add: eval fields)
  with validate_task_set_exact [of ?bad sample_codec default_limits "\<lambda>_ _. None"]
  show "\<not> acyclic (depends_on ?bad)" by (simp add: default_limits_valid fields)
qed

text \<open>
  A definition that passes validation promises at most 2 MiB of output in total, every
  output slot has a positive bound, and every binding to another task names a declared
  dependency.
\<close>

theorem definition_validate_sound:
  assumes "definition_validate codec d = Inr ()"
  shows "sum_list (map (\<lambda>(_, decl). unat (od_max_bytes decl)) (td_outputs d)) \<le> 2097152
    \<and> (\<forall>(name, decl) \<in> set (td_outputs d). od_max_bytes decl \<noteq> 0)
    \<and> (\<forall>(name, binding) \<in> set (td_inputs d). case binding of
        TaskOutput t _ _ \<Rightarrow> t \<in> set (td_dependencies d)
      | SettledOutcome t \<Rightarrow> t \<in> set (td_dependencies d)
      | _ \<Rightarrow> True)"
proof (intro conjI)
  show "sum_list (map (\<lambda>(_, decl). unat (od_max_bytes decl)) (td_outputs d)) \<le> 2097152"
    using assms by (rule definition_validate_allowance)
  from assms obtain t where "res_fold check_output (td_outputs d) 0 = Inr t"
    by (auto simp add: definition_validate_simps)
  then show "\<forall>(name, decl) \<in> set (td_outputs d). od_max_bytes decl \<noteq> 0"
    using check_output_entry by blast
  show "\<forall>(name, binding) \<in> set (td_inputs d). case binding of
        TaskOutput t _ _ \<Rightarrow> t \<in> set (td_dependencies d)
      | SettledOutcome t \<Rightarrow> t \<in> set (td_dependencies d)
      | _ \<Rightarrow> True"
  proof (rule ballI, clarify)
    fix name binding assume "(name, binding) \<in> set (td_inputs d)"
    then show "case binding of TaskOutput t _ _ \<Rightarrow> t \<in> set (td_dependencies d)
      | SettledOutcome t \<Rightarrow> t \<in> set (td_dependencies d) | _ \<Rightarrow> True"
      by (rule check_binding_dependency [OF definition_validate_binding [OF assms]])
  qed
qed

theorem definition_validate_sound_witness:
  "sum_list (map (\<lambda>(_, decl). unat (od_max_bytes decl)) (td_outputs (sample_definition ''A'' []))) \<le> 2097152"
proof -
  have "definition_validate sample_codec (sample_definition ''A'' []) = Inr ()"
    by (simp add: sample_definition_valid)
  from definition_validate_sound [OF this] show ?thesis by blast
qed

end
