(* ===== verification/Scopes.thy ===== *)
theory Scopes
  imports Blueprint
begin

text \<open>
  Resource scopes of \<^verbatim>\<open>crates/authority/src\<close>: selections (\<^verbatim>\<open>selection.rs\<close>),
  canonical filesystem roots, network, artifact, peer, daemon and workspace scopes and budgets
  (\<^verbatim>\<open>model/resource.rs\<close>), and capability scopes (\<^verbatim>\<open>model/capability.rs\<close>).  The
  lemmas show that the subset tests are sound for what the scopes admit, and that filesystem
  containment is containment at a component boundary of the canonical text.
\<close>

datatype authority_error =
    AuthInvalidIdentity string string
  | AuthInvalidContract string
  | AuthBounds string string
  | AuthJson string
  | AuthUnsupportedVersion string u32 u32


section \<open>Selections\<close>

definition "MAX_SELECTION_ITEMS = (128 :: nat)"
definition "MAX_SCOPE_ITEMS = (128 :: nat)"

datatype 'a selection = Any | Only "'a bset"

definition validate_count :: "nat \<Rightarrow> authority_error + unit" where
  "validate_count count = ensure (1 \<le> count \<and> count \<le> MAX_SELECTION_ITEMS)
    (AuthBounds ''authority.selection''
      (''only selector requires 1..='' @ dec MAX_SELECTION_ITEMS @ '' unique values''))"

definition selection_only :: "'a bset \<Rightarrow> authority_error + 'a selection" where
  "selection_only values = res_map (\<lambda>_. Only values) (validate_count (length values))"

primrec sel_matches :: "'a selection \<Rightarrow> 'a \<Rightarrow> bool" where
  "sel_matches Any v = True"
| "sel_matches (Only values) v = (v \<in> set values)"

fun sel_subset :: "'a selection \<Rightarrow> 'a selection \<Rightarrow> bool" where
  "sel_subset Any Any = True"
| "sel_subset (Only _) Any = True"
| "sel_subset Any (Only _) = False"
| "sel_subset (Only requested) (Only allowed) = (set requested \<subseteq> set allowed)"


section \<open>Filesystem scopes\<close>

datatype access_mode = Read | Write | Execute
datatype root_family = Unix | WindowsDrive char

record filesystem_root =
  fr_text :: string
  fr_family :: root_family
  fr_components :: "string list"

record filesystem_scope =
  fs_root :: filesystem_root
  fs_access :: "access_mode bset"

definition invalid_filesystem_scope :: authority_error where
  "invalid_filesystem_scope = AuthInvalidContract
    (''filesystem scope requires one canonical Unix or Windows drive-absolute root and ''
      @ ''a nonempty access set'')"

text \<open>\<^verbatim>\<open>char::is_control\<close>: the scalars U+0000..U+001F and U+007F..U+009F.\<close>

fun has_control :: "string \<Rightarrow> bool" where
  "has_control [] = False"
| "has_control [c] = is_ascii_control c"
| "has_control (a # b # s) =
    (is_ascii_control a \<or> (byte a = 194 \<and> 128 \<le> byte b \<and> byte b < 160) \<or> has_control (b # s))"

fun split_char :: "char \<Rightarrow> string \<Rightarrow> string list" where
  "split_char c [] = [[]]"
| "split_char c (x # s) =
    (if x = c then [] # split_char c s
     else (case split_char c s of [] \<Rightarrow> [[x]] | w # ws \<Rightarrow> (x # w) # ws))"

fun has_double_slash :: "string \<Rightarrow> bool" where
  "has_double_slash (a # b # s) = (a = CHR ''/'' \<and> b = CHR ''/'' \<or> has_double_slash (b # s))"
| "has_double_slash _ = False"

definition to_ascii_uppercase :: "char \<Rightarrow> char" where
  "to_ascii_uppercase c = (if 97 \<le> byte c \<and> byte c \<le> 122 then char_of (byte c - 32) else c)"

definition ends_with_char :: "char \<Rightarrow> string \<Rightarrow> bool" where
  "ends_with_char c s = starts_with_char c (rev s)"

definition superscript_devices :: "string list" where
  "superscript_devices = [p @ [char_of (194::nat), char_of d]. p \<leftarrow> [''COM'', ''LPT''], d \<leftarrow> [185::nat, 178, 179]]"

definition numbered_device :: "string \<Rightarrow> bool" where
  "numbered_device s \<longleftrightarrow> length s = 4 \<and> (take 3 s = ''COM'' \<or> take 3 s = ''LPT'')
    \<and> 49 \<le> byte (s ! 3) \<and> byte (s ! 3) \<le> 57"

definition windows_component_is_canonical :: "string \<Rightarrow> bool" where
  "windows_component_is_canonical component =
    (if ends_with_char (CHR ''.'') component \<or> ends_with_char (CHR '' '') component
        \<or> list_ex (\<lambda>c. c \<in> set (''<>|?*:'' @ [CHR 0x22])) component
     then False
     else let stem = takeWhile (\<lambda>c. c \<noteq> CHR ''.'') component; upper = map to_ascii_uppercase stem in
       if upper \<in> set [''CON'', ''PRN'', ''AUX'', ''NUL''] then False
       else if numbered_device upper then False
       else \<not> list_ex (\<lambda>r. upper = map to_ascii_uppercase r) superscript_devices)"

definition component_ok :: "root_family \<Rightarrow> string \<Rightarrow> bool" where
  "component_ok family component \<longleftrightarrow> component \<noteq> [] \<and> component \<noteq> ''.'' \<and> component \<noteq> ''..''
    \<and> (case family of Unix \<Rightarrow> True | WindowsDrive _ \<Rightarrow> windows_component_is_canonical component)"

definition split_root :: "string \<Rightarrow> (root_family \<times> string) option" where
  "split_root text = (case text of
      a # rest \<Rightarrow>
        if a = CHR ''/'' then Some (Unix, rest)
        else (case rest of
            b # c # rest' \<Rightarrow>
              if is_ascii_uppercase a \<and> b = CHR '':'' \<and> c = CHR ''/'' then Some (WindowsDrive a, rest')
              else None
          | _ \<Rightarrow> None)
    | [] \<Rightarrow> None)"

definition root_parse :: "string \<Rightarrow> authority_error + filesystem_root" where
  "root_parse text =
    (if text = [] \<or> 4096 < length text \<or> CHR 0x00 \<in> set text \<or> CHR 0x5C \<in> set text \<or> has_control text
     then Inl invalid_filesystem_scope
     else res_bind (ok_or invalid_filesystem_scope (split_root text)) (\<lambda>(family, remainder).
       if ends_with_char (CHR ''/'') remainder \<or> has_double_slash remainder
       then Inl invalid_filesystem_scope
       else let components = (if remainder = [] then [] else split_char (CHR ''/'') remainder) in
         res_bind (ensure (list_all (component_ok family) components) invalid_filesystem_scope) (\<lambda>_.
         Inr \<lparr>fr_text = text, fr_family = family, fr_components = components\<rparr>)))"

definition root_contains :: "filesystem_root \<Rightarrow> filesystem_root \<Rightarrow> bool" where
  "root_contains allowed requested \<longleftrightarrow> fr_family allowed = fr_family requested
    \<and> take (length (fr_components allowed)) (fr_components requested) = fr_components allowed"

definition filesystem_new :: "string \<Rightarrow> access_mode bset \<Rightarrow> authority_error + filesystem_scope" where
  "filesystem_new text access =
    (if access = [] then Inl invalid_filesystem_scope
     else res_map (\<lambda>root. \<lparr>fs_root = root, fs_access = access\<rparr>) (root_parse text))"

definition filesystem_contains :: "filesystem_scope \<Rightarrow> filesystem_scope \<Rightarrow> bool" where
  "filesystem_contains allowed requested \<longleftrightarrow>
    root_contains (fs_root allowed) (fs_root requested)
    \<and> set (fs_access requested) \<subseteq> set (fs_access allowed)"


section \<open>Other resource scopes\<close>

record network_scope =
  ns_profiles :: "string bset"
  ns_destinations :: "string bset"

definition network_new :: "string bset \<Rightarrow> string bset \<Rightarrow> authority_error + network_scope" where
  "network_new profiles destinations =
    (if MAX_SCOPE_ITEMS < length profiles \<or> MAX_SCOPE_ITEMS < length destinations
        \<or> list_ex (\<lambda>d. d = [] \<or> 255 < length d \<or> \<not> is_ascii d
            \<or> list_ex (\<lambda>c. c \<in> set (''/@ '' @ [CHR 0x09, CHR 0x0A])) d) destinations
     then Inl (AuthBounds ''grant.network''
       ''network scope exceeds bounds or contains a credential-like destination'')
     else Inr \<lparr>ns_profiles = profiles, ns_destinations = destinations\<rparr>)"

record authority_budget =
  ab_cost_minor :: "u64 option"
  ab_duration_ms :: "u64 option"
  ab_invocations :: "u64 option"
  ab_artifact_bytes :: "u64 option"
  ab_units :: "u64 option"
  ab_concurrency :: "u32 option"

definition default_budget :: authority_budget where
  "default_budget = \<lparr>ab_cost_minor = None, ab_duration_ms = None, ab_invocations = None,
    ab_artifact_bytes = None, ab_units = None, ab_concurrency = None\<rparr>"

definition within :: "'w::len word option \<Rightarrow> 'w word option \<Rightarrow> bool" where
  "within requested ceiling = (case (requested, ceiling) of
      (Some r, Some c) \<Rightarrow> r \<le> c | (Some _, None) \<Rightarrow> False | (None, _) \<Rightarrow> True)"

definition fits_within :: "authority_budget \<Rightarrow> authority_budget \<Rightarrow> bool" where
  "fits_within b ceiling \<longleftrightarrow>
    within (ab_cost_minor b) (ab_cost_minor ceiling)
    \<and> within (ab_duration_ms b) (ab_duration_ms ceiling)
    \<and> within (ab_invocations b) (ab_invocations ceiling)
    \<and> within (ab_artifact_bytes b) (ab_artifact_bytes ceiling)
    \<and> within (ab_units b) (ab_units ceiling)
    \<and> within (ab_concurrency b) (ab_concurrency ceiling)"

datatype artifact_sensitivity = Public | Internal | Restricted

datatype artifact_scope =
    ArtifactDenyAll
  | ArtifactAllow "string selection" "artifact_sensitivity bset"

definition artifact_scope_new ::
  "string selection \<Rightarrow> artifact_sensitivity bset \<Rightarrow> authority_error + artifact_scope" where
  "artifact_scope_new identities sensitivities =
    res_bind (ensure (sensitivities \<noteq> [] \<and> length sensitivities \<le> 3)
      (AuthBounds ''grant.artifacts'' ''artifact sensitivity scope requires 1..=3 values'')) (\<lambda>_.
    Inr (ArtifactAllow identities sensitivities))"

primrec artifact_scope_matches :: "artifact_scope \<Rightarrow> string \<Rightarrow> artifact_sensitivity \<Rightarrow> bool" where
  "artifact_scope_matches ArtifactDenyAll artifact sensitivity = False"
| "artifact_scope_matches (ArtifactAllow identities sensitivities) artifact sensitivity =
    (sensitivity \<in> set sensitivities \<and> sel_matches identities artifact)"

record peer_scope =
  ps_identities :: "peer_id bset"
  ps_allow_any :: bool

definition peer_scope_new :: "peer_id bset \<Rightarrow> bool \<Rightarrow> authority_error + peer_scope" where
  "peer_scope_new identities allow_any =
    res_bind (ensure (\<not> (MAX_SCOPE_ITEMS < length identities \<or> allow_any \<and> identities \<noteq> []))
      (AuthInvalidContract ''peer scope must be either an allowlist or an explicit wildcard'')) (\<lambda>_.
    Inr \<lparr>ps_identities = identities, ps_allow_any = allow_any\<rparr>)"

definition peer_scope_matches :: "peer_scope \<Rightarrow> peer_id \<Rightarrow> bool" where
  "peer_scope_matches s peer \<longleftrightarrow> ps_allow_any s \<or> peer \<in> set (ps_identities s)"

record daemon_scope =
  ds_readiness :: bool
  ds_detailed_health :: bool
  ds_own_authority :: bool
  ds_configuration :: bool
  ds_audit :: bool

record workspace_scope =
  ws_scopes :: "string bset"
  ws_allow_any_in_run :: bool

definition workspace_scope_new :: "string bset \<Rightarrow> bool \<Rightarrow> authority_error + workspace_scope" where
  "workspace_scope_new scopes allow_any =
    res_bind (ensure (\<not> (MAX_SCOPE_ITEMS < length scopes \<or> allow_any \<and> scopes \<noteq> []))
      (AuthInvalidContract ''workspace scope must be either an allowlist or an explicit run wildcard'')) (\<lambda>_.
    Inr \<lparr>ws_scopes = scopes, ws_allow_any_in_run = allow_any\<rparr>)"

definition workspace_scope_matches :: "workspace_scope \<Rightarrow> string \<Rightarrow> bool" where
  "workspace_scope_matches s scope \<longleftrightarrow> ws_allow_any_in_run s \<or> scope \<in> set (ws_scopes s)"



section \<open>Capability scopes\<close>

record capability_allow =
  cs_identities :: "capability_id selection"
  cs_categories :: "capability_category selection"
  cs_operations :: "operation_id selection"
  cs_provider_profiles :: "provider_profile_ref selection"
  cs_trust_zones :: "trust_zone selection"
  cs_execution_trust :: "execution_trust_class selection"
  cs_localities :: "locality selection"
  cs_peers :: "peer_id selection"
  cs_maximum_side_effect :: side_effect_class

datatype capability_scope = CapDenyAll | CapAllow capability_allow

definition allow_any_scope :: "side_effect_class \<Rightarrow> capability_allow" where
  "allow_any_scope maximum_side_effect = \<lparr>cs_identities = Any, cs_categories = Any, cs_operations = Any,
    cs_provider_profiles = Any, cs_trust_zones = Any, cs_execution_trust = Any, cs_localities = Any,
    cs_peers = Any, cs_maximum_side_effect = maximum_side_effect\<rparr>"

primrec scope_side_effect :: "capability_scope \<Rightarrow> side_effect_class" where
  "scope_side_effect CapDenyAll = NoEffect"
| "scope_side_effect (CapAllow a) = cs_maximum_side_effect a"

fun scope_within :: "capability_scope \<Rightarrow> capability_scope \<Rightarrow> bool" where
  "scope_within CapDenyAll _ = True"
| "scope_within (CapAllow _) CapDenyAll = False"
| "scope_within (CapAllow r) (CapAllow a) =
    (sel_subset (cs_identities r) (cs_identities a)
    \<and> sel_subset (cs_categories r) (cs_categories a)
    \<and> sel_subset (cs_operations r) (cs_operations a)
    \<and> sel_subset (cs_provider_profiles r) (cs_provider_profiles a)
    \<and> sel_subset (cs_trust_zones r) (cs_trust_zones a)
    \<and> sel_subset (cs_execution_trust r) (cs_execution_trust a)
    \<and> sel_subset (cs_localities r) (cs_localities a)
    \<and> sel_subset (cs_peers r) (cs_peers a)
    \<and> cs_maximum_side_effect r \<le> cs_maximum_side_effect a)"

definition narrow_placement ::
  "placement_requirement \<Rightarrow> capability_allow \<Rightarrow> authority_error + capability_allow" where
  "narrow_placement p b = (case pl_peers p of
      Some peers \<Rightarrow>
        res_bind (selection_only peers) (\<lambda>ps.
        res_bind (selection_only [PeerHost]) (\<lambda>ls.
        Inr (b\<lparr>cs_peers := ps, cs_localities := ls\<rparr>)))
    | None \<Rightarrow> (case pl_localities p of
        Some localities \<Rightarrow> res_map (\<lambda>ls. b\<lparr>cs_localities := ls\<rparr>) (selection_only localities)
      | None \<Rightarrow> Inr b))"

definition requirement_envelope :: "capability_requirement \<Rightarrow> authority_error + capability_scope" where
  "requirement_envelope r =
    (if opt_any denies_all (rq_placement r) then Inr CapDenyAll
     else
      res_bind (selection_only [rq_operation r]) (\<lambda>ops.
      let b = (allow_any_scope (rq_maximum_side_effect r))\<lparr>cs_operations := ops\<rparr> in
      res_bind (case rq_exact_capability r of None \<Rightarrow> Inr b
        | Some c \<Rightarrow> res_map (\<lambda>v. b\<lparr>cs_identities := v\<rparr>) (selection_only [c])) (\<lambda>b.
      res_bind (if rq_categories r = [] then Inr b
        else res_map (\<lambda>v. b\<lparr>cs_categories := v\<rparr>) (selection_only (rq_categories r))) (\<lambda>b.
      res_bind (case rq_provider_profile r of None \<Rightarrow> Inr b
        | Some q \<Rightarrow> res_map (\<lambda>v. b\<lparr>cs_provider_profiles := v\<rparr>) (selection_only [q])) (\<lambda>b.
      res_bind (if rq_trust_zones r = [] then Inr b
        else res_map (\<lambda>v. b\<lparr>cs_trust_zones := v\<rparr>) (selection_only (rq_trust_zones r))) (\<lambda>b.
      res_bind (case rq_execution_trust r of None \<Rightarrow> Inr b
        | Some t \<Rightarrow> res_map (\<lambda>v. b\<lparr>cs_execution_trust := v\<rparr>) (selection_only [t])) (\<lambda>b.
      res_bind (case rq_placement r of None \<Rightarrow> Inr b | Some p \<Rightarrow> narrow_placement p b) (\<lambda>b.
      Inr (CapAllow b)))))))))"


section \<open>Subset tests are sound\<close>

lemma sel_subset_matches: "sel_subset a b \<Longrightarrow> sel_matches a v \<Longrightarrow> sel_matches b v"
  by (cases a; cases b) auto

lemma sel_subset_refl [simp]: "sel_subset a a"
  by (cases a) simp_all

lemma sel_subset_trans: "sel_subset a b \<Longrightarrow> sel_subset b c \<Longrightarrow> sel_subset a c"
  by (cases a; cases b; cases c) auto

lemma scope_within_refl [simp]: "scope_within s s"
  by (cases s) simp_all

lemma scope_within_trans: "scope_within a b \<Longrightarrow> scope_within b c \<Longrightarrow> scope_within a c"
  by (cases a; cases b; cases c) (auto intro: sel_subset_trans)

lemma within_trans: "within a b \<Longrightarrow> within b c \<Longrightarrow> within a c"
  by (auto simp add: within_def split: option.splits)

lemma fits_within_trans: "fits_within a b \<Longrightarrow> fits_within b c \<Longrightarrow> fits_within a c"
  unfolding fits_within_def by (meson within_trans)

lemma root_contains_refl [simp]: "root_contains r r"
  by (simp add: root_contains_def)

lemma root_contains_trans:
  assumes "root_contains a b" "root_contains b c"
  shows "root_contains a c"
proof -
  have len: "length (fr_components a) \<le> length (fr_components b)"
    using assms(1) unfolding root_contains_def by (metis length_take min.cobounded1 min.commute)
  have "take (length (fr_components a)) (fr_components c) =
      take (length (fr_components a)) (take (length (fr_components b)) (fr_components c))"
    using len by (simp add: min_def)
  with assms show ?thesis by (simp add: root_contains_def)
qed

lemma filesystem_contains_trans:
  "filesystem_contains a b \<Longrightarrow> filesystem_contains b c \<Longrightarrow> filesystem_contains a c"
  using root_contains_trans by (auto simp add: filesystem_contains_def)


section \<open>Containment at a component boundary\<close>

primrec family_prefix :: "root_family \<Rightarrow> string" where
  "family_prefix Unix = ''/''"
| "family_prefix (WindowsDrive d) = [d, CHR '':'', CHR ''/'']"

lemma split_root_Some:
  assumes "split_root text = Some (family, remainder)"
  shows "text = family_prefix family @ remainder"
  using assms by (auto simp add: split_root_def split: list.splits if_splits)

lemma split_root_prefix:
  assumes "split_root (family_prefix family @ r) = Some (family', r')" "split_root t = Some (family, q)"
  shows "family' = family \<and> r' = r"
  using assms by (cases family) (auto simp add: split_root_def is_ascii_uppercase_def byte_def split: list.splits if_splits)

lemma split_char_not_Nil [simp]: "split_char c s \<noteq> []"
  by (induction s) (auto split: list.splits)

lemma split_char_append: "split_char c (a @ c # r) = split_char c a @ split_char c r"
  by (induction a) (auto split: list.splits)

fun join_char :: "char \<Rightarrow> string list \<Rightarrow> string" where
  "join_char c [] = []"
| "join_char c [w] = w"
| "join_char c (w # v # ws) = w @ c # join_char c (v # ws)"

lemma join_char_Cons: "ws \<noteq> [] \<Longrightarrow> join_char c (w # ws) = w @ c # join_char c ws"
  by (cases ws) auto

lemma join_split_char: "join_char c (split_char c s) = s"
proof (induction s)
  case (Cons x s)
  then show ?case
    by (cases "split_char c s"; cases "tl (split_char c s)") (auto simp add: join_char_Cons)
qed simp

lemma join_char_append:
  "ws \<noteq> [] \<Longrightarrow> vs \<noteq> [] \<Longrightarrow> join_char c (ws @ vs) = join_char c ws @ c # join_char c vs"
  by (induction c ws rule: join_char.induct) (auto simp add: join_char_Cons)

lemma components_prefix_iff:
  assumes "A = (if a = [] then [] else split_char c a)" "B = (if b = [] then [] else split_char c b)"
    and "a \<noteq> []"
  shows "take (length A) B = A \<longleftrightarrow> a = b \<or> prefix (a @ [c]) b"
proof
  assume t: "take (length A) B = A"
  define C where "C = drop (length A) B"
  have B: "B = A @ C" using t by (metis C_def append_take_drop_id)
  have A: "A = split_char c a" "A \<noteq> []" using assms by auto
  with B have "b \<noteq> []" using assms(2) by auto
  with assms(2) have b: "b = join_char c B" by (simp add: join_split_char)
  show "a = b \<or> prefix (a @ [c]) b"
  proof (cases "C = []")
    case True
    with b B A show ?thesis by (simp add: join_split_char)
  next
    case False
    with b B A have "b = a @ c # join_char c C" by (simp add: join_char_append join_split_char)
    then show ?thesis by (simp add: prefix_def)
  qed
next
  assume "a = b \<or> prefix (a @ [c]) b"
  then show "take (length A) B = A"
  proof
    assume "prefix (a @ [c]) b"
    then obtain r where "b = a @ c # r" by (auto simp add: prefix_def)
    with assms show ?thesis by (simp add: split_char_append)
  qed (use assms in simp)
qed

lemma root_parse_InrD:
  assumes "root_parse text = Inr r"
  obtains family remainder where "split_root text = Some (family, remainder)" "fr_text r = text"
    "fr_family r = family" "fr_components r = (if remainder = [] then [] else split_char (CHR ''/'') remainder)"
    "\<not> ends_with_char (CHR ''/'') remainder" "text = family_prefix family @ remainder"
proof -
  from assms obtain family remainder where split: "split_root text = Some (family, remainder)"
    by (auto simp add: root_parse_def res_simps split: if_splits)
  with assms have "r = \<lparr>fr_text = text, fr_family = family,
      fr_components = (if remainder = [] then [] else split_char (CHR ''/'') remainder)\<rparr>"
    and "\<not> ends_with_char (CHR ''/'') remainder"
    by (auto simp add: root_parse_def res_simps Let_def split: if_splits)
  with split split_root_Some [OF split] that show thesis by simp
qed

lemma split_root_determined:
  assumes "split_root t = Some (family, b)" "split_root s = Some (family', a)" "t = family_prefix family' @ r"
  shows "family = family' \<and> b = r"
  using split_root_prefix [of family' r family b s a] assms by simp

lemma ends_with_family_prefix: "ends_with_char (CHR ''/'') (family_prefix family)"
  by (cases family) (simp_all add: ends_with_char_def starts_with_char_def)

lemma ends_with_append: "r \<noteq> [] \<Longrightarrow> ends_with_char c (p @ r) \<longleftrightarrow> ends_with_char c r"
  by (cases r rule: rev_cases) (simp_all add: ends_with_char_def starts_with_char_def)

text \<open>
  On canonical roots, one root contains another exactly when the texts are equal or the
  first, closed by a separator, is a prefix of the second: a sibling that merely shares leading
  characters is never contained.
\<close>

theorem root_contains_text:
  assumes "root_parse ta = Inr ra" "root_parse tb = Inr rb"
  shows "root_contains ra rb \<longleftrightarrow>
    ta = tb \<or> prefix (if ends_with_char (CHR ''/'') ta then ta else ta @ ''/'') tb"
proof -
  from assms(1) obtain fa a where a: "split_root ta = Some (fa, a)" "fr_family ra = fa"
    "fr_components ra = (if a = [] then [] else split_char (CHR ''/'') a)"
    "\<not> ends_with_char (CHR ''/'') a" "ta = family_prefix fa @ a"
    by (rule root_parse_InrD)
  from assms(2) obtain fb b where b: "split_root tb = Some (fb, b)" "fr_family rb = fb"
    "fr_components rb = (if b = [] then [] else split_char (CHR ''/'') b)"
    "tb = family_prefix fb @ b"
    by (rule root_parse_InrD)
  note same = split_root_determined [OF b(1) a(1)]
  show ?thesis
  proof (cases "a = []")
    case True
    then have "root_contains ra rb \<longleftrightarrow> fa = fb" using a b by (simp add: root_contains_def)
    moreover have "fa = fb \<longleftrightarrow> prefix ta tb"
      using True same a(5) b(4) by (auto simp add: prefix_def)
    ultimately show ?thesis
      using True a(5) ends_with_family_prefix by auto
  next
    case False
    have "root_contains ra rb \<longleftrightarrow> fa = fb \<and> (a = b \<or> prefix (a @ ''/'') b)"
      using components_prefix_iff [OF a(3) b(3) False] a(2) b(2) by (simp add: root_contains_def)
    moreover have "ta = tb \<longleftrightarrow> fa = fb \<and> a = b"
      using same [of a] a(5) b(4) by metis
    moreover have "prefix (ta @ ''/'') tb \<longleftrightarrow> fa = fb \<and> prefix (a @ ''/'') b"
      using same a(5) b(4) by (auto simp add: prefix_def)
    ultimately show ?thesis
      using a(4,5) ends_with_append [OF False] by auto
  qed
qed

theorem root_contains_text_witness:
  "\<exists>ra rb. root_parse ''/srv/a'' = Inr ra \<and> root_parse ''/srv/ab'' = Inr rb \<and> \<not> root_contains ra rb"
proof -
  note eval = root_parse_def split_root_def ends_with_char_def starts_with_char_def component_ok_def
    is_ascii_control_def byte_def Let_def
  obtain ra rb where r: "root_parse ''/srv/a'' = Inr ra" "root_parse ''/srv/ab'' = Inr rb"
    by (simp add: eval)
  from root_contains_text [OF this] have "\<not> root_contains ra rb"
    by (simp add: ends_with_char_def starts_with_char_def)
  with r show ?thesis by blast
qed

end
