(* ===== verification/Authority.thy ===== *)
theory Authority
  imports Scopes "HOL-Library.Product_Lexorder"
begin

text \<open>
  Grants, requests, decisions and the grant-set evaluator of \<^verbatim>\<open>crates/authority/src\<close>
  (\<^verbatim>\<open>model/grant.rs\<close>, \<^verbatim>\<open>model/decision.rs\<close>, \<^verbatim>\<open>model/execution.rs\<close>,
  \<^verbatim>\<open>evaluator.rs\<close>).  The digests of grants, decisions and execution bases are canonical
  JSON under a domain-separated hash; they are fields of \<^verbatim>\<open>authority_codec\<close>.  The theorems
  show that an evaluation of a well-formed request always yields a decision, that a decision allows
  exactly when every scope of the named grant admits the request, and that a check of a
  requirement's envelope covers every candidate that matches the requirement.
\<close>

section \<open>Vocabulary\<close>

datatype authority_operation =
    Inspect | Apply | CreateRun | StartRun | Cancel | InvokeCapability | CancelCapability
  | InspectRun | ListCapabilities | InspectCapabilityHealth | InspectProviderProfile
  | AdministerCapabilities | ReadArtifactMetadata | ReadArtifactContent | ReadCapabilityOutput
  | PublishArtifact | ExportArtifact | DeleteArtifact | AdministerArtifactRetention
  | ReadWorkspaceValue | InspectPeer | NegotiatePeerSession | InspectPeerExecution
  | InvokePeerCapability | CancelPeerCapability | PeerArtifactUpload | PeerArtifactDownload
  | AdministerPeer | NegotiateControlProtocol | ReadReadiness | InspectDaemonHealth
  | InspectOwnAuthority | InspectAudit | InspectConfiguration | ReloadConfiguration
  | RenameDaemon | DrainDaemon | ShutdownDaemon

type_synonym actor_ref = string
type_synonym grant_id = string
type_synonym policy_id = string
type_synonym decision_id = string
type_synonym run_id = string

definition authority_identity :: "string \<Rightarrow> string \<Rightarrow> authority_error + string" where
  "authority_identity kind s =
    (if s = [] \<or> 192 < length s
     then Inl (AuthInvalidIdentity kind (''length must be between 1 and '' @ dec 192 @ '' bytes''))
     else if \<not> is_ascii s \<or> \<not> first_alphanumeric s \<or> \<not> list_all id_char s
     then Inl (AuthInvalidIdentity kind (''must start with an ASCII alphanumeric and contain only alphanumerics, ''
       @ [CHR 0x27] @ ''-'' @ [CHR 0x27] @ '', '' @ [CHR 0x27] @ ''_'' @ [CHR 0x27] @ '', '' @ [CHR 0x27] @ ''.''
       @ [CHR 0x27] @ '', '' @ [CHR 0x27] @ '':'' @ [CHR 0x27] @ '', or '' @ [CHR 0x27] @ ''/'' @ [CHR 0x27]))
     else Inr s)"

datatype workflow_run_scope =
    AnyRun
  | OneWorkflow workflow_id
  | Workflows "workflow_id bset"
  | OneRun run_id "workflow_id option"

record requested_facts =
  rf_workflow :: "workflow_id option"
  rf_run :: "run_id option"
  rf_capability :: "capability_id option"
  rf_category :: "capability_category option"
  rf_capability_operation :: "operation_id option"
  rf_provider_profile :: "provider_profile_ref option"
  rf_trust_zone :: "trust_zone option"
  rf_trust_zones :: "trust_zone bset"
  rf_execution_trust :: "execution_trust_class option"
  rf_locality :: "locality option"
  rf_peer :: "peer_id option"
  rf_envelope :: "capability_scope option"
  rf_side_effect :: side_effect_class
  rf_filesystem :: "filesystem_scope list"
  rf_network_profiles :: "string bset"
  rf_network_destinations :: "string bset"
  rf_secrets :: "string bset"
  rf_artifact :: "string option"
  rf_artifact_sensitivity :: "artifact_sensitivity option"
  rf_workspace_scope :: "string option"
  rf_daemon :: daemon_scope

definition no_daemon_scope :: daemon_scope where
  "no_daemon_scope = \<lparr>ds_readiness = False, ds_detailed_health = False, ds_own_authority = False,
    ds_configuration = False, ds_audit = False\<rparr>"

definition empty_facts :: requested_facts where
  "empty_facts = \<lparr>rf_workflow = None, rf_run = None, rf_capability = None, rf_category = None,
    rf_capability_operation = None, rf_provider_profile = None, rf_trust_zone = None,
    rf_trust_zones = [], rf_execution_trust = None, rf_locality = None, rf_peer = None,
    rf_envelope = None, rf_side_effect = NoEffect, rf_filesystem = [], rf_network_profiles = [],
    rf_network_destinations = [], rf_secrets = [], rf_artifact = None,
    rf_artifact_sensitivity = None, rf_workspace_scope = None, rf_daemon = no_daemon_scope\<rparr>"

primrec workflow_scope_matches :: "workflow_run_scope \<Rightarrow> requested_facts \<Rightarrow> bool" where
  "workflow_scope_matches AnyRun f = True"
| "workflow_scope_matches (OneWorkflow w) f = (rf_workflow f = Some w)"
| "workflow_scope_matches (Workflows ws) f = opt_any (\<lambda>w. w \<in> set ws) (rf_workflow f)"
| "workflow_scope_matches (OneRun r w) f =
    (rf_run f = Some r \<and> opt_all (\<lambda>expected. rf_workflow f = Some expected) w)"

definition facts_validate :: "requested_facts \<Rightarrow> authority_error + unit" where
  "facts_validate f =
    res_bind (ensure (length (rf_filesystem f) \<le> MAX_SCOPE_ITEMS \<and> length (rf_secrets f) \<le> MAX_SCOPE_ITEMS)
      (AuthBounds ''authority_request.resources'' ''filesystem or secret request count exceeded'')) (\<lambda>_.
    res_bind (res_all (\<lambda>scope. res_map (\<lambda>_. ()) (filesystem_new (fr_text (fs_root scope)) (fs_access scope)))
      (rf_filesystem f)) (\<lambda>_.
    res_bind (network_new (rf_network_profiles f) (rf_network_destinations f)) (\<lambda>_.
    ensure ((rf_artifact f \<noteq> None) = (rf_artifact_sensitivity f \<noteq> None))
      (AuthInvalidContract ''artifact identity and sensitivity facts must be complete''))))"

record execution_provenance =
  ep_revision :: "revision_id option"
  ep_node :: "node_id option"
  ep_execution :: "string option"
  ep_attempt :: "string option"
  ep_descriptor_revision :: "u64 option"
  ep_peer :: "peer_id option"
  ep_idempotency :: "idempotency_behavior option"

definition no_provenance :: execution_provenance where
  "no_provenance = \<lparr>ep_revision = None, ep_node = None, ep_execution = None, ep_attempt = None,
    ep_descriptor_revision = None, ep_peer = None, ep_idempotency = None\<rparr>"

definition safe_reference :: "string \<Rightarrow> bool" where
  "safe_reference s \<longleftrightarrow> s \<noteq> [] \<and> length s \<le> 192 \<and> is_ascii s \<and> first_alphanumeric s \<and> list_all id_char s"

definition provenance_validate :: "execution_provenance \<Rightarrow> authority_error + unit" where
  "provenance_validate p =
    ensure (ep_descriptor_revision p \<noteq> Some 0 \<and> opt_all safe_reference (ep_execution p)
        \<and> opt_all safe_reference (ep_attempt p))
      (AuthInvalidContract ''authority execution provenance contains an invalid identity or generation'')"

record authority_request =
  aq_decision :: decision_id
  aq_actor :: actor_ref
  aq_grant :: grant_id
  aq_grant_revision :: u64
  aq_grant_digest :: string
  aq_revocation_generation :: u64
  aq_operation :: authority_operation
  aq_resources :: requested_facts
  aq_budget :: authority_budget
  aq_evaluated_at :: u64
  aq_provenance :: execution_provenance

definition request_validate :: "authority_request \<Rightarrow> authority_error + unit" where
  "request_validate q =
    res_bind (ensure (aq_grant_revision q \<noteq> 0)
      (AuthInvalidContract ''authority request grant revision must be nonzero'')) (\<lambda>_.
    res_bind (provenance_validate (aq_provenance q)) (\<lambda>_.
    facts_validate (aq_resources q)))"


section \<open>Grants\<close>

record resource_scope =
  rs_workflow_run :: workflow_run_scope
  rs_capability :: capability_scope
  rs_filesystem :: "filesystem_scope list"
  rs_network :: network_scope
  rs_secrets :: "string bset"
  rs_artifacts :: artifact_scope
  rs_peers :: peer_scope
  rs_daemon :: daemon_scope
  rs_workspace :: workspace_scope

record authority_grant =
  gr_schema_version :: u32
  gr_identity :: grant_id
  gr_revision :: u64
  gr_actor :: actor_ref
  gr_operations :: "authority_operation bset"
  gr_resources :: resource_scope
  gr_budget :: authority_budget
  gr_valid_from :: u64
  gr_valid_until :: u64
  gr_revocation_generation :: u64
  gr_extensions :: "(string, json) bmap"

definition "AUTHORITY_GRANT_SCHEMA_VERSION_V5 = (5 :: u32)"
definition "AUTHORITY_DECISION_SCHEMA_VERSION_V3 = (3 :: u32)"

definition extension_key_ok :: "string \<Rightarrow> bool" where
  "extension_key_ok key \<longleftrightarrow> length key \<le> 192 \<and> (case split_once (CHR ''/'') key of None \<Rightarrow> False
    | Some (namespace, name) \<Rightarrow> CHR ''.'' \<in> set namespace \<and> name \<noteq> [])"

definition grant_build ::
  "(authority_grant \<Rightarrow> authority_error + string) \<Rightarrow> authority_grant \<Rightarrow> authority_error + authority_grant" where
  "grant_build canonical g =
    res_bind (ensure (gr_schema_version g = AUTHORITY_GRANT_SCHEMA_VERSION_V5)
      (AuthUnsupportedVersion ''authority_grant'' (gr_schema_version g) AUTHORITY_GRANT_SCHEMA_VERSION_V5)) (\<lambda>_.
    res_bind (ensure (gr_revision g \<noteq> 0 \<and> gr_operations g \<noteq> [] \<and> length (gr_operations g) \<le> MAX_SCOPE_ITEMS)
      (AuthInvalidContract ''grant revision must be nonzero and operations must contain 1..=128 entries'')) (\<lambda>_.
    res_bind (ensure (gr_valid_from g \<le> gr_valid_until g)
      (AuthInvalidContract ''grant validity interval is inverted'')) (\<lambda>_.
    res_bind (ensure (length (rs_filesystem (gr_resources g)) \<le> MAX_SCOPE_ITEMS
        \<and> length (rs_secrets (gr_resources g)) \<le> MAX_SCOPE_ITEMS \<and> length (gr_extensions g) \<le> 64)
      (AuthBounds ''grant.resources'' ''scope or extension count exceeded'')) (\<lambda>_.
    res_bind (network_new (ns_profiles (rs_network (gr_resources g)))
        (ns_destinations (rs_network (gr_resources g)))) (\<lambda>_.
    res_bind (res_all (\<lambda>scope. res_map (\<lambda>_. ()) (filesystem_new (fr_text (fs_root scope)) (fs_access scope)))
      (rs_filesystem (gr_resources g))) (\<lambda>_.
    res_bind (case rs_artifacts (gr_resources g) of ArtifactDenyAll \<Rightarrow> Inr ()
      | ArtifactAllow ids sens \<Rightarrow> res_map (\<lambda>_. ()) (artifact_scope_new ids sens)) (\<lambda>_.
    res_bind (peer_scope_new (ps_identities (rs_peers (gr_resources g)))
        (ps_allow_any (rs_peers (gr_resources g)))) (\<lambda>_.
    res_bind (workspace_scope_new (ws_scopes (rs_workspace (gr_resources g)))
        (ws_allow_any_in_run (rs_workspace (gr_resources g)))) (\<lambda>_.
    res_bind (ensure (list_all extension_key_ok (bm_keys (gr_extensions g)))
      (AuthInvalidContract ''authority extension keys must be DNS-namespaced'')) (\<lambda>_.
    res_bind (canonical g) (\<lambda>_.
    Inr g)))))))))))"



section \<open>Decisions\<close>

datatype decision_reason =
    Allowed | GrantNotFound | GrantRevisionMismatch | GrantDigestMismatch
  | WrongActor | Revoked | NotYetValid | Expired
  | OperationMismatch | WorkflowRunMismatch | CapabilityMismatch | PlacementMismatch
  | SideEffectExcess | FilesystemMismatch | NetworkMismatch | SecretScopeMismatch
  | ArtifactScopeMismatch | PeerScopeMismatch | DaemonScopeMismatch | WorkspaceScopeMismatch
  | BudgetExcess

text \<open>The derived \<^verbatim>\<open>Ord\<close> of the reason codes is their declaration order.\<close>

primrec reason_rank :: "decision_reason \<Rightarrow> nat" where
  "reason_rank Allowed = 0"
| "reason_rank GrantNotFound = 1"
| "reason_rank GrantRevisionMismatch = 2"
| "reason_rank GrantDigestMismatch = 3"
| "reason_rank WrongActor = 4"
| "reason_rank Revoked = 5"
| "reason_rank NotYetValid = 6"
| "reason_rank Expired = 7"
| "reason_rank OperationMismatch = 8"
| "reason_rank WorkflowRunMismatch = 9"
| "reason_rank CapabilityMismatch = 10"
| "reason_rank PlacementMismatch = 11"
| "reason_rank SideEffectExcess = 12"
| "reason_rank FilesystemMismatch = 13"
| "reason_rank NetworkMismatch = 14"
| "reason_rank SecretScopeMismatch = 15"
| "reason_rank ArtifactScopeMismatch = 16"
| "reason_rank PeerScopeMismatch = 17"
| "reason_rank DaemonScopeMismatch = 18"
| "reason_rank WorkspaceScopeMismatch = 19"
| "reason_rank BudgetExcess = 20"

lemma reason_rank_inject: "reason_rank a = reason_rank b \<Longrightarrow> a = b"
  by (cases a; cases b; simp)

instantiation decision_reason :: linorder
begin

definition less_eq_decision_reason :: "decision_reason \<Rightarrow> decision_reason \<Rightarrow> bool" where
  "a \<le> b \<longleftrightarrow> reason_rank a \<le> reason_rank b"

definition less_decision_reason :: "decision_reason \<Rightarrow> decision_reason \<Rightarrow> bool" where
  "a < b \<longleftrightarrow> reason_rank a < reason_rank b"

instance
  by standard
    (auto simp add: less_eq_decision_reason_def less_decision_reason_def intro: reason_rank_inject)

end

datatype decision_outcome = Allow | Deny

record authority_decision =
  ad_schema_version :: u32
  ad_policy :: policy_id
  ad_policy_version :: u32
  ad_request :: authority_request
  ad_outcome :: decision_outcome
  ad_reason_codes :: "decision_reason list"
  ad_evaluated_budget :: authority_budget
  ad_evaluated_side_effect :: side_effect_class
  ad_digest :: string

definition is_allowed :: "authority_decision \<Rightarrow> bool" where
  "is_allowed d \<longleftrightarrow> ad_outcome d = Allow"

definition "MAX_DIAGNOSTIC_CODES = (16 :: nat)"

definition derived_outcome :: "decision_reason list \<Rightarrow> decision_outcome" where
  "derived_outcome codes = (if codes = [Allowed] then Allow else Deny)"

text \<open>\<^verbatim>\<open>sort_unstable\<close> then \<^verbatim>\<open>dedup\<close>.\<close>

definition stable_codes :: "decision_reason list \<Rightarrow> decision_reason list" where
  "stable_codes codes = remdups_adj (sort codes)"

record execution_basis =
  eb_schema_version :: u32
  eb_actor :: actor_ref
  eb_grant :: grant_id
  eb_grant_revision :: u64
  eb_grant_digest :: string
  eb_policy :: policy_id
  eb_policy_version :: u32
  eb_workflow :: workflow_id
  eb_root_run :: run_id
  eb_lineage_revision :: revision_id
  eb_accepted_decision :: decision_id
  eb_accepted_decision_digest :: string
  eb_revocation_generation :: u64
  eb_digest :: string

record authority_codec =
  ac_grant_digest :: "authority_grant \<Rightarrow> authority_error + string"
  ac_decision_digest :: "authority_decision \<Rightarrow> authority_error + string"
  ac_basis_digest :: "execution_basis \<Rightarrow> authority_error + string"

definition from_evaluation ::
  "authority_codec \<Rightarrow> policy_id \<Rightarrow> u32 \<Rightarrow> authority_request \<Rightarrow> decision_reason list
    \<Rightarrow> authority_budget \<Rightarrow> side_effect_class \<Rightarrow> authority_error + authority_decision" where
  "from_evaluation codec policy policy_version request codes budget effect =
    res_bind (request_validate request) (\<lambda>_.
    res_bind (ensure (policy_version \<noteq> 0) (AuthInvalidContract ''policy version must be nonzero'')) (\<lambda>_.
    let codes = stable_codes codes in
    res_bind (ensure (codes \<noteq> [] \<and> length codes \<le> MAX_DIAGNOSTIC_CODES)
      (AuthInvalidContract ''decision requires 1..=16 stable reason codes'')) (\<lambda>_.
    let d = \<lparr>ad_schema_version = AUTHORITY_DECISION_SCHEMA_VERSION_V3, ad_policy = policy,
      ad_policy_version = policy_version, ad_request = request, ad_outcome = derived_outcome codes,
      ad_reason_codes = codes, ad_evaluated_budget = budget, ad_evaluated_side_effect = effect,
      ad_digest = []\<rparr> in
    res_map (\<lambda>digest. d\<lparr>ad_digest := digest\<rparr>) (ac_decision_digest codec d))))"

definition decision_validate :: "authority_codec \<Rightarrow> authority_decision \<Rightarrow> authority_error + unit" where
  "decision_validate codec d =
    res_bind (request_validate (ad_request d)) (\<lambda>_.
    if ad_schema_version d \<noteq> AUTHORITY_DECISION_SCHEMA_VERSION_V3 \<or> ad_policy_version d = 0
        \<or> ad_reason_codes d = [] \<or> MAX_DIAGNOSTIC_CODES < length (ad_reason_codes d)
        \<or> list_ex (\<lambda>(l, r). r \<le> l) (zip (ad_reason_codes d) (tl (ad_reason_codes d)))
        \<or> Allowed \<in> set (ad_reason_codes d) \<and> length (ad_reason_codes d) \<noteq> 1
    then Inl (AuthInvalidContract ''authorization decision invariant or digest mismatch'')
    else res_bind (ac_decision_digest codec (d\<lparr>ad_digest := []\<rparr>)) (\<lambda>digest.
      res_bind (ensure (ad_digest d = digest)
        (AuthInvalidContract ''authorization decision invariant or digest mismatch'')) (\<lambda>_.
      ensure (ad_outcome d = derived_outcome (ad_reason_codes d))
        (AuthInvalidContract ''decision outcome disagrees with reason codes''))))"


section \<open>The grant-set evaluator\<close>

record grant_set =
  ge_policy :: policy_id
  ge_policy_version :: u32
  ge_grants :: "(grant_id \<times> u64, authority_grant) bmap"
  ge_revocations :: "(grant_id, u64) bmap"

definition index_grant ::
  "authority_grant \<Rightarrow> (grant_id \<times> u64, authority_grant) bmap
    \<Rightarrow> authority_error + (grant_id \<times> u64, authority_grant) bmap" where
  "index_grant g indexed = (let key = (gr_identity g, gr_revision g) in
    if opt_any (\<lambda>existing. existing \<noteq> g) (map_of indexed key)
    then Inl (AuthInvalidContract ''conflicting reuse of one grant identity and revision'')
    else Inr (bm_insert key g indexed))"

definition grant_set_new ::
  "policy_id \<Rightarrow> u32 \<Rightarrow> authority_grant list \<Rightarrow> (grant_id, u64) bmap \<Rightarrow> authority_error + grant_set" where
  "grant_set_new policy policy_version grants revocations =
    res_bind (ensure (policy_version \<noteq> 0) (AuthInvalidContract ''policy version must be nonzero'')) (\<lambda>_.
    res_bind (res_fold index_grant grants []) (\<lambda>indexed.
    Inr \<lparr>ge_policy = policy, ge_policy_version = policy_version, ge_grants = indexed,
      ge_revocations = revocations\<rparr>))"

definition peer_operation :: "authority_operation \<Rightarrow> bool" where
  "peer_operation oper \<longleftrightarrow> oper \<in> {InspectPeer, NegotiatePeerSession, InspectPeerExecution,
    InvokePeerCapability, CancelPeerCapability, PeerArtifactUpload, PeerArtifactDownload,
    AdministerPeer}"


definition operation_uses_workflow_scope :: "authority_operation \<Rightarrow> bool" where
  "operation_uses_workflow_scope oper \<longleftrightarrow> oper \<notin> {ListCapabilities, InspectCapabilityHealth,
    InspectProviderProfile, AdministerCapabilities, ReadArtifactMetadata, ReadCapabilityOutput,
    ReadArtifactContent, PublishArtifact, ExportArtifact, DeleteArtifact, AdministerArtifactRetention,
    InspectPeer, NegotiatePeerSession, InspectPeerExecution, InvokePeerCapability,
    CancelPeerCapability, PeerArtifactUpload, PeerArtifactDownload, AdministerPeer,
    NegotiateControlProtocol, ReadReadiness, InspectDaemonHealth, InspectOwnAuthority, InspectAudit,
    InspectConfiguration, ReloadConfiguration, RenameDaemon, DrainDaemon, ShutdownDaemon}"

definition capability_facts_are_requested :: "requested_facts \<Rightarrow> bool" where
  "capability_facts_are_requested f \<longleftrightarrow> rf_capability f \<noteq> None \<or> rf_category f \<noteq> None
    \<or> rf_capability_operation f \<noteq> None \<or> rf_provider_profile f \<noteq> None \<or> rf_trust_zone f \<noteq> None
    \<or> rf_trust_zones f \<noteq> [] \<or> rf_execution_trust f \<noteq> None \<or> rf_locality f \<noteq> None
    \<or> rf_peer f \<noteq> None \<or> rf_envelope f \<noteq> None"

text \<open>\<^verbatim>\<open>selection_matches\<close> over an accessor that is absent for a deny-all scope.\<close>

definition selection_matches :: "(capability_allow \<Rightarrow> 'a selection) \<Rightarrow> capability_scope \<Rightarrow> 'a \<Rightarrow> bool" where
  "selection_matches sel scope v = (case scope of CapDenyAll \<Rightarrow> False | CapAllow a \<Rightarrow> sel_matches (sel a) v)"

definition capability_mismatch :: "capability_scope \<Rightarrow> requested_facts \<Rightarrow> bool" where
  "capability_mismatch scope f \<longleftrightarrow>
    scope = CapDenyAll \<and> capability_facts_are_requested f
    \<or> opt_any (\<lambda>v. \<not> selection_matches cs_identities scope v) (rf_capability f)
    \<or> opt_any (\<lambda>v. \<not> selection_matches cs_categories scope v) (rf_category f)
    \<or> opt_any (\<lambda>v. \<not> selection_matches cs_operations scope v) (rf_capability_operation f)
    \<or> opt_any (\<lambda>v. \<not> selection_matches cs_provider_profiles scope v) (rf_provider_profile f)"

definition placement_mismatch :: "capability_scope \<Rightarrow> requested_facts \<Rightarrow> bool" where
  "placement_mismatch scope f \<longleftrightarrow>
    opt_any (\<lambda>v. \<not> selection_matches cs_trust_zones scope v) (rf_trust_zone f)
    \<or> rf_trust_zones f \<noteq> [] \<and> \<not> list_all (selection_matches cs_trust_zones scope) (rf_trust_zones f)
    \<or> opt_any (\<lambda>v. \<not> selection_matches cs_execution_trust scope v) (rf_execution_trust f)
    \<or> opt_any (\<lambda>v. \<not> selection_matches cs_localities scope v) (rf_locality f)
    \<or> opt_any (\<lambda>v. \<not> selection_matches cs_peers scope v) (rf_peer f)"

definition daemon_mismatch :: "daemon_scope \<Rightarrow> daemon_scope \<Rightarrow> bool" where
  "daemon_mismatch requested allowed \<longleftrightarrow>
    ds_readiness requested \<and> \<not> ds_readiness allowed
    \<or> ds_detailed_health requested \<and> \<not> ds_detailed_health allowed
    \<or> ds_own_authority requested \<and> \<not> ds_own_authority allowed
    \<or> ds_configuration requested \<and> \<not> ds_configuration allowed
    \<or> ds_audit requested \<and> \<not> ds_audit allowed"

definition code_if :: "bool \<Rightarrow> decision_reason \<Rightarrow> decision_reason list" where
  "code_if b c = (if b then [c] else [])"

text \<open>The reason codes of one found grant, in the order the evaluator pushes them.\<close>

definition denial_reasons ::
  "authority_grant \<Rightarrow> string \<Rightarrow> u64 \<Rightarrow> authority_request \<Rightarrow> decision_reason list" where
  "denial_reasons g digest current_revocation q =
    (let f = aq_resources q; r = gr_resources g; cap = rs_capability r in
      code_if (digest \<noteq> aq_grant_digest q) GrantDigestMismatch
    @ code_if (gr_actor g \<noteq> aq_actor q) WrongActor
    @ code_if (aq_revocation_generation q \<noteq> gr_revocation_generation g
        \<or> current_revocation \<noteq> gr_revocation_generation g) Revoked
    @ code_if (aq_evaluated_at q < gr_valid_from g) NotYetValid
    @ code_if (gr_valid_until g < aq_evaluated_at q) Expired
    @ code_if (aq_operation q \<notin> set (gr_operations g)) OperationMismatch
    @ code_if (operation_uses_workflow_scope (aq_operation q)
        \<and> \<not> workflow_scope_matches (rs_workflow_run r) f) WorkflowRunMismatch
    @ code_if (capability_mismatch cap f) CapabilityMismatch
    @ code_if (placement_mismatch cap f) PlacementMismatch
    @ code_if (opt_any (\<lambda>e. \<not> scope_within e cap) (rf_envelope f)) CapabilityMismatch
    @ code_if (scope_side_effect cap < rf_side_effect f) SideEffectExcess
    @ code_if (\<not> list_all (\<lambda>requested. list_ex (\<lambda>allowed. filesystem_contains allowed requested)
        (rs_filesystem r)) (rf_filesystem f)) FilesystemMismatch
    @ code_if (\<not> set (rf_network_profiles f) \<subseteq> set (ns_profiles (rs_network r))
        \<or> \<not> set (rf_network_destinations f) \<subseteq> set (ns_destinations (rs_network r))) NetworkMismatch
    @ code_if (\<not> set (rf_secrets f) \<subseteq> set (rs_secrets r)) SecretScopeMismatch
    @ code_if (case (rf_artifact f, rf_artifact_sensitivity f) of
          (Some a, Some sens) \<Rightarrow> \<not> artifact_scope_matches (rs_artifacts r) a sens
        | _ \<Rightarrow> False) ArtifactScopeMismatch
    @ code_if (peer_operation (aq_operation q)
        \<and> opt_all (\<lambda>p. \<not> peer_scope_matches (rs_peers r) p) (rf_peer f)) PeerScopeMismatch
    @ code_if (daemon_mismatch (rf_daemon f) (rs_daemon r)) DaemonScopeMismatch
    @ code_if (opt_any (\<lambda>w. \<not> workspace_scope_matches (rs_workspace r) w) (rf_workspace_scope f))
        WorkspaceScopeMismatch
    @ code_if (\<not> fits_within (aq_budget q) (gr_budget g)) BudgetExcess)"

definition current_revocation :: "grant_set \<Rightarrow> authority_grant \<Rightarrow> u64" where
  "current_revocation ge g = (case map_of (ge_revocations ge) (gr_identity g) of
      None \<Rightarrow> gr_revocation_generation g | Some n \<Rightarrow> n)"

definition evaluate :: "authority_codec \<Rightarrow> grant_set \<Rightarrow> authority_request \<Rightarrow> authority_error + authority_decision" where
  "evaluate codec ge q =
    res_bind (request_validate q) (\<lambda>_.
    (case map_of (ge_grants ge) (aq_grant q, aq_grant_revision q) of
      None \<Rightarrow> from_evaluation codec (ge_policy ge) (ge_policy_version ge) q
        [if aq_grant q \<in> fst ` set (bm_keys (ge_grants ge)) then GrantRevisionMismatch else GrantNotFound]
        default_budget (rf_side_effect (aq_resources q))
    | Some g \<Rightarrow>
        res_bind (ac_grant_digest codec g) (\<lambda>digest.
        let reasons = denial_reasons g digest (current_revocation ge g) q in
        from_evaluation codec (ge_policy ge) (ge_policy_version ge) q
          (if reasons = [] then [Allowed] else reasons)
          (gr_budget g) (scope_side_effect (rs_capability (gr_resources g))))))"


section \<open>Execution bases\<close>

definition basis_validate :: "authority_codec \<Rightarrow> execution_basis \<Rightarrow> authority_error + unit" where
  "basis_validate codec b =
    (if eb_schema_version b \<noteq> 1 \<or> eb_grant_revision b = 0 \<or> eb_policy_version b = 0
        \<or> \<not> is_canonical_blake3_digest (eb_accepted_decision_digest b)
     then Inl (AuthInvalidContract ''execution authority basis invariant or digest mismatch'')
     else res_bind (ac_basis_digest codec (b\<lparr>eb_digest := []\<rparr>)) (\<lambda>digest.
       ensure (eb_digest b = digest)
         (AuthInvalidContract ''execution authority basis invariant or digest mismatch'')))"

definition from_start_decision ::
  "authority_codec \<Rightarrow> authority_decision \<Rightarrow> workflow_id \<Rightarrow> run_id \<Rightarrow> revision_id
    \<Rightarrow> authority_error + execution_basis" where
  "from_start_decision codec d workflow root_run lineage_revision =
    (let q = ad_request d in
    res_bind (ensure (is_allowed d \<and> aq_operation q = StartRun)
      (AuthInvalidContract ''execution authority requires an allowed start-run decision'')) (\<lambda>_.
    let b = \<lparr>eb_schema_version = 1, eb_actor = aq_actor q, eb_grant = aq_grant q,
      eb_grant_revision = aq_grant_revision q, eb_grant_digest = aq_grant_digest q,
      eb_policy = ad_policy d, eb_policy_version = ad_policy_version d, eb_workflow = workflow,
      eb_root_run = root_run, eb_lineage_revision = lineage_revision,
      eb_accepted_decision = aq_decision q, eb_accepted_decision_digest = ad_digest d,
      eb_revocation_generation = aq_revocation_generation q, eb_digest = []\<rparr> in
    res_bind (ac_basis_digest codec b) (\<lambda>digest.
    let b = b\<lparr>eb_digest := digest\<rparr> in
    res_map (\<lambda>_. b) (basis_validate codec b))))"

definition basis_request ::
  "execution_basis \<Rightarrow> decision_id \<Rightarrow> authority_operation \<Rightarrow> requested_facts \<Rightarrow> authority_budget
    \<Rightarrow> u64 \<Rightarrow> execution_provenance \<Rightarrow> authority_request" where
  "basis_request b decision oper resources budget evaluated_at provenance =
    \<lparr>aq_decision = decision, aq_actor = eb_actor b, aq_grant = eb_grant b,
      aq_grant_revision = eb_grant_revision b, aq_grant_digest = eb_grant_digest b,
      aq_revocation_generation = eb_revocation_generation b, aq_operation = oper,
      aq_resources = resources\<lparr>rf_workflow := Some (eb_workflow b), rf_run := Some (eb_root_run b)\<rparr>,
      aq_budget = budget, aq_evaluated_at = evaluated_at, aq_provenance = provenance\<rparr>"


section \<open>Reason codes fit the diagnostic bound\<close>

lemma set_stable_codes [simp]: "set (stable_codes codes) = set codes"
  by (simp add: stable_codes_def)

lemma distinct_remdups_adj_sorted: "sorted xs \<Longrightarrow> distinct (remdups_adj xs)"
  by (induction xs rule: remdups_adj.induct) (auto simp add: le_less)

lemma distinct_stable_codes: "distinct (stable_codes codes)"
  by (simp add: stable_codes_def distinct_remdups_adj_sorted)

lemma length_stable_codes: "length (stable_codes codes) = card (set codes)"
  using distinct_card [OF distinct_stable_codes] by simp

lemma stable_codes_Nil [simp]: "stable_codes codes = [] \<longleftrightarrow> codes = []"
  using set_stable_codes [of codes] by (metis set_empty)

lemma stable_codes_single [simp]: "stable_codes [c] = [c]"
  by (simp add: stable_codes_def)

lemma set_code_if [simp]: "c \<in> set (code_if b c') \<longleftrightarrow> b \<and> c = c'"
  by (auto simp add: code_if_def)

lemma code_if_Nil [simp]: "code_if b c = [] \<longleftrightarrow> \<not> b"
  by (simp add: code_if_def)

lemma peer_operation_scope: "peer_operation oper \<Longrightarrow> \<not> operation_uses_workflow_scope oper"
  by (auto simp add: peer_operation_def operation_uses_workflow_scope_def)

definition common_codes :: "decision_reason list" where
  "common_codes = [GrantDigestMismatch, WrongActor, Revoked, OperationMismatch, CapabilityMismatch,
    PlacementMismatch, SideEffectExcess, FilesystemMismatch, NetworkMismatch, SecretScopeMismatch,
    ArtifactScopeMismatch, DaemonScopeMismatch, WorkspaceScopeMismatch, BudgetExcess]"

lemma set_denial_reasons:
  assumes "gr_valid_from g \<le> gr_valid_until g"
  shows "set (denial_reasons g digest current q) \<subseteq>
    insert (if aq_evaluated_at q < gr_valid_from g then NotYetValid else Expired)
      (insert (if peer_operation (aq_operation q) then PeerScopeMismatch else WorkflowRunMismatch)
        (set common_codes))"
proof
  fix c assume "c \<in> set (denial_reasons g digest current q)"
  moreover have "\<not> (aq_evaluated_at q < gr_valid_from g \<and> gr_valid_until g < aq_evaluated_at q)"
    using assms by auto
  ultimately show "c \<in> insert (if aq_evaluated_at q < gr_valid_from g then NotYetValid else Expired)
      (insert (if peer_operation (aq_operation q) then PeerScopeMismatch else WorkflowRunMismatch)
        (set common_codes))"
    using peer_operation_scope [of "aq_operation q"]
    by (auto simp add: denial_reasons_def Let_def common_codes_def)
qed

lemma denial_reasons_bounded:
  assumes "gr_valid_from g \<le> gr_valid_until g"
  shows "length (stable_codes (denial_reasons g digest current q)) \<le> MAX_DIAGNOSTIC_CODES"
proof -
  have "card (set common_codes) \<le> 14"
    using card_length [of common_codes] by (simp add: common_codes_def)
  then have "card (insert a (insert b (set common_codes))) \<le> 16" for a b
    using card_insert_le_m1 by (simp add: card_insert_if)
  then show ?thesis
    unfolding length_stable_codes MAX_DIAGNOSTIC_CODES_def
    using card_mono [OF _ set_denial_reasons [OF assms]] by (meson List.finite_set finite_insert le_trans)
qed

lemma Allowed_not_denial: "Allowed \<notin> set (denial_reasons g digest current q)"
  by (auto simp add: denial_reasons_def Let_def)

lemma from_evaluation_ok:
  assumes "request_validate q = Inr ()" "policy_version \<noteq> 0" "codes \<noteq> []"
    and "length (stable_codes codes) \<le> MAX_DIAGNOSTIC_CODES"
    and "\<And>d. \<exists>digest. ac_decision_digest codec d = Inr digest"
  shows "\<exists>d. from_evaluation codec policy policy_version q codes budget effect = Inr d"
  using assms by (simp add: from_evaluation_def Let_def) (metis res_map_simps(2))

lemma from_evaluation_InrD:
  assumes "from_evaluation codec policy policy_version q codes budget effect = Inr d"
  shows "ad_request d = q" "ad_reason_codes d = stable_codes codes"
    "ad_outcome d = derived_outcome (stable_codes codes)" "ad_policy_version d = policy_version"
    "codes \<noteq> []" "length (stable_codes codes) \<le> MAX_DIAGNOSTIC_CODES" "request_validate q = Inr ()"
    "ac_decision_digest codec (d\<lparr>ad_digest := []\<rparr>) = Inr (ad_digest d)"
    "ad_schema_version d = AUTHORITY_DECISION_SCHEMA_VERSION_V3" "policy_version \<noteq> 0"
  using assms by (auto simp add: from_evaluation_def Let_def res_simps)

lemma derived_outcome_allow:
  assumes "Allowed \<notin> set reasons"
  shows "derived_outcome (stable_codes (if reasons = [] then [Allowed] else reasons)) = Allow \<longleftrightarrow> reasons = []"
proof (cases "reasons = []")
  case False
  have "stable_codes reasons \<noteq> [Allowed]"
    using assms set_stable_codes [of reasons] by (metis list.set_intros(1))
  with False show ?thesis by (simp add: derived_outcome_def)
qed (simp add: derived_outcome_def)

lemma evaluate_ok:
  assumes "request_validate q = Inr ()" "ge_policy_version ge \<noteq> 0"
    and "\<And>g. map_of (ge_grants ge) (aq_grant q, aq_grant_revision q) = Some g \<Longrightarrow>
      gr_valid_from g \<le> gr_valid_until g"
    and "\<And>g. \<exists>digest. ac_grant_digest codec g = Inr digest"
    and "\<And>d. \<exists>digest. ac_decision_digest codec d = Inr digest"
  shows "\<exists>d. evaluate codec ge q = Inr d"
proof (cases "map_of (ge_grants ge) (aq_grant q, aq_grant_revision q)")
  case None
  with assms show ?thesis
    by (auto simp add: evaluate_def MAX_DIAGNOSTIC_CODES_def intro!: from_evaluation_ok)
next
  case (Some g)
  from assms(4) obtain digest where digest: "ac_grant_digest codec g = Inr digest" by blast
  let ?reasons = "denial_reasons g digest (current_revocation ge g) q"
  have "length (stable_codes (if ?reasons = [] then [Allowed] else ?reasons)) \<le> MAX_DIAGNOSTIC_CODES"
    using denial_reasons_bounded [OF assms(3) [OF Some]] by (simp add: MAX_DIAGNOSTIC_CODES_def)
  with assms Some digest show ?thesis
    by (auto simp add: evaluate_def Let_def intro!: from_evaluation_ok)
qed

text \<open>
  Evaluating a well-formed request against built grants always produces a decision: no
  combination of denials exceeds the sixteen codes a decision may carry.
\<close>

theorem evaluate_total:
  assumes "request_validate q = Inr ()" "ge_policy_version ge \<noteq> 0"
    and "\<And>g. map_of (ge_grants ge) (aq_grant q, aq_grant_revision q) = Some g \<Longrightarrow>
      gr_valid_from g \<le> gr_valid_until g"
    and "\<And>g. \<exists>digest. ac_grant_digest codec g = Inr digest"
    and "\<And>d. \<exists>digest. ac_decision_digest codec d = Inr digest"
  shows "\<exists>d. evaluate codec ge q = Inr d"
  using assms by (rule evaluate_ok)

lemma evaluate_InrD:
  assumes "evaluate codec ge q = Inr d"
  shows "ad_request d = q"
    and "is_allowed d \<longleftrightarrow> (\<exists>g digest. map_of (ge_grants ge) (aq_grant q, aq_grant_revision q) = Some g
      \<and> ac_grant_digest codec g = Inr digest
      \<and> denial_reasons g digest (current_revocation ge g) q = [])"
proof -
  show "ad_request d = q"
    using assms by (auto simp add: evaluate_def res_simps Let_def split: option.splits dest: from_evaluation_InrD)
  show "is_allowed d \<longleftrightarrow> (\<exists>g digest. map_of (ge_grants ge) (aq_grant q, aq_grant_revision q) = Some g
      \<and> ac_grant_digest codec g = Inr digest
      \<and> denial_reasons g digest (current_revocation ge g) q = [])"
  proof (cases "map_of (ge_grants ge) (aq_grant q, aq_grant_revision q)")
    case None
    with assms have "ad_outcome d = Deny"
      by (auto simp add: evaluate_def res_simps derived_outcome_def dest!: from_evaluation_InrD(3)
          split: if_splits)
    with None show ?thesis by (simp add: is_allowed_def)
  next
    case (Some g)
    with assms obtain digest where digest: "ac_grant_digest codec g = Inr digest"
      and out: "ad_outcome d = derived_outcome (stable_codes
        (if denial_reasons g digest (current_revocation ge g) q = [] then [Allowed]
         else denial_reasons g digest (current_revocation ge g) q))"
      by (auto simp add: evaluate_def res_simps Let_def dest!: from_evaluation_InrD(3))
    with Some show ?thesis
      using derived_outcome_allow [OF Allowed_not_denial] by (simp add: is_allowed_def)
  qed
qed

text \<open>What a grant must say for a request, read positively.\<close>

definition grant_permits :: "authority_grant \<Rightarrow> string \<Rightarrow> u64 \<Rightarrow> authority_request \<Rightarrow> bool" where
  "grant_permits g digest current q \<longleftrightarrow> (let f = aq_resources q; r = gr_resources g in
    aq_grant_digest q = digest \<and> aq_actor q = gr_actor g
    \<and> aq_revocation_generation q = gr_revocation_generation g \<and> current = gr_revocation_generation g
    \<and> gr_valid_from g \<le> aq_evaluated_at q \<and> aq_evaluated_at q \<le> gr_valid_until g
    \<and> aq_operation q \<in> set (gr_operations g)
    \<and> (operation_uses_workflow_scope (aq_operation q) \<longrightarrow> workflow_scope_matches (rs_workflow_run r) f)
    \<and> \<not> capability_mismatch (rs_capability r) f \<and> \<not> placement_mismatch (rs_capability r) f
    \<and> (\<forall>e. rf_envelope f = Some e \<longrightarrow> scope_within e (rs_capability r))
    \<and> rf_side_effect f \<le> scope_side_effect (rs_capability r)
    \<and> (\<forall>p \<in> set (rf_filesystem f). \<exists>a \<in> set (rs_filesystem r). filesystem_contains a p)
    \<and> set (rf_network_profiles f) \<subseteq> set (ns_profiles (rs_network r))
    \<and> set (rf_network_destinations f) \<subseteq> set (ns_destinations (rs_network r))
    \<and> set (rf_secrets f) \<subseteq> set (rs_secrets r)
    \<and> (\<forall>a s. rf_artifact f = Some a \<and> rf_artifact_sensitivity f = Some s \<longrightarrow>
        artifact_scope_matches (rs_artifacts r) a s)
    \<and> (peer_operation (aq_operation q) \<longrightarrow> (\<exists>p. rf_peer f = Some p \<and> peer_scope_matches (rs_peers r) p))
    \<and> \<not> daemon_mismatch (rf_daemon f) (rs_daemon r)
    \<and> (\<forall>w. rf_workspace_scope f = Some w \<longrightarrow> workspace_scope_matches (rs_workspace r) w)
    \<and> fits_within (aq_budget q) (gr_budget g))"

lemma opt_any_iff: "opt_any P m \<longleftrightarrow> (\<exists>x. m = Some x \<and> P x)"
  by (cases m) simp_all

lemma opt_all_iff: "opt_all P m \<longleftrightarrow> (\<forall>x. m = Some x \<longrightarrow> P x)"
  by (cases m) simp_all

lemma denial_reasons_Nil: "denial_reasons g digest current q = [] \<longleftrightarrow> grant_permits g digest current q"
  unfolding denial_reasons_def grant_permits_def Let_def append_is_Nil_conv code_if_Nil
  by (auto simp add: opt_any_iff opt_all_iff list_all_iff list_ex_iff not_less split: option.splits)

text \<open>
  C11.  A decision allows a request exactly when the exact grant revision it names is known and
  every one of that grant's identity, freshness, operation, resource and budget scopes admits it.
\<close>

theorem evaluate_allows_exactly:
  assumes "evaluate codec ge q = Inr d"
  shows "is_allowed d \<longleftrightarrow> (\<exists>g digest. map_of (ge_grants ge) (aq_grant q, aq_grant_revision q) = Some g
    \<and> ac_grant_digest codec g = Inr digest \<and> grant_permits g digest (current_revocation ge g) q)"
  using evaluate_InrD(2) [OF assms] by (simp add: denial_reasons_Nil)


section \<open>Envelopes cover candidates\<close>

lemma selection_only_matches:
  "selection_only values = Inr v \<Longrightarrow> sel_matches v x \<longleftrightarrow> x \<in> set values"
  by (auto simp add: selection_only_def res_simps)

lemma reason_if_Nil [simp]: "reason_if b r = [] \<longleftrightarrow> \<not> b"
  by (simp add: reason_if_def)

lemma descriptor_matches_NilD:
  assumes "descriptor_matches d r = []"
  shows "\<exists>oc. map_of (cd_operations d) (rq_operation r) = Some oc \<and> oc_side_effect oc \<le> rq_maximum_side_effect r"
    and "rq_exact_capability r = Some c \<Longrightarrow> cd_identity d = c"
    and "rq_provider_profile r = Some p \<Longrightarrow> cd_provider_profile d = Some p"
    and "rq_categories r \<noteq> [] \<Longrightarrow> cd_category d \<in> set (rq_categories r)"
    and "rq_execution_trust r = Some t \<Longrightarrow> cd_execution_trust d = t"
    and "rq_placement r = Some l \<Longrightarrow> placement_matches l (cd_locality d) (cd_peer d)"
  using assms
  by (auto simp add: descriptor_matches_def operation_mismatches_def opt_any_iff not_less
      split: option.splits)

definition admits_candidate :: "capability_allow \<Rightarrow> capability_requirement \<Rightarrow> capability_descriptor \<Rightarrow> bool" where
  "admits_candidate a r d \<longleftrightarrow>
    sel_matches (cs_identities a) (cd_identity d) \<and> sel_matches (cs_categories a) (cd_category d)
    \<and> sel_matches (cs_operations a) (rq_operation r)
    \<and> (\<forall>p. cd_provider_profile d = Some p \<longrightarrow> sel_matches (cs_provider_profiles a) p)
    \<and> sel_matches (cs_execution_trust a) (cd_execution_trust d)
    \<and> sel_matches (cs_localities a) (cd_locality d)
    \<and> (\<forall>p. cd_peer d = Some p \<longrightarrow> sel_matches (cs_peers a) p)
    \<and> (rq_trust_zones r = [] \<longrightarrow> (\<forall>z \<in> set (cd_trust_zones d). sel_matches (cs_trust_zones a) z))
    \<and> (\<forall>oc. map_of (cd_operations d) (rq_operation r) = Some oc \<longrightarrow>
        oc_side_effect oc \<le> cs_maximum_side_effect a)"

lemma narrow_placement_admits:
  assumes "narrow_placement p b = Inr a" "placement_matches p (cd_locality d) (cd_peer d)"
    and "admits_candidate b r d"
  shows "admits_candidate a r d"
  using assms
  by (auto simp add: narrow_placement_def placement_matches_def admits_candidate_def res_simps
      selection_only_matches opt_any_iff split: option.splits)

lemmas narrow_simps = admits_candidate_def res_map_Inr_iff selection_only_matches

lemma requirement_envelope_admits:
  assumes "requirement_envelope r = Inr s" "descriptor_matches d r = []"
  obtains a where "s = CapAllow a" "admits_candidate a r d"
proof -
  note m = descriptor_matches_NilD [OF assms(2)]
  have "\<not> opt_any denies_all (rq_placement r)"
    using m(6) by (auto simp add: opt_any_iff denies_all_def placement_matches_def)
  with assms(1) obtain ops b1 b2 b3 b4 b5 a
    where ops: "selection_only [rq_operation r] = Inr ops"
      and b1: "(case rq_exact_capability r of
          None \<Rightarrow> Inr (allow_any_scope (rq_maximum_side_effect r)\<lparr>cs_operations := ops\<rparr>)
        | Some c \<Rightarrow> res_map (\<lambda>v. allow_any_scope (rq_maximum_side_effect r)
            \<lparr>cs_operations := ops, cs_identities := v\<rparr>) (selection_only [c])) = Inr b1"
      and b2: "(if rq_categories r = [] then Inr b1
        else res_map (\<lambda>v. b1\<lparr>cs_categories := v\<rparr>) (selection_only (rq_categories r))) = Inr b2"
      and b3: "(case rq_provider_profile r of None \<Rightarrow> Inr b2
        | Some q \<Rightarrow> res_map (\<lambda>v. b2\<lparr>cs_provider_profiles := v\<rparr>) (selection_only [q])) = Inr b3"
      and b4: "(if rq_trust_zones r = [] then Inr b3
        else res_map (\<lambda>v. b3\<lparr>cs_trust_zones := v\<rparr>) (selection_only (rq_trust_zones r))) = Inr b4"
      and b5: "(case rq_execution_trust r of None \<Rightarrow> Inr b4
        | Some t \<Rightarrow> res_map (\<lambda>v. b4\<lparr>cs_execution_trust := v\<rparr>) (selection_only [t])) = Inr b5"
      and a: "(case rq_placement r of None \<Rightarrow> Inr b5 | Some p \<Rightarrow> narrow_placement p b5) = Inr a"
      and s: "s = CapAllow a"
    unfolding requirement_envelope_def Let_def res_bind_Inr_iff if_False by (force simp only: if_False res_bind_Inr_iff sum.inject)
  have "admits_candidate b1 r d"
    using b1 ops m(1,2) by (auto simp add: narrow_simps allow_any_scope_def split: option.splits)
  then have "admits_candidate b2 r d"
    using b2 m(4) by (auto simp add: narrow_simps split: if_splits)
  then have "admits_candidate b3 r d"
    using b3 m(3) by (auto simp add: narrow_simps split: option.splits)
  then have "admits_candidate b4 r d"
    using b4 by (auto simp add: narrow_simps split: if_splits)
  then have ab: "admits_candidate b5 r d"
    using b5 m(5) by (auto simp add: narrow_simps split: option.splits)
  have "admits_candidate a r d"
    using a ab narrow_placement_admits [OF _ m(6) ab] by (cases "rq_placement r") simp_all
  with s that show thesis by blast
qed

lemma scope_within_admits:
  assumes "scope_within (CapAllow a) (CapAllow g)" "admits_candidate a r d"
  shows "admits_candidate g r d"
  using assms by (auto simp add: admits_candidate_def intro: sel_subset_matches)

text \<open>
  C31.  Authority checked on a requirement's envelope before resolution covers resolution: if a
  grant's scope contains the envelope, it admits the identity, category, operation, profile, trust
  class, placement and side effect of every descriptor that matches the requirement.
\<close>

theorem envelope_covers_candidates:
  assumes "requirement_envelope r = Inr s" "scope_within s granted" "descriptor_matches d r = []"
  shows "\<exists>g. granted = CapAllow g \<and> admits_candidate g r d"
proof -
  from assms(1,3) obtain a where a: "s = CapAllow a" "admits_candidate a r d"
    by (rule requirement_envelope_admits)
  with assms(2) obtain g where "granted = CapAllow g" by (cases granted) auto
  with assms(2) a scope_within_admits show ?thesis by blast
qed

section \<open>Revocation and execution bases\<close>

lemma index_grant_keys:
  assumes "res_fold index_grant grants [] = Inr m"
  shows "bm_wf m \<and> (\<forall>k g. map_of m k = Some g \<longrightarrow> k = (gr_identity g, gr_revision g))"
  using assms
  by (rule res_fold_invariant) (auto simp add: index_grant_def Let_def split: if_splits)

text \<open>
  C32.  Once a revocation generation other than the one a request pins is recorded for its grant,
  the evaluator allows nothing under that request's grant.
\<close>

theorem revoked_denies:
  assumes "grant_set_new policy version grants revocations = Inr ge"
    and "map_of revocations (aq_grant q) = Some n" "n \<noteq> aq_revocation_generation q"
    and "evaluate codec ge q = Inr d"
  shows "\<not> is_allowed d"
proof
  assume "is_allowed d"
  with evaluate_InrD(2) [OF assms(4)] obtain g digest
    where g: "map_of (ge_grants ge) (aq_grant q, aq_grant_revision q) = Some g"
      and "denial_reasons g digest (current_revocation ge g) q = []"
    by blast
  then have p: "grant_permits g digest (current_revocation ge g) q" by (simp add: denial_reasons_Nil)
  from assms(1) have "gr_identity g = aq_grant q" "ge_revocations ge = revocations"
    using g index_grant_keys [of grants "ge_grants ge"] by (auto simp add: grant_set_new_def res_simps)
  with assms(2) have "current_revocation ge g = n" by (simp add: current_revocation_def)
  with p assms(3) show False by (simp add: grant_permits_def Let_def)
qed

lemma from_start_decision_InrD:
  assumes "from_start_decision codec d workflow run revision = Inr b"
  shows "is_allowed d" "aq_operation (ad_request d) = StartRun" "eb_actor b = aq_actor (ad_request d)"
    "eb_grant b = aq_grant (ad_request d)" "eb_grant_revision b = aq_grant_revision (ad_request d)"
    "eb_grant_digest b = aq_grant_digest (ad_request d)"
    "eb_revocation_generation b = aq_revocation_generation (ad_request d)"
    "eb_workflow b = workflow" "eb_root_run b = run" "basis_validate codec b = Inr ()"
  using assms by (auto simp add: from_start_decision_def Let_def res_simps)

text \<open>
  C33.  A later request made through an execution basis can only be allowed by the very grant,
  digest, actor and revocation generation of the start decision, and a workflow-scoped operation
  only for the basis's own workflow and run, whatever resources the caller names.
\<close>

theorem basis_stays_pinned:
  assumes "from_start_decision codec start workflow run revision = Inr b"
    and "evaluate codec ge (basis_request b decision oper facts budget now provenance) = Inr d"
    and "is_allowed d"
  shows "\<exists>g. map_of (ge_grants ge) (aq_grant (ad_request start), aq_grant_revision (ad_request start)) = Some g
    \<and> ac_grant_digest codec g = Inr (aq_grant_digest (ad_request start))
    \<and> gr_actor g = aq_actor (ad_request start)
    \<and> current_revocation ge g = aq_revocation_generation (ad_request start)
    \<and> oper \<in> set (gr_operations g)
    \<and> (operation_uses_workflow_scope oper \<longrightarrow> workflow_scope_matches (rs_workflow_run (gr_resources g))
        (facts\<lparr>rf_workflow := Some workflow, rf_run := Some run\<rparr>))"
proof -
  let ?q = "basis_request b decision oper facts budget now provenance"
  note b = from_start_decision_InrD [OF assms(1)]
  from evaluate_InrD(2) [OF assms(2)] assms(3) obtain g digest
    where g: "map_of (ge_grants ge) (aq_grant ?q, aq_grant_revision ?q) = Some g"
      and digest: "ac_grant_digest codec g = Inr digest"
      and p: "grant_permits g digest (current_revocation ge g) ?q"
    by (auto simp add: denial_reasons_Nil)
  from p have "aq_grant_digest ?q = digest" "aq_actor ?q = gr_actor g"
    "current_revocation ge g = aq_revocation_generation ?q" "aq_operation ?q \<in> set (gr_operations g)"
    "operation_uses_workflow_scope (aq_operation ?q) \<longrightarrow>
      workflow_scope_matches (rs_workflow_run (gr_resources g)) (aq_resources ?q)"
    by (simp_all add: grant_permits_def Let_def)
  with g digest b show ?thesis by (intro exI [of _ g]) (simp add: basis_request_def)
qed


section \<open>Concrete grants\<close>

definition sample_grant :: authority_grant where
  "sample_grant = \<lparr>gr_schema_version = 5, gr_identity = ''g'', gr_revision = 1, gr_actor = ''ai'',
    gr_operations = [StartRun, InvokeCapability],
    gr_resources = \<lparr>rs_workflow_run = OneWorkflow ''w'', rs_capability = CapAllow (allow_any_scope UnknownEffect),
      rs_filesystem = [], rs_network = \<lparr>ns_profiles = [], ns_destinations = []\<rparr>, rs_secrets = [],
      rs_artifacts = ArtifactDenyAll, rs_peers = \<lparr>ps_identities = [], ps_allow_any = False\<rparr>,
      rs_daemon = no_daemon_scope, rs_workspace = \<lparr>ws_scopes = [], ws_allow_any_in_run = False\<rparr>\<rparr>,
    gr_budget = default_budget, gr_valid_from = 0, gr_valid_until = 100,
    gr_revocation_generation = 3, gr_extensions = []\<rparr>"

definition sample_digest :: string where
  "sample_digest = ''b3_'' @ replicate 64 (CHR ''a'')"

definition sample_authority_codec :: authority_codec where
  "sample_authority_codec = \<lparr>ac_grant_digest = (\<lambda>_. Inr sample_digest),
    ac_decision_digest = (\<lambda>_. Inr sample_digest), ac_basis_digest = (\<lambda>_. Inr sample_digest)\<rparr>"

definition sample_request :: "authority_operation \<Rightarrow> u64 \<Rightarrow> authority_request" where
  "sample_request oper now = \<lparr>aq_decision = ''d'', aq_actor = ''ai'', aq_grant = ''g'',
    aq_grant_revision = 1, aq_grant_digest = sample_digest, aq_revocation_generation = 3,
    aq_operation = oper, aq_resources = empty_facts\<lparr>rf_workflow := Some ''w''\<rparr>,
    aq_budget = default_budget, aq_evaluated_at = now, aq_provenance = no_provenance\<rparr>"

definition sample_grants :: "(grant_id, u64) bmap \<Rightarrow> grant_set" where
  "sample_grants revocations = \<lparr>ge_policy = ''p'', ge_policy_version = 1,
    ge_grants = [((''g'', 1), sample_grant)], ge_revocations = revocations\<rparr>"

lemma sample_request_valid: "request_validate (sample_request oper now) = Inr ()"
  by (simp add: request_validate_def sample_request_def provenance_validate_def no_provenance_def
      facts_validate_def empty_facts_def MAX_SCOPE_ITEMS_def network_new_def)

lemma sample_grants_new:
  "grant_set_new ''p'' 1 [sample_grant] revocations = Inr (sample_grants revocations)"
  by (simp add: grant_set_new_def index_grant_def sample_grants_def sample_grant_def)

lemma sample_codec_total:
  "\<exists>digest. ac_grant_digest sample_authority_codec g = Inr digest"
  "\<exists>digest. ac_decision_digest sample_authority_codec d = Inr digest"
  by (simp_all add: sample_authority_codec_def)

lemma sample_evaluates:
  "\<exists>d. evaluate sample_authority_codec (sample_grants revocations) (sample_request oper now) = Inr d"
  by (rule evaluate_ok [OF sample_request_valid _ _ sample_codec_total])
    (auto simp add: sample_grants_def sample_grant_def split: if_splits)

lemma sample_permits:
  "now \<le> 100 \<Longrightarrow> oper \<in> {StartRun, InvokeCapability} \<Longrightarrow>
    grant_permits sample_grant sample_digest 3 (sample_request oper now)"
  by (auto simp add: grant_permits_def sample_grant_def sample_request_def empty_facts_def
      capability_mismatch_def placement_mismatch_def daemon_mismatch_def no_daemon_scope_def
      allow_any_scope_def peer_operation_def fits_within_def within_def default_budget_def
      less_eq_side_effect_class_def)

theorem evaluate_total_witness:
  "\<exists>d. evaluate sample_authority_codec (sample_grants []) (sample_request DrainDaemon 5) = Inr d"
  by (rule evaluate_total [OF sample_request_valid _ _ sample_codec_total])
    (auto simp add: sample_grants_def sample_grant_def split: if_splits)

theorem evaluate_allows_exactly_witness:
  "\<exists>d. evaluate sample_authority_codec (sample_grants []) (sample_request StartRun 5) = Inr d \<and> is_allowed d"
proof -
  obtain d where d: "evaluate sample_authority_codec (sample_grants []) (sample_request StartRun 5) = Inr d"
    using sample_evaluates by blast
  have "current_revocation (sample_grants []) sample_grant = 3"
    by (simp add: current_revocation_def sample_grants_def sample_grant_def)
  moreover have "map_of (ge_grants (sample_grants []))
      (aq_grant (sample_request StartRun 5), aq_grant_revision (sample_request StartRun 5)) = Some sample_grant"
    by (simp add: sample_grants_def sample_request_def)
  moreover have "ac_grant_digest sample_authority_codec sample_grant = Inr sample_digest"
    by (simp add: sample_authority_codec_def)
  ultimately have "is_allowed d"
    using evaluate_allows_exactly [OF d] sample_permits [of 5 StartRun] by simp
  with d show ?thesis by blast
qed

theorem revoked_denies_witness:
  "\<exists>d. evaluate sample_authority_codec (sample_grants [(''g'', 4)]) (sample_request StartRun 5) = Inr d
    \<and> \<not> is_allowed d"
proof -
  obtain d where d: "evaluate sample_authority_codec (sample_grants [(''g'', 4)]) (sample_request StartRun 5) = Inr d"
    using sample_evaluates by blast
  have "\<not> is_allowed d"
    by (rule revoked_denies [OF sample_grants_new _ _ d, of 4]) (simp_all add: sample_request_def)
  with d show ?thesis by blast
qed

lemma sample_start:
  "\<exists>start b. evaluate sample_authority_codec (sample_grants []) (sample_request StartRun 5) = Inr start
    \<and> from_start_decision sample_authority_codec start ''w'' ''r'' ''rev'' = Inr b"
proof -
  obtain start where start: "evaluate sample_authority_codec (sample_grants []) (sample_request StartRun 5) = Inr start"
    using sample_evaluates by blast
  have m: "map_of (ge_grants (sample_grants []))
      (aq_grant (sample_request StartRun 5), aq_grant_revision (sample_request StartRun 5)) = Some sample_grant"
    by (simp add: sample_grants_def sample_request_def)
  have c: "current_revocation (sample_grants []) sample_grant = 3"
    by (simp add: current_revocation_def sample_grants_def sample_grant_def)
  have r: "denial_reasons sample_grant sample_digest 3 (sample_request StartRun 5) = []"
    using sample_permits [of 5 StartRun] by (simp add: denial_reasons_Nil)
  from start have "is_allowed start" "ad_digest start = sample_digest" "ad_policy_version start = 1"
    "ad_request start = sample_request StartRun 5"
    using m c r
    by (auto simp add: evaluate_def sample_request_valid sample_authority_codec_def from_evaluation_def
        Let_def is_allowed_def derived_outcome_def MAX_DIAGNOSTIC_CODES_def sample_grants_def)
  moreover have "is_canonical_blake3_digest sample_digest"
    by (simp add: is_canonical_blake3_digest_def sample_digest_def list_all_iff byte_def)
  ultimately show ?thesis
    using start by (auto simp add: from_start_decision_def basis_validate_def sample_authority_codec_def
        sample_request_def Let_def)
qed

lemma sample_later_request:
  assumes "evaluate sample_authority_codec (sample_grants []) (sample_request StartRun 5) = Inr start"
    and "from_start_decision sample_authority_codec start ''w'' ''r'' ''rev'' = Inr b"
  shows "\<exists>d. evaluate sample_authority_codec (sample_grants [])
      (basis_request b ''d2'' InvokeCapability empty_facts default_budget 6 no_provenance) = Inr d \<and> is_allowed d"
proof -
  let ?q = "basis_request b ''d2'' InvokeCapability empty_facts default_budget 6 no_provenance"
  have q: "?q = sample_request InvokeCapability 6
      \<lparr>aq_decision := ''d2'', aq_resources := empty_facts\<lparr>rf_workflow := Some ''w'', rf_run := Some ''r''\<rparr>\<rparr>"
    using from_start_decision_InrD [OF assms(2)] evaluate_InrD(1) [OF assms(1)]
    by (simp add: basis_request_def sample_request_def)
  have "request_validate ?q = Inr ()"
    unfolding q by (simp add: request_validate_def sample_request_def provenance_validate_def no_provenance_def
        facts_validate_def empty_facts_def MAX_SCOPE_ITEMS_def network_new_def)
  then have "\<exists>d. evaluate sample_authority_codec (sample_grants []) ?q = Inr d"
    by (rule evaluate_ok [OF _ _ _ sample_codec_total]) (auto simp add: sample_grants_def sample_grant_def split: if_splits)
  then obtain d where d: "evaluate sample_authority_codec (sample_grants []) ?q = Inr d" by blast
  have "map_of (ge_grants (sample_grants [])) (aq_grant ?q, aq_grant_revision ?q) = Some sample_grant"
    "ac_grant_digest sample_authority_codec sample_grant = Inr sample_digest"
    "current_revocation (sample_grants []) sample_grant = 3"
    unfolding q by (simp_all add: sample_grants_def sample_request_def sample_authority_codec_def
        current_revocation_def sample_grant_def)
  moreover have "grant_permits sample_grant sample_digest 3 ?q"
    unfolding q by (simp add: grant_permits_def sample_grant_def sample_request_def empty_facts_def
      capability_mismatch_def placement_mismatch_def daemon_mismatch_def no_daemon_scope_def
      allow_any_scope_def peer_operation_def fits_within_def within_def default_budget_def
      less_eq_side_effect_class_def)
  ultimately have "is_allowed d"
    using evaluate_InrD(2) [OF d] by (simp add: denial_reasons_Nil)
  with d show ?thesis by blast
qed

theorem basis_stays_pinned_witness:
  "\<exists>start b d. from_start_decision sample_authority_codec start ''w'' ''r'' ''rev'' = Inr b
    \<and> evaluate sample_authority_codec (sample_grants [])
      (basis_request b ''d2'' InvokeCapability empty_facts default_budget 6 no_provenance) = Inr d
    \<and> is_allowed d
    \<and> (\<exists>g. map_of (ge_grants (sample_grants [])) (aq_grant (ad_request start), aq_grant_revision (ad_request start)) = Some g
        \<and> InvokeCapability \<in> set (gr_operations g))"
proof -
  obtain start b where start: "evaluate sample_authority_codec (sample_grants []) (sample_request StartRun 5) = Inr start"
    and b: "from_start_decision sample_authority_codec start ''w'' ''r'' ''rev'' = Inr b"
    using sample_start by blast
  obtain d where d: "evaluate sample_authority_codec (sample_grants [])
      (basis_request b ''d2'' InvokeCapability empty_facts default_budget 6 no_provenance) = Inr d" "is_allowed d"
    using sample_later_request [OF start b] by blast
  from basis_stays_pinned [OF b d] b d show ?thesis by blast
qed

definition sample_operation :: operation_contract where
  "sample_operation = \<lparr>oc_input = \<lparr>sch_id = ''a.in'', sch_version = 1, sch_schema = JNull\<rparr>,
    oc_output = \<lparr>sch_id = ''a.out'', sch_version = 1, sch_schema = JNull\<rparr>, oc_streaming = [StreamNone],
    oc_cancellation = BestEffort, oc_idempotency = CapabilityScoped, oc_side_effect = ReadOnly,
    oc_features = []\<rparr>"

definition sample_descriptor :: capability_descriptor where
  "sample_descriptor = \<lparr>cd_identity = ''local-model'', cd_revision = 1, cd_provider_profile = Some ''p'',
    cd_category = Model, cd_operations = [(''model.generate'', sample_operation)],
    cd_admission = \<lparr>max_concurrent = 1, max_queued = 0\<rparr>, cd_locality = LocalHost, cd_peer = None,
    cd_trust_zones = [''lan''], cd_execution_trust = TrustUnspecified, cd_resources = None,
    cd_labels = [], cd_extensions = []\<rparr>"

theorem envelope_covers_candidates_witness:
  "\<exists>g. CapAllow (allow_any_scope UnknownEffect) = CapAllow g
    \<and> admits_candidate g (requirement_new ''model.generate'') sample_descriptor"
proof -
  obtain s where s: "requirement_envelope (requirement_new ''model.generate'') = Inr s"
    "scope_within s (CapAllow (allow_any_scope UnknownEffect))"
    by (auto simp add: requirement_envelope_def requirement_new_def selection_only_def validate_count_def
        MAX_SELECTION_ITEMS_def Let_def allow_any_scope_def)
  have "descriptor_matches sample_descriptor (requirement_new ''model.generate'') = []"
    by (simp add: descriptor_matches_def requirement_new_def sample_descriptor_def
        operation_mismatches_def sample_operation_def less_side_effect_class_def reason_if_def)
  with s show ?thesis by (rule envelope_covers_candidates)
qed

end
