(* ===== verification/Ports.thy ===== *)
theory Ports
  imports Authority
begin

text \<open>
  The persistence port of \<^verbatim>\<open>crates/persistence/src\<close> (\<^verbatim>\<open>identity.rs\<close>,
  \<^verbatim>\<open>error.rs\<close>, \<^verbatim>\<open>task.rs\<close>), the runtime's error type
  (\<^verbatim>\<open>crates/runtime/src/error.rs\<close>) and its identity generator
  (\<^verbatim>\<open>crates/runtime/src/boundary.rs\<close>).  The type of stored documents is a parameter: the
  store never reads them.  The theorem on the generator shows that its texts name their kind and
  counter value uniquely.
\<close>

section \<open>Persistence vocabulary\<close>

datatype storage_failure_class =
    CorruptionClass | UnavailableClass | OwnerBusyClass | MigrationClass | ResourceExhaustedClass
  | InternalClass

datatype persistence_error =
    DaemonGenerationConflict u64 u64
  | DaemonIdempotencyConflict actor_ref string
  | WorkflowGenerationConflict workflow_id "u64 option" "u64 option"
  | WorkflowIdempotencyConflict string string
  | StoreInvalidIdentity string string
  | InvalidDigest string
  | StoreBounds string string
  | InvalidDocument string
  | StoreJson string
  | StoreUnsupportedVersion string u32 u32
  | Corruption string
  | ImmutableConflict string string
  | NotFound string string
  | InvalidCursor string
  | ArtifactNotCommitted string
  | WorkspaceUsageConflict run_id
  | ArtifactAccessDenied string
  | SequenceOverflow
  | MigrationRequired u32 u32
  | Storage storage_failure_class string

definition store_validate_identity :: "string \<Rightarrow> string \<Rightarrow> persistence_error + unit" where
  "store_validate_identity s kind =
    (if s = [] \<or> 192 < length s
     then Inl (StoreInvalidIdentity kind (''length must be between 1 and '' @ dec 192 @ '' bytes''))
     else ensure (is_ascii s \<and> first_alphanumeric s \<and> list_all id_char s)
       (StoreInvalidIdentity kind
         (''must start with an ASCII alphanumeric and contain only alphanumerics, ''
          @ [CHR 0x27] @ ''-'' @ [CHR 0x27] @ '', '' @ [CHR 0x27] @ ''_'' @ [CHR 0x27] @ '', ''
          @ [CHR 0x27] @ ''.'' @ [CHR 0x27] @ '', '' @ [CHR 0x27] @ '':'' @ [CHR 0x27] @ '', or ''
          @ [CHR 0x27] @ ''/'' @ [CHR 0x27])))"

type_synonym execution_id = string
type_synonym attempt_id = string
type_synonym lease_id = string


section \<open>Workflow snapshots and receipts\<close>

definition "MAX_WORKFLOW_DOCUMENT_BYTES = (268435456 :: nat)"
definition "MAX_WORKFLOW_REQUEST_BYTES = (1048576 :: nat)"

record managed_execution =
  me_task :: task_id
  me_invocation :: invocation_id
  me_accepted_generation :: u64
  me_selection :: resolved_snapshot
  me_entered :: bool
  me_settled :: bool

record 'doc workflow_snapshot =
  ss_workflow :: workflow_id
  ss_generation :: u64
  ss_title :: string
  ss_description :: string
  ss_owner_actor :: string
  ss_updated_at :: timestamp
  ss_document :: 'doc
  ss_entered_invocations :: "invocation_id list"
  ss_managed_executions :: "managed_execution list"
  ss_artifact_capacity :: u64
  ss_reserved_bytes :: u64
  ss_reserved_receipts :: u32

record command_acceptance =
  cm_actor :: string
  cm_key :: string
  cm_reserved_action :: "string option"
  cm_canonical_request :: string
  cm_result :: json

record command_receipt =
  rc_workflow :: workflow_id
  rc_generation :: u64
  rc_acceptance :: command_acceptance

record 'doc workflow_commit =
  wc_expected_generation :: "u64 option"
  wc_snapshot :: "'doc workflow_snapshot"
  wc_command :: "command_acceptance option"

datatype commit_outcome = Applied "command_receipt option" | Replay command_receipt

record 'doc workflow_page =
  pg_items :: "'doc workflow_snapshot list"
  pg_next :: "string option"

record workflow_storage_limits =
  sl_history_bytes :: u64
  sl_receipt_bytes :: u64
  sl_receipt_entries :: u32

definition default_storage_limits :: workflow_storage_limits where
  "default_storage_limits = \<lparr>sl_history_bytes = 1073741824, sl_receipt_bytes = 268435456,
    sl_receipt_entries = 100000\<rparr>"


section \<open>The contract of a workflow store\<close>

text \<open>What a commit that took effect did: the caller's expected generation was the stored one, the
  new one is its successor, and exactly this workflow's snapshot was replaced.\<close>

definition swapped ::
  "('s \<Rightarrow> workflow_id \<Rightarrow> 'doc workflow_snapshot option) \<Rightarrow> 'doc workflow_commit \<Rightarrow> 's \<Rightarrow> 's \<Rightarrow> bool" where
  "swapped lookup c s s' \<longleftrightarrow>
    map_option ss_generation (lookup s (ss_workflow (wc_snapshot c))) = wc_expected_generation c
    \<and> unat (ss_generation (wc_snapshot c)) = Suc (case wc_expected_generation c of None \<Rightarrow> 0 | Some g \<Rightarrow> unat g)
    \<and> lookup s' = (lookup s)(ss_workflow (wc_snapshot c) \<mapsto> wc_snapshot c)"

text \<open>
  The \<^verbatim>\<open>WorkflowStore\<close> port as its clients rely on it.  The first argument of a commit stands for
  everything outside the store that decides its outcome.  A refused commit may still have taken
  effect: its reply can be lost after the transaction.
\<close>

locale workflow_port =
  fixes lookup :: "'s \<Rightarrow> workflow_id \<Rightarrow> 'doc workflow_snapshot option"
    and commit :: "'o \<Rightarrow> 'doc workflow_commit \<Rightarrow> 's \<Rightarrow> (persistence_error + commit_outcome) \<times> 's"
    and invar :: "'s \<Rightarrow> bool"
  assumes commit_invar: "invar s \<Longrightarrow> commit x c s = (r, s') \<Longrightarrow> invar s'"
    and commit_applied: "invar s \<Longrightarrow> commit x c s = (Inr (Applied receipt), s') \<Longrightarrow> swapped lookup c s s'"
    and commit_replay: "invar s \<Longrightarrow> commit x c s = (Inr (Replay receipt'), s') \<Longrightarrow> s' = s"
    and commit_refused: "invar s \<Longrightarrow> commit x c s = (Inl e, s') \<Longrightarrow> s' = s \<or> swapped lookup c s s'"
begin

lemma commit_cases:
  assumes "invar s" and "commit x c s = (r, s')"
  shows "s' = s \<or> swapped lookup c s s'"
  using assms commit_applied commit_replay commit_refused
  by (cases r) (metis, metis commit_outcome.exhaust)

lemma generation_grows:
  assumes "invar s" and "commit x c s = (r, s')" and "lookup s w = Some p"
  shows "\<exists>p'. lookup s' w = Some p' \<and> ss_generation p \<le> ss_generation p'"
  using commit_cases [OF assms(1,2)]
proof
  assume sw: "swapped lookup c s s'"
  show ?thesis
  proof (cases "w = ss_workflow (wc_snapshot c)")
    case True
    then have "unat (ss_generation (wc_snapshot c)) = Suc (unat (ss_generation p))"
      using sw assms(3) by (auto simp add: swapped_def split: option.splits)
    then show ?thesis using sw True by (simp add: swapped_def word_order_nat)
  next
    case False
    then show ?thesis using sw assms(3) by (simp add: swapped_def)
  qed
qed (use assms(3) in simp)

lemma reach_grows:
  assumes "(\<lambda>s s'. \<exists>x c. s' = snd (commit x c s))\<^sup>*\<^sup>* s s'" and "invar s" and "lookup s w = Some p"
  shows "invar s' \<and> (\<exists>p'. lookup s' w = Some p' \<and> ss_generation p \<le> ss_generation p')"
  using assms(1)
proof (induction rule: rtranclp_induct)
  case base
  then show ?case using assms(2,3) by simp
next
  case (step t t')
  then obtain x c p' where c: "t' = snd (commit x c t)" "invar t" "lookup t w = Some p'"
    "ss_generation p \<le> ss_generation p'" by blast
  then have "invar t'" using commit_invar by (metis surj_pair snd_conv)
  moreover obtain p'' where "lookup t' w = Some p''" "ss_generation p' \<le> ss_generation p''"
    using generation_grows [OF c(2) _ c(3), of x c _ t'] c(1) by (metis surj_pair snd_conv)
  ultimately show ?case using c(4) by (metis order_trans)
qed

lemma one_winner:
  assumes "invar s" and "commit x c s = (Inr (Applied a), s1)"
    and "(\<lambda>s s'. \<exists>x c. s' = snd (commit x c s))\<^sup>*\<^sup>* s1 s2"
    and "ss_workflow (wc_snapshot d) = ss_workflow (wc_snapshot c)"
    and "wc_expected_generation d = wc_expected_generation c"
  shows "commit y d s2 \<noteq> (Inr (Applied b), s3)"
proof
  assume d: "commit y d s2 = (Inr (Applied b), s3)"
  let ?w = "ss_workflow (wc_snapshot c)"
  have c: "swapped lookup c s s1" using commit_applied assms(1,2) .
  have "invar s1" using commit_invar assms(1,2) .
  moreover have "lookup s1 ?w = Some (wc_snapshot c)" using c by (simp add: swapped_def)
  ultimately obtain p where p: "invar s2" "lookup s2 ?w = Some p" "ss_generation (wc_snapshot c) \<le> ss_generation p"
    using reach_grows assms(3) by blast
  have "swapped lookup d s2 s3" using commit_applied p(1) d .
  then have "wc_expected_generation c = Some (ss_generation p)"
    using assms(4,5) p(2) by (auto simp add: swapped_def)
  then have "unat (ss_generation (wc_snapshot c)) = Suc (unat (ss_generation p))"
    using c by (simp add: swapped_def)
  then show False using p(3) by (simp add: word_order_nat)
qed

end


section \<open>Executor and runtime errors\<close>

datatype executor_error =
    InvalidDispatch string
  | ResolutionMismatch "string list"
  | AuthorityDenied "decision_reason list" authority_decision
  | UnavailableGeneration capability_id u64
  | Unavailable string
  | CapacityUnavailable string
  | Overloaded string
  | AdmissionClosed
  | BoundaryBeforeEntry string
  | BoundaryAfterEntry string
  | BoundaryAfterResponse string
  | AdapterPanicked bool
  | Boundary string
  | InvalidReports string
  | ExecContract contract_error

datatype runtime_error =
    RtAuthority authority_error
  | AuthorizationDenied string "decision_reason list"
  | InvalidCommand string
  | InvalidHistory string
  | InvalidTransition string
  | Scheduling string
  | RtJson string
  | RtPersistence persistence_error
  | RtExecutor executor_error


section \<open>Identity generation\<close>

record id_generator =
  ig_prefix :: string
  ig_next :: u64

definition safe_id_text :: "string \<Rightarrow> bool" where
  "safe_id_text s \<longleftrightarrow> list_all (\<lambda>c. is_ascii_alphanumeric c \<or> c \<in> set ''-_'') s"

definition sequential_new :: "string \<Rightarrow> u64 \<Rightarrow> runtime_error + id_generator" where
  "sequential_new pre first =
    (if pre = [] \<or> 64 < length pre \<or> \<not> is_ascii pre \<or> \<not> first_alphanumeric pre \<or> \<not> safe_id_text pre
     then Inl (InvalidCommand ''ID generator prefix must be 1..=64 safe ASCII bytes'')
     else Inr \<lparr>ig_prefix = pre, ig_next = first\<rparr>)"

text \<open>\<^verbatim>\<open>try_update\<close> stores the successor and yields the previous value.\<close>

definition sequential_next :: "string \<Rightarrow> id_generator \<Rightarrow> (runtime_error + string) \<times> id_generator" where
  "sequential_next kind g =
    (if kind = [] \<or> \<not> safe_id_text kind
     then (Inl (InvalidCommand ''ID kind must be safe ASCII identity text''), g)
     else (case checked_add (ig_next g) 1 of
        None \<Rightarrow> (Inl (InvalidTransition ''ID counter overflow''), g)
      | Some n \<Rightarrow> (Inr (ig_prefix g @ ''-'' @ kind @ ''-'' @ dec (unat (ig_next g))), g\<lparr>ig_next := n\<rparr>)))"

primrec sequential_run :: "string list \<Rightarrow> id_generator \<Rightarrow> (runtime_error + string) list" where
  "sequential_run [] g = []"
| "sequential_run (kind # kinds) g =
    (case sequential_next kind g of (r, g') \<Rightarrow> r # sequential_run kinds g')"

lemma last_segment:
  assumes "x @ c # d = y @ c # d'" and "c \<notin> set d" and "c \<notin> set d'"
  shows "d = d'"
proof -
  have tw: "takeWhile (\<lambda>b. b \<noteq> c) (rev (z @ c # e)) = rev e" if "c \<notin> set e" for z e
    using that by (simp add: takeWhile_append)
  have "rev d = rev d'" using tw [OF assms(2), of x] tw [OF assms(3), of y] assms(1) by simp
  then show ?thesis by simp
qed

lemma dash_not_digit: "CHR ''-'' \<notin> set (dec n)"
  by (auto dest!: dec_digits simp add: text_eval)

lemma sequential_text_inject:
  assumes "p @ ''-'' @ k @ ''-'' @ dec m = q @ ''-'' @ l @ ''-'' @ dec n"
  shows "m = n"
proof -
  have "(p @ ''-'' @ k) @ CHR ''-'' # dec m = (q @ ''-'' @ l) @ CHR ''-'' # dec n"
    using assms by simp
  then have "dec m = dec n" by (rule last_segment) (simp_all add: dash_not_digit)
  then show ?thesis by simp
qed

lemma sequential_next_cases:
  assumes "sequential_next kind g = (r, g')"
  shows "unat (ig_next g) \<le> unat (ig_next g')"
    and "r = Inr t \<Longrightarrow> \<exists>p. t = p @ ''-'' @ kind @ ''-'' @ dec (unat (ig_next g))
      \<and> unat (ig_next g') = Suc (unat (ig_next g))"
  using assms
  by (auto simp add: sequential_next_def wrap_simps split: if_splits option.splits)

lemma sequential_run_counter:
  assumes "sequential_run kinds g ! j = Inr t" and "j < length kinds"
  shows "\<exists>p k n. t = p @ ''-'' @ k @ ''-'' @ dec n \<and> unat (ig_next g) \<le> n"
  using assms
proof (induction kinds arbitrary: g j)
  case (Cons kind kinds)
  obtain r g' where step: "sequential_next kind g = (r, g')" by (cases "sequential_next kind g")
  show ?case
  proof (cases j)
    case 0
    with Cons.prems step have "r = Inr t" by simp
    then show ?thesis using sequential_next_cases(2) [OF step] by blast
  next
    case (Suc i)
    then have "sequential_run kinds g' ! i = Inr t" "i < length kinds"
      using Cons.prems step by simp_all
    from Cons.IH [OF this] show ?thesis
      using sequential_next_cases(1) [OF step] order_trans by blast
  qed
qed simp

text \<open>
  Identities drawn from one sequential generator never repeat: whatever kinds are asked for, in
  whatever order, and however many requests in between are refused, two successful requests of one
  run return different texts.
\<close>

theorem sequential_ids_distinct:
  assumes "i < j" and "j < length kinds"
    and "sequential_run kinds g ! i = Inr a" and "sequential_run kinds g ! j = Inr b"
  shows "a \<noteq> b"
  using assms
proof (induction kinds arbitrary: g i j)
  case (Cons kind kinds)
  obtain r g' where step: "sequential_next kind g = (r, g')" by (cases "sequential_next kind g")
  obtain j' where j: "j = Suc j'" using Cons.prems(1) by (cases j) simp_all
  show ?case
  proof (cases i)
    case 0
    then have "r = Inr a" using Cons.prems step by simp
    then obtain p where a: "a = p @ ''-'' @ kind @ ''-'' @ dec (unat (ig_next g))"
      "unat (ig_next g') = Suc (unat (ig_next g))" using sequential_next_cases(2) [OF step] by blast
    have "sequential_run kinds g' ! j' = Inr b" "j' < length kinds"
      using Cons.prems step j by simp_all
    then obtain q k n where b: "b = q @ ''-'' @ k @ ''-'' @ dec n" "unat (ig_next g') \<le> n"
      using sequential_run_counter by blast
    have "unat (ig_next g) \<noteq> n" using a(2) b(2) by simp
    then show ?thesis using a(1) b(1) sequential_text_inject by blast
  next
    case (Suc i')
    then show ?thesis using Cons.IH [of i' j' g'] Cons.prems step j by simp
  qed
qed simp

theorem sequential_ids_distinct_witness:
  "''n-task-7'' \<noteq> ''n-lease-8''"
  by (rule sequential_ids_distinct [of 0 2 "[''task'', [], ''lease'']" "\<lparr>ig_prefix = ''n'', ig_next = 7\<rparr>"])
    (simp_all add: sequential_next_def safe_id_text_def text_eval checked_add_def dec.simps char_of_def bit_0)

end
