(* ===== verification/Workspace.thy ===== *)
theory Workspace
  imports Authority
begin

text \<open>
  The workspace contracts of \<^verbatim>\<open>crates/workspace/src\<close>: identities and value versions
  (\<^verbatim>\<open>identity.rs\<close>), content digests, media types, artifact provenance and metadata
  (\<^verbatim>\<open>artifact.rs\<close>), budgets and usage (\<^verbatim>\<open>budget.rs\<close>), scopes and lineages
  (\<^verbatim>\<open>scope.rs\<close>), value streams (\<^verbatim>\<open>value.rs\<close>) and candidate evaluations
  (\<^verbatim>\<open>candidate.rs\<close>).  The hash and its hexadecimal text belong to the BLAKE3 package and are
  arguments.  The theorems show that a digest has one text and reads back from it, that admitting a
  sequence of values and artifacts is refused exactly when some limit would be exceeded and never
  wraps, and that a lineage makes readable exactly the ancestors of its leaf.
\<close>

unbundle bit_operations_syntax

section \<open>Errors and identities\<close>

datatype workspace_error =
    WsInvalidIdentity string string
  | WsInvalidDigest string
  | InvalidMediaType string
  | InvalidScope string
  | InvalidValue string
  | InvalidArtifact string
  | InvalidBudget string
  | BudgetExceeded string u64 u64
  | AccountingOverflow string
  | WsJson json_error

definition workspace_display :: "workspace_error \<Rightarrow> string" where
  "workspace_display e = (case e of
      WsInvalidIdentity type_name reason \<Rightarrow> ''invalid '' @ type_name @ '': '' @ reason
    | WsInvalidDigest text \<Rightarrow> ''invalid BLAKE3 content digest: '' @ text
    | InvalidMediaType text \<Rightarrow> ''invalid artifact media type: '' @ text
    | InvalidScope text \<Rightarrow> ''invalid workspace scope: '' @ text
    | InvalidValue text \<Rightarrow> ''invalid workspace value: '' @ text
    | InvalidArtifact text \<Rightarrow> ''invalid artifact metadata: '' @ text
    | InvalidBudget text \<Rightarrow> ''invalid workspace budget: '' @ text
    | BudgetExceeded resource limit attempted \<Rightarrow> ''workspace budget exceeded for '' @ resource
        @ '': limit '' @ dec (unat limit) @ '', attempted '' @ dec (unat attempted)
    | AccountingOverflow resource \<Rightarrow> ''workspace accounting overflow for '' @ resource
    | WsJson e \<Rightarrow> ''cannot measure bounded workspace value: '' @ e)"

definition MAX_STANDARD_ID_BYTES :: nat where "MAX_STANDARD_ID_BYTES = 128"

definition MAX_EXTENDED_ID_BYTES :: nat where "MAX_EXTENDED_ID_BYTES = 192"

definition workspace_identity :: "string \<Rightarrow> string \<Rightarrow> nat \<Rightarrow> workspace_error + unit" where
  "workspace_identity s type_name maximum_bytes =
    (if s = [] \<or> maximum_bytes < length s
     then Inl (WsInvalidIdentity type_name (''length must be between 1 and '' @ dec maximum_bytes @ '' bytes''))
     else if \<not> is_ascii s
     then Inl (WsInvalidIdentity type_name ''must contain ASCII characters only'')
     else ensure (first_alphanumeric s \<and> list_all id_char s)
       (WsInvalidIdentity type_name (''must start with an alphanumeric character and use only''
         @ '' alphanumerics, '' @ [CHR 0x27] @ ''-'' @ [CHR 0x27] @ '', '' @ [CHR 0x27] @ ''_'' @ [CHR 0x27]
         @ '', '' @ [CHR 0x27] @ ''.'' @ [CHR 0x27] @ '', '' @ [CHR 0x27] @ '':'' @ [CHR 0x27]
         @ '', or '' @ [CHR 0x27] @ ''/'' @ [CHR 0x27])))"

type_synonym scope_id = string
type_synonym value_key = string
type_synonym causal_id = string

text \<open>\<^verbatim>\<open>ValueVersion\<close>: a non-zero counter that refuses to wrap.\<close>

definition FIRST_VERSION :: u64 where "FIRST_VERSION = 1"

definition value_version_new :: "u64 \<Rightarrow> workspace_error + u64" where
  "value_version_new v =
    (if v = 0 then Inl (InvalidValue ''value version must be greater than zero'') else Inr v)"

definition version_next :: "u64 \<Rightarrow> workspace_error + u64" where
  "version_next v = ok_or (AccountingOverflow ''value version'') (checked_add v 1)"


section \<open>Content digests\<close>

definition BLAKE3_HEX_BYTES :: nat where "BLAKE3_HEX_BYTES = 64"

definition is_lower_hex :: "char \<Rightarrow> bool" where
  "is_lower_hex c \<longleftrightarrow> is_ascii_digit c \<or> 97 \<le> byte c \<and> byte c \<le> 102"

definition hex_nibble :: "u8 \<Rightarrow> u8" where
  "hex_nibble b = (if 48 \<le> b \<and> b \<le> 57 then b - 48 else if 97 \<le> b \<and> b \<le> 102 then b - 97 + 10 else 0)"

fun hex_pairs :: "string \<Rightarrow> u8 list" where
  "hex_pairs (high # low # rest) =
    (push_bit 4 (hex_nibble (of_nat (byte high))) OR hex_nibble (of_nat (byte low))) # hex_pairs rest"
| "hex_pairs _ = []"

definition from_hex :: "string \<Rightarrow> workspace_error + u8 list" where
  "from_hex s =
    (if length s \<noteq> BLAKE3_HEX_BYTES
     then Inl (WsInvalidDigest (''expected '' @ dec BLAKE3_HEX_BYTES @ '' lowercase hexadecimal characters''))
     else if \<not> list_all is_lower_hex s
     then Inl (WsInvalidDigest ''digest must use lowercase hexadecimal characters only'')
     else Inr (hex_pairs s))"

text \<open>The documented text of a digest: two lower-case hexadecimal digits per byte.\<close>

definition nibble_char :: "u8 \<Rightarrow> char" where
  "nibble_char n = (if n < 10 then char_of (48 + unat n) else char_of (87 + unat n))"

definition lower_hex_text :: "u8 list \<Rightarrow> string" where
  "lower_hex_text bytes = concat (map (\<lambda>b. [nibble_char (drop_bit 4 b), nibble_char (b AND 15)]) bytes)"


section \<open>Media types\<close>

definition MAX_MEDIA_TYPE_BYTES :: nat where "MAX_MEDIA_TYPE_BYTES = 255"

definition is_media_token_byte :: "char \<Rightarrow> bool" where
  "is_media_token_byte c \<longleftrightarrow> is_ascii_alphanumeric c
    \<or> c \<in> set (''!#$%&*+-.^_`|~'' @ [CHR 0x27])"

definition to_ascii_lowercase :: "char \<Rightarrow> char" where
  "to_ascii_lowercase c = (if is_ascii_uppercase c then char_of (byte c + 32) else c)"

definition media_type_new :: "string \<Rightarrow> workspace_error + string" where
  "media_type_new s =
    (if s = [] \<or> MAX_MEDIA_TYPE_BYTES < length s \<or> \<not> is_ascii s
     then Inl (InvalidMediaType (''must contain 1 to '' @ dec MAX_MEDIA_TYPE_BYTES @ '' ASCII bytes''))
     else case split_once (CHR ''/'') s of
       None \<Rightarrow> Inl (InvalidMediaType (''must have the form '' @ [CHR 0x27] @ ''type/subtype'' @ [CHR 0x27]))
     | Some (top_level, subtype) \<Rightarrow>
         if top_level = [] \<or> subtype = [] \<or> CHR ''/'' \<in> set subtype
           \<or> \<not> list_all is_media_token_byte top_level \<or> \<not> list_all is_media_token_byte subtype
           \<or> CHR ''*'' \<in> set top_level \<or> CHR ''*'' \<in> set subtype
         then Inl (InvalidMediaType ''type and subtype must be non-wildcard RFC token text'')
         else Inr (map to_ascii_lowercase s))"


section \<open>Scopes\<close>

definition MAX_SCOPE_DEPTH :: nat where "MAX_SCOPE_DEPTH = 64"

record scope_reference =
  sr_run :: run_id
  sr_scope :: scope_id

datatype scope_kind = RunRoot | Branch string | Iteration string | Subworkflow string

record workspace_scope =
  sc_reference :: scope_reference
  sc_kind :: scope_kind
  sc_parent :: "scope_reference option"

definition run_root :: "run_id \<Rightarrow> scope_id \<Rightarrow> workspace_scope" where
  "run_root run scope =
    \<lparr>sc_reference = \<lparr>sr_run = run, sr_scope = scope\<rparr>, sc_kind = RunRoot, sc_parent = None\<rparr>"

definition workspace_scope_new ::
  "scope_reference \<Rightarrow> scope_kind \<Rightarrow> scope_reference option \<Rightarrow> workspace_error + workspace_scope" where
  "workspace_scope_new reference kind parent =
    res_bind (case (kind, parent) of
        (RunRoot, None) \<Rightarrow> Inr ()
      | (RunRoot, Some _) \<Rightarrow> Inl (InvalidScope ''a run-root scope must not have a parent'')
      | (_, None) \<Rightarrow> Inl (InvalidScope ''a branch, iteration, or subworkflow scope requires a parent'')
      | (_, Some parent) \<Rightarrow>
          if sr_run parent \<noteq> sr_run reference
          then Inl (InvalidScope ''a child scope and its parent must belong to the same run'')
          else if parent = reference then Inl (InvalidScope ''a scope cannot be its own parent'')
          else Inr ()) (\<lambda>_.
    Inr \<lparr>sc_reference = reference, sc_kind = kind, sc_parent = parent\<rparr>)"

definition scope_child :: "scope_id \<Rightarrow> workspace_scope \<Rightarrow> scope_kind \<Rightarrow> workspace_error + workspace_scope" where
  "scope_child scope parent kind =
    workspace_scope_new \<lparr>sr_run = sr_run (sc_reference parent), sr_scope = scope\<rparr> kind
      (Some (sc_reference parent))"

fun lineage_loop ::
  "nat \<Rightarrow> scope_reference bset \<Rightarrow> scope_reference option \<Rightarrow> workspace_scope list \<Rightarrow> workspace_error + unit" where
  "lineage_loop index seen previous [] = Inr ()"
| "lineage_loop index seen previous (scope # rest) =
    (if sc_reference scope \<in> set seen
     then Inl (InvalidScope ''a scope lineage cannot contain duplicate scopes'')
     else if previous \<noteq> None \<and> sc_parent scope \<noteq> previous
     then Inl (InvalidScope (''scope at lineage index '' @ dec index
       @ '' does not name the preceding scope as its parent''))
     else lineage_loop (index + 1) (sc_reference scope # seen) (Some (sc_reference scope)) rest)"

definition scope_lineage_new :: "workspace_scope list \<Rightarrow> workspace_error + workspace_scope list" where
  "scope_lineage_new scopes = (case scopes of
      [] \<Rightarrow> Inl (InvalidScope ''a scope lineage must contain a run root'')
    | first # _ \<Rightarrow>
        if MAX_SCOPE_DEPTH < length scopes
        then Inl (InvalidScope (''a scope lineage may contain at most '' @ dec MAX_SCOPE_DEPTH @ '' scopes''))
        else if sc_kind first \<noteq> RunRoot
        then Inl (InvalidScope ''the first lineage entry must be a run root'')
        else res_bind (lineage_loop 0 [] None scopes) (\<lambda>_. Inr scopes))"

definition lineage_leaf :: "workspace_scope list \<Rightarrow> workspace_scope" where
  "lineage_leaf scopes = scopes ! (length scopes - 1)"

definition can_read_from :: "workspace_scope list \<Rightarrow> scope_reference \<Rightarrow> bool" where
  "can_read_from scopes source \<longleftrightarrow> list_ex (\<lambda>scope. sc_reference scope = source) scopes"


section \<open>Artifact references and metadata\<close>

record ws_artifact =
  wa_artifact :: string
  wa_digest :: "u8 list"
  wa_media_type :: string
  wa_size_bytes :: u64

definition for_bytes :: "(string \<Rightarrow> u8 list) \<Rightarrow> string \<Rightarrow> u8 list" where
  "for_bytes blake3 bytes = blake3 bytes"

definition verifies :: "(string \<Rightarrow> u8 list) \<Rightarrow> ws_artifact \<Rightarrow> string \<Rightarrow> bool" where
  "verifies blake3 reference bytes \<longleftrightarrow>
    (case try_from_usize (length bytes) of None \<Rightarrow> False | Some n \<Rightarrow> n = wa_size_bytes reference)
    \<and> for_bytes blake3 bytes = wa_digest reference"

record value_reference =
  vr_scope :: scope_reference
  vr_key :: value_key
  vr_version :: u64

datatype artifact_owner =
    PeerInput peer_id peer_id
  | ClientInput peer_id causal_id
  | WorkflowOwner run_id
  | HostInvocationOwner peer_id invocation_id
  | Transfer peer_id causal_id

definition owner_run :: "artifact_owner \<Rightarrow> run_id option" where
  "owner_run owner = (case owner of WorkflowOwner run \<Rightarrow> Some run | _ \<Rightarrow> None)"

datatype artifact_retention = WhileReferenced | Until u64 | Indefinite

definition retention_deadline :: "u64 \<Rightarrow> workspace_error + u64" where
  "retention_deadline v =
    (if v = 0 then Inl (InvalidArtifact ''a retention deadline must be greater than zero'') else Inr v)"

definition permits_unauthorized_export :: "artifact_sensitivity \<Rightarrow> bool" where
  "permits_unauthorized_export s \<longleftrightarrow> s = Public"

datatype causal_reference =
    PeerClaim peer_id causal_reference
  | ClientUpload peer_id causal_id causal_id
  | RunInput run_id value_key
  | CausalValue value_reference
  | CausalArtifact ws_artifact
  | CausalInvocation invocation_id
  | CausalHostInvocation peer_id invocation_id
  | CausalExternal causal_id

fun import_depth_from :: "nat \<Rightarrow> causal_reference \<Rightarrow> nat" where
  "import_depth_from depth (PeerClaim peer reference) =
    (if 4 < depth + 1 then depth + 1 else import_depth_from (depth + 1) reference)"
| "import_depth_from depth _ = depth"

definition import_depth :: "causal_reference \<Rightarrow> nat" where
  "import_depth reference = import_depth_from 0 reference"

definition references_artifact :: "causal_reference \<Rightarrow> ws_artifact \<Rightarrow> bool" where
  "references_artifact cause artifact \<longleftrightarrow> cause = CausalArtifact artifact"

definition MAX_CAUSAL_REFERENCES :: nat where "MAX_CAUSAL_REFERENCES = 128"

record artifact_provenance =
  ap_producer :: causal_reference
  ap_causes :: "causal_reference list"

definition provenance_new :: "causal_reference \<Rightarrow> causal_reference list \<Rightarrow> workspace_error + artifact_provenance" where
  "provenance_new producer causes =
    (if list_ex (\<lambda>reference. 4 < import_depth reference) (producer # causes)
     then Inl (InvalidArtifact ''causal import depth exceeds four authenticated boundaries'')
     else if MAX_CAUSAL_REFERENCES < length causes
     then Inl (InvalidArtifact (''provenance may contain at most '' @ dec MAX_CAUSAL_REFERENCES @ '' causal references''))
     else if length (remdups causes) \<noteq> length causes
     then Inl (InvalidArtifact ''provenance cannot contain duplicate causal references'')
     else Inr \<lparr>ap_producer = producer, ap_causes = causes\<rparr>)"

record artifact_metadata =
  am_reference :: ws_artifact
  am_sensitivity :: artifact_sensitivity
  am_retention :: artifact_retention
  am_provenance :: artifact_provenance

definition metadata_new ::
  "ws_artifact \<Rightarrow> artifact_sensitivity \<Rightarrow> artifact_retention \<Rightarrow> artifact_provenance
    \<Rightarrow> workspace_error + artifact_metadata" where
  "metadata_new reference sensitivity retention provenance =
    (if references_artifact (ap_producer provenance) reference
       \<or> list_ex (\<lambda>cause. references_artifact cause reference) (ap_causes provenance)
     then Inl (InvalidArtifact ''artifact provenance cannot directly reference the artifact itself'')
     else Inr \<lparr>am_reference = reference, am_sensitivity = sensitivity, am_retention = retention,
       am_provenance = provenance\<rparr>)"


section \<open>Values\<close>

datatype workspace_value = JsonValue json | ArtifactValue ws_artifact

definition inline_size_bytes :: "json encoder \<Rightarrow> workspace_value \<Rightarrow> workspace_error + u64" where
  "inline_size_bytes to_vec v = (case v of
      JsonValue j \<Rightarrow> res_bind (map_err WsJson (to_vec j)) (\<lambda>bytes.
        ok_or (AccountingOverflow ''inline value bytes'') (try_from_usize (length bytes)))
    | ArtifactValue _ \<Rightarrow> Inr 0)"

datatype value_origin =
    Initial
  | Successor value_reference
  | Inherited value_reference
  | Imported value_reference

record value_entry =
  ve_reference :: value_reference
  ve_value :: workspace_value
  ve_origin :: value_origin

definition value_entry_new ::
  "value_reference \<Rightarrow> workspace_value \<Rightarrow> value_origin \<Rightarrow> workspace_error + value_entry" where
  "value_entry_new reference v origin =
    res_bind (case origin of
        Initial \<Rightarrow> ensure (vr_version reference = FIRST_VERSION)
          (InvalidValue ''an initial value must have version one'')
      | Successor previous \<Rightarrow>
          res_bind (ensure (vr_scope previous = vr_scope reference \<and> vr_key previous = vr_key reference)
            (InvalidValue ''a successor must keep the previous scope and key'')) (\<lambda>_.
          res_bind (version_next (vr_version previous)) (\<lambda>following.
          ensure (following = vr_version reference)
            (InvalidValue ''a successor version must be exactly one greater than its predecessor'')))
      | Inherited source \<Rightarrow>
          res_bind (ensure (vr_version reference = FIRST_VERSION)
            (InvalidValue ''an inherited local stream must begin at version one'')) (\<lambda>_.
          res_bind (ensure (sr_run (vr_scope source) = sr_run (vr_scope reference))
            (InvalidValue ''an inherited value must remain within one run'')) (\<lambda>_.
          ensure (vr_scope source \<noteq> vr_scope reference)
            (InvalidValue ''same-scope changes must be represented as successors'')))
      | Imported source \<Rightarrow>
          res_bind (ensure (vr_version reference = FIRST_VERSION)
            (InvalidValue ''an imported local stream must begin at version one'')) (\<lambda>_.
          ensure (sr_run (vr_scope source) \<noteq> sr_run (vr_scope reference))
            (InvalidValue ''an imported value source must belong to a different run''))) (\<lambda>_.
    Inr \<lparr>ve_reference = reference, ve_value = v, ve_origin = origin\<rparr>)"

definition value_initial :: "scope_reference \<Rightarrow> value_key \<Rightarrow> workspace_value \<Rightarrow> value_entry" where
  "value_initial scope key v =
    \<lparr>ve_reference = \<lparr>vr_scope = scope, vr_key = key, vr_version = FIRST_VERSION\<rparr>, ve_value = v, ve_origin = Initial\<rparr>"

definition value_inherited ::
  "scope_reference \<Rightarrow> value_key \<Rightarrow> value_reference \<Rightarrow> workspace_value \<Rightarrow> workspace_error + value_entry" where
  "value_inherited scope key source v =
    value_entry_new \<lparr>vr_scope = scope, vr_key = key, vr_version = FIRST_VERSION\<rparr> v (Inherited source)"

definition value_imported ::
  "scope_reference \<Rightarrow> value_key \<Rightarrow> value_reference \<Rightarrow> workspace_value \<Rightarrow> workspace_error + value_entry" where
  "value_imported scope key source v =
    value_entry_new \<lparr>vr_scope = scope, vr_key = key, vr_version = FIRST_VERSION\<rparr> v (Imported source)"

definition value_successor :: "value_reference \<Rightarrow> workspace_value \<Rightarrow> workspace_error + value_entry" where
  "value_successor previous v =
    res_bind (version_next (vr_version previous)) (\<lambda>version.
    value_entry_new (previous\<lparr>vr_version := version\<rparr>) v (Successor previous))"

definition can_read :: "workspace_scope list \<Rightarrow> value_reference \<Rightarrow> bool" where
  "can_read scopes v \<longleftrightarrow> can_read_from scopes (vr_scope v)"

definition owns_value_stream :: "workspace_scope list \<Rightarrow> value_reference \<Rightarrow> bool" where
  "owns_value_stream scopes v \<longleftrightarrow> sc_reference (lineage_leaf scopes) = vr_scope v"


section \<open>Budgets\<close>

record workspace_budget =
  wb_max_value_versions :: u64
  wb_max_inline_bytes_per_value :: u64
  wb_max_total_inline_bytes :: u64
  wb_max_artifacts :: u64
  wb_max_bytes_per_artifact :: u64
  wb_max_total_artifact_bytes :: u64

definition workspace_budget_new :: "workspace_budget \<Rightarrow> workspace_error + workspace_budget" where
  "workspace_budget_new b =
    res_bind (ensure (wb_max_inline_bytes_per_value b \<le> wb_max_total_inline_bytes b)
      (InvalidBudget ''per-value inline bytes cannot exceed total inline bytes'')) (\<lambda>_.
    res_bind (ensure (wb_max_bytes_per_artifact b \<le> wb_max_total_artifact_bytes b)
      (InvalidBudget ''per-artifact bytes cannot exceed total artifact bytes'')) (\<lambda>_.
    Inr b))"

record workspace_usage =
  wu_value_versions :: u64
  wu_inline_bytes :: u64
  wu_artifacts :: u64
  wu_artifact_bytes :: u64

definition EMPTY_USAGE :: workspace_usage where
  "EMPTY_USAGE = \<lparr>wu_value_versions = 0, wu_inline_bytes = 0, wu_artifacts = 0, wu_artifact_bytes = 0\<rparr>"

definition enforce :: "string \<Rightarrow> u64 \<Rightarrow> u64 \<Rightarrow> workspace_error + unit" where
  "enforce resource limit attempted = ensure (attempted \<le> limit) (BudgetExceeded resource limit attempted)"

definition workspace_checked_add :: "u64 \<Rightarrow> u64 \<Rightarrow> string \<Rightarrow> workspace_error + u64" where
  "workspace_checked_add a b resource = ok_or (AccountingOverflow resource) (checked_add a b)"

definition validate_usage :: "workspace_budget \<Rightarrow> workspace_usage \<Rightarrow> workspace_error + unit" where
  "validate_usage b u =
    res_bind (enforce ''value versions'' (wb_max_value_versions b) (wu_value_versions u)) (\<lambda>_.
    res_bind (enforce ''total inline bytes'' (wb_max_total_inline_bytes b) (wu_inline_bytes u)) (\<lambda>_.
    res_bind (enforce ''artifacts'' (wb_max_artifacts b) (wu_artifacts u)) (\<lambda>_.
    enforce ''total artifact bytes'' (wb_max_total_artifact_bytes b) (wu_artifact_bytes u))))"

definition admit_value ::
  "json encoder \<Rightarrow> workspace_budget \<Rightarrow> workspace_usage \<Rightarrow> workspace_value \<Rightarrow> workspace_error + workspace_usage" where
  "admit_value to_vec b u v =
    res_bind (validate_usage b u) (\<lambda>_.
    res_bind (inline_size_bytes to_vec v) (\<lambda>inline_bytes.
    res_bind (enforce ''inline bytes per value'' (wb_max_inline_bytes_per_value b) inline_bytes) (\<lambda>_.
    res_bind (workspace_checked_add (wu_value_versions u) 1 ''value-version count'') (\<lambda>value_versions.
    res_bind (workspace_checked_add (wu_inline_bytes u) inline_bytes ''inline bytes'') (\<lambda>total_inline.
    res_bind (enforce ''value versions'' (wb_max_value_versions b) value_versions) (\<lambda>_.
    res_bind (enforce ''total inline bytes'' (wb_max_total_inline_bytes b) total_inline) (\<lambda>_.
    Inr (u\<lparr>wu_value_versions := value_versions, wu_inline_bytes := total_inline\<rparr>))))))))"

definition admit_artifact_reference ::
  "workspace_budget \<Rightarrow> workspace_usage \<Rightarrow> ws_artifact \<Rightarrow> workspace_error + workspace_usage" where
  "admit_artifact_reference b u artifact =
    res_bind (validate_usage b u) (\<lambda>_.
    let bytes = wa_size_bytes artifact in
    res_bind (enforce ''bytes per artifact'' (wb_max_bytes_per_artifact b) bytes) (\<lambda>_.
    res_bind (workspace_checked_add (wu_artifacts u) 1 ''artifact count'') (\<lambda>artifacts.
    res_bind (workspace_checked_add (wu_artifact_bytes u) bytes ''artifact bytes'') (\<lambda>artifact_bytes.
    res_bind (enforce ''artifacts'' (wb_max_artifacts b) artifacts) (\<lambda>_.
    res_bind (enforce ''total artifact bytes'' (wb_max_total_artifact_bytes b) artifact_bytes) (\<lambda>_.
    Inr (u\<lparr>wu_artifacts := artifacts, wu_artifact_bytes := artifact_bytes\<rparr>)))))))"

definition admit_artifact ::
  "workspace_budget \<Rightarrow> workspace_usage \<Rightarrow> artifact_metadata \<Rightarrow> workspace_error + workspace_usage" where
  "admit_artifact b u metadata = admit_artifact_reference b u (am_reference metadata)"


section \<open>Candidate evaluations\<close>

record candidate_check =
  ck_name :: string
  ck_passed :: "bool option"
  ck_diagnostic :: string

record candidate_subject =
  cs_artifact :: ws_artifact
  cs_target :: string
  cs_generation :: u64
  cs_agreement :: string
  cs_configuration :: string
  cs_policy :: string
  cs_verifier :: string
  cs_producer :: causal_id

record candidate_evaluation =
  ce_schema_version :: u32
  ce_identity :: string
  ce_subject :: candidate_subject
  ce_started_at :: u64
  ce_expires_at :: u64
  ce_complete :: bool
  ce_checks :: "candidate_check list"

definition candidate_validate :: "candidate_evaluation \<Rightarrow> workspace_error + unit" where
  "candidate_validate e =
    (let s = ce_subject e in
     if ce_schema_version e \<noteq> 1 \<or> cs_generation s = 0 \<or> wa_size_bytes (cs_artifact s) = 0
       \<or> ce_expires_at e \<le> ce_started_at e \<or> ce_checks e = [] \<or> 32 < length (ce_checks e)
       \<or> list_ex (\<lambda>d. \<not> is_canonical_blake3_digest d)
           [ce_identity e, cs_agreement s, cs_configuration s, cs_policy s, cs_verifier s]
       \<or> list_ex (\<lambda>c. ck_name c = [] \<or> 64 < length (ck_name c)
           \<or> \<not> list_all (\<lambda>b. 97 \<le> byte b \<and> byte b \<le> 122 \<or> is_ascii_digit b \<or> b = CHR ''-'') (ck_name c)
           \<or> 256 < length (ck_diagnostic c)
           \<or> \<not> ce_complete e \<and> ck_passed c \<noteq> None) (ce_checks e)
       \<or> length (remdups (map ck_name (ce_checks e))) \<noteq> length (ce_checks e)
     then Inl (InvalidArtifact ''invalid candidate evaluation'')
     else Inr ())"


section \<open>A digest has one text\<close>

lemma nibble_cases:
  assumes "n < (16 :: u8)"
  obtains "n = 0" | "n = 1" | "n = 2" | "n = 3" | "n = 4" | "n = 5" | "n = 6" | "n = 7"
    | "n = 8" | "n = 9" | "n = 10" | "n = 11" | "n = 12" | "n = 13" | "n = 14" | "n = 15"
proof -
  have "unat n < 16" using assms by (simp add: word_less_nat_alt)
  then have "unat n = 0 \<or> unat n = 1 \<or> unat n = 2 \<or> unat n = 3 \<or> unat n = 4 \<or> unat n = 5 \<or> unat n = 6
      \<or> unat n = 7 \<or> unat n = 8 \<or> unat n = 9 \<or> unat n = 10 \<or> unat n = 11 \<or> unat n = 12 \<or> unat n = 13
      \<or> unat n = 14 \<or> unat n = 15" by presburger
  then show thesis using that by (auto simp add: word_unat_eq_iff)
qed

lemma nibble_char_hex:
  assumes "n < (16 :: u8)"
  shows "is_lower_hex (nibble_char n)" "hex_nibble (of_nat (byte (nibble_char n))) = n"
  using assms by (cases rule: nibble_cases; simp add: nibble_char_def is_lower_hex_def is_ascii_digit_def hex_nibble_def)+

lemma hex_char_nibble:
  assumes "is_lower_hex c"
  shows "hex_nibble (of_nat (byte c)) < 16" "nibble_char (hex_nibble (of_nat (byte c))) = c"
proof -
  have "48 \<le> byte c \<and> byte c \<le> 57 \<or> 97 \<le> byte c \<and> byte c \<le> 102"
    using assms by (simp add: is_lower_hex_def is_ascii_digit_def)
  then have "byte c = 48 \<or> byte c = 49 \<or> byte c = 50 \<or> byte c = 51 \<or> byte c = 52 \<or> byte c = 53 \<or> byte c = 54
      \<or> byte c = 55 \<or> byte c = 56 \<or> byte c = 57 \<or> byte c = 97 \<or> byte c = 98 \<or> byte c = 99 \<or> byte c = 100
      \<or> byte c = 101 \<or> byte c = 102" by presburger
  moreover have "c = char_of (byte c)" by (simp add: byte_def)
  ultimately show "hex_nibble (of_nat (byte c)) < 16" "nibble_char (hex_nibble (of_nat (byte c))) = c"
    by (auto simp add: nibble_char_def hex_nibble_def)
qed

lemma nibble_bits: "n < (16 :: u8) \<Longrightarrow> bit n i \<Longrightarrow> i < 4"
  by (cases rule: nibble_cases, assumption) (auto simp add: bit_numeral_rec bit_1_iff split: nat.splits)

lemma nibble_mask: "(15 :: u8) = mask 4"
  by (simp add: mask_eq_exp_minus_1)

lemma nibble_less: "n < (16 :: u8) \<longleftrightarrow> take_bit 4 n = n"
  by (simp add: take_bit_eq_self_iff_drop_bit_eq_0 word_less_nat_alt unat_drop_bit_eq drop_bit_eq_div
      flip: word_unat_eq_iff) (simp add: word_unat_eq_iff unat_div div_eq_0_iff)

lemma split_byte:
  "drop_bit 4 b < (16 :: u8)" "b AND 15 < (16 :: u8)" "push_bit 4 (drop_bit 4 b) OR (b AND 15) = (b :: u8)"
proof -
  have "n < 4" if "bit b (4 + n)" for n using bit_imp_le_length [OF that] by simp
  then show "drop_bit 4 b < (16 :: u8)" "b AND 15 < (16 :: u8)" "push_bit 4 (drop_bit 4 b) OR (b AND 15) = b"
    unfolding nibble_less nibble_mask by (auto intro!: bit_word_eqI simp add: bit_simps)
qed

lemma join_byte:
  assumes "h < (16 :: u8)" "l < 16"
  shows "drop_bit 4 (push_bit 4 h OR l) = h" "(push_bit 4 h OR l) AND 15 = l"
  unfolding nibble_mask
  by (auto intro!: bit_word_eqI simp add: bit_simps dest: nibble_bits [OF assms(1)] nibble_bits [OF assms(2)])

lemma join_text:
  "is_lower_hex h \<Longrightarrow> is_lower_hex l \<Longrightarrow>
    lower_hex_text ((push_bit 4 (hex_nibble (of_nat (byte h))) OR hex_nibble (of_nat (byte l))) # bytes)
    = h # l # lower_hex_text bytes"
  by (simp only: lower_hex_text_def list.map concat.simps append_Cons append_Nil join_byte hex_char_nibble)

lemma hex_pairs_text: "hex_pairs (lower_hex_text d) = d"
  by (induction d) (simp_all add: lower_hex_text_def nibble_char_hex split_byte)

lemma lower_hex_text_shape: "length (lower_hex_text d) = 2 * length d" "list_all is_lower_hex (lower_hex_text d)"
  by (induction d) (simp_all add: lower_hex_text_def nibble_char_hex split_byte)

lemma text_hex_pairs: "even (length s) \<Longrightarrow> list_all is_lower_hex s \<Longrightarrow> lower_hex_text (hex_pairs s) = s"
  by (induction s rule: hex_pairs.induct) (simp_all add: join_text lower_hex_text_def [of "[]"])

lemma length_hex_pairs: "length (hex_pairs s) = length s div 2"
  by (induction s rule: hex_pairs.induct) simp_all

text \<open>
  A content digest has exactly one text: its text reads back to the digest, and a text that is
  accepted is the text of the digest it reads as, so upper-case, prefixed and shortened spellings are
  refused.  The package that renders a digest is assumed to write its lower-case hexadecimal digits.
\<close>

theorem digest_text_roundtrip:
  assumes "\<And>bytes. length bytes = 32 \<Longrightarrow> to_hex bytes = lower_hex_text bytes"
  shows "(length d = 32 \<longrightarrow> from_hex (to_hex d) = Inr d)
    \<and> (from_hex s = Inr d \<longrightarrow> length d = 32 \<and> to_hex d = s)"
  using assms by (auto simp add: from_hex_def BLAKE3_HEX_BYTES_def hex_pairs_text lower_hex_text_shape
      text_hex_pairs length_hex_pairs split: if_splits)

theorem digest_text_roundtrip_witness:
  "from_hex (lower_hex_text (replicate 32 171)) = Inr (replicate 32 171)
    \<and> lower_hex_text (replicate 32 171) = concat (replicate 32 ''ab'')"
proof -
  have digits: "lower_hex_text (replicate 32 171) = concat (replicate 32 ''ab'')" by code_simp
  have "length (replicate 32 (171 :: u8)) = 32 \<longrightarrow> from_hex (lower_hex_text (replicate 32 171)) = Inr (replicate 32 171)"
    by (rule conjunct1 [OF digest_text_roundtrip]) (rule refl)
  then show ?thesis using digits by simp
qed


section \<open>Media types are canonical\<close>

lemma split_once_Some: "split_once d s = Some (a, b) \<longleftrightarrow> s = a @ d # b \<and> d \<notin> set a"
proof
  assume "split_once d s = Some (a, b)"
  then obtain c where drop: "dropWhile (\<lambda>x. x \<noteq> d) s = c # b" and a: "a = takeWhile (\<lambda>x. x \<noteq> d) s"
    by (auto simp add: split_once_def split: list.splits)
  have "c = d" using drop by (auto simp add: dropWhile_eq_Cons_conv)
  moreover have "s = a @ c # b" using takeWhile_dropWhile_id [of "\<lambda>x. x \<noteq> d" s] by (simp add: drop a)
  moreover have "d \<notin> set a" unfolding a by (auto dest: set_takeWhileD)
  ultimately show "s = a @ d # b \<and> d \<notin> set a" by simp
next
  assume "s = a @ d # b \<and> d \<notin> set a"
  then show "split_once d s = Some (a, b)"
    by (simp add: split_once_def dropWhile_append takeWhile_append)
qed

lemma to_ascii_lowercase_other: "\<not> is_ascii_uppercase c \<Longrightarrow> to_ascii_lowercase c = c"
  by (simp add: to_ascii_lowercase_def)

lemma byte_lowercase: "byte (to_ascii_lowercase c) = (if is_ascii_uppercase c then byte c + 32 else byte c)"
  by (auto simp add: to_ascii_lowercase_def is_ascii_uppercase_def)

lemma lowercase_token:
  "is_media_token_byte c \<Longrightarrow> is_media_token_byte (to_ascii_lowercase c)"
  "to_ascii_lowercase c = CHR ''/'' \<longleftrightarrow> c = CHR ''/''" "to_ascii_lowercase c = CHR ''*'' \<longleftrightarrow> c = CHR ''*''"
  "to_ascii_lowercase (to_ascii_lowercase c) = to_ascii_lowercase c"
  "byte c < 128 \<Longrightarrow> byte (to_ascii_lowercase c) < 128"
proof -
  have alpha: "is_ascii_alphabetic (to_ascii_lowercase c)" "\<not> is_ascii_uppercase (to_ascii_lowercase c)"
    if "is_ascii_uppercase c"
    using that by (auto simp add: is_ascii_alphabetic_def byte_lowercase is_ascii_uppercase_def)
  show "is_media_token_byte (to_ascii_lowercase c)" if "is_media_token_byte c"
    using that alpha by (cases "is_ascii_uppercase c")
      (simp_all add: to_ascii_lowercase_other is_media_token_byte_def is_ascii_alphanumeric_def)
  show "to_ascii_lowercase c = CHR ''/'' \<longleftrightarrow> c = CHR ''/''" "to_ascii_lowercase c = CHR ''*'' \<longleftrightarrow> c = CHR ''*''"
    using alpha by (cases "is_ascii_uppercase c";
      force simp add: to_ascii_lowercase_other is_ascii_alphabetic_def is_ascii_uppercase_def byte_def)+
  show "to_ascii_lowercase (to_ascii_lowercase c) = to_ascii_lowercase c"
    using alpha by (cases "is_ascii_uppercase c") (simp_all add: to_ascii_lowercase_other)
  show "byte (to_ascii_lowercase c) < 128" if "byte c < 128"
    using that by (auto simp add: byte_lowercase is_ascii_uppercase_def)
qed

lemma lowercase_absent:
  "CHR ''/'' \<in> set (map to_ascii_lowercase s) \<longleftrightarrow> CHR ''/'' \<in> set s"
  "CHR ''*'' \<in> set (map to_ascii_lowercase s) \<longleftrightarrow> CHR ''*'' \<in> set s"
  by (induction s) (simp_all add: lowercase_token eq_commute [of "CHR ''/''"] eq_commute [of "CHR ''*''"])

lemma media_type_canonical:
  assumes "media_type_new s = Inr m"
  shows "media_type_new m = Inr m"
proof -
  obtain a b where split: "split_once (CHR ''/'') s = Some (a, b)"
    using assms by (cases "split_once (CHR ''/'') s") (auto simp add: media_type_new_def split: if_splits)
  then have s: "s = a @ CHR ''/'' # b" and slash: "CHR ''/'' \<notin> set a" by (simp_all add: split_once_Some)
  have m: "m = map to_ascii_lowercase s"
    and ok: "length s \<le> MAX_MEDIA_TYPE_BYTES" "is_ascii s" "a \<noteq> []" "b \<noteq> []"
      "CHR ''/'' \<notin> set a" "CHR ''/'' \<notin> set b" "CHR ''*'' \<notin> set a" "CHR ''*'' \<notin> set b"
      "list_all is_media_token_byte a" "list_all is_media_token_byte b"
    using assms slash by (simp_all add: media_type_new_def split not_less split: if_splits)
  let ?a = "map to_ascii_lowercase a" and ?b = "map to_ascii_lowercase b"
  have "split_once (CHR ''/'') m = Some (?a, ?b)"
    using ok(5) by (simp add: split_once_Some s m lowercase_token lowercase_absent del: set_map)
  moreover have "map to_ascii_lowercase m = m" by (simp add: m lowercase_token)
  moreover have "CHR ''/'' \<notin> set ?b" "CHR ''*'' \<notin> set ?a" "CHR ''*'' \<notin> set ?b"
    using ok(6-8) by (simp_all add: lowercase_absent del: set_map)
  moreover have "is_ascii m" "list_all is_media_token_byte ?a" "list_all is_media_token_byte ?b"
    using ok(2,9,10) lowercase_token(1,5) by (auto simp add: m is_ascii_def list_all_iff)
  moreover have "length m \<le> MAX_MEDIA_TYPE_BYTES" "m \<noteq> []" using ok(1) by (simp_all add: s m)
  ultimately show ?thesis using ok(3,4) by (simp add: media_type_new_def)
qed


section \<open>Provenance and values\<close>

primrec claims :: "causal_reference \<Rightarrow> nat" where
  "claims (PeerClaim _ r) = Suc (claims r)"
| "claims (ClientUpload _ _ _) = 0"
| "claims (RunInput _ _) = 0"
| "claims (CausalValue _) = 0"
| "claims (CausalArtifact _) = 0"
| "claims (CausalInvocation _) = 0"
| "claims (CausalHostInvocation _ _) = 0"
| "claims (CausalExternal _) = 0"

lemma import_depth_claims: "import_depth r = min 5 (claims r)"
proof -
  have "d \<le> 4 \<Longrightarrow> import_depth_from d r = min 5 (d + claims r)" for d
    by (induction d r rule: import_depth_from.induct) auto
  then show ?thesis by (simp add: import_depth_def)
qed

lemma provenance_new_Inr:
  "provenance_new producer causes = Inr p \<longleftrightarrow> p = \<lparr>ap_producer = producer, ap_causes = causes\<rparr>
    \<and> claims producer \<le> 4 \<and> list_all (\<lambda>c. claims c \<le> 4) causes \<and> length causes \<le> 128 \<and> distinct causes"
  by (auto simp add: provenance_new_def import_depth_claims MAX_CAUSAL_REFERENCES_def list_all_iff list_ex_iff
      length_remdups_card_conv card_distinct distinct_card not_less [symmetric])

lemma metadata_not_self:
  "metadata_new reference s r p = Inr m \<Longrightarrow>
    CausalArtifact (am_reference m) \<notin> set (ap_producer (am_provenance m) # ap_causes (am_provenance m))"
  by (auto simp add: metadata_new_def references_artifact_def list_ex_iff split: if_splits)

lemma value_successor_Inr:
  "value_successor previous v = Inr e \<longleftrightarrow> unat (vr_version previous) < 2 ^ 64 - 1
    \<and> e = \<lparr>ve_reference = previous\<lparr>vr_version := vr_version previous + 1\<rparr>, ve_value = v, ve_origin = Successor previous\<rparr>"
  by (auto simp add: value_successor_def version_next_def value_entry_new_def checked_add_def res_simps)

lemma candidate_validate_sound:
  assumes "candidate_validate e = Inr ()"
  shows "distinct (map ck_name (ce_checks e)) \<and> ce_started_at e < ce_expires_at e
    \<and> (\<not> ce_complete e \<longrightarrow> list_all (\<lambda>c. ck_passed c = None) (ce_checks e))"
  using assms by (auto simp add: candidate_validate_def Let_def list_ex_iff list_all_iff
      length_remdups_card_conv card_distinct split: if_splits)


section \<open>Admission against a budget\<close>

text \<open>A sequence of values and artifacts offered to one accounting domain, in the order of acceptance.\<close>

datatype workspace_item = ValueItem workspace_value | ArtifactItem artifact_metadata

primrec admit_item ::
  "json encoder \<Rightarrow> workspace_budget \<Rightarrow> workspace_item \<Rightarrow> workspace_usage \<Rightarrow> workspace_error + workspace_usage" where
  "admit_item to_vec b (ValueItem v) u = admit_value to_vec b u v"
| "admit_item to_vec b (ArtifactItem m) u = admit_artifact b u m"

primrec value_bytes :: "json encoder \<Rightarrow> workspace_value \<Rightarrow> nat option" where
  "value_bytes to_vec (JsonValue j) = (case to_vec j of Inl _ \<Rightarrow> None | Inr bytes \<Rightarrow> Some (length bytes))"
| "value_bytes to_vec (ArtifactValue _) = Some 0"

primrec item_fits :: "json encoder \<Rightarrow> workspace_budget \<Rightarrow> workspace_item \<Rightarrow> bool" where
  "item_fits to_vec b (ValueItem v) = (case value_bytes to_vec v of None \<Rightarrow> False
    | Some n \<Rightarrow> n \<le> unat (wb_max_inline_bytes_per_value b))"
| "item_fits to_vec b (ArtifactItem m) = (wa_size_bytes (am_reference m) \<le> wb_max_bytes_per_artifact b)"

text \<open>The totals of a usage as natural numbers, and what one item adds to them.\<close>

type_synonym totals = "nat \<times> nat \<times> nat \<times> nat"

definition totals_of :: "workspace_usage \<Rightarrow> totals" where
  "totals_of u = (unat (wu_value_versions u), unat (wu_inline_bytes u), unat (wu_artifacts u), unat (wu_artifact_bytes u))"

definition totals_within :: "workspace_budget \<Rightarrow> totals \<Rightarrow> bool" where
  "totals_within b = (\<lambda>(versions, inline, artifacts, bytes). versions \<le> unat (wb_max_value_versions b)
    \<and> inline \<le> unat (wb_max_total_inline_bytes b) \<and> artifacts \<le> unat (wb_max_artifacts b)
    \<and> bytes \<le> unat (wb_max_total_artifact_bytes b))"

primrec item_charge :: "json encoder \<Rightarrow> workspace_item \<Rightarrow> totals \<Rightarrow> totals" where
  "item_charge to_vec (ValueItem v) = (\<lambda>(versions, inline, artifacts, bytes).
    (versions + 1, inline + the (value_bytes to_vec v), artifacts, bytes))"
| "item_charge to_vec (ArtifactItem m) = (\<lambda>(versions, inline, artifacts, bytes).
    (versions, inline, artifacts + 1, bytes + unat (wa_size_bytes (am_reference m))))"

lemma totals_inject: "totals_of u = totals_of u' \<longleftrightarrow> u = u'"
  by (cases u; cases u') (auto simp add: totals_of_def word_unat_eq_iff)

lemma validate_usage_ok: "validate_usage b u = Inr () \<longleftrightarrow> totals_within b (totals_of u)"
  by (auto simp add: validate_usage_def enforce_def totals_of_def totals_within_def res_simps word_le_nat_alt)

lemma inline_size_Inr:
  "inline_size_bytes to_vec v = Inr n \<longleftrightarrow> value_bytes to_vec v = Some (unat n)"
  using unat_bound [of n]
  by (cases v) (auto simp add: inline_size_bytes_def res_simps try_from_usize_Some unat_eq_zero simp del: unsigned_less split: sum.splits)

lemma usage_value:
  "u\<lparr>wu_value_versions := a, wu_inline_bytes := y\<rparr> = (u' :: workspace_usage) \<longleftrightarrow> wu_value_versions u' = a \<and> wu_inline_bytes u' = y
    \<and> unat (wu_artifacts u') = unat (wu_artifacts u) \<and> unat (wu_artifact_bytes u') = unat (wu_artifact_bytes u)"
  by (cases u'; cases u) (auto simp add: word_unat_eq_iff)

lemma usage_artifact:
  "u\<lparr>wu_artifacts := a, wu_artifact_bytes := y\<rparr> = (u' :: workspace_usage) \<longleftrightarrow> wu_artifacts u' = a \<and> wu_artifact_bytes u' = y
    \<and> unat (wu_value_versions u') = unat (wu_value_versions u) \<and> unat (wu_inline_bytes u') = unat (wu_inline_bytes u)"
  by (cases u'; cases u) (auto simp add: word_unat_eq_iff)

lemma checked_add_Inr: "workspace_checked_add a b resource = Inr c \<longleftrightarrow> unat c = unat a + unat b"
  by (simp add: workspace_checked_add_def res_simps checked_add_unat)

lemma small_unat: "n \<le> unat (m :: u64) \<Longrightarrow> \<exists>k :: u64. unat k = n"
  by (rule exI [of _ "of_nat n"]) (use unat_bound [of m] in \<open>simp add: unat_of_nat\<close>)

lemma admit_item_Inr:
  "admit_item to_vec b i u = Inr u' \<longleftrightarrow> totals_within b (totals_of u) \<and> item_fits to_vec b i
    \<and> totals_of u' = item_charge to_vec i (totals_of u) \<and> totals_within b (totals_of u')"
proof (cases i)
  case (ValueItem v)
  show ?thesis
  proof (cases "value_bytes to_vec v")
    case None
    then have "inline_size_bytes to_vec v \<noteq> Inr n" for n by (simp add: inline_size_Inr)
    with None ValueItem show ?thesis by (auto simp add: admit_value_def res_simps)
  next
    case (Some n)
    show ?thesis
    proof (cases "\<exists>k :: u64. unat k = n")
      case True
      then obtain k :: u64 where k: "value_bytes to_vec v = Some (unat k)" using Some by auto
      then have "inline_size_bytes to_vec v = Inr k" by (simp add: inline_size_Inr)
      with k show ?thesis
        by (auto simp add: ValueItem admit_value_def validate_usage_ok usage_value checked_add_Inr enforce_def
            totals_of_def totals_within_def res_simps word_order_nat)
    next
      case False
      then have "inline_size_bytes to_vec v \<noteq> Inr k" for k using Some by (auto simp add: inline_size_Inr)
      moreover have "\<not> n \<le> unat (wb_max_inline_bytes_per_value b)" using False small_unat by blast
      ultimately show ?thesis using Some ValueItem by (auto simp add: admit_value_def res_simps)
    qed
  qed
next
  case (ArtifactItem m)
  then show ?thesis
    by (auto simp add: admit_artifact_def admit_artifact_reference_def validate_usage_ok Let_def usage_artifact
        checked_add_Inr enforce_def totals_of_def totals_within_def res_simps word_order_nat)
qed

lemma charge_grows: "totals_within b (item_charge to_vec i t) \<Longrightarrow> totals_within b t"
  by (cases i; cases t) (auto simp add: totals_within_def)

lemma fold_charge_grows: "totals_within b (fold (item_charge to_vec) items t) \<Longrightarrow> totals_within b t"
proof (induction items arbitrary: t)
  case (Cons i items)
  then have "totals_within b (item_charge to_vec i t)" by simp
  then show ?case by (rule charge_grows)
qed simp

lemma usage_of_totals:
  assumes "totals_within b t"
  obtains u where "totals_of u = t"
proof -
  from assms obtain v i a y :: u64 where "t = (unat v, unat i, unat a, unat y)"
    by (cases t) (auto simp add: totals_within_def dest!: small_unat)
  then have "totals_of \<lparr>wu_value_versions = v, wu_inline_bytes = i, wu_artifacts = a, wu_artifact_bytes = y\<rparr> = t"
    by (simp add: totals_of_def)
  then show thesis by (rule that)
qed

lemma admissions_fold:
  assumes "totals_within b (totals_of u)"
  shows "res_fold (admit_item to_vec b) items u = Inr u' \<longleftrightarrow> list_all (item_fits to_vec b) items
      \<and> totals_of u' = fold (item_charge to_vec) items (totals_of u) \<and> totals_within b (totals_of u')"
  using assms
proof (induction items arbitrary: u)
  case Nil
  then show ?case by (auto simp add: totals_inject)
next
  case (Cons i items)
  let ?total = "fold (item_charge to_vec) (i # items) (totals_of u)"
  show ?case
  proof (cases "item_fits to_vec b i \<and> totals_within b (item_charge to_vec i (totals_of u))")
    case True
    obtain v where v: "totals_of v = item_charge to_vec i (totals_of u)"
      by (rule usage_of_totals [OF conjunct2 [OF True]])
    with True Cons.prems have "admit_item to_vec b i u = Inr v" by (simp add: admit_item_Inr)
    then have "res_fold (admit_item to_vec b) (i # items) u = res_fold (admit_item to_vec b) items v" by simp
    moreover have "totals_within b (totals_of v)" using True v by simp
    ultimately show ?thesis using Cons.IH [of v] True v by (simp only: list.pred_inject fold_simps) blast
  next
    case False
    then have "admit_item to_vec b i u \<noteq> Inr v" for v by (auto simp add: admit_item_Inr)
    then have "res_fold (admit_item to_vec b) (i # items) u \<noteq> Inr u'"
      by (cases "admit_item to_vec b i u") auto
    moreover have "\<not> (list_all (item_fits to_vec b) (i # items) \<and> totals_of u' = ?total \<and> totals_within b (totals_of u'))"
    proof (rule notI, elim conjE)
      assume fits: "list_all (item_fits to_vec b) (i # items)" and "totals_of u' = ?total" "totals_within b (totals_of u')"
      then have "totals_within b (fold (item_charge to_vec) items (item_charge to_vec i (totals_of u)))" by simp
      from fold_charge_grows [OF this] fits False show False by simp
    qed
    ultimately show ?thesis by blast
  qed
qed

text \<open>
  C18.  Admitting any sequence of values and artifacts against a budget is exact: it is accepted just when
  every item fits its own limit and the totals, taken as natural numbers, stay within the four
  aggregate limits, whatever the order of the items; the resulting usage is those totals, so no count
  or byte total ever wraps.
\<close>

theorem admissions_exact:
  assumes "validate_usage b u = Inr ()"
  shows "((\<exists>u'. res_fold (admit_item to_vec b) items u = Inr u') \<longleftrightarrow>
      list_all (item_fits to_vec b) items \<and> totals_within b (fold (item_charge to_vec) items (totals_of u)))
    \<and> (\<forall>u'. res_fold (admit_item to_vec b) items u = Inr u' \<longrightarrow>
      totals_of u' = fold (item_charge to_vec) items (totals_of u))"
proof -
  note exact = admissions_fold [OF assms [unfolded validate_usage_ok], of to_vec items]
  show ?thesis
  proof (cases "totals_within b (fold (item_charge to_vec) items (totals_of u))")
    case True
    then obtain v where "totals_of v = fold (item_charge to_vec) items (totals_of u)" by (rule usage_of_totals)
    with True show ?thesis unfolding exact by metis
  next
    case False
    then show ?thesis unfolding exact by metis
  qed
qed


section \<open>A lineage reads exactly the ancestors of its leaf\<close>

definition constructed :: "workspace_scope \<Rightarrow> bool" where
  "constructed s \<longleftrightarrow> workspace_scope_new (sc_reference s) (sc_kind s) (sc_parent s) = Inr s"

definition parent_of :: "(scope_reference \<Rightarrow> workspace_scope option) \<Rightarrow> scope_reference \<Rightarrow> scope_reference \<Rightarrow> bool" where
  "parent_of table r p \<longleftrightarrow> (\<exists>s. table r = Some s \<and> sc_parent s = Some p)"

fun descends :: "scope_reference \<Rightarrow> workspace_scope list \<Rightarrow> bool" where
  "descends previous [] \<longleftrightarrow> True"
| "descends previous (s # rest) \<longleftrightarrow> sc_parent s = Some previous \<and> descends (sc_reference s) rest"

lemma lineage_loop_Inr:
  "lineage_loop i seen (Some previous) scopes = Inr () \<longleftrightarrow> descends previous scopes
    \<and> distinct (map sc_reference scopes) \<and> set (map sc_reference scopes) \<inter> set seen = {}"
  by (induction i seen "Some previous" scopes arbitrary: previous rule: lineage_loop.induct) auto

lemma scope_lineage_new_Inr:
  "scope_lineage_new scopes = Inr lineage \<longleftrightarrow> lineage = scopes \<and> length scopes \<le> MAX_SCOPE_DEPTH
    \<and> (\<exists>root rest. scopes = root # rest \<and> sc_kind root = RunRoot \<and> descends (sc_reference root) rest)
    \<and> distinct (map sc_reference scopes)"
  by (cases scopes) (auto simp add: scope_lineage_new_def lineage_loop_Inr res_simps)

lemma ancestors_descend:
  assumes "descends previous scopes" and "\<And>s. s \<in> set scopes \<Longrightarrow> table (sc_reference s) = Some s"
  shows "(parent_of table)\<^sup>*\<^sup>* (last (previous # map sc_reference scopes)) source \<longleftrightarrow>
    source \<in> sc_reference ` set scopes \<or> (parent_of table)\<^sup>*\<^sup>* previous source"
  using assms
proof (induction scopes arbitrary: previous)
  case (Cons s scopes)
  have "parent_of table (sc_reference s) p \<longleftrightarrow> p = previous" for p
    using Cons.prems by (auto simp add: parent_of_def)
  then have "(parent_of table)\<^sup>*\<^sup>* (sc_reference s) source \<longleftrightarrow>
      source = sc_reference s \<or> (parent_of table)\<^sup>*\<^sup>* previous source"
    by (metis converse_rtranclp_into_rtranclp converse_rtranclpE rtranclp.rtrancl_refl)
  with Cons show ?case by auto
qed simp

lemma descends_run:
  "descends previous scopes \<Longrightarrow> list_all constructed scopes \<Longrightarrow> s \<in> set scopes \<Longrightarrow>
    sr_run (sc_reference s) = sr_run previous"
proof (induction previous scopes rule: descends.induct)
  case (2 previous s rest)
  have "sr_run (sc_reference s) = sr_run previous"
    using 2(2,3) by (auto simp add: constructed_def workspace_scope_new_def res_simps split: scope_kind.splits if_splits)
  with 2 show ?case by auto
qed simp

text \<open>
  C19.  A validated lineage opens exactly the past of its leaf: against any table that holds the scopes of
  the lineage, a scope is readable just when it is the leaf or reached from it by parent links, so a
  sibling branch is never readable; every readable scope belongs to the leaf's run.
\<close>

theorem lineage_reads_ancestors:
  assumes "scope_lineage_new scopes = Inr lineage" and "list_all constructed scopes"
    and "\<And>s. s \<in> set scopes \<Longrightarrow> table (sc_reference s) = Some s"
  shows "(can_read_from lineage source \<longleftrightarrow>
      (parent_of table)\<^sup>*\<^sup>* (sc_reference (lineage_leaf lineage)) source)
    \<and> (can_read_from lineage source \<longrightarrow> sr_run source = sr_run (sc_reference (lineage_leaf lineage)))"
proof -
  from assms(1) obtain root rest where lineage: "lineage = scopes" and scopes: "scopes = root # rest"
    and root: "sc_kind root = RunRoot" and chain: "descends (sc_reference root) rest"
    by (auto simp add: scope_lineage_new_Inr)
  have "sc_parent root = None"
    using assms(2) root by (auto simp add: scopes constructed_def workspace_scope_new_def res_simps split: option.splits)
  then have top: "(parent_of table)\<^sup>*\<^sup>* (sc_reference root) source \<longleftrightarrow> source = sc_reference root"
    using assms(3) [of root] by (auto simp add: scopes parent_of_def elim: converse_rtranclpE)
  have leaf: "sc_reference (lineage_leaf lineage) = last (sc_reference root # map sc_reference rest)"
    by (simp add: lineage_leaf_def lineage scopes last_conv_nth nth_Cons' flip: last_map)
  have reads: "can_read_from lineage source \<longleftrightarrow> source \<in> sc_reference ` set scopes"
    by (auto simp add: can_read_from_def lineage list_ex_iff)
  have "(parent_of table)\<^sup>*\<^sup>* (sc_reference (lineage_leaf lineage)) source \<longleftrightarrow>
      source \<in> sc_reference ` set rest \<or> source = sc_reference root"
    unfolding leaf top [symmetric] by (rule ancestors_descend [OF chain]) (simp add: assms(3) scopes)
  then have first: "can_read_from lineage source \<longleftrightarrow>
      (parent_of table)\<^sup>*\<^sup>* (sc_reference (lineage_leaf lineage)) source"
    unfolding reads by (auto simp add: scopes)
  have run: "sr_run (sc_reference s) = sr_run (sc_reference root)" if "s \<in> set scopes" for s
    using that descends_run [OF chain] assms(2) by (auto simp add: scopes)
  have "lineage_leaf lineage \<in> set scopes"
    unfolding lineage_leaf_def lineage by (rule nth_mem) (simp add: scopes)
  then have "sr_run source = sr_run (sc_reference (lineage_leaf lineage))" if "can_read_from lineage source"
    using that run unfolding reads by fastforce
  with first show ?thesis by blast
qed

definition sample_lineage :: "workspace_scope list" where
  "sample_lineage = [run_root ''run'' ''root'',
    \<lparr>sc_reference = \<lparr>sr_run = ''run'', sr_scope = ''a''\<rparr>, sc_kind = Branch ''a'',
     sc_parent = Some \<lparr>sr_run = ''run'', sr_scope = ''root''\<rparr>\<rparr>]"

theorem lineage_reads_ancestors_witness:
  "(parent_of (map_of (map (\<lambda>s. (sc_reference s, s)) sample_lineage)))\<^sup>*\<^sup>*
     \<lparr>sr_run = ''run'', sr_scope = ''a''\<rparr> \<lparr>sr_run = ''run'', sr_scope = ''root''\<rparr>
   \<and> \<not> (parent_of (map_of (map (\<lambda>s. (sc_reference s, s)) sample_lineage)))\<^sup>*\<^sup>*
     \<lparr>sr_run = ''run'', sr_scope = ''a''\<rparr> \<lparr>sr_run = ''run'', sr_scope = ''b''\<rparr>"
proof -
  let ?table = "map_of (map (\<lambda>s. (sc_reference s, s)) sample_lineage)"
  have "scope_lineage_new sample_lineage = Inr sample_lineage" by code_simp
  moreover have "list_all constructed sample_lineage"
    by (simp add: sample_lineage_def constructed_def workspace_scope_new_def run_root_def res_simps)
  moreover have "?table (sc_reference s) = Some s" if "s \<in> set sample_lineage" for s
    using that by (auto simp add: sample_lineage_def run_root_def)
  ultimately have "can_read_from sample_lineage source \<longleftrightarrow>
      (parent_of ?table)\<^sup>*\<^sup>* (sc_reference (lineage_leaf sample_lineage)) source" for source
    by (rule conjunct1 [OF lineage_reads_ancestors])
  moreover have "sc_reference (lineage_leaf sample_lineage) = \<lparr>sr_run = ''run'', sr_scope = ''a''\<rparr>"
    by (simp add: sample_lineage_def lineage_leaf_def)
  moreover have "can_read_from sample_lineage \<lparr>sr_run = ''run'', sr_scope = ''root''\<rparr>"
    "\<not> can_read_from sample_lineage \<lparr>sr_run = ''run'', sr_scope = ''b''\<rparr>"
    by (simp_all add: can_read_from_def sample_lineage_def run_root_def)
  ultimately show ?thesis by simp
qed

theorem admissions_exact_witness:
  "\<exists>u. res_fold (admit_item (\<lambda>_. Inr ''12345'') \<lparr>wb_max_value_versions = 3, wb_max_inline_bytes_per_value = 5,
      wb_max_total_inline_bytes = 10, wb_max_artifacts = 0, wb_max_bytes_per_artifact = 0, wb_max_total_artifact_bytes = 0\<rparr>)
      [ValueItem (JsonValue JNull), ValueItem (JsonValue JNull)] EMPTY_USAGE = Inr u"
  by (subst conjunct1 [OF admissions_exact])
    (simp_all add: validate_usage_ok totals_within_def totals_of_def EMPTY_USAGE_def)

end
