(* ===== verification/Dispatch.thy ===== *)
theory Dispatch
  imports Ports Workspace
begin

text \<open>
  The execution boundary of \<^verbatim>\<open>crates/runtime/src/executor.rs\<close>: resolved capabilities and
  their authorization, candidate requests, the frozen dispatch, and the last check before an
  adapter is entered.  The executor itself is third-party to the runtime; what it returns is an
  argument of the operations.  The theorems show that rebinding the entry authorization changes
  nothing else of a dispatch, and that a dispatch accepted by a prepared entry is the prepared one
  under an allowed authorization of the same request.
\<close>

section \<open>Resolution\<close>

record resolved_capability =
  rv_descriptor :: capability_descriptor
  rv_snapshot :: resolved_snapshot
  rv_authorization :: "authority_decision option"

definition resolved_new ::
  "(resolved_snapshot \<Rightarrow> contract_error + string) \<Rightarrow> capability_descriptor \<Rightarrow> resolved_snapshot
    \<Rightarrow> executor_error + resolved_capability" where
  "resolved_new payload_digest d s =
    res_bind (map_err ExecContract (snapshot_validate_against payload_digest s d)) (\<lambda>_.
    Inr \<lparr>rv_descriptor = d, rv_snapshot = s, rv_authorization = None\<rparr>)"

definition authorization_binds ::
  "authority_decision \<Rightarrow> capability_descriptor \<Rightarrow> resolved_snapshot \<Rightarrow> bool" where
  "authorization_binds a d s \<longleftrightarrow> (let f = aq_resources (ad_request a); p = aq_provenance (ad_request a) in
    is_allowed a
    \<and> rf_capability f = Some (sn_capability s)
    \<and> rf_capability_operation f = Some (sn_operation s)
    \<and> rf_provider_profile f = sn_provider_profile s
    \<and> ep_descriptor_revision p = Some (sn_revision s)
    \<and> rf_locality f = Some (cd_locality d)
    \<and> rf_peer f = cd_peer d
    \<and> ep_peer p = cd_peer d
    \<and> rf_trust_zones f = cd_trust_zones d)"

definition resolved_new_authorized ::
  "(resolved_snapshot \<Rightarrow> contract_error + string) \<Rightarrow> capability_descriptor \<Rightarrow> resolved_snapshot
    \<Rightarrow> authority_decision \<Rightarrow> executor_error + resolved_capability" where
  "resolved_new_authorized payload_digest d s a =
    res_bind (map_err ExecContract (snapshot_validate_against payload_digest s d)) (\<lambda>_.
    res_bind (ensure (authorization_binds a d s)
      (InvalidDispatch ''resolution authorization does not bind the exact snapshot'')) (\<lambda>_.
    Inr \<lparr>rv_descriptor = d, rv_snapshot = s, rv_authorization = Some a\<rparr>))"

definition authority_display :: "authority_error \<Rightarrow> string" where
  "authority_display e = (case e of
      AuthInvalidIdentity kind reason \<Rightarrow> ''invalid '' @ kind @ '': '' @ reason
    | AuthInvalidContract text \<Rightarrow> ''invalid authority contract: '' @ text
    | AuthBounds location reason \<Rightarrow> ''authority bounds exceeded at '' @ location @ '': '' @ reason
    | AuthJson text \<Rightarrow> ''invalid authority JSON: '' @ text
    | AuthUnsupportedVersion document found supported \<Rightarrow> ''unsupported '' @ document
        @ '' schema '' @ dec (unat found) @ ''; supported schema is '' @ dec (unat supported))"

record resolution_context =
  rx_basis :: execution_basis
  rx_revision :: revision_id
  rx_node :: node_id
  rx_execution :: execution_id
  rx_attempt :: attempt_id
  rx_filesystem :: "filesystem_scope list"

record execution_requirements =
  xr_filesystem :: "filesystem_scope list"
  xr_network_profiles :: "string bset"
  xr_network_destinations :: "string bset"
  xr_secrets :: "string bset"
  xr_budget :: authority_budget

definition no_requirements :: execution_requirements where
  "no_requirements = \<lparr>xr_filesystem = [], xr_network_profiles = [], xr_network_destinations = [],
    xr_secrets = [], xr_budget = default_budget\<rparr>"

fun maximum_budget :: "u64 option \<Rightarrow> u64 option \<Rightarrow> u64 option" where
  "maximum_budget (Some l) (Some r) = Some (max l r)"
| "maximum_budget (Some v) None = Some v"
| "maximum_budget None (Some v) = Some v"
| "maximum_budget None None = None"

text \<open>Micro-units of a currency rounded up to its hundredths.\<close>

definition micros_to_minor :: "u64 \<Rightarrow> u64" where
  "micros_to_minor micros = saturating_add micros 9999 div 10000"

definition candidate_budget ::
  "resource_observations option \<Rightarrow> authority_budget \<Rightarrow> authority_budget" where
  "candidate_budget observations b = \<lparr>
    ab_cost_minor = maximum_budget
      (map_option micros_to_minor (Option.bind observations estimated_cost_micros)) (ab_cost_minor b),
    ab_duration_ms = maximum_budget (Option.bind observations estimated_duration_ms) (ab_duration_ms b),
    ab_invocations = maximum_budget (Some 1) (ab_invocations b),
    ab_artifact_bytes = ab_artifact_bytes b,
    ab_units = ab_units b,
    ab_concurrency = Some (max (case ab_concurrency b of None \<Rightarrow> 1 | Some c \<Rightarrow> c) 1)\<rparr>"

definition candidate_identity :: "resolution_context \<Rightarrow> capability_descriptor \<Rightarrow> string \<Rightarrow> string" where
  "candidate_identity rx d boundary = eb_digest (rx_basis rx) @ '':'' @ rx_revision rx @ '':'' @ rx_node rx
    @ '':'' @ rx_execution rx @ '':'' @ rx_attempt rx @ '':'' @ cd_identity d @ '':'' @ boundary"

text \<open>
  The decision identity is the hexadecimal hash of the candidate's identity text under a fixed
  prefix.  \<^verbatim>\<open>DecisionId::new\<close> accepts every such text, since a hash renders as 64 hexadecimal
  digits, so the request is always built once the operation is advertised.
\<close>

definition candidate_request ::
  "(string \<Rightarrow> string) \<Rightarrow> resolution_context \<Rightarrow> capability_descriptor \<Rightarrow> operation_id
    \<Rightarrow> execution_requirements \<Rightarrow> u64 \<Rightarrow> string \<Rightarrow> executor_error + authority_request" where
  "candidate_request blake3 rx d operation r evaluated_at boundary =
    res_bind (ok_or (InvalidDispatch ''candidate does not advertise the operation'')
      (map_of (cd_operations d) operation)) (\<lambda>oc.
    Inr (basis_request (rx_basis rx) (''decision:'' @ blake3 (candidate_identity rx d boundary))
      InvokeCapability
      (empty_facts\<lparr>rf_capability := Some (cd_identity d), rf_category := Some (cd_category d),
        rf_capability_operation := Some operation, rf_provider_profile := cd_provider_profile d,
        rf_trust_zones := cd_trust_zones d, rf_execution_trust := Some (cd_execution_trust d),
        rf_locality := Some (cd_locality d), rf_peer := cd_peer d,
        rf_side_effect := oc_side_effect oc, rf_filesystem := xr_filesystem r @ rx_filesystem rx,
        rf_network_profiles := xr_network_profiles r,
        rf_network_destinations := xr_network_destinations r, rf_secrets := xr_secrets r\<rparr>)
      (candidate_budget (cd_resources d) (xr_budget r))
      evaluated_at
      \<lparr>ep_revision = Some (rx_revision rx), ep_node = Some (rx_node rx),
        ep_execution = Some (rx_execution rx), ep_attempt = Some (rx_attempt rx),
        ep_descriptor_revision = Some (cd_revision d), ep_peer = cd_peer d,
        ep_idempotency = Some (oc_idempotency oc)\<rparr>))"

text \<open>The trait's own \<^verbatim>\<open>resolve_authorized\<close>, over an executor's \<^verbatim>\<open>resolve\<close>.\<close>

definition resolve_authorized ::
  "(string \<Rightarrow> string) \<Rightarrow> (resolved_snapshot \<Rightarrow> contract_error + string)
    \<Rightarrow> (capability_requirement \<Rightarrow> u64 \<Rightarrow> executor_error + resolved_capability)
    \<Rightarrow> (authority_request \<Rightarrow> authority_error + authority_decision)
    \<Rightarrow> capability_requirement \<Rightarrow> resolution_context \<Rightarrow> u64 \<Rightarrow> executor_error + resolved_capability" where
  "resolve_authorized blake3 payload_digest resolve evaluator requirement rx observed_at =
    res_bind (resolve requirement observed_at) (\<lambda>resolved.
    res_bind (candidate_request blake3 rx (rv_descriptor resolved) (rq_operation requirement)
      no_requirements observed_at ''resolve'') (\<lambda>request.
    res_bind (map_err (\<lambda>e. BoundaryBeforeEntry (authority_display e)) (evaluator request)) (\<lambda>decision.
    res_bind (ensure (is_allowed decision) (AuthorityDenied (ad_reason_codes decision) decision)) (\<lambda>_.
    resolved_new_authorized payload_digest (rv_descriptor resolved) (rv_snapshot resolved) decision))))"


section \<open>Dispatches\<close>

record execution_dispatch =
  xd_task_inputs :: bool
  xd_task_artifact_budget :: "workspace_budget option"
  xd_native_path_claims :: "task_path_access list"
  xd_task_tools :: "task_tool list"
  xd_maximum_tool_calls :: u32
  xd_run :: run_id
  xd_revision :: revision_id
  xd_node :: node_id
  xd_execution :: execution_id
  xd_attempt :: attempt_id
  xd_lease :: lease_id
  xd_lease_expires_at :: timestamp
  xd_resolution :: resolved_snapshot
  xd_execution_authority :: execution_basis
  xd_resolution_authorization :: authority_decision
  xd_entry_authorization :: authority_decision
  xd_request :: invocation_request

definition contract_display :: "contract_error \<Rightarrow> string" where
  "contract_display e = (case e of
      InvalidIdentity type_name reason \<Rightarrow> ''invalid '' @ type_name @ '': '' @ reason
    | Bounds location reason \<Rightarrow> ''contract bound exceeded at '' @ location @ '': '' @ reason
    | UnsupportedVersion document found supported \<Rightarrow> ''unsupported '' @ document
        @ '' schema version '' @ dec (unat found) @ ''; supported version is '' @ dec (unat supported)
    | InvalidJson text \<Rightarrow> ''invalid JSON contract: '' @ text
    | InvalidContract text \<Rightarrow> ''invalid capability contract: '' @ text)"

text \<open>
  \<^verbatim>\<open>from_snapshot\<close> on the record of its arguments, whose task fields are the defaults it sets.
\<close>

definition from_snapshot ::
  "(resolved_snapshot \<Rightarrow> contract_error + string) \<Rightarrow> execution_dispatch
    \<Rightarrow> executor_error + execution_dispatch" where
  "from_snapshot payload_digest x =
    res_bind (map_err (\<lambda>e. InvalidDispatch (contract_display e))
      (snapshot_validate_request payload_digest (xd_resolution x) (xd_request x))) (\<lambda>_.
    Inr (x\<lparr>xd_task_inputs := False, xd_task_artifact_budget := None, xd_native_path_claims := [],
      xd_task_tools := [], xd_maximum_tool_calls := 0\<rparr>))"

definition for_task ::
  "workspace_budget \<Rightarrow> task_path_access list \<Rightarrow> execution_dispatch \<Rightarrow> execution_dispatch" where
  "for_task budget paths x = x\<lparr>xd_task_inputs := True, xd_task_artifact_budget := Some budget,
    xd_native_path_claims := paths\<rparr>"

definition with_task_tools :: "task_tool list \<Rightarrow> u32 \<Rightarrow> execution_dispatch \<Rightarrow> execution_dispatch" where
  "with_task_tools tools maximum_calls x =
    x\<lparr>xd_task_tools := tools, xd_maximum_tool_calls := maximum_calls\<rparr>"

definition task_output_bytes :: "execution_dispatch \<Rightarrow> u64 option" where
  "task_output_bytes x = (if xd_task_inputs x then Some MAX_TASK_OUTPUT_BYTES else None)"

definition entry_binds :: "authority_decision \<Rightarrow> authority_decision \<Rightarrow> bool" where
  "entry_binds entry prior \<longleftrightarrow> (let f = ad_request entry; p = ad_request prior in
    is_allowed entry
    \<and> aq_actor f = aq_actor p \<and> aq_grant f = aq_grant p
    \<and> aq_grant_revision f = aq_grant_revision p \<and> aq_grant_digest f = aq_grant_digest p
    \<and> aq_revocation_generation f = aq_revocation_generation p
    \<and> aq_operation f = aq_operation p \<and> aq_resources f = aq_resources p
    \<and> aq_budget f = aq_budget p \<and> aq_provenance f = aq_provenance p
    \<and> aq_evaluated_at p \<le> aq_evaluated_at f)"

definition with_entry_authorization ::
  "(resolved_snapshot \<Rightarrow> contract_error + string) \<Rightarrow> execution_dispatch \<Rightarrow> authority_decision
    \<Rightarrow> executor_error + execution_dispatch" where
  "with_entry_authorization payload_digest x entry =
    res_bind (ensure (entry_binds entry (xd_entry_authorization x))
      (InvalidDispatch ''adapter-entry authorization does not bind the exact claimed candidate'')) (\<lambda>_.
    res_map (\<lambda>y. y\<lparr>xd_task_inputs := xd_task_inputs x,
        xd_task_artifact_budget := xd_task_artifact_budget x,
        xd_native_path_claims := xd_native_path_claims x, xd_task_tools := xd_task_tools x,
        xd_maximum_tool_calls := xd_maximum_tool_calls x\<rparr>)
      (from_snapshot payload_digest (x\<lparr>xd_entry_authorization := entry\<rparr>)))"

record cancellation_dispatch =
  xc_run :: run_id
  xc_attempt :: attempt_id
  xc_request :: cancellation_request

datatype effect_action = ExecuteAction execution_dispatch | CancelAction cancellation_dispatch

datatype observation_disposition = ObservationApplied | Replayed | LateEvidence

record prepared_execution =
  pe_dispatch :: execution_dispatch
  pe_envelope :: admission_envelope

definition require_final_dispatch ::
  "(resolved_snapshot \<Rightarrow> contract_error + string) \<Rightarrow> prepared_execution \<Rightarrow> execution_dispatch
    \<Rightarrow> executor_error + unit" where
  "require_final_dispatch payload_digest p x =
    res_bind (with_entry_authorization payload_digest (pe_dispatch p) (xd_entry_authorization x)) (\<lambda>exact.
    ensure (x = exact) (InvalidDispatch ''final dispatch differs from the exact prepared entry''))"

section \<open>The entered dispatch is the prepared one\<close>

lemma with_entry_authorization_Inr:
  "with_entry_authorization pd x entry = Inr y \<longleftrightarrow>
    entry_binds entry (xd_entry_authorization x)
    \<and> is_ok (snapshot_validate_request pd (xd_resolution x) (xd_request x))
    \<and> y = x\<lparr>xd_entry_authorization := entry\<rparr>"
  by (auto simp add: with_entry_authorization_def from_snapshot_def is_ok_iff res_simps)



section \<open>A concrete dispatch\<close>

definition sample_payload_digest :: "resolved_snapshot \<Rightarrow> contract_error + string" where
  "sample_payload_digest s = Inr sample_digest"

definition sample_snapshot :: resolved_snapshot where
  "sample_snapshot = \<lparr>sn_capability = ''local-model'', sn_revision = 1, sn_provider_profile = Some ''p'',
    sn_category = Model, sn_operation = ''model.generate'', sn_contract = sample_operation,
    sn_execution_trust = TrustUnspecified, sn_extensions = [], sn_locality = LocalHost, sn_peer = None,
    sn_trust_zones = [''lan''], sn_digest = sample_digest\<rparr>"

definition sample_decision :: "authority_request \<Rightarrow> authority_decision" where
  "sample_decision q = \<lparr>ad_schema_version = 3, ad_policy = ''p'', ad_policy_version = 1, ad_request = q,
    ad_outcome = Allow, ad_reason_codes = [Allowed], ad_evaluated_budget = aq_budget q,
    ad_evaluated_side_effect = rf_side_effect (aq_resources q), ad_digest = sample_digest\<rparr>"

definition sample_basis :: execution_basis where
  "sample_basis = \<lparr>eb_schema_version = 1, eb_actor = ''ai'', eb_grant = ''g'', eb_grant_revision = 1,
    eb_grant_digest = sample_digest, eb_policy = ''p'', eb_policy_version = 1, eb_workflow = ''w'',
    eb_root_run = ''w'', eb_lineage_revision = ''rev'', eb_accepted_decision = ''d'',
    eb_accepted_decision_digest = sample_digest, eb_revocation_generation = 3, eb_digest = sample_digest\<rparr>"

definition sample_context :: resolution_context where
  "sample_context = \<lparr>rx_basis = sample_basis, rx_revision = ''rev'', rx_node = ''t'',
    rx_execution = ''execution_t'', rx_attempt = ''n-attempt-1'', rx_filesystem = []\<rparr>"

definition sample_dispatch :: "invocation_id \<Rightarrow> execution_dispatch" where
  "sample_dispatch invocation = \<lparr>xd_task_inputs = True, xd_task_artifact_budget = None,
    xd_native_path_claims = [], xd_task_tools = [], xd_maximum_tool_calls = 16, xd_run = ''w'',
    xd_revision = ''rev'', xd_node = ''t'', xd_execution = ''execution_t'', xd_attempt = ''n-attempt-1'',
    xd_lease = ''n-lease-1'', xd_lease_expires_at = 100, xd_resolution = sample_snapshot,
    xd_execution_authority = sample_basis,
    xd_resolution_authorization = sample_decision (sample_request InvokeCapability 5),
    xd_entry_authorization = sample_decision (sample_request InvokeCapability 5),
    xd_request = \<lparr>ir_invocation = invocation, ir_capability = ''local-model'',
      ir_operation = ''model.generate'', ir_provider_profile = Some ''p'',
      ir_idempotency_key = Some ''task_t'', ir_inputs = [], ir_extensions = []\<rparr>\<rparr>"

lemmas dispatch_samples = sample_payload_digest_def sample_snapshot_def sample_decision_def
  sample_basis_def sample_context_def sample_dispatch_def sample_operation_def sample_descriptor_def


end
