(* ===== verification/Messages.thy ===== *)
theory Messages
  imports Dispatch
begin

text \<open>
  The \<^verbatim>\<open>Display\<close> texts of the error types, as their \<^verbatim>\<open>error\<close> attributes give them
  (\<^verbatim>\<open>crates/runtime/src/executor.rs\<close>, \<^verbatim>\<open>crates/runtime/src/error.rs\<close>,
  \<^verbatim>\<open>crates/persistence/src/error.rs\<close>).  The runtime retains them as reasons.  The quoted
  \<^verbatim>\<open>Debug\<close> form of a text, whose escapes depend on Unicode tables, is an argument.
\<close>

fun debug_list :: "string list \<Rightarrow> string" where
  "debug_list [] = ''''"
| "debug_list [x] = x"
| "debug_list (x # y # xs) = x @ '', '' @ debug_list (y # xs)"

primrec reason_debug :: "decision_reason \<Rightarrow> string" where
  "reason_debug Allowed = ''Allowed''"
| "reason_debug GrantNotFound = ''GrantNotFound''"
| "reason_debug GrantRevisionMismatch = ''GrantRevisionMismatch''"
| "reason_debug GrantDigestMismatch = ''GrantDigestMismatch''"
| "reason_debug WrongActor = ''WrongActor''"
| "reason_debug Revoked = ''Revoked''"
| "reason_debug NotYetValid = ''NotYetValid''"
| "reason_debug Expired = ''Expired''"
| "reason_debug OperationMismatch = ''OperationMismatch''"
| "reason_debug WorkflowRunMismatch = ''WorkflowRunMismatch''"
| "reason_debug CapabilityMismatch = ''CapabilityMismatch''"
| "reason_debug PlacementMismatch = ''PlacementMismatch''"
| "reason_debug SideEffectExcess = ''SideEffectExcess''"
| "reason_debug FilesystemMismatch = ''FilesystemMismatch''"
| "reason_debug NetworkMismatch = ''NetworkMismatch''"
| "reason_debug SecretScopeMismatch = ''SecretScopeMismatch''"
| "reason_debug ArtifactScopeMismatch = ''ArtifactScopeMismatch''"
| "reason_debug PeerScopeMismatch = ''PeerScopeMismatch''"
| "reason_debug DaemonScopeMismatch = ''DaemonScopeMismatch''"
| "reason_debug WorkspaceScopeMismatch = ''WorkspaceScopeMismatch''"
| "reason_debug BudgetExcess = ''BudgetExcess''"

primrec class_debug :: "storage_failure_class \<Rightarrow> string" where
  "class_debug CorruptionClass = ''Corruption''"
| "class_debug UnavailableClass = ''Unavailable''"
| "class_debug OwnerBusyClass = ''OwnerBusy''"
| "class_debug MigrationClass = ''Migration''"
| "class_debug ResourceExhaustedClass = ''ResourceExhausted''"
| "class_debug InternalClass = ''Internal''"

definition dec64 :: "u64 \<Rightarrow> string" where
  "dec64 n = dec (unat n)"

definition option_debug :: "u64 option \<Rightarrow> string" where
  "option_debug n = (case n of None \<Rightarrow> ''None'' | Some v \<Rightarrow> ''Some('' @ dec64 v @ '')'')"

definition executor_display :: "(string \<Rightarrow> string) \<Rightarrow> executor_error \<Rightarrow> string" where
  "executor_display quoted e = (case e of
      InvalidDispatch text \<Rightarrow> ''invalid execution dispatch: '' @ text
    | ResolutionMismatch reasons \<Rightarrow>
        ''capability resolution mismatch: ['' @ debug_list (map quoted reasons) @ '']''
    | AuthorityDenied reasons _ \<Rightarrow>
        ''capability selection denied: ['' @ debug_list (map reason_debug reasons) @ '']''
    | UnavailableGeneration capability revision \<Rightarrow>
        ''capability generation '' @ capability @ ''/'' @ dec64 revision @ '' is unavailable''
    | Unavailable text \<Rightarrow> ''capability unavailable: '' @ text
    | CapacityUnavailable text \<Rightarrow> ''capability capacity unavailable before entry: '' @ text
    | Overloaded text \<Rightarrow> ''capability generation overloaded: '' @ text
    | AdmissionClosed \<Rightarrow> ''capability host admission is closed''
    | BoundaryBeforeEntry text \<Rightarrow> ''executor failed before adapter entry: '' @ text
    | BoundaryAfterEntry text \<Rightarrow> ''executor outcome is unknown after adapter entry: '' @ text
    | BoundaryAfterResponse text \<Rightarrow>
        ''executor local failure after complete provider response: '' @ text
    | AdapterPanicked after_entry \<Rightarrow>
        ''adapter panicked (after_entry='' @ (if after_entry then ''true'' else ''false'') @ '')''
    | Boundary text \<Rightarrow> ''executor boundary failed: '' @ text
    | InvalidReports text \<Rightarrow> ''invalid executor reports: '' @ text
    | ExecContract error \<Rightarrow> contract_display error)"

definition persistence_display :: "persistence_error \<Rightarrow> string" where
  "persistence_display e = (case e of
      DaemonGenerationConflict expected actual \<Rightarrow>
        ''daemon name generation conflict: expected '' @ dec64 expected @ '', actual '' @ dec64 actual
    | DaemonIdempotencyConflict actor key \<Rightarrow>
        ''daemon rename '' @ key @ '' idempotency conflict for actor '' @ actor
    | WorkflowGenerationConflict workflow expected actual \<Rightarrow>
        ''workflow '' @ workflow @ '' generation conflict: expected '' @ option_debug expected
          @ '', actual '' @ option_debug actual
    | WorkflowIdempotencyConflict actor key \<Rightarrow>
        ''workflow command '' @ key @ '' idempotency conflict for actor '' @ actor
    | StoreInvalidIdentity kind reason \<Rightarrow> ''invalid '' @ kind @ '': '' @ reason
    | InvalidDigest text \<Rightarrow> ''invalid integrity digest: '' @ text
    | StoreBounds location reason \<Rightarrow> ''persistence bound exceeded at '' @ location @ '': '' @ reason
    | InvalidDocument text \<Rightarrow> ''invalid durable document: '' @ text
    | StoreJson text \<Rightarrow> ''invalid durable JSON: '' @ text
    | StoreUnsupportedVersion document found supported \<Rightarrow> ''unsupported '' @ document
        @ '' schema version '' @ dec (unat found) @ ''; supported version is '' @ dec (unat supported)
    | Corruption text \<Rightarrow> ''durable data corruption: '' @ text
    | ImmutableConflict entity identity \<Rightarrow>
        ''immutable '' @ entity @ '' conflict for identity '' @ identity
    | NotFound entity identity \<Rightarrow> entity @ '' not found: '' @ identity
    | InvalidCursor text \<Rightarrow> ''invalid page cursor: '' @ text
    | ArtifactNotCommitted text \<Rightarrow> ''artifact is not durably committed: '' @ text
    | WorkspaceUsageConflict run \<Rightarrow> ''workspace usage conflict for run '' @ run
    | ArtifactAccessDenied text \<Rightarrow> ''artifact access denied: '' @ text
    | SequenceOverflow \<Rightarrow> ''run sequence overflow''
    | MigrationRequired found target \<Rightarrow>
        ''storage schema '' @ dec (unat found) @ '' requires migration to '' @ dec (unat target)
    | Storage class message \<Rightarrow> ''storage '' @ class_debug class @ '': '' @ message)"

definition runtime_display :: "(string \<Rightarrow> string) \<Rightarrow> runtime_error \<Rightarrow> string" where
  "runtime_display quoted e = (case e of
      RtAuthority error \<Rightarrow> authority_display error
    | AuthorizationDenied decision reasons \<Rightarrow> ''authorization denied by decision '' @ decision
        @ '': ['' @ debug_list (map reason_debug reasons) @ '']''
    | InvalidCommand text \<Rightarrow> ''invalid workflow command: '' @ text
    | InvalidHistory text \<Rightarrow> ''invalid workflow history: '' @ text
    | InvalidTransition text \<Rightarrow> ''invalid task transition: '' @ text
    | Scheduling text \<Rightarrow> ''deterministic scheduling failed: '' @ text
    | RtJson text \<Rightarrow> ''invalid runtime JSON: '' @ text
    | RtPersistence error \<Rightarrow> persistence_display error
    | RtExecutor error \<Rightarrow> executor_display quoted error)"

end
