(* ===== verification/ModelTask.thy ===== *)
theory ModelTask
  imports Capability
begin

text \<open>
  The provider-neutral model contracts of \<^verbatim>\<open>crates/model/src/task.rs\<close> and
  \<^verbatim>\<open>crates/model/src/continuation.rs\<close>: messages, tools, structured output, requests and
  responses with their validations, and the splicing of a prior conversation into a request.  The
  theorems say exactly when a history of tool calls and results is accepted, and that a request a
  history was spliced into is within every bound of a request and leaves no tool call unanswered.
\<close>

section \<open>Messages, tools and requests\<close>

datatype model_contract_error =
    ModelJson string
  | ModelBounds string string
  | ModelUnsupportedVersion string u32 u32
  | ModelInvalid string

definition model_display :: "model_contract_error \<Rightarrow> string" where
  "model_display e = (case e of
      ModelJson text \<Rightarrow> ''invalid model contract JSON: '' @ text
    | ModelBounds location reason \<Rightarrow> ''model contract bound exceeded at '' @ location @ '': '' @ reason
    | ModelUnsupportedVersion document found supported \<Rightarrow> ''unsupported '' @ document
        @ '' schema version '' @ dec (unat found) @ ''; supported version is '' @ dec (unat supported)
    | ModelInvalid text \<Rightarrow> ''invalid model contract: '' @ text)"

definition "MAX_MESSAGES = (256 :: nat)"
definition "MAX_PARTS = (1024 :: nat)"
definition "MAX_TEXT_BYTES = (1048576 :: nat)"
definition "MAX_TOOLS = (64 :: nat)"
definition "MAX_TOOL_CALLS = (128 :: nat)"
definition "MAX_MODEL_OUTPUT_UNITS = (4000000 :: u64)"
definition "MODEL_TASK_INPUT_NAME = ''milkdrift.model_task''"

definition safe_name :: "string \<Rightarrow> nat \<Rightarrow> bool" where
  "safe_name s maximum \<longleftrightarrow> s \<noteq> [] \<and> length s \<le> maximum \<and> is_ascii s
    \<and> list_all (\<lambda>c. is_ascii_alphanumeric c \<or> c \<in> set ''_-.:/'') s"

datatype message_role = SystemRole | DeveloperRole | UserRole | AssistantRole | ToolResultRole

datatype content_part =
    TextPart string
  | ArtifactPart artifact_reference
  | ImagePart artifact_reference
  | FilePart artifact_reference

record tool_call =
  tl_id :: string
  tl_name :: string
  tl_arguments :: json

definition tool_call_new :: "string \<Rightarrow> string \<Rightarrow> json \<Rightarrow> model_contract_error + tool_call" where
  "tool_call_new i name arguments =
    res_bind (ensure (safe_name i 128 \<and> safe_name name 128)
      (ModelInvalid ''invalid returned tool call identity'')) (\<lambda>_.
    Inr \<lparr>tl_id = i, tl_name = name, tl_arguments = arguments\<rparr>)"

record message =
  mg_role :: message_role
  mg_parts :: "content_part list"
  mg_tool_call_id :: "string option"
  mg_tool_calls :: "tool_call list"

definition part_text :: "content_part \<Rightarrow> string" where
  "part_text part = (case part of TextPart text \<Rightarrow> text | _ \<Rightarrow> [])"

definition message_validate :: "message \<Rightarrow> model_contract_error + unit" where
  "message_validate m =
    res_bind (ensure (\<not> (MAX_TOOL_CALLS < length (mg_tool_calls m)
        \<or> mg_tool_calls m \<noteq> [] \<and> mg_role m \<noteq> AssistantRole
        \<or> \<not> distinct (map tl_id (mg_tool_calls m))))
      (ModelInvalid ''invalid assistant tool calls'')) (\<lambda>_.
    res_bind (ensure (mg_parts m \<noteq> [] \<and> length (mg_parts m) \<le> MAX_PARTS)
      (ModelInvalid (''a message must contain 1..='' @ dec MAX_PARTS @ '' parts''))) (\<lambda>_.
    res_bind (ensure ((mg_role m = ToolResultRole) = (mg_tool_call_id m \<noteq> None))
      (ModelInvalid ''tool-result role requires exactly one tool_call_id'')) (\<lambda>_.
    res_bind (ensure (opt_all (\<lambda>i. safe_name i 128) (mg_tool_call_id m))
      (ModelInvalid ''tool_call_id is not a bounded safe identity'')) (\<lambda>_.
    ensure (list_all (\<lambda>part. length (part_text part) \<le> MAX_TEXT_BYTES) (mg_parts m))
      (ModelBounds ''message.parts.text'' (''text exceeds '' @ dec MAX_TEXT_BYTES @ '' bytes''))))))"

definition message_new ::
  "message_role \<Rightarrow> content_part list \<Rightarrow> string option \<Rightarrow> model_contract_error + message" where
  "message_new role parts tool_call_id =
    (let m = \<lparr>mg_role = role, mg_parts = parts, mg_tool_call_id = tool_call_id, mg_tool_calls = []\<rparr> in
     res_map (\<lambda>_. m) (message_validate m))"

definition with_tool_calls :: "tool_call list \<Rightarrow> message \<Rightarrow> model_contract_error + message" where
  "with_tool_calls calls m = res_map (\<lambda>_. m\<lparr>mg_tool_calls := calls\<rparr>) (message_validate (m\<lparr>mg_tool_calls := calls\<rparr>))"

record tool_definition =
  tf_name :: string
  tf_description :: string
  tf_input_schema :: json

definition tool_validate :: "tool_definition \<Rightarrow> model_contract_error + unit" where
  "tool_validate tool = ensure (safe_name (tf_name tool) 128 \<and> length (tf_description tool) \<le> 4096)
    (ModelInvalid ''tool name or description exceeds its bound'')"

definition tool_new :: "string \<Rightarrow> string \<Rightarrow> json \<Rightarrow> model_contract_error + tool_definition" where
  "tool_new name description schema =
    (let tool = \<lparr>tf_name = name, tf_description = description, tf_input_schema = schema\<rparr> in
     res_map (\<lambda>_. tool) (tool_validate tool))"

record structured_output =
  so_name :: string
  so_schema :: json
  so_strict :: bool

definition structured_output_new :: "string \<Rightarrow> json \<Rightarrow> bool \<Rightarrow> model_contract_error + structured_output" where
  "structured_output_new name schema strict =
    res_bind (ensure (safe_name name 128) (ModelInvalid ''invalid structured-output name'')) (\<lambda>_.
    Inr \<lparr>so_name = name, so_schema = schema, so_strict = strict\<rparr>)"

datatype session_selection =
    Fresh
  | ExplicitContinuation artifact_reference artifact_reference
  | ProviderManaged string

datatype reasoning_effort = LowEffort | MediumEffort | HighEffort

record reasoning_control =
  rs_effort :: "reasoning_effort option"
  rs_maximum_units :: "u64 option"

record model_task_request =
  mr_messages :: "message list"
  mr_tools :: "tool_definition list"
  mr_structured_output :: "structured_output option"
  mr_session :: session_selection
  mr_reasoning :: "reasoning_control option"
  mr_maximum_output_units :: u64
  mr_streaming :: bool
  mr_extensions :: extensions

text \<open>One message of a request: its own validation, then its text on the account.\<close>

definition charge_message :: "message \<Rightarrow> nat \<Rightarrow> model_contract_error + nat" where
  "charge_message m text_bytes =
    res_bind (message_validate m) (\<lambda>_.
    res_fold (\<lambda>part sum_bytes. ok_or (ModelInvalid ''model text accounting overflow'')
      (usize_add sum_bytes (length (part_text part)))) (mg_parts m) text_bytes)"

primrec check_tool_names :: "tool_definition list \<Rightarrow> string bset \<Rightarrow> model_contract_error + unit" where
  "check_tool_names [] names = Inr ()"
| "check_tool_names (tool # rest) names =
    res_bind (tool_validate tool) (\<lambda>_.
    res_bind (ensure (tf_name tool \<notin> set names) (ModelInvalid ''duplicate tool name'')) (\<lambda>_.
    check_tool_names rest (bs_insert (tf_name tool) names)))"

definition model_request_validate :: "model_task_request \<Rightarrow> model_contract_error + unit" where
  "model_request_validate r =
    res_bind (ensure (\<not> (mr_messages r = [] \<or> MAX_MESSAGES < length (mr_messages r)
        \<or> MAX_TOOLS < length (mr_tools r) \<or> mr_maximum_output_units r = 0
        \<or> MAX_MODEL_OUTPUT_UNITS < mr_maximum_output_units r \<or> 64 < length (mr_extensions r)))
      (ModelInvalid ''model request exceeds count/unit bounds'')) (\<lambda>_.
    res_bind (res_fold charge_message (mr_messages r) 0) (\<lambda>text_bytes.
    res_bind (ensure (text_bytes \<le> MAX_TEXT_BYTES)
      (ModelBounds ''request.messages'' (''aggregate text exceeds '' @ dec MAX_TEXT_BYTES @ '' bytes''))) (\<lambda>_.
    res_bind (check_tool_names (mr_tools r) []) (\<lambda>_.
    res_bind (ensure (case mr_session r of ProviderManaged session \<Rightarrow> safe_name session 512 | _ \<Rightarrow> True)
      (ModelInvalid ''invalid provider session identity'')) (\<lambda>_.
    ensure (\<not> opt_any (\<lambda>control. rs_maximum_units control = Some 0) (mr_reasoning r))
      (ModelInvalid ''reasoning maximum_units must be nonzero''))))))"

definition model_request_new :: "model_task_request \<Rightarrow> model_contract_error + model_task_request" where
  "model_request_new r = res_map (\<lambda>_. r) (model_request_validate r)"


section \<open>Responses\<close>

datatype finish_reason = StopFinish | LengthFinish | ToolCallsFinish | ContentFilterFinish
  | CancelledFinish | ErrorFinish | UnknownFinish

record model_usage =
  mu_input_units :: "u64 option"
  mu_output_units :: "u64 option"
  mu_cached_input_units :: "u64 option"
  mu_cost_micros :: "u64 option"
  mu_currency :: "string option"

record model_response =
  mp_text :: string
  mp_structured :: "json option"
  mp_tool_calls :: "tool_call list"
  mp_finish_reason :: finish_reason
  mp_usage :: model_usage
  mp_provider_metadata :: extensions

definition response_new :: "model_response \<Rightarrow> model_contract_error + model_response" where
  "response_new r =
    res_bind (ensure (\<not> (MAX_TEXT_BYTES < length (mp_text r) \<or> MAX_TOOL_CALLS < length (mp_tool_calls r)
        \<or> 64 < length (mp_provider_metadata r)
        \<or> (mu_cost_micros (mp_usage r) \<noteq> None) \<noteq> (mu_currency (mp_usage r) \<noteq> None)))
      (ModelInvalid ''model response exceeds bounds or has invalid cost facts'')) (\<lambda>_.
    res_bind (ensure (opt_all (\<lambda>c. length c = 3 \<and> list_all is_ascii_uppercase c) (mu_currency (mp_usage r)))
      (ModelInvalid ''usage currency must be three uppercase ASCII letters'')) (\<lambda>_.
    Inr r))"


section \<open>Continuations\<close>

definition "MAX_CONTINUATION_DEPTH = (32 :: nat)"

text \<open>The five journal anchors of a turn are a list of length five.\<close>

record continuation_turn =
  cu_manifest :: artifact_reference
  cu_response :: artifact_reference
  cu_events :: "u64 list"
  cu_message_end :: u32

record continuation_history =
  ch_turns :: "continuation_turn list"
  ch_messages :: "message list"
  ch_authority :: string

definition is_instruction :: "message \<Rightarrow> bool" where
  "is_instruction m \<longleftrightarrow> mg_role m = SystemRole \<or> mg_role m = DeveloperRole"

definition note_call :: "tool_call \<Rightarrow> string bset \<times> string bset \<Rightarrow> model_contract_error + string bset \<times> string bset" where
  "note_call call state = (case state of (opened, seen) \<Rightarrow>
    res_bind (ensure (tl_id call \<notin> set seen) (ModelInvalid ''tool call identity is repeated'')) (\<lambda>_.
    Inr (bs_insert (tl_id call) opened, bs_insert (tl_id call) seen)))"

definition tool_exchange :: "message \<Rightarrow> string bset \<times> string bset \<Rightarrow> model_contract_error + string bset \<times> string bset" where
  "tool_exchange m state = (case state of (opened, seen) \<Rightarrow>
    if mg_role m = ToolResultRole
    then res_bind (ensure (opt_any (\<lambda>i. i \<in> set opened) (mg_tool_call_id m))
        (ModelInvalid ''tool result has no unique preceding call'')) (\<lambda>_.
      Inr (filter (\<lambda>i. Some i \<noteq> mg_tool_call_id m) opened, seen))
    else res_bind (ensure (opened = []) (ModelInvalid ''tool exchange is incomplete'')) (\<lambda>_.
      res_fold note_call (mg_tool_calls m) (opened, seen)))"

definition validate_tool_history :: "message list \<Rightarrow> bool \<Rightarrow> model_contract_error + unit" where
  "validate_tool_history messages complete =
    res_bind (res_fold tool_exchange messages ([], [])) (\<lambda>(opened, _).
    ensure (\<not> (complete \<and> opened \<noteq> [])) (ModelInvalid ''tool exchange is incomplete''))"

text \<open>\<^verbatim>\<open>zip(skip(1))\<close> with a strict comparison.\<close>

definition increasing :: "'a::linorder list \<Rightarrow> bool" where
  "increasing xs \<longleftrightarrow> list_all (\<lambda>(a, b). a < b) (zip xs (tl xs))"

definition turns_ok :: "continuation_turn list \<Rightarrow> nat \<Rightarrow> bool" where
  "turns_ok turns messages \<longleftrightarrow> turns \<noteq> [] \<and> length turns \<le> MAX_CONTINUATION_DEPTH
    \<and> distinct (map (ar_identity \<circ> cu_manifest) turns)
    \<and> list_all (\<lambda>turn. 0 \<notin> set (cu_events turn) \<and> increasing (cu_events turn)) turns
    \<and> unat (cu_message_end (last turns)) = messages
    \<and> cu_message_end (hd turns) \<noteq> 0
    \<and> increasing (map cu_message_end turns)"

definition bounds_request :: "message list \<Rightarrow> model_task_request" where
  "bounds_request messages = \<lparr>mr_messages = messages, mr_tools = [], mr_structured_output = None,
    mr_session = Fresh, mr_reasoning = None, mr_maximum_output_units = 1, mr_streaming = False,
    mr_extensions = []\<rparr>"

definition history_new ::
  "continuation_turn list \<Rightarrow> message list \<Rightarrow> string \<Rightarrow> model_contract_error + continuation_history" where
  "history_new turns messages authority =
    res_bind (ensure (turns_ok turns (length messages) \<and> authority \<noteq> [] \<and> length authority \<le> 192
        \<and> \<not> list_ex is_instruction messages)
      (ModelInvalid ''invalid continuation sources or instruction roles'')) (\<lambda>_.
    res_bind (model_request_new (bounds_request messages)) (\<lambda>_.
    res_bind (validate_tool_history messages False) (\<lambda>_.
    Inr \<lparr>ch_turns = turns, ch_messages = messages, ch_authority = authority\<rparr>)))"

definition with_continuation ::
  "model_task_request \<Rightarrow> continuation_history \<Rightarrow> model_contract_error + model_task_request" where
  "with_continuation r history =
    res_bind (ensure (ch_turns history \<noteq> []) (ModelInvalid ''missing continuation predecessor'')) (\<lambda>_.
    let previous = last (ch_turns history);
        messages = filter is_instruction (mr_messages r) @ ch_messages history
          @ filter (\<lambda>m. \<not> is_instruction m) (mr_messages r) in
    res_bind (ensure (mr_session r = ExplicitContinuation (cu_manifest previous) (cu_response previous))
      (ModelInvalid ''continuation does not match the exact request'')) (\<lambda>_.
    res_bind (validate_tool_history messages True) (\<lambda>_.
    model_request_new (r\<lparr>mr_messages := messages\<rparr>))))"

section \<open>When a tool history is accepted\<close>

text \<open>
  A history is a sequence of turns: a message that is no tool result, followed by the results of its
  calls.  Every result of a turn answers a call of its message and no call is answered twice; every
  turn but the last is fully answered; no call identity occurs twice in the whole history.
\<close>

definition call_ids :: "message \<Rightarrow> string list" where
  "call_ids m = map tl_id (mg_tool_calls m)"

definition replies :: "message list \<Rightarrow> string option set" where
  "replies results = mg_tool_call_id ` set results"

definition turn_ok :: "message \<times> message list \<Rightarrow> bool" where
  "turn_ok turn \<longleftrightarrow> mg_role (fst turn) \<noteq> ToolResultRole
    \<and> (\<forall>r \<in> set (snd turn). mg_role r = ToolResultRole)
    \<and> distinct (map mg_tool_call_id (snd turn)) \<and> replies (snd turn) \<subseteq> Some ` set (call_ids (fst turn))"

definition unanswered :: "message \<times> message list \<Rightarrow> string set" where
  "unanswered turn = {i \<in> set (call_ids (fst turn)). Some i \<notin> replies (snd turn)}"

definition flat_turns :: "(message \<times> message list) list \<Rightarrow> message list" where
  "flat_turns turns = concat (map (\<lambda>(m, results). m # results) turns)"

definition exchanges :: "(message \<times> message list) list \<Rightarrow> bool" where
  "exchanges turns \<longleftrightarrow> (\<forall>turn \<in> set turns. turn_ok turn) \<and> (\<forall>turn \<in> set (butlast turns). unanswered turn = {})
    \<and> distinct (concat (map (call_ids \<circ> fst) turns))"

definition open_calls :: "(message \<times> message list) list \<Rightarrow> string set" where
  "open_calls turns = (if turns = [] then {} else unanswered (last turns))"

definition all_calls :: "(message \<times> message list) list \<Rightarrow> string set" where
  "all_calls turns = set (concat (map (call_ids \<circ> fst) turns))"

lemma flat_turns_simps [simp]:
  "flat_turns [] = []" "flat_turns (turns @ [(m, results)]) = flat_turns turns @ m # results"
  by (simp_all add: flat_turns_def)

lemma open_calls_simps [simp]: "open_calls [] = {}" "open_calls (turns @ [turn]) = unanswered turn"
  by (simp_all add: open_calls_def)

lemma all_calls_simps [simp]:
  "all_calls [] = {}" "all_calls (turns @ [turn]) = all_calls turns \<union> set (call_ids (fst turn))"
  by (auto simp add: all_calls_def)

lemma exchanges_snoc:
  "exchanges (turns @ [turn]) \<longleftrightarrow> exchanges turns \<and> open_calls turns = {} \<and> turn_ok turn
    \<and> distinct (call_ids (fst turn)) \<and> set (call_ids (fst turn)) \<inter> all_calls turns = {}"
  by (cases turns rule: rev_cases) (auto simp add: exchanges_def all_calls_def open_calls_def butlast_append)

lemma note_call_Inr:
  "note_call call (opened, seen) = Inr state \<longleftrightarrow>
    tl_id call \<notin> set seen \<and> state = (bs_insert (tl_id call) opened, bs_insert (tl_id call) seen)"
  by (auto simp add: note_call_def res_simps)

lemma calls_noted:
  assumes "res_fold note_call calls (opened, seen) = Inr (opened', seen')"
  shows "distinct (map tl_id calls)" and "tl_id ` set calls \<inter> set seen = {}"
    and "set opened' = tl_id ` set calls \<union> set opened" and "set seen' = tl_id ` set calls \<union> set seen"
proof -
  have "distinct (map tl_id calls) \<and> tl_id ` set calls \<inter> set seen = {}
      \<and> set opened' = tl_id ` set calls \<union> set opened \<and> set seen' = tl_id ` set calls \<union> set seen"
    using assms
  proof (induction calls arbitrary: opened seen)
    case (Cons call calls)
    from Cons.prems have fresh: "tl_id call \<notin> set seen"
      and rest: "res_fold note_call calls (bs_insert (tl_id call) opened, bs_insert (tl_id call) seen)
        = Inr (opened', seen')"
      by (auto simp add: note_call_Inr res_simps)
    from Cons.IH [OF rest] fresh show ?case by auto
  qed simp
  then show "distinct (map tl_id calls)" "tl_id ` set calls \<inter> set seen = {}"
    "set opened' = tl_id ` set calls \<union> set opened" "set seen' = tl_id ` set calls \<union> set seen" by blast+
qed

lemma calls_notable:
  assumes "distinct (map tl_id calls)" and "tl_id ` set calls \<inter> set seen = {}"
  obtains opened' seen' where "res_fold note_call calls (opened, seen) = Inr (opened', seen')"
proof -
  have "\<exists>r. res_fold note_call calls (opened, seen) = Inr r"
    using assms by (induction calls arbitrary: opened seen) (auto simp add: note_call_def)
  then show ?thesis using that by force
qed

text \<open>The state after a prefix: the turns it consists of, the calls still open and those seen.\<close>

lemma exchange_sound:
  assumes "res_fold tool_exchange ms ([], []) = Inr (opened, seen)"
  shows "\<exists>turns. ms = flat_turns turns \<and> exchanges turns \<and> set opened = open_calls turns \<and> set seen = all_calls turns"
  using assms
proof (induction ms arbitrary: opened seen rule: rev_induct)
  case Nil
  then show ?case by (intro exI [of _ "[]"]) (simp add: exchanges_def)
next
  case (snoc m ms)
  then obtain o1 s1 where fold1: "res_fold tool_exchange ms ([], []) = Inr (o1, s1)"
    and m: "tool_exchange m (o1, s1) = Inr (opened, seen)"
    by (auto simp add: res_fold_append res_simps)
  obtain turns where t: "ms = flat_turns turns" "exchanges turns" "set o1 = open_calls turns" "set s1 = all_calls turns"
    using snoc.IH [OF fold1] by blast
  show ?case
  proof (cases "mg_role m = ToolResultRole")
    case True
    then obtain i where i: "mg_tool_call_id m = Some i" "i \<in> set o1" "opened = filter (\<lambda>j. j \<noteq> i) o1" "seen = s1"
      using m by (auto simp add: tool_exchange_def res_simps opt_any_def split: option.splits)
    then obtain front speaker results where turns: "turns = front @ [(speaker, results)]"
      using t(3) by (cases turns rule: rev_cases) auto
    have new: "Some i \<notin> replies results" "i \<in> set (call_ids speaker)"
      using i(2) t(3) by (auto simp add: turns unanswered_def)
    have "exchanges (front @ [(speaker, results @ [m])])"
      using t(2) True i(1) new unfolding turns exchanges_snoc
      by (auto simp add: turn_ok_def replies_def)
    moreover have "set opened = open_calls (front @ [(speaker, results @ [m])])"
      using i t(3) by (auto simp add: turns unanswered_def replies_def)
    ultimately show ?thesis using t i(4)
      by (intro exI [of _ "front @ [(speaker, results @ [m])]"]) (simp add: turns)
  next
    case False
    then have o1: "o1 = []" and calls: "res_fold note_call (mg_tool_calls m) ([], s1) = Inr (opened, seen)"
      using m by (auto simp add: tool_exchange_def res_simps)
    note noted = calls_noted [OF calls]
    have "exchanges (turns @ [(m, [])])"
      using t noted(1,2) False o1 by (simp add: exchanges_snoc turn_ok_def replies_def call_ids_def)
    then show ?thesis using t noted(3,4)
      by (intro exI [of _ "turns @ [(m, [])]"]) (auto simp add: unanswered_def replies_def call_ids_def)
  qed
qed

lemma exchange_complete:
  assumes "exchanges turns"
  shows "\<exists>opened seen. res_fold tool_exchange (flat_turns turns) ([], []) = Inr (opened, seen)
    \<and> set opened = open_calls turns \<and> set seen = all_calls turns"
  using assms
proof (induction turns rule: rev_induct)
  case (snoc turn turns)
  obtain m results where turn: "turn = (m, results)" by (cases turn)
  from snoc.prems have ex: "exchanges turns" "open_calls turns = {}" "turn_ok (m, results)"
    "distinct (call_ids m)" "set (call_ids m) \<inter> all_calls turns = {}"
    by (simp_all add: exchanges_snoc turn)
  obtain o1 s1 where prior: "res_fold tool_exchange (flat_turns turns) ([], []) = Inr (o1, s1)"
    "set o1 = open_calls turns" "set s1 = all_calls turns" using snoc.IH [OF ex(1)] by blast
  obtain o2 s2 where calls: "res_fold note_call (mg_tool_calls m) ([], s1) = Inr (o2, s2)"
    by (rule calls_notable) (use ex(4,5) prior(3) in \<open>auto simp add: call_ids_def\<close>)
  have spoken: "tool_exchange m (o1, s1) = Inr (o2, s2)"
    using calls ex(2,3) prior(2) by (simp add: tool_exchange_def turn_ok_def)
  have "\<exists>opened. res_fold tool_exchange results (o2, s2) = Inr (opened, s2) \<and> set opened = unanswered (m, results)"
    using ex(3)
  proof (induction results rule: rev_induct)
    case Nil
    then show ?case using calls_noted(3) [OF calls] by (auto simp add: unanswered_def replies_def call_ids_def)
  next
    case (snoc r results)
    then have "turn_ok (m, results)" by (auto simp add: turn_ok_def replies_def)
    then obtain opened where o: "res_fold tool_exchange results (o2, s2) = Inr (opened, s2)"
      "set opened = unanswered (m, results)" using snoc.IH by blast
    obtain i where i: "mg_tool_call_id r = Some i" "i \<in> set (call_ids m)" "Some i \<notin> replies results"
      "mg_role r = ToolResultRole"
      using snoc.prems by (auto simp add: turn_ok_def replies_def)
    then have "tool_exchange r (opened, s2) = Inr (filter (\<lambda>j. j \<noteq> i) opened, s2)"
      using o(2) by (simp add: tool_exchange_def unanswered_def)
    then show ?case using o i by (auto simp add: res_fold_append unanswered_def replies_def)
  qed
  then obtain opened where "res_fold tool_exchange results (o2, s2) = Inr (opened, s2)"
    "set opened = unanswered (m, results)" by blast
  then show ?case using prior spoken calls_noted(4) [OF calls]
    by (auto simp add: turn res_fold_append call_ids_def)
qed simp

lemma tool_history_exact:
  "validate_tool_history ms complete = Inr () \<longleftrightarrow>
    (\<exists>turns. ms = flat_turns turns \<and> exchanges turns \<and> (complete \<longrightarrow> open_calls turns = {}))"
proof
  assume "validate_tool_history ms complete = Inr ()"
  then obtain opened seen where r: "res_fold tool_exchange ms ([], []) = Inr (opened, seen)"
    and c: "complete \<longrightarrow> opened = []"
    by (auto simp add: validate_tool_history_def res_simps)
  from exchange_sound [OF r] c
  show "\<exists>turns. ms = flat_turns turns \<and> exchanges turns \<and> (complete \<longrightarrow> open_calls turns = {})" by force
next
  assume "\<exists>turns. ms = flat_turns turns \<and> exchanges turns \<and> (complete \<longrightarrow> open_calls turns = {})"
  then obtain turns where t: "ms = flat_turns turns" "exchanges turns" "complete \<longrightarrow> open_calls turns = {}" by blast
  from exchange_complete [OF t(2)] t(1,3) show "validate_tool_history ms complete = Inr ()"
    by (auto simp add: validate_tool_history_def)
qed

text \<open>
  C36. A request that a prior conversation was spliced into (\<^verbatim>\<open>with_continuation\<close>) holds the current
  instructions, then the history, then the other current messages; it is within every bound of a
  request, continues exactly the last turn of the history, and is a sequence of turns in which every
  tool call has exactly one result, given before anyone else speaks, and no call identity recurs.
\<close>

theorem continuation_answers_every_call:
  assumes "with_continuation r history = Inr r'"
  shows "mr_messages r' = filter is_instruction (mr_messages r) @ ch_messages history
        @ filter (\<lambda>m. \<not> is_instruction m) (mr_messages r)
    \<and> model_request_validate r' = Inr ()
    \<and> mr_session r' = ExplicitContinuation (cu_manifest (last (ch_turns history))) (cu_response (last (ch_turns history)))
    \<and> (\<exists>turns. mr_messages r' = flat_turns turns \<and> distinct (concat (map (call_ids \<circ> fst) turns))
        \<and> (\<forall>(m, results) \<in> set turns. mg_role m \<noteq> ToolResultRole
            \<and> (\<forall>result \<in> set results. mg_role result = ToolResultRole)
            \<and> distinct (map mg_tool_call_id results)
            \<and> replies results = Some ` set (call_ids m)))"
proof -
  have r': "r' = r\<lparr>mr_messages := filter is_instruction (mr_messages r) @ ch_messages history
        @ filter (\<lambda>m. \<not> is_instruction m) (mr_messages r)\<rparr>"
    and valid: "model_request_validate r' = Inr ()"
    and session: "mr_session r = ExplicitContinuation (cu_manifest (last (ch_turns history)))
      (cu_response (last (ch_turns history)))"
    and tools: "validate_tool_history (mr_messages r') True = Inr ()"
    using assms by (auto simp add: with_continuation_def model_request_new_def Let_def res_simps)
  obtain turns where t: "mr_messages r' = flat_turns turns" "exchanges turns" "open_calls turns = {}"
    using tools by (auto simp add: tool_history_exact)
  have "turn_ok turn \<and> unanswered turn = {}" if "turn \<in> set turns" for turn
    using that t(2,3) by (cases turns rule: rev_cases) (auto simp add: exchanges_def butlast_append)
  then have "\<forall>(m, results) \<in> set turns. mg_role m \<noteq> ToolResultRole
      \<and> (\<forall>result \<in> set results. mg_role result = ToolResultRole)
      \<and> distinct (map mg_tool_call_id results) \<and> replies results = Some ` set (call_ids m)"
    by (fastforce simp add: turn_ok_def unanswered_def)
  moreover have "distinct (concat (map (call_ids \<circ> fst) turns))" using t(2) by (simp add: exchanges_def)
  ultimately show ?thesis using t(1) valid session by (auto simp add: r')
qed

definition sample_artifact :: "string \<Rightarrow> artifact_reference" where
  "sample_artifact i = \<lparr>ar_identity = i, ar_digest = i, ar_media_type = None, ar_size_bytes = None\<rparr>"

definition sample_message :: "message_role \<Rightarrow> string option \<Rightarrow> string list \<Rightarrow> message" where
  "sample_message role reply calls = \<lparr>mg_role = role, mg_parts = [TextPart ''text''], mg_tool_call_id = reply,
    mg_tool_calls = map (\<lambda>i. \<lparr>tl_id = i, tl_name = ''tool'', tl_arguments = JNull\<rparr>) calls\<rparr>"

definition sample_history :: continuation_history where
  "sample_history = \<lparr>ch_turns = [\<lparr>cu_manifest = sample_artifact ''m'', cu_response = sample_artifact ''r'',
      cu_events = [1, 2, 3, 4, 5], cu_message_end = 2\<rparr>],
    ch_messages = [sample_message UserRole None [], sample_message AssistantRole None [''a'', ''b'']],
    ch_authority = ''start''\<rparr>"

definition sample_continued :: model_task_request where
  "sample_continued = (bounds_request [sample_message SystemRole None [],
      sample_message ToolResultRole (Some ''b'') [], sample_message ToolResultRole (Some ''a'') []])
    \<lparr>mr_session := ExplicitContinuation (sample_artifact ''m'') (sample_artifact ''r'')\<rparr>"

theorem continuation_answers_every_call_witness:
  "\<exists>r'. with_continuation sample_continued sample_history = Inr r'
    \<and> length (mr_messages r') = 5 \<and> model_request_validate r' = Inr ()"
proof -
  have "is_ok (with_continuation sample_continued sample_history)"
    by (simp add: with_continuation_def sample_continued_def sample_history_def bounds_request_def
      sample_message_def is_instruction_def model_request_new_def model_request_validate_def
      validate_tool_history_def tool_exchange_def note_call_def charge_message_def message_validate_def
      MAX_TOOL_CALLS_def MAX_PARTS_def MAX_TEXT_BYTES_def MAX_MESSAGES_def MAX_MODEL_OUTPUT_UNITS_def
      part_text_def safe_name_def is_ascii_def is_ascii_alphanumeric_def is_ascii_alphabetic_def
      byte_def usize_add_def)
  then obtain r' where r': "with_continuation sample_continued sample_history = Inr r'" by (auto simp add: is_ok_iff)
  with continuation_answers_every_call [OF r'] show ?thesis
    by (simp add: sample_continued_def sample_history_def bounds_request_def sample_message_def is_instruction_def)
qed

end
