(* ===== verification/TaskState.thy ===== *)
theory TaskState
  imports Dispatch
begin

text \<open>
  The durable task record of \<^verbatim>\<open>crates/runtime/src/tasks.rs\<close> (with the admission record of
  \<^verbatim>\<open>tasks/model_actions.rs\<close>): task and workflow states, frozen starts, results, the workflow
  record, and what is derived from it, namely the active starts, the entered invocations, the
  managed executions, the output contract and the aggregate workflow state.  The theorems
  characterise the aggregate state and the output contract.
\<close>

section \<open>States and records\<close>

datatype task_state = Queued | Running | Completed | Failed | Stopped | Unresolved

primrec is_settled :: "task_state \<Rightarrow> bool" where
  "is_settled Queued = False"
| "is_settled Running = False"
| "is_settled Completed = True"
| "is_settled Failed = True"
| "is_settled Stopped = True"
| "is_settled Unresolved = False"

text \<open>The \<^verbatim>\<open>Debug\<close> text of a state; \<^term>\<open>Unresolved\<close> is the source's
  \<^verbatim>\<open>Uncertain\<close>.\<close>

primrec state_debug :: "task_state \<Rightarrow> string" where
  "state_debug Queued = ''Queued''"
| "state_debug Running = ''Running''"
| "state_debug Completed = ''Completed''"
| "state_debug Failed = ''Failed''"
| "state_debug Stopped = ''Stopped''"
| "state_debug Unresolved = ''Uncertain''"

datatype workflow_state = WfWaiting | WfRunning | WfCompleted | WfBlocked | WfStopped

record execution_duration =
  du_started_at :: timestamp
  du_accounted_at :: timestamp
  du_maximum_ms :: u64

record frozen_start =
  fz_accepted_generation :: u64
  fz_definition :: task_definition
  fz_inputs :: "(string, task_input_value) bmap"
  fz_dispatch :: execution_dispatch
  fz_entered :: bool
  fz_duration :: "execution_duration option"
  fz_reports :: "invocation_event list"

record task_result =
  tr_terminal :: invocation_terminal
  tr_outputs :: "(string, artifact_reference) bmap"
  tr_recorded_at :: timestamp

record task_record =
  tk_id :: task_id
  tk_version :: u64
  tk_definition :: task_definition
  tk_previous_definitions :: "task_definition list"
  tk_removed :: bool
  tk_state :: task_state
  tk_reason :: "string option"
  tk_created_at :: timestamp
  tk_started_at :: "timestamp option"
  tk_ended_at :: "timestamp option"
  tk_stop_requested :: bool
  tk_cancellation_sent :: bool
  tk_frozen :: "frozen_start option"
  tk_result :: "task_result option"
  tk_adopted_correction :: "task_id option"

datatype admission_status = PendingAdmission | AcceptedAdmission | RejectedAdmission
  | RepairedAdmission | DismissedAdmission

definition blocks_completion :: "admission_status \<Rightarrow> bool" where
  "blocks_completion s \<longleftrightarrow> s = PendingAdmission \<or> s = RejectedAdmission"

record model_admission =
  ma_response :: "artifact_reference option"
  ma_expected_generation :: u64
  ma_status :: admission_status
  ma_reason :: "string option"
  ma_repair_allowed :: bool
  ma_receipt_key :: "string option"
  ma_aliases :: "(task_id, task_id) bmap"

record workflow_record =
  wr_decision_generation :: u64
  wr_admissions :: "(task_id, model_admission) bmap"
  wr_admitted_model_batches :: u32
  wr_rejected_responses :: u32
  wr_schema_version :: u32
  wr_id :: workflow_id
  wr_title :: string
  wr_description :: string
  wr_generation :: u64
  wr_owner_actor :: string
  wr_created_at :: timestamp
  wr_updated_at :: timestamp
  wr_state :: workflow_state
  wr_inputs :: "(string, task_input_value) bmap"
  wr_limits :: workflow_limits
  wr_finish_when_settled :: bool
  wr_wait_question :: "string option"
  wr_model_admission_wait :: "task_id option"
  wr_tasks :: "(task_id, task_record) bmap"
  wr_execution_authority :: execution_basis
  wr_admitted_tasks :: u32
  wr_active_execution_ms :: u64
  wr_allowance :: authority_budget
  wr_committed_allowance :: authority_budget
  wr_spending_currency :: "string option"


section \<open>Derived facts\<close>

definition "TASK_OUTPUT_BYTES = MAX_TASK_OUTPUT_BYTES"
definition "MANAGED_BINDING_EXTENSION = ''org.milkdrift/managed-resources''"

definition OUT_OF_RANGE :: string where
  "OUT_OF_RANGE = ''out of range integral type conversion attempted''"

definition task_list :: "workflow_record \<Rightarrow> task_record list" where
  "task_list w = bm_values (wr_tasks w)"

definition is_active_start :: "task_record \<Rightarrow> bool" where
  "is_active_start t \<longleftrightarrow> tk_frozen t \<noteq> None \<and> \<not> is_settled (tk_state t)"

definition active_starts :: "workflow_record \<Rightarrow> runtime_error + u64" where
  "active_starts w = ok_or (Scheduling OUT_OF_RANGE)
    (try_from_usize (length (filter is_active_start (task_list w))))"

definition task_invocation :: "frozen_start \<Rightarrow> invocation_id" where
  "task_invocation fz = ir_invocation (xd_request (fz_dispatch fz))"

definition managed_execution_of :: "task_record \<Rightarrow> managed_execution option" where
  "managed_execution_of t = (case tk_frozen t of None \<Rightarrow> None | Some fz \<Rightarrow>
    let selection = xd_resolution (fz_dispatch fz) in
    if \<not> bm_contains (sn_extensions selection) MANAGED_BINDING_EXTENSION then None
    else Some \<lparr>me_task = tk_id t, me_invocation = task_invocation fz,
      me_accepted_generation = fz_accepted_generation fz, me_selection = selection,
      me_entered = fz_entered fz, me_settled = is_settled (tk_state t)\<rparr>)"

definition managed_executions :: "workflow_record \<Rightarrow> managed_execution list" where
  "managed_executions w = List.map_filter managed_execution_of (task_list w)"

definition entered_invocations :: "workflow_record \<Rightarrow> invocation_id list" where
  "entered_invocations w = remdups_adj (sort (map task_invocation
    (filter fz_entered (List.map_filter tk_frozen (task_list w)))))"

text \<open>The first declared output, in name order, that the published outputs do not satisfy.\<close>

primrec output_failure ::
  "(string \<times> task_output_declaration) list \<Rightarrow> (string, artifact_reference) bmap \<Rightarrow> string option" where
  "output_failure [] outputs = None"
| "output_failure (d # rest) outputs = (case map_of outputs (fst d) of
      None \<Rightarrow> if od_required (snd d)
        then Some (''required output '' @ fst d @ '' was not published'')
        else output_failure rest outputs
    | Some reference \<Rightarrow> (case validate_reference (snd d) reference of
          Inl reason \<Rightarrow> Some (''output '' @ fst d @ '': '' @ definition_display reason)
        | Inr _ \<Rightarrow> output_failure rest outputs))"

definition output_contract_failure ::
  "task_definition \<Rightarrow> (string, artifact_reference) bmap \<Rightarrow> string option" where
  "output_contract_failure d outputs = output_failure (td_outputs d) outputs"


section \<open>The aggregate state\<close>

definition correction_completed :: "workflow_record \<Rightarrow> task_record \<Rightarrow> bool" where
  "correction_completed w t \<longleftrightarrow> opt_any (\<lambda>c. tk_state c = Completed)
    (Option.bind (tk_adopted_correction t) (map_of (wr_tasks w)))"

definition obligations_met :: "workflow_record \<Rightarrow> bool" where
  "obligations_met w \<longleftrightarrow>
    list_all (\<lambda>t. tk_state t = Completed \<or> correction_completed w t)
      (filter (\<lambda>t. td_required (tk_definition t) \<and> \<not> tk_removed t) (task_list w))"

definition update_workflow_state :: "workflow_record \<Rightarrow> workflow_record" where
  "update_workflow_state w =
    (let active = list_ex (\<lambda>t. tk_state t = Running) (task_list w);
         uncertain = list_ex (\<lambda>t. tk_state t = Unresolved) (task_list w);
         unsettled = list_ex (\<lambda>t. \<not> is_settled (tk_state t)) (task_list w);
         met = obligations_met w in
     w\<lparr>wr_state :=
       if active then WfRunning
       else if \<not> unsettled \<and> met \<and> wr_finish_when_settled w \<and> wr_wait_question w = None
         \<and> \<not> list_ex (\<lambda>a. blocks_completion (ma_status a)) (bm_values (wr_admissions w))
       then WfCompleted
       else if uncertain \<or> \<not> met \<and> list_ex (\<lambda>t. tk_state t = Failed) (task_list w) then WfBlocked
       else if wr_tasks w \<noteq> [] \<and> list_all (\<lambda>t. tk_state t = Stopped) (task_list w) then WfStopped
       else WfWaiting\<rparr>)"

section \<open>What the derived facts mean\<close>

lemma active_starts_Inr:
  "active_starts w = Inr n \<longleftrightarrow> unat n = length (filter is_active_start (task_list w))"
  using unat_bound [of n]
  by (auto simp add: active_starts_def res_simps try_from_usize_Some simp del: unsigned_less)

lemma in_set_map_filter [simp]: "y \<in> set (List.map_filter f xs) \<longleftrightarrow> (\<exists>x \<in> set xs. f x = Some y)"
  by (induction xs) (auto simp add: List.map_filter_def)

lemma set_entered_invocations:
  "set (entered_invocations w) =
    {task_invocation fz | fz t. t \<in> set (task_list w) \<and> tk_frozen t = Some fz \<and> fz_entered fz}"
  by (fastforce simp add: entered_invocations_def)

lemma distinct_entered_invocations: "distinct (entered_invocations w)"
  by (simp add: entered_invocations_def distinct_remdups_adj_sorted)

lemma update_workflow_state_simps [simp]:
  "wr_tasks (update_workflow_state w) = wr_tasks w"
  "task_list (update_workflow_state w) = task_list w"
  "wr_generation (update_workflow_state w) = wr_generation w"
  "wr_updated_at (update_workflow_state w) = wr_updated_at w"
  "wr_limits (update_workflow_state w) = wr_limits w"
  "wr_schema_version (update_workflow_state w) = wr_schema_version w"
  "wr_admitted_tasks (update_workflow_state w) = wr_admitted_tasks w"
  "wr_admitted_model_batches (update_workflow_state w) = wr_admitted_model_batches w"
  "wr_active_execution_ms (update_workflow_state w) = wr_active_execution_ms w"
  "wr_id (update_workflow_state w) = wr_id w"
  "wr_admissions (update_workflow_state w) = wr_admissions w"
  "wr_owner_actor (update_workflow_state w) = wr_owner_actor w"
  "wr_wait_question (update_workflow_state w) = wr_wait_question w"
  "wr_committed_allowance (update_workflow_state w) = wr_committed_allowance w"
  "wr_allowance (update_workflow_state w) = wr_allowance w"
  by (simp_all add: update_workflow_state_def task_list_def Let_def)

lemma correction_completed_iff:
  "correction_completed w t \<longleftrightarrow>
    (\<exists>c corr. tk_adopted_correction t = Some c \<and> map_of (wr_tasks w) c = Some corr \<and> tk_state corr = Completed)"
  by (auto simp add: correction_completed_def opt_any_def bind_eq_Some_conv split: option.splits)

text \<open>
  C10.  A workflow is reported completed exactly when every retained task has settled, every required
  task that was not removed completed or has an adopted correction that completed, completion was
  explicitly requested, no question waits, and no model response is pending or rejected.  It is
  reported running exactly when some task runs.  It is reported blocked exactly when none runs and
  either some execution is unresolved, or a task failed while an obligation is unmet.
\<close>

theorem workflow_state_exact:
  "(wr_state (update_workflow_state w) = WfCompleted \<longleftrightarrow>
      (\<forall>t \<in> set (task_list w). is_settled (tk_state t))
      \<and> (\<forall>t \<in> set (task_list w). td_required (tk_definition t) \<and> \<not> tk_removed t \<longrightarrow>
          tk_state t = Completed
          \<or> (\<exists>c corr. tk_adopted_correction t = Some c \<and> map_of (wr_tasks w) c = Some corr
              \<and> tk_state corr = Completed))
      \<and> wr_finish_when_settled w \<and> wr_wait_question w = None
      \<and> (\<forall>a \<in> set (bm_values (wr_admissions w)). ma_status a \<notin> {PendingAdmission, RejectedAdmission}))
    \<and> (wr_state (update_workflow_state w) = WfRunning \<longleftrightarrow> (\<exists>t \<in> set (task_list w). tk_state t = Running))
    \<and> (wr_state (update_workflow_state w) = WfBlocked \<longleftrightarrow>
      (\<forall>t \<in> set (task_list w). tk_state t \<noteq> Running)
      \<and> ((\<exists>t \<in> set (task_list w). tk_state t = Unresolved)
        \<or> \<not> obligations_met w \<and> (\<exists>t \<in> set (task_list w). tk_state t = Failed)))"
proof (intro conjI)
  let ?L = "set (task_list w)"
  have settled: "(\<forall>t \<in> ?L. is_settled (tk_state t)) \<Longrightarrow>
      (\<forall>t \<in> ?L. tk_state t \<noteq> Running) \<and> (\<forall>t \<in> ?L. tk_state t \<noteq> Unresolved)" by auto
  have met: "obligations_met w \<longleftrightarrow> (\<forall>t \<in> ?L. td_required (tk_definition t) \<and> \<not> tk_removed t \<longrightarrow>
      tk_state t = Completed \<or> (\<exists>c corr. tk_adopted_correction t = Some c
        \<and> map_of (wr_tasks w) c = Some corr \<and> tk_state corr = Completed))"
    by (auto simp add: obligations_met_def list_all_iff correction_completed_iff)
  note defs = update_workflow_state_def Let_def list_ex_iff list_all_iff
  show "wr_state (update_workflow_state w) = WfRunning \<longleftrightarrow> (\<exists>t \<in> ?L. tk_state t = Running)"
    by (simp add: defs)
  show "wr_state (update_workflow_state w) = WfBlocked \<longleftrightarrow>
      (\<forall>t \<in> ?L. tk_state t \<noteq> Running)
      \<and> ((\<exists>t \<in> ?L. tk_state t = Unresolved) \<or> \<not> obligations_met w \<and> (\<exists>t \<in> ?L. tk_state t = Failed))"
    using settled by (auto simp add: defs)
  show "wr_state (update_workflow_state w) = WfCompleted \<longleftrightarrow>
      (\<forall>t \<in> ?L. is_settled (tk_state t))
      \<and> (\<forall>t \<in> ?L. td_required (tk_definition t) \<and> \<not> tk_removed t \<longrightarrow>
          tk_state t = Completed \<or> (\<exists>c corr. tk_adopted_correction t = Some c
            \<and> map_of (wr_tasks w) c = Some corr \<and> tk_state corr = Completed))
      \<and> wr_finish_when_settled w \<and> wr_wait_question w = None
      \<and> (\<forall>a \<in> set (bm_values (wr_admissions w)). ma_status a \<notin> {PendingAdmission, RejectedAdmission})"
    unfolding met [symmetric] using settled by (auto simp add: defs blocks_completion_def)
qed

lemma validate_reference_Inr:
  "validate_reference decl r = Inr u \<longleftrightarrow>
    (\<exists>bytes. ar_size_bytes r = Some bytes \<and> bytes \<le> od_max_bytes decl)
    \<and> (\<forall>m. od_media_type decl = Some m \<longrightarrow> ar_media_type r = Some m)"
  by (auto simp add: validate_reference_def res_simps opt_any_def opt_all_def split: option.splits)

text \<open>
  A published set of outputs meets a task's contract exactly when every required output was
  published and every published output that is declared has a known size within its allowance and
  the declared media type.
\<close>

theorem output_contract_exact:
  "output_contract_failure d outputs = None \<longleftrightarrow>
    (\<forall>(name, decl) \<in> set (td_outputs d). case map_of outputs name of
        None \<Rightarrow> \<not> od_required decl
      | Some r \<Rightarrow> (\<exists>bytes. ar_size_bytes r = Some bytes \<and> bytes \<le> od_max_bytes decl)
          \<and> (\<forall>m. od_media_type decl = Some m \<longrightarrow> ar_media_type r = Some m))"
proof -
  have "output_failure ds outputs = None \<longleftrightarrow>
      (\<forall>e \<in> set ds. case map_of outputs (fst e) of None \<Rightarrow> \<not> od_required (snd e)
        | Some r \<Rightarrow> validate_reference (snd e) r = Inr ())" for ds
  proof (induction ds)
    case (Cons e ds)
    then show ?case
      by (auto split: option.splits sum.splits task_definition_error.splits)
  qed simp
  then show ?thesis
    by (simp add: output_contract_failure_def validate_reference_Inr case_prod_beta cong: option.case_cong)
qed

section \<open>Concrete workflows\<close>

definition sample_start :: "invocation_id \<Rightarrow> bool \<Rightarrow> execution_duration option \<Rightarrow> frozen_start" where
  "sample_start invocation entered duration = \<lparr>fz_accepted_generation = 2,
    fz_definition = sample_definition ''t'' [], fz_inputs = [], fz_dispatch = sample_dispatch invocation,
    fz_entered = entered, fz_duration = duration, fz_reports = []\<rparr>"

definition sample_task :: "task_id \<Rightarrow> task_state \<Rightarrow> frozen_start option \<Rightarrow> task_record" where
  "sample_task tid state start = \<lparr>tk_id = tid, tk_version = 1, tk_definition = sample_definition ''t'' [],
    tk_previous_definitions = [], tk_removed = False, tk_state = state, tk_reason = None,
    tk_created_at = 1, tk_started_at = (case start of None \<Rightarrow> None | Some _ \<Rightarrow> Some 5), tk_ended_at = None,
    tk_stop_requested = False, tk_cancellation_sent = False, tk_frozen = start, tk_result = None,
    tk_adopted_correction = None\<rparr>"

definition sample_workflow :: "task_record list \<Rightarrow> workflow_record" where
  "sample_workflow tasks = \<lparr>wr_decision_generation = 1, wr_admissions = [], wr_admitted_model_batches = 0,
    wr_rejected_responses = 0, wr_schema_version = 3, wr_id = ''w'', wr_title = ''title'',
    wr_description = [], wr_generation = 4, wr_owner_actor = ''ai'', wr_created_at = 1,
    wr_updated_at = 20, wr_state = WfWaiting, wr_inputs = [], wr_limits = default_limits,
    wr_finish_when_settled = True, wr_wait_question = None, wr_model_admission_wait = None,
    wr_tasks = map (\<lambda>t. (tk_id t, t)) tasks, wr_execution_authority = sample_basis,
    wr_admitted_tasks = 2, wr_active_execution_ms = 10,
    wr_allowance = \<lparr>ab_cost_minor = Some 100, ab_duration_ms = Some 100000, ab_invocations = Some 10,
      ab_artifact_bytes = Some 10000000, ab_units = Some 1000, ab_concurrency = Some 2\<rparr>,
    wr_committed_allowance = default_budget, wr_spending_currency = None\<rparr>"

lemmas sample_state = sample_workflow_def sample_task_def sample_start_def sample_definition_def
  task_list_def bm_values_def

text \<open>
  The witness: one failed required task whose adopted correction completed, and nothing else open.
\<close>

definition sample_corrected :: workflow_record where
  "sample_corrected = sample_workflow
    [(sample_task ''a'' Failed None)\<lparr>tk_adopted_correction := Some ''b''\<rparr>, sample_task ''b'' Completed None]"

theorem workflow_state_exact_witness:
  "wr_state (update_workflow_state sample_corrected) = WfCompleted
   \<and> wr_state (update_workflow_state (sample_workflow [sample_task ''a'' Failed None])) = WfBlocked
   \<and> wr_state (update_workflow_state (sample_workflow [sample_task ''a'' Running None])) = WfRunning"
proof (intro conjI)
  show "wr_state (update_workflow_state sample_corrected) = WfCompleted"
    by (rule iffD2 [OF conjunct1 [OF workflow_state_exact]]) (simp add: sample_corrected_def sample_state)
  show "wr_state (update_workflow_state (sample_workflow [sample_task ''a'' Failed None])) = WfBlocked"
    by (rule iffD2 [OF conjunct2 [OF conjunct2 [OF workflow_state_exact]]])
      (simp add: obligations_met_def correction_completed_iff sample_state)
  show "wr_state (update_workflow_state (sample_workflow [sample_task ''a'' Running None])) = WfRunning"
    by (rule iffD2 [OF conjunct1 [OF conjunct2 [OF workflow_state_exact]]]) (simp add: sample_state)
qed

theorem output_contract_exact_witness:
  "output_contract_failure (sample_definition ''t'' [])
    [(''out'', \<lparr>ar_identity = ''i'', ar_digest = ''d'', ar_media_type = None, ar_size_bytes = Some 64\<rparr>)] = None
   \<and> output_contract_failure (sample_definition ''t'' []) [] \<noteq> None"
  unfolding output_contract_exact by (simp add: sample_definition_def)

end
