(* ===== verification/Duration.thy ===== *)
theory Duration
  imports TaskState
begin

text \<open>
  The cumulative elapsed-time account of \<^verbatim>\<open>crates/runtime/src/tasks/duration.rs\<close>: the
  refusal of contradictory documents, accrual of all open executions, reservation of an enforceable
  maximum before entry, and the stop requests an exhausted account makes.  The theorems give accrual
  in closed form, show that the ledger does not depend on how often it is observed, and that an
  accepted reservation fits the workflow's limit beside everything still outstanding.
\<close>

section \<open>Definitions\<close>

definition "SCHEMA_VERSION = (3 :: u32)"
definition "EXHAUSTED = ''workflow cumulative active execution allowance exhausted''"

definition task_duration :: "task_record \<Rightarrow> execution_duration option" where
  "task_duration t = Option.bind (tk_frozen t) fz_duration"

definition read_task :: "timestamp \<Rightarrow> task_record \<Rightarrow> runtime_error + unit" where
  "read_task updated_at t = (case tk_frozen t of None \<Rightarrow> Inr ()
    | Some fz \<Rightarrow>
        res_bind (ensure (\<not> ((fz_entered fz \<or> tk_state t = Unresolved) \<and> fz_duration fz = None))
          (InvalidHistory ''open execution has no cumulative-time watermark'')) (\<lambda>_.
        ensure (opt_all (\<lambda>d. opt_any (\<lambda>started. started \<le> du_started_at d) (tk_started_at t)
            \<and> du_started_at d \<le> du_accounted_at d \<and> du_accounted_at d \<le> updated_at) (fz_duration fz))
          (InvalidHistory ''execution timing contradicts durable workflow times'')))"

definition read_version :: "workflow_record \<Rightarrow> runtime_error + unit" where
  "read_version w =
    res_bind (ensure (wr_schema_version w = SCHEMA_VERSION)
      (InvalidHistory (''unsupported task workflow document schema; ''
        @ ''retained timing evidence cannot be reinterpreted''))) (\<lambda>_.
    res_all (read_task (wr_updated_at w)) (task_list w))"

definition set_accounted :: "timestamp \<Rightarrow> task_record \<Rightarrow> task_record" where
  "set_accounted now t =
    t\<lparr>tk_frozen := map_option (\<lambda>fz. fz\<lparr>fz_duration := map_option (\<lambda>d. d\<lparr>du_accounted_at := now\<rparr>)
      (fz_duration fz)\<rparr>) (tk_frozen t)\<rparr>"

definition accrue_task ::
  "timestamp \<Rightarrow> task_record \<Rightarrow> u64 \<Rightarrow> runtime_error + (task_record \<times> u64 \<times> bool)" where
  "accrue_task now t spent =
    (if is_settled (tk_state t) then Inr (t, spent, False)
     else case task_duration t of None \<Rightarrow> Inr (t, spent, False)
     | Some d \<Rightarrow>
        res_bind (ok_or (InvalidHistory ''clock moved backward during cumulative execution accounting'')
          (checked_sub now (du_accounted_at d))) (\<lambda>elapsed.
        res_bind (ok_or (InvalidHistory ''cumulative execution duration overflow'')
          (checked_add spent elapsed)) (\<lambda>spent.
        Inr (set_accounted now t, spent, elapsed \<noteq> 0))))"

primrec accrue_tasks ::
  "timestamp \<Rightarrow> (task_id, task_record) bmap \<Rightarrow> u64 \<Rightarrow> bool
    \<Rightarrow> runtime_error + ((task_id, task_record) bmap \<times> u64 \<times> bool)" where
  "accrue_tasks now [] spent changed = Inr ([], spent, changed)"
| "accrue_tasks now (e # rest) spent changed =
    res_bind (accrue_task now (snd e) spent) (\<lambda>(t, spent, c).
    res_bind (accrue_tasks now rest spent (changed \<or> c)) (\<lambda>(rest, spent, changed).
    Inr ((fst e, t) # rest, spent, changed)))"

definition accrue :: "workflow_record \<Rightarrow> timestamp \<Rightarrow> runtime_error + (workflow_record \<times> bool)" where
  "accrue w now =
    res_map (\<lambda>(tasks, spent, changed). (w\<lparr>wr_tasks := tasks, wr_active_execution_ms := spent\<rparr>, changed))
      (accrue_tasks now (wr_tasks w) (wr_active_execution_ms w) False)"

definition remaining :: "workflow_record \<Rightarrow> u64" where
  "remaining w = saturating_sub (wl_active_execution_ms (wr_limits w)) (wr_active_execution_ms w)"

definition requested_duration :: "admission_envelope \<Rightarrow> runtime_error + u64" where
  "requested_duration envelope = (case ae_execution_duration_ms envelope of
      Bounded maximum \<Rightarrow> if 0 < maximum then Inr maximum
        else Inl (Scheduling ''external execution duration has no enforceable positive bound'')
    | NotApplicable \<Rightarrow> Inr 0
    | UnknownBound \<Rightarrow> Inl (Scheduling ''external execution duration has no enforceable positive bound''))"

definition outstanding_task :: "task_record \<Rightarrow> u64 \<Rightarrow> runtime_error + u64" where
  "outstanding_task t outstanding =
    (if is_settled (tk_state t) then Inr outstanding
     else case task_duration t of None \<Rightarrow> Inr outstanding
     | Some d \<Rightarrow>
        res_bind (ok_or (InvalidHistory ''execution duration watermark precedes entry'')
          (checked_sub (du_accounted_at d) (du_started_at d))) (\<lambda>elapsed.
        let reserved =
          if tk_state t = Unresolved \<or> tk_stop_requested t \<or> tk_cancellation_sent t
            \<or> du_maximum_ms d \<noteq> 0 \<and> du_maximum_ms d \<le> elapsed
          then du_maximum_ms d
          else saturating_sub (du_maximum_ms d) elapsed in
        ok_or (InvalidHistory ''outstanding duration reservation overflow'')
          (checked_add outstanding reserved)))"

definition reserve_duration :: "workflow_record \<Rightarrow> admission_envelope \<Rightarrow> runtime_error + u64" where
  "reserve_duration w envelope =
    res_bind (requested_duration envelope) (\<lambda>requested.
    res_bind (res_fold outstanding_task (task_list w) 0) (\<lambda>outstanding.
    res_bind (ok_or (InvalidHistory ''cumulative duration admission overflow'')
      (Option.bind (checked_add (wr_active_execution_ms w) outstanding)
        (\<lambda>sum_ms. checked_add sum_ms requested))) (\<lambda>admitted.
    res_bind (ensure (admitted \<le> wl_active_execution_ms (wr_limits w) \<and> remaining w \<noteq> 0)
      (Scheduling (''workflow cumulative execution allowance cannot reserve this ''
        @ ''adapter'' @ [CHR 0x27] @ ''s enforced duration alongside live work''))) (\<lambda>_.
    Inr requested))))"

definition elapsed_limit :: "task_record \<Rightarrow> bool" where
  "elapsed_limit t = opt_any (\<lambda>d. du_maximum_ms d \<noteq> 0
    \<and> opt_any (\<lambda>elapsed. du_maximum_ms d \<le> elapsed) (checked_sub (du_accounted_at d) (du_started_at d)))
    (task_duration t)"

definition limit_stops :: "bool \<Rightarrow> task_record \<Rightarrow> bool" where
  "limit_stops exhausted t \<longleftrightarrow> (exhausted \<or> elapsed_limit t) \<and> \<not> is_settled (tk_state t)
    \<and> tk_frozen t \<noteq> None \<and> \<not> tk_stop_requested t"

definition request_duration_stop :: "workflow_record \<Rightarrow> workflow_record \<times> bool" where
  "request_duration_stop w =
    (let exhausted = remaining w = 0; asks = exhausted \<and> wr_wait_question w = None;
         w1 = (if asks then w\<lparr>wr_wait_question := Some EXHAUSTED, wr_model_admission_wait := None\<rparr> else w) in
     (w1\<lparr>wr_tasks := bm_map (\<lambda>_ t. if limit_stops exhausted t then t\<lparr>tk_stop_requested := True\<rparr> else t)
        (wr_tasks w1)\<rparr>,
      asks \<or> list_ex (limit_stops exhausted) (task_list w)))"

section \<open>Accrual in closed form\<close>

text \<open>What one task owes at a time, and its record once charged.\<close>

definition open_duration :: "task_record \<Rightarrow> execution_duration option" where
  "open_duration t = (if is_settled (tk_state t) then None else task_duration t)"

definition owed :: "timestamp \<Rightarrow> task_record \<Rightarrow> nat" where
  "owed now t = (case open_duration t of None \<Rightarrow> 0 | Some d \<Rightarrow> unat now - unat (du_accounted_at d))"

definition charge :: "timestamp \<Rightarrow> task_record \<Rightarrow> task_record" where
  "charge now t = (if open_duration t = None then t else set_accounted now t)"

definition chargeable :: "timestamp \<Rightarrow> task_record \<Rightarrow> bool" where
  "chargeable now t \<longleftrightarrow> (case open_duration t of None \<Rightarrow> True | Some d \<Rightarrow> du_accounted_at d \<le> now)"

lemma accrue_task_Inr:
  "accrue_task now t spent = Inr (t', spent', c) \<longleftrightarrow>
    chargeable now t \<and> t' = charge now t \<and> unat spent' = unat spent + owed now t \<and> c = (owed now t \<noteq> 0)"
proof (cases "open_duration t")
  case None
  then show ?thesis
    by (auto simp add: accrue_task_def open_duration_def chargeable_def charge_def owed_def
        word_unat_eq_iff split: if_splits option.splits)
next
  case (Some d)
  then have o: "\<not> is_settled (tk_state t)" "task_duration t = Some d"
    by (auto simp add: open_duration_def split: if_splits)
  show ?thesis
  proof (cases "du_accounted_at d \<le> now")
    case True
    then have "checked_sub now (du_accounted_at d) = Some (now - du_accounted_at d)"
      "unat (now - du_accounted_at d) = owed now t"
      using Some by (simp_all add: checked_sub_def owed_def unat_sub)
    then show ?thesis
      using Some o True
      by (auto simp add: accrue_task_def chargeable_def charge_def res_simps checked_add_unat
          unat_eq_zero [symmetric])
  next
    case False
    then show ?thesis using Some o by (auto simp add: accrue_task_def chargeable_def checked_sub_def)
  qed
qed

lemma accrue_tasks_Inr:
  "accrue_tasks now m spent c = Inr (m', spent', c') \<longleftrightarrow>
    (\<forall>t \<in> set (bm_values m). chargeable now t) \<and> m' = bm_map (\<lambda>_. charge now) m
    \<and> unat spent' = unat spent + (\<Sum>t\<leftarrow>bm_values m. owed now t)
    \<and> c' = (c \<or> (\<exists>t \<in> set (bm_values m). owed now t \<noteq> 0))"
proof (induction m arbitrary: spent c m' spent' c')
  case Nil
  then show ?case by (auto simp add: bm_values_def bm_map_def word_unat_eq_iff)
next
  case (Cons e m)
  obtain k t where e: "e = (k, t)" by (cases e)
  have "accrue_tasks now (e # m) spent c = Inr (m', spent', c') \<longleftrightarrow>
    (\<exists>s1 m1. chargeable now t \<and> unat s1 = unat spent + owed now t
      \<and> accrue_tasks now m s1 (c \<or> owed now t \<noteq> 0) = Inr (m1, spent', c') \<and> m' = (k, charge now t) # m1)"
    by (auto simp add: e res_bind_Inr_iff accrue_task_Inr)
  also have "\<dots> \<longleftrightarrow> chargeable now t \<and> (\<forall>t \<in> set (bm_values m). chargeable now t)
      \<and> m' = (k, charge now t) # bm_map (\<lambda>_. charge now) m
      \<and> unat spent' = unat spent + owed now t + (\<Sum>t\<leftarrow>bm_values m. owed now t)
      \<and> c' = (c \<or> owed now t \<noteq> 0 \<or> (\<exists>t \<in> set (bm_values m). owed now t \<noteq> 0))"
    (is "?L \<longleftrightarrow> ?R")
  proof
    show "?L \<Longrightarrow> ?R" by (auto simp add: Cons.IH)
  next
    assume R: ?R
    let ?s = "spent + of_nat (owed now t)"
    have "unat spent + owed now t < 2 ^ 64"
      using R unat_bound [of spent'] by (simp del: unsigned_less)
    then have "unat ?s = unat spent + owed now t"
      by (simp add: unat_word_ariths unat_of_nat)
    with R show ?L by (auto simp add: Cons.IH intro!: exI [of _ ?s])
  qed
  also have "\<dots> \<longleftrightarrow> (\<forall>t \<in> set (bm_values (e # m)). chargeable now t) \<and> m' = bm_map (\<lambda>_. charge now) (e # m)
      \<and> unat spent' = unat spent + (\<Sum>t\<leftarrow>bm_values (e # m). owed now t)
      \<and> c' = (c \<or> (\<exists>t \<in> set (bm_values (e # m)). owed now t \<noteq> 0))"
    by (auto simp add: e bm_values_def bm_map_def)
  finally show ?case .
qed

lemma accrue_Inr:
  "accrue w now = Inr (w', changed) \<longleftrightarrow>
    (\<forall>t \<in> set (task_list w). chargeable now t)
    \<and> (\<exists>spent. unat spent = unat (wr_active_execution_ms w) + (\<Sum>t\<leftarrow>task_list w. owed now t)
        \<and> w' = w\<lparr>wr_tasks := bm_map (\<lambda>_. charge now) (wr_tasks w), wr_active_execution_ms := spent\<rparr>)
    \<and> changed = (\<exists>t \<in> set (task_list w). owed now t \<noteq> 0)"
  by (auto simp add: accrue_def res_map_Inr_iff accrue_tasks_Inr task_list_def)

lemma task_list_map: "wr_tasks w' = bm_map (\<lambda>_. f) (wr_tasks w) \<Longrightarrow> task_list w' = map f (task_list w)"
  by (simp add: task_list_def bm_values_def bm_map_def comp_def case_prod_beta)

section \<open>The ledger does not depend on how often it is observed\<close>

lemma set_accounted_simps [simp]:
  "tk_state (set_accounted now t) = tk_state t"
  "tk_stop_requested (set_accounted now t) = tk_stop_requested t"
  "tk_cancellation_sent (set_accounted now t) = tk_cancellation_sent t"
  "tk_started_at (set_accounted now t) = tk_started_at t"
  "tk_id (set_accounted now t) = tk_id t"
  "tk_frozen (set_accounted now t) = None \<longleftrightarrow> tk_frozen t = None"
  "task_duration (set_accounted now t) = map_option (\<lambda>d. d\<lparr>du_accounted_at := now\<rparr>) (task_duration t)"
  "set_accounted now (set_accounted now' t) = set_accounted now t"
  by (cases "tk_frozen t", simp_all add: set_accounted_def task_duration_def option.map_comp comp_def)+

lemma charge_simps [simp]:
  "tk_state (charge now t) = tk_state t"
  "tk_stop_requested (charge now t) = tk_stop_requested t"
  "tk_cancellation_sent (charge now t) = tk_cancellation_sent t"
  "tk_started_at (charge now t) = tk_started_at t"
  "tk_id (charge now t) = tk_id t"
  "tk_frozen (charge now t) = None \<longleftrightarrow> tk_frozen t = None"
  by (simp_all add: charge_def)

lemma open_duration_charge [simp]:
  "open_duration (charge now t) = map_option (\<lambda>d. d\<lparr>du_accounted_at := now\<rparr>) (open_duration t)"
  by (simp add: charge_def open_duration_def)

lemma charge_twice [simp]: "charge now (charge now' t) = charge now t"
  by (simp add: charge_def open_duration_def)

lemma owed_split:
  assumes "chargeable t1 t" and "chargeable t2 (charge t1 t)"
  shows "chargeable t2 t \<and> owed t2 t = owed t1 t + owed t2 (charge t1 t)"
  using assms by (cases "open_duration t") (auto simp add: chargeable_def owed_def word_order_nat)

text \<open>
  C20.  Elapsed time is charged exactly once, however often the workflow is observed.  An observation
  at one time followed by an observation at a later time leaves the same record, ledger and
  watermarks included, as the later observation alone; and the ledger grows by exactly the time each
  open execution was open since it was last charged.
\<close>

theorem accrual_path_independent:
  assumes first: "accrue w t1 = Inr (w1, c1)" and second: "accrue w1 t2 = Inr (w2, c2)"
  shows "(\<exists>c. accrue w t2 = Inr (w2, c))
    \<and> unat (wr_active_execution_ms w2)
      = unat (wr_active_execution_ms w) + (\<Sum>t\<leftarrow>task_list w. owed t2 t)"
proof (intro conjI)
  from first obtain s1 where c1: "\<forall>t \<in> set (task_list w). chargeable t1 t"
    and s1: "unat s1 = unat (wr_active_execution_ms w) + (\<Sum>t\<leftarrow>task_list w. owed t1 t)"
    and w1: "w1 = w\<lparr>wr_tasks := bm_map (\<lambda>_. charge t1) (wr_tasks w), wr_active_execution_ms := s1\<rparr>"
    by (auto simp add: accrue_Inr)
  have l1: "task_list w1 = map (charge t1) (task_list w)"
    by (rule task_list_map) (simp add: w1)
  have w1s: "wr_active_execution_ms w1 = s1" by (simp add: w1)
  from second obtain s2 where c2: "\<forall>t \<in> set (task_list w). chargeable t2 (charge t1 t)"
    and s2: "unat s2 = unat s1 + (\<Sum>t\<leftarrow>task_list w. owed t2 (charge t1 t))"
    and w2: "w2 = w1\<lparr>wr_tasks := bm_map (\<lambda>_. charge t2) (wr_tasks w1), wr_active_execution_ms := s2\<rparr>"
    using w1s by (auto simp add: accrue_Inr l1 comp_def)
  have split: "chargeable t2 t \<and> owed t2 t = owed t1 t + owed t2 (charge t1 t)"
    if "t \<in> set (task_list w)" for t using owed_split c1 c2 that by blast
  have "(\<Sum>t\<leftarrow>task_list w. owed t2 t) = (\<Sum>t\<leftarrow>task_list w. owed t1 t + owed t2 (charge t1 t))"
    using split by (intro arg_cong [where f = sum_list] map_cong) auto
  then have total: "unat s2 = unat (wr_active_execution_ms w) + (\<Sum>t\<leftarrow>task_list w. owed t2 t)"
    using s1 s2 by (simp add: sum_list_addf)
  then show "unat (wr_active_execution_ms w2)
      = unat (wr_active_execution_ms w) + (\<Sum>t\<leftarrow>task_list w. owed t2 t)" by (simp add: w2)
  have "w2 = w\<lparr>wr_tasks := bm_map (\<lambda>_. charge t2) (wr_tasks w), wr_active_execution_ms := s2\<rparr>"
    by (simp add: w2 w1 bm_map_def comp_def case_prod_beta)
  then show "\<exists>c. accrue w t2 = Inr (w2, c)" using split total by (auto simp add: accrue_Inr)
qed

definition sample_running :: workflow_record where
  "sample_running = sample_workflow [sample_task ''a'' Running
    (Some (sample_start ''i'' True (Some \<lparr>du_started_at = 5, du_accounted_at = 8, du_maximum_ms = 50\<rparr>)))]"

lemmas duration_samples = sample_running_def sample_state accrue_def accrue_task_def task_duration_def
  set_accounted_def checked_sub_def checked_add_def owed_def open_duration_def

theorem accrual_path_independent_witness:
  "\<exists>w1 w2 c1 c2. accrue sample_running 12 = Inr (w1, c1) \<and> accrue w1 20 = Inr (w2, c2)
    \<and> (\<exists>c. accrue sample_running 20 = Inr (w2, c)) \<and> unat (wr_active_execution_ms w2) = 22"
proof -
  have "\<exists>w1 c1 w2 c2. accrue sample_running 12 = Inr (w1, c1) \<and> accrue w1 20 = Inr (w2, c2)"
    by (auto simp add: duration_samples)
  then obtain w1 c1 w2 c2 where a: "accrue sample_running 12 = Inr (w1, c1)" "accrue w1 20 = Inr (w2, c2)"
    by blast
  have "(\<Sum>t\<leftarrow>task_list sample_running. owed 20 t) = 12"
    by (simp add: duration_samples)
  moreover have "unat (wr_active_execution_ms sample_running) = 10" by (simp add: duration_samples)
  ultimately have "unat (wr_active_execution_ms w2) = 22"
    using accrual_path_independent [OF a] by simp
  with accrual_path_independent [OF a] a show ?thesis by blast
qed


section \<open>Reservations\<close>

definition watermark_ordered :: "task_record \<Rightarrow> bool" where
  "watermark_ordered t \<longleftrightarrow> (case open_duration t of None \<Rightarrow> True | Some d \<Rightarrow> du_started_at d \<le> du_accounted_at d)"

text \<open>
  The time an open execution still holds: its whole maximum while it is unresolved, stopping or past
  its maximum, and the unspent part of it otherwise.
\<close>

definition held_time :: "task_record \<Rightarrow> nat" where
  "held_time t = (case open_duration t of None \<Rightarrow> 0 | Some d \<Rightarrow>
    (let elapsed = unat (du_accounted_at d) - unat (du_started_at d); maximum = unat (du_maximum_ms d) in
     if tk_state t = Unresolved \<or> tk_stop_requested t \<or> tk_cancellation_sent t \<or> maximum \<le> elapsed
     then maximum else maximum - elapsed))"

lemma outstanding_task_Inr:
  "outstanding_task t n = Inr m \<longleftrightarrow> watermark_ordered t \<and> unat m = unat n + held_time t"
proof (cases "open_duration t")
  case None
  then show ?thesis
    by (auto simp add: outstanding_task_def open_duration_def watermark_ordered_def held_time_def
        word_unat_eq_iff split: if_splits option.splits)
next
  case (Some d)
  then have o: "\<not> is_settled (tk_state t)" "task_duration t = Some d"
    by (auto simp add: open_duration_def split: if_splits)
  show ?thesis
  proof (cases "du_started_at d \<le> du_accounted_at d")
    case True
    then show ?thesis
      using Some o
      by (auto simp add: outstanding_task_def watermark_ordered_def held_time_def Let_def checked_sub_def
          res_simps checked_add_unat unat_saturating_sub unat_sub word_order_nat unat_eq_zero)
  next
    case False
    then show ?thesis
      using Some o by (auto simp add: outstanding_task_def watermark_ordered_def checked_sub_def)
  qed
qed

lemma outstanding_fold_Inr:
  "res_fold outstanding_task ts n = Inr m \<Longrightarrow>
    (\<forall>t \<in> set ts. watermark_ordered t) \<and> unat m = unat n + (\<Sum>t\<leftarrow>ts. held_time t)"
proof (induction ts arbitrary: n)
  case (Cons t ts)
  then show ?case by (fastforce simp add: res_bind_Inr_iff outstanding_task_Inr)
qed simp

lemma outstanding_fold_exists:
  "\<forall>t \<in> set ts. watermark_ordered t \<Longrightarrow> unat n + (\<Sum>t\<leftarrow>ts. held_time t) < 2 ^ 64 \<Longrightarrow>
    \<exists>m. res_fold outstanding_task ts n = Inr m \<and> unat m = unat n + (\<Sum>t\<leftarrow>ts. held_time t)"
proof (induction ts arbitrary: n)
  case (Cons t ts)
  let ?n = "n + of_nat (held_time t)"
  have u: "unat ?n = unat n + held_time t"
    using Cons.prems(2) by (simp add: unat_word_ariths unat_of_nat)
  then have "outstanding_task t n = Inr ?n" using Cons.prems(1) by (simp add: outstanding_task_Inr)
  moreover obtain m where "res_fold outstanding_task ts ?n = Inr m"
    "unat m = unat ?n + (\<Sum>t\<leftarrow>ts. held_time t)"
    using Cons.IH [of ?n] Cons.prems u by (auto simp add: add.assoc)
  ultimately show ?case using u by (auto simp add: add.assoc)
qed simp

text \<open>
  C21.  Duration is reserved before entry exactly when it fits.  The reservation succeeds with the
  adapter's enforceable maximum exactly when no open execution has a watermark before its entry, the
  account is not yet exhausted, and the time already charged, the time every open execution still
  holds and the new maximum together stay within the workflow's limit; no intermediate sum
  overflows where the result is accepted.
\<close>

theorem reserve_duration_exact:
  "reserve_duration w envelope = Inr r \<longleftrightarrow>
    requested_duration envelope = Inr r
    \<and> (\<forall>t \<in> set (task_list w). watermark_ordered t)
    \<and> unat (wr_active_execution_ms w) < unat (wl_active_execution_ms (wr_limits w))
    \<and> unat (wr_active_execution_ms w) + (\<Sum>t\<leftarrow>task_list w. held_time t) + unat r
        \<le> unat (wl_active_execution_ms (wr_limits w))"
    (is "?L \<longleftrightarrow> ?R")
proof -
  have rem: "remaining w \<noteq> 0 \<longleftrightarrow>
      unat (wr_active_execution_ms w) < unat (wl_active_execution_ms (wr_limits w))"
    by (simp add: remaining_def unat_eq_zero [symmetric] unat_saturating_sub not_le)
  show ?thesis
  proof
    assume ?L
    then obtain out adm a where f: "requested_duration envelope = Inr r"
      "res_fold outstanding_task (task_list w) 0 = Inr out"
      "checked_add (wr_active_execution_ms w) out = Some a" "checked_add a r = Some adm"
      "adm \<le> wl_active_execution_ms (wr_limits w)" "remaining w \<noteq> 0"
      by (auto simp add: reserve_duration_def res_simps bind_eq_Some_conv)
    then show ?R
      using outstanding_fold_Inr [OF f(2)] rem by (simp add: checked_add_unat word_order_nat)
  next
    assume R: ?R
    let ?sum = "\<Sum>t\<leftarrow>task_list w. held_time t"
    have lim: "unat (wl_active_execution_ms (wr_limits w)) < 2 ^ 64"
      using unat_bound [of "wl_active_execution_ms (wr_limits w)"] by (simp del: unsigned_less)
    obtain out where out: "res_fold outstanding_task (task_list w) 0 = Inr out" "unat out = ?sum"
      using outstanding_fold_exists [of "task_list w" 0] R lim by auto
    let ?a = "wr_active_execution_ms w + out" let ?b = "?a + r"
    have a: "unat ?a = unat (wr_active_execution_ms w) + ?sum" "unat ?b = unat ?a + unat r"
      using R lim out by (simp_all add: unat_word_ariths)
    then have "checked_add (wr_active_execution_ms w) out = Some ?a" "checked_add ?a r = Some ?b"
      using out by (simp_all add: checked_add_unat)
    moreover have "?b \<le> wl_active_execution_ms (wr_limits w)" using R a by (simp add: word_order_nat)
    ultimately show ?L using R out rem by (simp add: reserve_duration_def)
  qed
qed

theorem reserve_duration_exact_witness:
  "reserve_duration sample_running (envelope_not_applicable\<lparr>ae_execution_duration_ms := Bounded 3599943\<rparr>) = Inr 3599943
   \<and> reserve_duration sample_running (envelope_not_applicable\<lparr>ae_execution_duration_ms := Bounded 3599944\<rparr>) \<noteq> Inr 3599944"
  unfolding reserve_duration_exact
  by (simp add: duration_samples requested_duration_def envelope_not_applicable_def envelope_new_def
      watermark_ordered_def held_time_def Let_def default_limits_def)


section \<open>Enforced executions stay within the limit\<close>

text \<open>
  The ledger together with the time enforced executions may still use.  Charging moves time from
  the second to the first, so while adapters enforce their maxima the sum does not grow.
\<close>

definition pledge :: "task_record \<Rightarrow> nat" where
  "pledge t = (case open_duration t of None \<Rightarrow> 0
    | Some d \<Rightarrow> unat (du_maximum_ms d) - (unat (du_accounted_at d) - unat (du_started_at d)))"

definition pledged :: "workflow_record \<Rightarrow> nat" where
  "pledged w = unat (wr_active_execution_ms w) + (\<Sum>t\<leftarrow>task_list w. pledge t)"

definition enforced :: "timestamp \<Rightarrow> task_record \<Rightarrow> bool" where
  "enforced now t \<longleftrightarrow> (case open_duration t of None \<Rightarrow> True | Some d \<Rightarrow>
    du_started_at d \<le> du_accounted_at d \<and> unat now - unat (du_started_at d) \<le> unat (du_maximum_ms d))"

lemma pledge_held: "pledge t \<le> held_time t"
  by (auto simp add: pledge_def held_time_def Let_def split: option.splits)

lemma pledge_charge:
  "chargeable now t \<Longrightarrow> enforced now t \<Longrightarrow> owed now t + pledge (charge now t) = pledge t"
  by (cases "open_duration t")
    (auto simp add: chargeable_def enforced_def owed_def pledge_def word_order_nat)

lemma pledged_accrue:
  assumes "accrue w now = Inr (w', c)" and "\<forall>t \<in> set (task_list w). enforced now t"
  shows "pledged w' = pledged w"
proof -
  from assms(1) obtain s where ch: "\<forall>t \<in> set (task_list w). chargeable now t"
    and s: "unat s = unat (wr_active_execution_ms w) + (\<Sum>t\<leftarrow>task_list w. owed now t)"
    and w': "w' = w\<lparr>wr_tasks := bm_map (\<lambda>_. charge now) (wr_tasks w), wr_active_execution_ms := s\<rparr>"
    by (auto simp add: accrue_Inr)
  have l: "task_list w' = map (charge now) (task_list w)"
    by (rule task_list_map) (simp add: w')
  have a: "wr_active_execution_ms w' = s" by (simp add: w')
  have "(\<Sum>t\<leftarrow>task_list w. pledge t) = (\<Sum>t\<leftarrow>task_list w. owed now t + pledge (charge now t))"
    using ch assms(2) pledge_charge by (intro arg_cong [where f = sum_list] map_cong) auto
  then show ?thesis using s by (simp add: pledged_def l a sum_list_addf comp_def)
qed

lemma pledged_reserve:
  assumes "reserve_duration w envelope = Inr r"
  shows "pledged w + unat r \<le> unat (wl_active_execution_ms (wr_limits w))"
proof -
  from assms obtain out adm a where f: "res_fold outstanding_task (task_list w) 0 = Inr out"
    "checked_add (wr_active_execution_ms w) out = Some a" "checked_add a r = Some adm"
    "adm \<le> wl_active_execution_ms (wr_limits w)"
    by (auto simp add: reserve_duration_def res_simps bind_eq_Some_conv)
  have "(\<Sum>t\<leftarrow>task_list w. pledge t) \<le> (\<Sum>t\<leftarrow>task_list w. held_time t)"
    by (rule sum_list_mono) (rule pledge_held)
  then show ?thesis
    using f outstanding_fold_Inr [OF f(1)] by (simp add: pledged_def checked_add_unat word_order_nat)
qed


section \<open>Stop requests and readable documents\<close>

lemma request_duration_stop_cases:
  assumes "request_duration_stop w = (w', changed)"
  shows "wr_tasks w' = bm_map (\<lambda>_ t. if limit_stops (remaining w = 0) t then t\<lparr>tk_stop_requested := True\<rparr> else t)
      (wr_tasks w)"
    and "changed = False \<Longrightarrow> w' = w"
    and "w' = w\<lparr>wr_tasks := wr_tasks w', wr_wait_question := wr_wait_question w',
      wr_model_admission_wait := wr_model_admission_wait w'\<rparr>"
    and "remaining w = 0 \<Longrightarrow> wr_wait_question w' \<noteq> None"
proof -
  have same: "bm_map (\<lambda>_ t. if limit_stops e t then t\<lparr>tk_stop_requested := True\<rparr> else t) (wr_tasks w) = wr_tasks w"
    if "\<not> list_ex (limit_stops e) (task_list w)" for e
    using that by (auto simp add: bm_map_def task_list_def bm_values_def list_ex_iff intro!: map_idI)
  show "changed = False \<Longrightarrow> w' = w"
    using assms same by (auto simp add: request_duration_stop_def Let_def split: if_splits)
qed (use assms in \<open>auto simp add: request_duration_stop_def Let_def split: if_splits\<close>)

lemma read_version_iff:
  "read_version w = Inr u \<longleftrightarrow> wr_schema_version w = SCHEMA_VERSION
    \<and> (\<forall>t \<in> set (task_list w). read_task (wr_updated_at w) t = Inr ())"
  by (auto simp add: read_version_def res_simps)

end
