(* ===== verification/Policy.thy ===== *)
theory Policy
  imports Duration
begin

text \<open>
  Workflow policy of \<^verbatim>\<open>crates/runtime/src/tasks/policy.rs\<close>: prospective limit changes,
  continuation, and the pause a failing corrective lineage or repeated rejected model responses
  cause.  The theorems characterise lineage roots by the corrective relation, the pause by counting
  failures per lineage, and show that a granted continuation is not undone by the same policy.
\<close>

section \<open>Definitions\<close>

definition change_limits :: "workflow_record \<Rightarrow> workflow_limits \<Rightarrow> runtime_error + workflow_record" where
  "change_limits w limits =
    res_bind (map_err (\<lambda>e. InvalidCommand (definition_display e)) (limits_validate limits)) (\<lambda>_.
    res_bind (ensure (\<not> (wl_tasks limits < wr_admitted_tasks w
        \<or> wl_model_batches limits < wr_admitted_model_batches w
        \<or> wl_active_execution_ms limits < wr_active_execution_ms w))
      (InvalidCommand (''new workflow limits cannot be below already admitted tasks, model batches ''
        @ ''or elapsed execution''))) (\<lambda>_.
    Inr (w\<lparr>wr_limits := limits\<rparr>)))"

text \<open>
  The walk to a lineage root.  Every step adds a retained task to the visited set, so it ends.
\<close>

function lineage_walk ::
  "(task_id, task_record) bmap \<Rightarrow> task_id \<Rightarrow> task_id bset \<Rightarrow> runtime_error + task_id" where
  "lineage_walk tasks current visited =
    (if current \<in> set visited
     then Inl (InvalidHistory ''retained corrective lineage contains a cycle'')
     else case map_of tasks current of
        None \<Rightarrow> Inl (InvalidHistory ''retained corrective lineage names an absent task'')
      | Some t \<Rightarrow> (case td_corrective_of (tk_definition t) of
          None \<Rightarrow> Inr current
        | Some parent \<Rightarrow> lineage_walk tasks parent (bs_insert current visited)))"
  by pat_completeness auto

termination
proof (relation "measure (\<lambda>(tasks, current, visited). card (dom (map_of tasks) - set visited))")
  fix tasks :: "(task_id, task_record) bmap" and current visited t parent
  assume "current \<notin> set visited" "map_of tasks current = Some t"
  then have "dom (map_of tasks) - set (bs_insert current visited) \<subset> dom (map_of tasks) - set visited"
    by (auto simp add: set_bs_insert)
  then show "((tasks, parent, bs_insert current visited), tasks, current, visited)
      \<in> measure (\<lambda>(tasks, current, visited). card (dom (map_of tasks) - set visited))"
    by (simp add: psubset_card_mono finite_dom_map_of)
qed simp

declare lineage_walk.simps [simp del]

definition lineage_root :: "workflow_record \<Rightarrow> task_id \<Rightarrow> runtime_error + task_id" where
  "lineage_root w tid = lineage_walk (wr_tasks w) tid []"

definition task_outstanding :: "workflow_record \<Rightarrow> task_record \<Rightarrow> bool" where
  "task_outstanding w t \<longleftrightarrow> \<not> tk_removed t
    \<and> (\<not> is_settled (tk_state t)
      \<or> td_required (tk_definition t) \<and> tk_state t \<noteq> Completed \<and> \<not> correction_completed w t)"

definition count_lineage ::
  "workflow_record \<Rightarrow> task_record \<Rightarrow> (task_id, u32 \<times> bool) bmap
    \<Rightarrow> runtime_error + (task_id, u32 \<times> bool) bmap" where
  "count_lineage w t lineages =
    res_bind (lineage_root w (tk_id t)) (\<lambda>root.
    (case (case map_of lineages root of None \<Rightarrow> (0, False) | Some e \<Rightarrow> e) of (failures, outstanding) \<Rightarrow>
    res_bind (if tk_state t = Failed
      then ok_or (InvalidHistory ''corrective failure accounting overflow'') (checked_add failures 1)
      else Inr failures) (\<lambda>failures.
    Inr (bm_insert root (failures, outstanding \<or> task_outstanding w t) lineages))))"

definition lineage_text :: "task_id \<Rightarrow> u32 \<Rightarrow> string" where
  "lineage_text root failures = ''corrective lineage '' @ root @ '' has '' @ dec (unat failures)
    @ '' failed tasks; raise its workflow failure limit before continuing''"

definition lineage_stop :: "workflow_record \<Rightarrow> runtime_error + string option" where
  "lineage_stop w =
    res_bind (res_fold (count_lineage w) (task_list w) []) (\<lambda>lineages.
    Inr (map_option (\<lambda>(root, failures, _). lineage_text root failures)
      (List.find (\<lambda>(root, failures, outstanding). outstanding
        \<and> wl_corrective_failures (wr_limits w) \<le> failures) lineages)))"

definition "RESPONSES_EXHAUSTED = ''model rejected/no-progress response allowance exhausted; ''
  @ ''raise its workflow limit before continuing''"

definition resume :: "workflow_record \<Rightarrow> runtime_error + workflow_record" where
  "resume w =
    res_bind (ensure (remaining w \<noteq> 0) (InvalidCommand EXHAUSTED)) (\<lambda>_.
    res_bind (ensure (wr_rejected_responses w < wl_rejected_responses (wr_limits w))
      (InvalidCommand RESPONSES_EXHAUSTED)) (\<lambda>_.
    res_bind (lineage_stop w) (\<lambda>stop.
    res_bind (case stop of None \<Rightarrow> Inr () | Some reason \<Rightarrow> Inl (InvalidCommand reason)) (\<lambda>_.
    Inr (w\<lparr>wr_wait_question := None, wr_model_admission_wait := None\<rparr>)))))"

definition policy_stops :: "task_record \<Rightarrow> bool" where
  "policy_stops t \<longleftrightarrow> tk_frozen t \<noteq> None \<and> \<not> is_settled (tk_state t) \<and> \<not> tk_stop_requested t"

definition policy_reason :: "workflow_record \<Rightarrow> runtime_error + string option" where
  "policy_reason w = (if wl_rejected_responses (wr_limits w) \<le> wr_rejected_responses w
    then Inr (Some RESPONSES_EXHAUSTED) else lineage_stop w)"

definition request_policy_stop :: "workflow_record \<Rightarrow> runtime_error + (workflow_record \<times> bool)" where
  "request_policy_stop w =
    res_bind (policy_reason w) (\<lambda>reason.
    (case reason of None \<Rightarrow> Inr (w, False)
    | Some reason \<Rightarrow>
        (let asks = wr_wait_question w = None;
             w1 = (if asks then w\<lparr>wr_wait_question := Some reason, wr_model_admission_wait := None\<rparr> else w) in
         Inr (w1\<lparr>wr_tasks := bm_map (\<lambda>_ t. if policy_stops t then t\<lparr>tk_stop_requested := True\<rparr> else t)
             (wr_tasks w1)\<rparr>,
           asks \<or> list_ex policy_stops (task_list w)))))"

section \<open>Lineage roots\<close>

text \<open>
  A task descends from a root in a number of corrective steps.  The number makes the chain finite,
  hence free of cycles.
\<close>

inductive descends :: "(task_id, task_record) bmap \<Rightarrow> task_id \<Rightarrow> nat \<Rightarrow> task_id \<Rightarrow> bool"
  for tasks where
  root: "map_of tasks a = Some t \<Longrightarrow> td_corrective_of (tk_definition t) = None \<Longrightarrow> descends tasks a 0 a"
| step: "map_of tasks a = Some t \<Longrightarrow> td_corrective_of (tk_definition t) = Some p \<Longrightarrow> descends tasks p n r
    \<Longrightarrow> descends tasks a (Suc n) r"

inductive_cases descendsE: "descends tasks a n r"

lemma descends_unique: "descends tasks a n r \<Longrightarrow> descends tasks a m s \<Longrightarrow> m = n \<and> s = r"
proof (induction arbitrary: m s rule: descends.induct)
  case (root a t)
  from root(3) show ?case
  proof (rule descendsE)
    fix t' p k
    assume "map_of tasks a = Some t'" "td_corrective_of (tk_definition t') = Some p"
    then show ?thesis using root(1,2) by simp
  qed simp
next
  case (step a t p n r)
  from step.prems show ?case
  proof (rule descendsE)
    fix t'
    assume "map_of tasks a = Some t'" "td_corrective_of (tk_definition t') = None"
    then show ?thesis using step.hyps(1,2) by simp
  next
    fix t' p' k
    assume m: "m = Suc k" and t': "map_of tasks a = Some t'" "td_corrective_of (tk_definition t') = Some p'"
      and d: "descends tasks p' k s"
    then have "descends tasks p k s" using step.hyps(1,2) by simp
    then show ?thesis using step.IH m by simp
  qed
qed

lemma descends_unvisited:
  assumes "descends tasks a n r" and "\<forall>x \<in> set visited. \<exists>m s. n < m \<and> descends tasks x m s"
  shows "a \<notin> set visited"
proof
  assume "a \<in> set visited"
  then obtain m s where "n < m" "descends tasks a m s" using assms(2) by blast
  then show False using descends_unique [OF assms(1)] by blast
qed

lemma descends_walk:
  "descends tasks a n r \<Longrightarrow> \<forall>x \<in> set visited. \<exists>m s. n < m \<and> descends tasks x m s \<Longrightarrow>
    lineage_walk tasks a visited = Inr r"
proof (induction arbitrary: visited rule: descends.induct)
  case (root a t)
  have "a \<notin> set visited" using descends.root [OF root(1,2)] root(3) by (rule descends_unvisited)
  then show ?case using root(1,2) by (simp add: lineage_walk.simps)
next
  case (step a t p n r)
  have d: "descends tasks a (Suc n) r" using step.hyps by (rule descends.step)
  have "a \<notin> set visited" using d step.prems by (rule descends_unvisited)
  moreover have "lineage_walk tasks p (bs_insert a visited) = Inr r"
  proof (rule step.IH)
    have "\<exists>m s. n < m \<and> descends tasks x m s" if x: "x \<in> set visited" for x
    proof -
      obtain m s where "Suc n < m" "descends tasks x m s" using step.prems x by blast
      then show ?thesis using Suc_lessD by blast
    qed
    moreover have "\<exists>m s. n < m \<and> descends tasks a m s" using d by blast
    ultimately show "\<forall>x \<in> set (bs_insert a visited). \<exists>m s. n < m \<and> descends tasks x m s"
      by (auto simp add: set_bs_insert simp del: ex_simps)
  qed
  ultimately show ?case using step.hyps(1,2) by (simp add: lineage_walk.simps)
qed

lemma walk_descends: "lineage_walk tasks a visited = Inr r \<Longrightarrow> \<exists>n. descends tasks a n r"
proof (induction tasks a visited rule: lineage_walk.induct)
  case (1 tasks a visited)
  show ?case
  proof (cases "map_of tasks a")
    case None
    then show ?thesis using "1.prems" by (simp add: lineage_walk.simps split: if_splits)
  next
    case (Some t)
    show ?thesis
    proof (cases "td_corrective_of (tk_definition t)")
      case None
      then show ?thesis using "1.prems" Some
        by (auto simp add: lineage_walk.simps intro: descends.root split: if_splits)
    next
      case (Some p)
      then have "a \<notin> set visited" "lineage_walk tasks p (bs_insert a visited) = Inr r"
        using "1.prems" \<open>map_of tasks a = Some t\<close> by (auto simp add: lineage_walk.simps split: if_splits)
      then obtain n where "descends tasks p n r"
        using "1.IH" \<open>map_of tasks a = Some t\<close> Some by blast
      then show ?thesis using descends.step \<open>map_of tasks a = Some t\<close> Some by blast
    qed
  qed
qed

text \<open>
  C24.  The root of a corrective lineage is found exactly when there is one: the walk returns a task
  exactly when following corrective origins from the given task reaches it in finitely many steps
  over retained tasks and it corrects nothing itself.  It ends on every record, cyclic ones
  included, and refuses them.
\<close>

theorem lineage_root_exact:
  "lineage_root w a = Inr r \<longleftrightarrow> (\<exists>n. descends (wr_tasks w) a n r)"
  using walk_descends descends_walk [where visited = "[]"] by (auto simp add: lineage_root_def)


section \<open>Counting failures per lineage\<close>

definition in_lineage :: "workflow_record \<Rightarrow> task_id \<Rightarrow> task_record \<Rightarrow> bool" where
  "in_lineage w root t \<longleftrightarrow> lineage_root w (tk_id t) = Inr root"

definition lineage_failures :: "workflow_record \<Rightarrow> task_record list \<Rightarrow> task_id \<Rightarrow> nat" where
  "lineage_failures w ts root = length (filter (\<lambda>t. in_lineage w root t \<and> tk_state t = Failed) ts)"

definition counted ::
  "workflow_record \<Rightarrow> task_record list \<Rightarrow> (task_id, u32 \<times> bool) bmap \<Rightarrow> bool" where
  "counted w ts lineages \<longleftrightarrow> bm_wf lineages \<and> (\<forall>root. case map_of lineages root of
      None \<Rightarrow> \<not> list_ex (in_lineage w root) ts
    | Some (failures, outstanding) \<Rightarrow> unat failures = lineage_failures w ts root
        \<and> outstanding = list_ex (\<lambda>t. in_lineage w root t \<and> task_outstanding w t) ts)"

lemma counted_None: "\<not> list_ex (in_lineage w root) ts \<Longrightarrow> lineage_failures w ts root = 0"
  by (auto simp add: lineage_failures_def list_ex_iff filter_empty_conv)

lemma counted_entry:
  assumes "counted w ts lineages"
    and "(case map_of lineages root of None \<Rightarrow> (0, False) | Some e \<Rightarrow> e) = (f, out)"
  shows "unat f = lineage_failures w ts root"
    and "out = list_ex (\<lambda>t. in_lineage w root t \<and> task_outstanding w t) ts"
proof -
  have c: "case map_of lineages root of None \<Rightarrow> \<not> list_ex (in_lineage w root) ts
    | Some (failures, outstanding) \<Rightarrow> unat failures = lineage_failures w ts root
        \<and> outstanding = list_ex (\<lambda>t. in_lineage w root t \<and> task_outstanding w t) ts"
    using assms(1) by (simp add: counted_def)
  show "unat f = lineage_failures w ts root"
    using c assms(2) counted_None by (cases "map_of lineages root") auto
  show "out = list_ex (\<lambda>t. in_lineage w root t \<and> task_outstanding w t) ts"
    using c assms(2) by (cases "map_of lineages root") (auto simp add: list_ex_iff)
qed

lemma count_lineage_step:
  assumes "counted w ts lineages" and "count_lineage w t lineages = Inr lineages'"
  shows "counted w (ts @ [t]) lineages'"
proof -
  obtain root where root: "lineage_root w (tk_id t) = Inr root"
    using assms(2) by (auto simp add: count_lineage_def res_bind_Inr_iff)
  obtain f out where e: "(case map_of lineages root of None \<Rightarrow> (0, False) | Some e \<Rightarrow> e) = (f, out)"
    by (metis surj_pair)
  then obtain f' where f': "unat f' = unat f + (if tk_state t = Failed then 1 else 0)"
    and l': "lineages' = bm_insert root (f', out \<or> task_outstanding w t) lineages"
    using assms(2) root
    by (cases "tk_state t = Failed") (auto simp add: count_lineage_def res_simps checked_add_unat)
  have wf: "bm_wf lineages" using assms(1) by (simp add: counted_def)
  have t: "in_lineage w r t \<longleftrightarrow> r = root" for r using root by (auto simp add: in_lineage_def)
  note entry = counted_entry [OF assms(1) e]
  have other: "case map_of lineages r of None \<Rightarrow> \<not> list_ex (in_lineage w r) ts
      | Some (failures, outstanding) \<Rightarrow> unat failures = lineage_failures w ts r
          \<and> outstanding = list_ex (\<lambda>t. in_lineage w r t \<and> task_outstanding w t) ts" for r
    using assms(1) by (simp add: counted_def)
  show ?thesis
    unfolding counted_def
  proof (intro conjI allI)
    show "bm_wf lineages'" using wf by (simp add: l')
    fix r
    show "case map_of lineages' r of None \<Rightarrow> \<not> list_ex (in_lineage w r) (ts @ [t])
      | Some (failures, outstanding) \<Rightarrow> unat failures = lineage_failures w (ts @ [t]) r
          \<and> outstanding = list_ex (\<lambda>t. in_lineage w r t \<and> task_outstanding w t) (ts @ [t])"
    proof (cases "r = root")
      case True
      then show ?thesis using wf entry f' t by (auto simp add: l' lineage_failures_def)
    next
      case False
      then show ?thesis using wf other [of r] t by (auto simp add: l' lineage_failures_def split: option.splits)
    qed
  qed
qed

lemma counted_fold: "res_fold (count_lineage w) ts [] = Inr lineages \<Longrightarrow> counted w ts lineages"
proof (induction ts arbitrary: lineages rule: rev_induct)
  case Nil
  then show ?case by (simp add: counted_def)
next
  case (snoc t ts)
  then obtain m where "res_fold (count_lineage w) ts [] = Inr m" "count_lineage w t m = Inr lineages"
    by (auto simp add: res_fold_append res_bind_Inr_iff)
  then show ?case using snoc.IH count_lineage_step by blast
qed

lemma counted_total:
  "\<forall>t \<in> set ts. \<exists>root. lineage_root w (tk_id t) = Inr root \<Longrightarrow> length ts < 2 ^ 32 \<Longrightarrow>
    \<exists>lineages. res_fold (count_lineage w) ts [] = Inr lineages"
proof (induction ts rule: rev_induct)
  case (snoc t ts)
  then obtain m where m: "res_fold (count_lineage w) ts [] = Inr m" by auto
  obtain root where root: "lineage_root w (tk_id t) = Inr root" using snoc.prems by auto
  obtain f out where e: "(case map_of m root of None \<Rightarrow> (0, False) | Some e \<Rightarrow> e) = (f, out)"
    by (metis surj_pair)
  have "unat f \<le> length ts"
    using counted_entry(1) [OF counted_fold [OF m] e] by (simp add: lineage_failures_def)
  then have "\<exists>f'. checked_add f 1 = Some f'"
    using snoc.prems(2) by (simp add: checked_add_def)
  then have "\<exists>l. count_lineage w t m = Inr l"
    using root e by (auto simp add: count_lineage_def)
  then show ?case using m by (auto simp add: res_fold_append)
qed simp

lemma find_counted:
  assumes "counted w ts lineages"
  shows "List.find (\<lambda>(root, failures, outstanding). outstanding \<and> limit \<le> failures) lineages \<noteq> None \<longleftrightarrow>
    (\<exists>root. unat limit \<le> lineage_failures w ts root
      \<and> list_ex (\<lambda>t. in_lineage w root t \<and> task_outstanding w t) ts)" (is "?L \<longleftrightarrow> ?R")
proof -
  have d: "distinct (map fst lineages)" using assms bm_wf_distinct by (auto simp add: counted_def)
  have entry: "case map_of lineages root of None \<Rightarrow> \<not> list_ex (in_lineage w root) ts
      | Some (failures, outstanding) \<Rightarrow> unat failures = lineage_failures w ts root
          \<and> outstanding = list_ex (\<lambda>t. in_lineage w root t \<and> task_outstanding w t) ts" for root
    using assms by (simp add: counted_def)
  have "?L \<longleftrightarrow> (\<exists>root f. (root, f, True) \<in> set lineages \<and> limit \<le> f)"
    by (auto simp add: find_None_iff)
  also have "\<dots> \<longleftrightarrow> (\<exists>root f. map_of lineages root = Some (f, True) \<and> limit \<le> f)"
    using d by (simp add: map_of_eq_Some_iff)
  also have "\<dots> \<longleftrightarrow> ?R"
  proof
    assume "\<exists>root f. map_of lineages root = Some (f, True) \<and> limit \<le> f"
    then obtain root f where m: "map_of lineages root = Some (f, True)" "limit \<le> f" by blast
    then show ?R using entry [of root] by (intro exI [of _ root]) (simp add: word_order_nat)
  next
    assume ?R
    then obtain root where r: "unat limit \<le> lineage_failures w ts root"
      "list_ex (\<lambda>t. in_lineage w root t \<and> task_outstanding w t) ts" by blast
    then have "list_ex (in_lineage w root) ts" by (auto simp add: list_ex_iff)
    then obtain f out where "map_of lineages root = Some (f, out)"
      using entry [of root] by (auto split: option.splits)
    with r entry [of root] show "\<exists>root f. map_of lineages root = Some (f, True) \<and> limit \<le> f"
      by (intro exI [of _ root] exI [of _ f]) (auto simp add: word_order_nat)
  qed
  finally show ?thesis .
qed

text \<open>
  C25.  A corrective lineage pauses a workflow exactly when it has used up its failures with work still
  owed.  On every record whose corrective origins resolve, the policy answers, and it names a pause
  exactly when some lineage has at least the allowed number of failed tasks and a task that is still
  outstanding: not removed, and unsettled or required without success or a completed correction.
\<close>

theorem lineage_stop_exact:
  assumes "\<forall>t \<in> set (task_list w). \<exists>n root. descends (wr_tasks w) (tk_id t) n root"
    and "length (task_list w) < 2 ^ 32"
  shows "\<exists>stop. lineage_stop w = Inr stop
    \<and> (stop \<noteq> None \<longleftrightarrow> (\<exists>root. unat (wl_corrective_failures (wr_limits w)) \<le> lineage_failures w (task_list w) root
        \<and> (\<exists>t \<in> set (task_list w). in_lineage w root t \<and> task_outstanding w t)))"
proof -
  have "\<exists>root. lineage_root w (tk_id t) = Inr root" if "t \<in> set (task_list w)" for t
    using assms(1) that descends_walk [where visited = "[]"] by (fastforce simp add: lineage_root_def)
  then obtain lineages where l: "res_fold (count_lineage w) (task_list w) [] = Inr lineages"
    using counted_total [OF _ assms(2)] by blast
  show ?thesis
    using find_counted [OF counted_fold [OF l], of "wl_corrective_failures (wr_limits w)"]
    by (simp add: lineage_stop_def l list_ex_iff)
qed

definition sample_failed_lineage :: workflow_record where
  "sample_failed_lineage = (sample_workflow [sample_task ''a'' Failed None,
      (sample_task ''b'' Failed None)\<lparr>tk_definition := (sample_definition ''t'' [])\<lparr>td_corrective_of := Some ''a''\<rparr>\<rparr>])
    \<lparr>wr_limits := default_limits\<lparr>wl_corrective_failures := 2\<rparr>\<rparr>"

lemma sample_lineage_root:
  "lineage_root sample_failed_lineage ''a'' = Inr ''a''" "lineage_root sample_failed_lineage ''b'' = Inr ''a''"
  by (simp_all add: lineage_root_def lineage_walk.simps sample_failed_lineage_def sample_state bs_insert.simps)

theorem lineage_root_exact_witness:
  "\<exists>n. descends (wr_tasks sample_failed_lineage) ''b'' n ''a''"
  using lineage_root_exact [of sample_failed_lineage "''b''" "''a''"] sample_lineage_root by blast

theorem lineage_stop_exact_witness:
  "\<exists>reason. lineage_stop sample_failed_lineage = Inr (Some reason)"
proof -
  let ?w = sample_failed_lineage
  have ids: "tk_id t \<in> {''a'', ''b''}" if "t \<in> set (task_list ?w)" for t
    using that by (auto simp add: sample_failed_lineage_def sample_state)
  have d: "\<exists>n root. descends (wr_tasks ?w) (tk_id t) n root" if "t \<in> set (task_list ?w)" for t
    using ids [OF that] sample_lineage_root [unfolded lineage_root_def, THEN walk_descends]
    by (metis empty_iff insert_iff)
  have "\<exists>stop. lineage_stop ?w = Inr stop
    \<and> (stop \<noteq> None \<longleftrightarrow> (\<exists>root. unat (wl_corrective_failures (wr_limits ?w)) \<le> lineage_failures ?w (task_list ?w) root
        \<and> (\<exists>t \<in> set (task_list ?w). in_lineage ?w root t \<and> task_outstanding ?w t)))"
    by (rule lineage_stop_exact) (use d in \<open>auto simp add: sample_failed_lineage_def sample_state\<close>)
  moreover have "unat (wl_corrective_failures (wr_limits ?w)) \<le> lineage_failures ?w (task_list ?w) ''a''
        \<and> (\<exists>t \<in> set (task_list ?w). in_lineage ?w ''a'' t \<and> task_outstanding ?w t)"
    using sample_lineage_root
    by (simp add: lineage_failures_def in_lineage_def task_outstanding_def correction_completed_iff
        sample_failed_lineage_def sample_state)
  ultimately show ?thesis by blast
qed

lemma lineage_stop_cong:
  assumes "wr_tasks w' = wr_tasks w" and "wr_limits w' = wr_limits w"
  shows "lineage_stop w' = lineage_stop w"
proof -
  have "count_lineage w' = count_lineage w"
    by (simp add: fun_eq_iff count_lineage_def lineage_root_def task_outstanding_def
        correction_completed_def assms)
  then show ?thesis by (simp add: lineage_stop_def task_list_def assms)
qed

text \<open>
  C26.  A granted continuation holds.  If the policy lets a workflow resume, the resumed record has no
  waiting question, neither the policy check nor the elapsed-time check that every transition runs
  puts one back, and nothing but the question was changed.
\<close>

theorem resume_not_undone:
  assumes "resume w = Inr w'"
  shows "request_policy_stop w' = Inr (w', False)
    \<and> wr_wait_question (fst (request_duration_stop w')) = None
    \<and> w' = w\<lparr>wr_wait_question := None, wr_model_admission_wait := None\<rparr>"
proof (intro conjI)
  from assms have r: "remaining w \<noteq> 0" "wr_rejected_responses w < wl_rejected_responses (wr_limits w)"
    "lineage_stop w = Inr None" and w': "w' = w\<lparr>wr_wait_question := None, wr_model_admission_wait := None\<rparr>"
    by (auto simp add: resume_def res_simps split: option.splits)
  show "w' = w\<lparr>wr_wait_question := None, wr_model_admission_wait := None\<rparr>" by (rule w')
  have "lineage_stop w' = Inr None" using lineage_stop_cong [of w' w] r(3) by (simp add: w')
  then show "request_policy_stop w' = Inr (w', False)"
    using r(2) by (simp add: request_policy_stop_def policy_reason_def w')
  show "wr_wait_question (fst (request_duration_stop w')) = None"
    using r(1) by (simp add: request_duration_stop_def Let_def remaining_def w')
qed

theorem resume_not_undone_witness:
  "\<exists>w'. resume ((sample_workflow [sample_task ''a'' Queued None])\<lparr>wr_wait_question := Some ''why''\<rparr>) = Inr w'
    \<and> request_policy_stop w' = Inr (w', False)"
proof -
  have "\<exists>w'. resume ((sample_workflow [sample_task ''a'' Queued None])\<lparr>wr_wait_question := Some ''why''\<rparr>) = Inr w'"
    by (simp add: resume_def remaining_def saturating_sub_def lineage_stop_def count_lineage_def
        lineage_root_def lineage_walk.simps sample_state default_limits_def)
  then show ?thesis using resume_not_undone by blast
qed

end
