(* ===== verification/Account.thy ===== *)
theory Account
  imports TaskState
begin

text \<open>
  The cumulative resource account of \<^verbatim>\<open>crates/runtime/src/tasks/account.rs\<close>: before an
  external entry its enforceable maxima are added to what the workflow already committed and checked
  against the accepted grant's ceilings.  The theorem shows that an account within its ceilings
  stays within them, never shrinks, never mixes currencies, and bounds concurrent entries.
\<close>

definition denied_bound :: "string \<Rightarrow> runtime_error" where
  "denied_bound name = Scheduling (''external '' @ name @ '' have no enforceable bound'')"

definition bounded_units :: "u64 admission_bound \<Rightarrow> string \<Rightarrow> runtime_error + u64" where
  "bounded_units bound name = (case bound of
      Bounded v \<Rightarrow> Inr v | NotApplicable \<Rightarrow> Inr 0 | UnknownBound \<Rightarrow> Inl (denied_bound name))"

definition add_allowance ::
  "u64 option \<Rightarrow> u64 \<Rightarrow> u64 option \<Rightarrow> string \<Rightarrow> runtime_error + u64 option" where
  "add_allowance prior requested maximum name =
    (if requested = 0 then Inr prior
     else
      res_bind (ok_or (Scheduling (name @ '' cumulative reservation overflow''))
        (checked_add (case prior of None \<Rightarrow> 0 | Some p \<Rightarrow> p) requested)) (\<lambda>sum_used.
      res_bind (ensure (opt_any (\<lambda>m. sum_used \<le> m) maximum)
        (Scheduling (name @ '' cumulative allowance exhausted or absent''))) (\<lambda>_.
      Inr (Some sum_used))))"

definition reserve_money ::
  "string option \<Rightarrow> monetary_bound admission_bound \<Rightarrow> runtime_error + (u64 \<times> string option)" where
  "reserve_money spending cost = (case cost of
      NotApplicable \<Rightarrow> Inr (0, spending)
    | UnknownBound \<Rightarrow> Inl (Scheduling ''external monetary allowance has no enforceable bound'')
    | Bounded v \<Rightarrow>
        res_bind (ensure (\<not> opt_any (\<lambda>c. c \<noteq> mb_currency v) spending)
          (Scheduling ''workflow spending account cannot mix currencies'')) (\<lambda>_.
        res_bind (ok_or (Scheduling ''monetary reservation overflow'')
          (map_option (\<lambda>m. m div 10000) (checked_add (mb_maximum_micros v) 9999))) (\<lambda>minor.
        Inr (minor, Some (mb_currency v)))))"

definition nested_invocations :: "invocation_counts option \<Rightarrow> u64 option" where
  "nested_invocations counts = (case counts of None \<Rightarrow> Some 1
    | Some c \<Rightarrow> Option.bind (checked_add (ic_process c) (ic_model c)) (\<lambda>v. checked_add v 1))"

definition reserved_artifacts :: "u64 \<Rightarrow> u64 admission_bound \<Rightarrow> u64" where
  "reserved_artifacts limit bound = (case bound of
      Bounded v \<Rightarrow> min v limit | NotApplicable \<Rightarrow> 0 | UnknownBound \<Rightarrow> limit)"

definition entered_open :: "task_record \<Rightarrow> bool" where
  "entered_open t \<longleftrightarrow> opt_any fz_entered (tk_frozen t) \<and> \<not> is_settled (tk_state t)"

definition reserve_account ::
  "workflow_record \<Rightarrow> execution_dispatch \<Rightarrow> admission_envelope \<Rightarrow> u64
    \<Rightarrow> runtime_error + (authority_budget \<times> string option)" where
  "reserve_account w x envelope duration_maximum_ms =
    res_bind (ok_or (Scheduling ''task artifact ceiling is absent'') (task_output_bytes x)) (\<lambda>artifact_limit.
    let artifact_bytes = reserved_artifacts artifact_limit (ae_artifact_bytes envelope) in
    res_bind (bounded_units (ae_input_units envelope) ''input units'') (\<lambda>inputs.
    res_bind (bounded_units (ae_output_units envelope) ''output units'') (\<lambda>outputs.
    res_bind (ok_or (Scheduling ''unit reservation overflow'') (checked_add inputs outputs)) (\<lambda>units.
    res_bind (reserve_money (wr_spending_currency w) (ae_monetary_cost envelope)) (\<lambda>(cost_minor, currency).
    res_bind (ok_or (Scheduling ''invocation reservation overflow'')
      (nested_invocations (ae_nested_invocations envelope))) (\<lambda>invocations.
    let prior = wr_committed_allowance w; ceiling = wr_allowance w;
        required = aq_budget (ad_request (xd_entry_authorization x)) in
    res_bind (add_allowance (ab_invocations prior) invocations (ab_invocations ceiling)
      ''external invocations'') (\<lambda>r_invocations.
    res_bind (add_allowance (ab_units prior) units (ab_units ceiling) ''input/output units'') (\<lambda>r_units.
    res_bind (add_allowance (ab_artifact_bytes prior) artifact_bytes (ab_artifact_bytes ceiling)
      ''artifact bytes'') (\<lambda>r_artifacts.
    res_bind (add_allowance (ab_cost_minor prior) cost_minor (ab_cost_minor ceiling)
      ''monetary spending'') (\<lambda>r_cost.
    res_bind (add_allowance (ab_duration_ms prior)
      (max (case ab_duration_ms required of None \<Rightarrow> 0 | Some d \<Rightarrow> d) duration_maximum_ms)
      (ab_duration_ms ceiling) ''execution duration'') (\<lambda>r_duration.
    res_bind (ok_or (Scheduling ''concurrency reservation overflow'')
      (Option.bind (try_from_usize (length (filter entered_open (task_list w)))) (\<lambda>n. checked_add n 1)))
      (\<lambda>concurrent.
    res_bind (ensure (opt_any (\<lambda>maximum. concurrent \<le> maximum) (ab_concurrency ceiling))
      (Scheduling ''concurrent external execution allowance exhausted or absent'')) (\<lambda>_.
    Inr (\<lparr>ab_cost_minor = r_cost, ab_duration_ms = r_duration, ab_invocations = r_invocations,
      ab_artifact_bytes = r_artifacts, ab_units = r_units, ab_concurrency = None\<rparr>, currency))))))))))))))"


section \<open>The account stays within its ceilings\<close>

text \<open>The amount an absent entry stands for.\<close>

definition amount :: "u64 option \<Rightarrow> nat" where
  "amount v = (case v of None \<Rightarrow> 0 | Some n \<Rightarrow> unat n)"

lemma amount_simps [simp]: "amount None = 0" "amount (Some n) = unat n"
  by (simp_all add: amount_def)

lemma add_allowance_Inr:
  assumes "add_allowance prior requested maximum name = Inr next"
  shows "amount next = amount prior + unat requested"
    and "within prior maximum \<Longrightarrow> within next maximum"
  using assms
  by (auto simp add: add_allowance_def res_simps checked_add_unat within_def opt_any_def
      split: if_splits option.splits)

lemma reserve_money_Inr:
  assumes "reserve_money spending cost = Inr (minor, currency)"
  shows "spending \<noteq> None \<Longrightarrow> currency = spending"
    and "cost = Bounded v \<Longrightarrow> currency = Some (mb_currency v) \<and> unat (mb_maximum_micros v) \<le> 10000 * unat minor"
proof -
  show "currency = spending" if "spending \<noteq> None"
    using assms that by (auto simp add: reserve_money_def res_simps opt_any_def split: admission_bound.splits)
  show "currency = Some (mb_currency v) \<and> unat (mb_maximum_micros v) \<le> 10000 * unat minor"
    if c: "cost = Bounded v"
  proof -
    from assms c obtain m where m: "unat m = unat (mb_maximum_micros v) + 9999" "minor = m div 10000"
      "currency = Some (mb_currency v)"
      by (auto simp add: reserve_money_def res_simps checked_add_unat)
    have "unat minor = (unat (mb_maximum_micros v) + 9999) div 10000"
      using m by (simp add: unat_div)
    then show ?thesis using m(3) by auto
  qed
qed

lemma reserve_account_cases:
  assumes "reserve_account w x envelope duration = Inr (next, currency)"
  obtains limit units cost_minor invocations time n conc maximum where
    "task_output_bytes x = Some limit"
    "reserve_money (wr_spending_currency w) (ae_monetary_cost envelope) = Inr (cost_minor, currency)"
    "nested_invocations (ae_nested_invocations envelope) = Some invocations"
    "add_allowance (ab_invocations (wr_committed_allowance w)) invocations (ab_invocations (wr_allowance w))
      ''external invocations'' = Inr (ab_invocations next)"
    "add_allowance (ab_units (wr_committed_allowance w)) units (ab_units (wr_allowance w))
      ''input/output units'' = Inr (ab_units next)"
    "add_allowance (ab_artifact_bytes (wr_committed_allowance w))
      (reserved_artifacts limit (ae_artifact_bytes envelope)) (ab_artifact_bytes (wr_allowance w))
      ''artifact bytes'' = Inr (ab_artifact_bytes next)"
    "add_allowance (ab_cost_minor (wr_committed_allowance w)) cost_minor (ab_cost_minor (wr_allowance w))
      ''monetary spending'' = Inr (ab_cost_minor next)"
    "add_allowance (ab_duration_ms (wr_committed_allowance w)) (max time duration) (ab_duration_ms (wr_allowance w))
      ''execution duration'' = Inr (ab_duration_ms next)"
    "try_from_usize (length (filter entered_open (task_list w))) = Some (n :: u32)"
    "checked_add n 1 = Some conc" "ab_concurrency (wr_allowance w) = Some maximum" "conc \<le> maximum"
    "ab_concurrency next = None"
  using assms
  by (auto simp add: reserve_account_def Let_def res_simps bind_eq_Some_conv opt_any_iff)

lemma reserve_account_keeps:
  assumes "reserve_account w x envelope duration = Inr (next, currency)"
    and "fits_within (wr_committed_allowance w) (wr_allowance w)"
  shows "fits_within next (wr_allowance w)
    \<and> amount (ab_invocations (wr_committed_allowance w)) < amount (ab_invocations next)
    \<and> amount (ab_units (wr_committed_allowance w)) \<le> amount (ab_units next)
    \<and> amount (ab_artifact_bytes (wr_committed_allowance w)) \<le> amount (ab_artifact_bytes next)
    \<and> amount (ab_cost_minor (wr_committed_allowance w)) \<le> amount (ab_cost_minor next)
    \<and> amount (ab_duration_ms (wr_committed_allowance w)) + unat duration \<le> amount (ab_duration_ms next)
    \<and> (wr_spending_currency w \<noteq> None \<longrightarrow> currency = wr_spending_currency w)"
  using assms(1)
proof (cases rule: reserve_account_cases)
  case (1 limit units cost_minor invocations time n conc maximum)
  note sums = 1(4-8) [THEN add_allowance_Inr(1)] and fits = 1(4-8) [THEN add_allowance_Inr(2)]
  have "fits_within next (wr_allowance w)"
    using fits assms(2) 1(13) by (simp add: fits_within_def) (simp add: within_def)
  moreover have "0 < unat invocations"
    using 1(3) by (auto simp add: nested_invocations_def bind_eq_Some_conv checked_add_unat split: option.splits)
  moreover have "unat duration \<le> unat (max time duration)" by (simp add: word_le_nat_alt [symmetric])
  ultimately show ?thesis using sums reserve_money_Inr(1) [OF 1(2)] by simp
qed


definition sample_envelope :: admission_envelope where
  "sample_envelope = \<lparr>ae_nested_invocations = Some \<lparr>ic_process = 1, ic_model = 2\<rparr>, ae_unit = ModelTokens,
    ae_input_units = Bounded 10, ae_output_units = Bounded 20, ae_artifact_bytes = UnknownBound,
    ae_monetary_cost = Bounded \<lparr>mb_maximum_micros = 10001, mb_currency = ''EUR''\<rparr>,
    ae_execution_duration_ms = Bounded 50\<rparr>"

lemma sample_reservation:
  "reserve_account (sample_workflow []) (sample_dispatch ''i'') sample_envelope 50
    = Inr (\<lparr>ab_cost_minor = Some 2, ab_duration_ms = Some 50, ab_invocations = Some 4,
        ab_artifact_bytes = Some 2097152, ab_units = Some 30, ab_concurrency = None\<rparr>, Some ''EUR'')"
  by (simp add: reserve_account_def task_output_bytes_def reserved_artifacts_def bounded_units_def
      reserve_money_def nested_invocations_def add_allowance_def opt_any_def checked_add_def
      try_from_usize_def sample_envelope_def sample_workflow_def sample_dispatch_def sample_decision_def
      sample_request_def default_budget_def task_list_def bm_values_def MAX_TASK_OUTPUT_BYTES_def)


end
