(* ===== verification/Capacity.thy ===== *)
theory Capacity
  imports TaskState
begin

text \<open>
  Record capacity of \<^verbatim>\<open>crates/runtime/src/tasks/capacity.rs\<close>: the bytes a workflow
  document reserves for what its accepted tasks may still have to record, and the bounds on
  observations, outputs and the terminal report.  \<^verbatim>\<open>serde_json\<close> is a set of encoders, the
  fields of \<^verbatim>\<open>runtime_codec\<close>.  The theorems show that accepted observations leave room for
  the terminal one, keep outputs within their allowance, and use exactly the bytes reserved for them.
\<close>

record runtime_codec =
  tc_blueprint :: blueprint_codec
  tc_report :: "invocation_event encoder"
  tc_reports :: "invocation_event list encoder"
  tc_dispatch :: "execution_dispatch encoder"
  tc_outcome :: "task_id \<Rightarrow> task_state \<Rightarrow> task_result option \<Rightarrow> json"

definition encode_json :: "'a encoder \<Rightarrow> 'a \<Rightarrow> runtime_error + string" where
  "encode_json enc x = map_err RtJson (enc x)"

definition "MAX_DISPATCH_BYTES = (65536 :: nat)"
definition "REPORT_BYTES = (262144 :: u64)"
definition "TERMINAL_BYTES = (262144 :: u64)"
definition "MAX_TASK_REPORTS = (256 :: nat)"

definition transition_error :: "string \<Rightarrow> runtime_error" where
  "transition_error text = InvalidTransition text"

definition length_u64 :: "string \<Rightarrow> runtime_error + u64" where
  "length_u64 bytes = ok_or (transition_error OUT_OF_RANGE) (try_from_usize (length bytes))"

definition encoded_u64 :: "'a encoder \<Rightarrow> 'a \<Rightarrow> runtime_error + u64" where
  "encoded_u64 enc x = res_bind (encode_json enc x) length_u64"

definition binding_bytes :: "runtime_codec \<Rightarrow> task_input_binding \<Rightarrow> runtime_error + u64" where
  "binding_bytes codec binding = (case binding of
      InlineBinding v \<Rightarrow> encoded_u64 (bc_input (tc_blueprint codec)) v
    | TaskOutput _ _ _ \<Rightarrow> Inr 2048
    | Supplied _ _ \<Rightarrow> Inr 1048576
    | SettledOutcome _ \<Rightarrow> Inr 1048576)"

definition task_remaining :: "runtime_codec \<Rightarrow> task_record \<Rightarrow> runtime_error + u64" where
  "task_remaining codec t = (case tk_frozen t of
      None \<Rightarrow>
        res_bind (encoded_u64 (bc_definition (tc_blueprint codec)) (tk_definition t)) (\<lambda>def_bytes.
        res_bind (res_fold (\<lambda>e sum_bytes. res_bind (binding_bytes codec (snd e)) (\<lambda>bytes.
            ok_or (transition_error ''frozen input reservation overflow'') (checked_add sum_bytes bytes)))
          (td_inputs (tk_definition t)) 0) (\<lambda>inputs.
        ok_or (transition_error ''frozen start reservation overflow'')
          (Option.bind (checked_add def_bytes inputs)
            (\<lambda>n. checked_add n (131072 + REPORT_BYTES + TERMINAL_BYTES)))))
    | Some fz \<Rightarrow>
        res_bind (encoded_u64 (tc_reports codec) (fz_reports fz)) (\<lambda>used.
        Inr (saturating_add (saturating_sub REPORT_BYTES used) TERMINAL_BYTES)))"

definition remaining_bytes :: "runtime_codec \<Rightarrow> workflow_record \<Rightarrow> runtime_error + u64" where
  "remaining_bytes codec w = res_fold (\<lambda>t sum_bytes.
    res_bind (if is_settled (tk_state t) then Inr 0 else task_remaining codec t) (\<lambda>additional.
    ok_or (transition_error ''remaining record reservation overflow'') (checked_add sum_bytes additional)))
    (task_list w) 0"

definition report_outputs :: "invocation_event list \<Rightarrow> (string \<times> artifact_reference) list" where
  "report_outputs prior = List.map_filter (\<lambda>e. kind_output (ev_kind e)) prior"

definition output_size :: "artifact_reference \<Rightarrow> u64" where
  "output_size r = (case ar_size_bytes r of None \<Rightarrow> TASK_OUTPUT_BYTES | Some n \<Rightarrow> n)"

fun sum_outputs :: "(string \<times> artifact_reference) list \<Rightarrow> u64 \<Rightarrow> u64 option" where
  "sum_outputs [] used = Some used"
| "sum_outputs ((name, r) # rest) used = Option.bind (checked_add used (output_size r)) (sum_outputs rest)"

definition is_terminal :: "invocation_event \<Rightarrow> bool" where
  "is_terminal e \<longleftrightarrow> kind_terminal (ev_kind e) \<noteq> None"

definition validate_output :: "invocation_event list \<Rightarrow> invocation_event \<Rightarrow> runtime_error + unit" where
  "validate_output prior report = (case kind_output (ev_kind report) of
      None \<Rightarrow> Inr ()
    | Some (_, reference) \<Rightarrow>
        res_bind (ok_or (transition_error ''output byte accounting overflow'')
          (sum_outputs (report_outputs prior) 0)) (\<lambda>used.
        ensure (\<not> (64 \<le> length (report_outputs prior)
            \<or> \<not> opt_any (\<lambda>size. size \<le> TASK_OUTPUT_BYTES)
                (Option.bind (ar_size_bytes reference) (checked_add used))))
          (transition_error ''task output count or byte allowance exceeded'')))"

definition validate_report ::
  "runtime_codec \<Rightarrow> invocation_event list \<Rightarrow> invocation_event \<Rightarrow> runtime_error + unit" where
  "validate_report codec prior report =
    res_bind (ensure (\<not> (MAX_TASK_REPORTS \<le> length prior
        \<or> \<not> is_terminal report \<and> MAX_TASK_REPORTS - 1 \<le> length prior))
      (transition_error ''task observation capacity exhausted; terminal slot remains reserved'')) (\<lambda>_.
    res_bind (res_map length (encode_json (tc_report codec) report)) (\<lambda>bytes.
    if is_terminal report
    then ensure (bytes \<le> 131072) (transition_error ''terminal report exceeds its reserved allowance'')
    else
      res_bind (res_map length (encode_json (tc_reports codec) prior)) (\<lambda>used.
      res_bind (ensure (opt_any (\<lambda>n. n \<le> unat REPORT_BYTES)
          (Option.bind (usize_add used bytes) (\<lambda>n. usize_add n 1)))
        (transition_error ''task progress capacity exhausted; terminal allowance remains reserved'')) (\<lambda>_.
      validate_output prior report))))"


section \<open>Accepted observations\<close>

text \<open>A list of reports each of which was accepted after those before it.\<close>

inductive accepted :: "runtime_codec \<Rightarrow> invocation_event list \<Rightarrow> bool" for codec where
  none: "accepted codec []"
| more: "accepted codec prior \<Longrightarrow> validate_report codec prior report = Inr () \<Longrightarrow>
    accepted codec (prior @ [report])"

definition output_bytes :: "invocation_event list \<Rightarrow> nat" where
  "output_bytes reports = (\<Sum>out\<leftarrow>report_outputs reports. unat (output_size (snd out)))"

lemma report_outputs_snoc:
  "report_outputs (prior @ [report]) = report_outputs prior @
    (case kind_output (ev_kind report) of None \<Rightarrow> [] | Some out \<Rightarrow> [out])"
  by (auto simp add: report_outputs_def List.map_filter_def split: option.splits)

lemma sum_outputs_Some:
  "sum_outputs os used = Some n \<Longrightarrow> unat n = unat used + (\<Sum>out\<leftarrow>os. unat (output_size (snd out)))"
  by (induction os used rule: sum_outputs.induct) (auto simp add: bind_eq_Some_conv checked_add_unat)

lemma validate_report_Inr:
  assumes "validate_report codec prior report = Inr ()"
  shows "length prior < 256"
    and "\<not> is_terminal report \<Longrightarrow> length prior < 255"
    and "kind_output (ev_kind report) = Some (name, reference) \<Longrightarrow>
      length (report_outputs prior) < 64
      \<and> output_bytes prior + unat (output_size reference) \<le> unat TASK_OUTPUT_BYTES"
proof -
  show "length prior < 256" "\<not> is_terminal report \<Longrightarrow> length prior < 255"
    using assms by (auto simp add: validate_report_def res_simps MAX_TASK_REPORTS_def)
  assume k: "kind_output (ev_kind report) = Some (name, reference)"
  then have "\<not> is_terminal report" by (cases "ev_kind report") (auto simp add: is_terminal_def)
  then have "validate_output prior report = Inr ()"
    using assms by (auto simp add: validate_report_def res_simps)
  then show "length (report_outputs prior) < 64
      \<and> output_bytes prior + unat (output_size reference) \<le> unat TASK_OUTPUT_BYTES"
    using k by (auto simp add: validate_output_def res_simps opt_any_iff bind_eq_Some_conv checked_add_unat
        output_bytes_def output_size_def word_order_nat dest!: sum_outputs_Some)
qed

text \<open>
  Observations never crowd out the outcome.  However a task's reports arrive, if each was
  accepted after those before it then at most 256 are retained, at most 64 of them publish outputs,
  and the published bytes are at most the 2 MiB a task may produce; and while no terminal report is
  among them a terminal report that encodes within its 128 KiB is always accepted next.
\<close>

theorem terminal_slot_reserved:
  assumes "accepted codec reports"
  shows "length reports \<le> 256
    \<and> length (report_outputs reports) \<le> 64
    \<and> output_bytes reports \<le> unat TASK_OUTPUT_BYTES
    \<and> (\<forall>report bytes. (\<forall>e \<in> set reports. \<not> is_terminal e) \<and> is_terminal report
      \<and> tc_report codec report = Inr bytes \<and> length bytes \<le> 131072 \<longrightarrow>
        validate_report codec reports report = Inr ())"
proof (intro conjI allI impI)
  from assms have inv: "length reports \<le> 256 \<and> length (report_outputs reports) \<le> 64
      \<and> output_bytes reports \<le> unat TASK_OUTPUT_BYTES
      \<and> ((\<forall>e \<in> set reports. \<not> is_terminal e) \<longrightarrow> length reports \<le> 255)"
  proof (induction rule: accepted.induct)
    case none
    then show ?case by (simp add: report_outputs_def output_bytes_def List.map_filter_def)
  next
    case (more prior report)
    note v = validate_report_Inr [OF more(2)]
    have "length (report_outputs (prior @ [report])) \<le> 64
        \<and> output_bytes (prior @ [report]) \<le> unat TASK_OUTPUT_BYTES"
      using more(3) v(3)
      by (cases "kind_output (ev_kind report)") (fastforce simp add: report_outputs_snoc output_bytes_def)+
    then show ?case using v(1,2) by auto
  qed
  then show "length reports \<le> 256" "length (report_outputs reports) \<le> 64"
    "output_bytes reports \<le> unat TASK_OUTPUT_BYTES" by simp_all
  show "validate_report codec reports report = Inr ()"
    if "(\<forall>e \<in> set reports. \<not> is_terminal e) \<and> is_terminal report
      \<and> tc_report codec report = Inr bytes \<and> length bytes \<le> 131072" for report bytes
    using inv that by (auto simp add: validate_report_def encode_json_def MAX_TASK_REPORTS_def)
qed

section \<open>Reserved bytes pay for the growth of the document\<close>

text \<open>
  How \<^verbatim>\<open>serde_json\<close> writes an array: one more element adds its own text and at most one
  comma.
\<close>

definition array_encoding :: "runtime_codec \<Rightarrow> bool" where
  "array_encoding codec \<longleftrightarrow> (\<forall>prior report a b c. tc_reports codec prior = Inr a \<longrightarrow>
    tc_report codec report = Inr b \<longrightarrow> tc_reports codec (prior @ [report]) = Inr c \<longrightarrow>
    length a \<le> length c \<and> length c \<le> length a + length b + 1)"

definition append_report :: "invocation_event \<Rightarrow> task_record \<Rightarrow> task_record" where
  "append_report report t =
    t\<lparr>tk_frozen := map_option (\<lambda>fz. fz\<lparr>fz_reports := fz_reports fz @ [report]\<rparr>) (tk_frozen t)\<rparr>"

lemma task_remaining_frozen:
  assumes "tk_frozen t = Some fz" and "tc_reports codec (fz_reports fz) = Inr a" and "length a < 2 ^ 64"
  shows "\<exists>m. task_remaining codec t = Inr m \<and> unat m = (262144 - length a) + 262144"
proof -
  let ?used = "of_nat (length a) :: u64"
  have u: "unat ?used = length a" using assms(3) by (simp add: unat_of_nat)
  have r: "unat (saturating_sub REPORT_BYTES ?used) = 262144 - length a"
    by (simp only: unat_saturating_sub u) (simp add: REPORT_BYTES_def)
  have "262144 - length a < 18446744073709289472" by arith
  with r have "unat (saturating_add (saturating_sub REPORT_BYTES ?used) TERMINAL_BYTES) = (262144 - length a) + 262144"
    by (simp add: saturating_add_def TERMINAL_BYTES_def unat_word_ariths)
  then show ?thesis
    using assms by (simp add: task_remaining_def encoded_u64_def encode_json_def length_u64_def try_from_usize_def)
qed

text \<open>
  C27.  Progress is paid for in advance.  When an observation other than the terminal one is accepted
  for a frozen start, the bytes the task still reserves shrink by exactly what the encoded reports
  grow, and the 256 KiB set aside for the terminal report and result stay untouched; so the encoded
  reports and the reservation together never exceed what was reserved when the start was frozen.
\<close>

theorem report_growth_reserved:
  assumes "array_encoding codec" and "tk_frozen t = Some fz"
    and "validate_report codec (fz_reports fz) report = Inr ()" and "\<not> is_terminal report"
    and "tc_reports codec (fz_reports fz @ [report]) = Inr c"
  shows "\<exists>a before after. tc_reports codec (fz_reports fz) = Inr a
    \<and> task_remaining codec t = Inr before \<and> task_remaining codec (append_report report t) = Inr after
    \<and> unat after + length c = unat before + length a \<and> unat TERMINAL_BYTES \<le> unat after
    \<and> length c + unat after = unat REPORT_BYTES + unat TERMINAL_BYTES"
proof -
  from assms(3,4) obtain a b where a: "tc_reports codec (fz_reports fz) = Inr a"
    and b: "tc_report codec report = Inr b" and sum: "length a + length b + 1 \<le> 262144"
    by (auto simp add: validate_report_def res_simps encode_json_def opt_any_iff bind_eq_Some_conv
        usize_add_Some REPORT_BYTES_def)
  have c: "length a \<le> length c" "length c \<le> length a + length b + 1"
    using assms(1,5) a b by (auto simp add: array_encoding_def)
  have "tk_frozen (append_report report t) = Some (fz\<lparr>fz_reports := fz_reports fz @ [report]\<rparr>)"
    using assms(2) by (simp add: append_report_def)
  then obtain after where "task_remaining codec (append_report report t) = Inr after"
    "unat after = (262144 - length c) + 262144"
    using task_remaining_frozen [of "append_report report t" _ codec c] assms(5) sum c by auto
  moreover obtain before where "task_remaining codec t = Inr before"
    "unat before = (262144 - length a) + 262144"
    using task_remaining_frozen [OF assms(2) a] sum by auto
  ultimately show ?thesis
    using a sum c by (auto simp add: TERMINAL_BYTES_def REPORT_BYTES_def)
qed


section \<open>A concrete codec\<close>

definition sample_runtime_codec :: runtime_codec where
  "sample_runtime_codec = \<lparr>tc_blueprint = sample_codec, tc_report = (\<lambda>_. Inr (replicate 100 (CHR ''x''))),
    tc_reports = (\<lambda>rs. Inr (replicate (2 + 101 * length rs) (CHR ''x''))),
    tc_dispatch = (\<lambda>_. Inr (replicate 100 (CHR ''x''))), tc_outcome = (\<lambda>_ _ _. JNull)\<rparr>"

definition sample_terminal :: "terminal_status \<Rightarrow> invocation_terminal" where
  "sample_terminal status = \<lparr>tm_status = status, tm_outputs = [], tm_failure = None, tm_usage = None,
    tm_side_effect = ReadOnly\<rparr>"

definition sample_report :: "u64 \<Rightarrow> invocation_event_kind \<Rightarrow> invocation_event" where
  "sample_report sequence kind = \<lparr>ev_invocation = ''i'', ev_sequence = sequence, ev_kind = kind\<rparr>"

lemma sample_array_encoding: "array_encoding sample_runtime_codec"
  by (simp add: array_encoding_def sample_runtime_codec_def)

lemma sample_progress_valid:
  "validate_report sample_runtime_codec [] (sample_report 1 (ProgressEvent ''half'' None None)) = Inr ()"
  by (simp add: validate_report_def sample_runtime_codec_def sample_report_def is_terminal_def
      MAX_TASK_REPORTS_def encode_json_def usize_add_def REPORT_BYTES_def opt_any_def validate_output_def)

theorem terminal_slot_reserved_witness:
  "validate_report sample_runtime_codec [sample_report 1 (ProgressEvent ''half'' None None)]
    (sample_report 2 (TerminalEvent (sample_terminal Success))) = Inr ()"
proof -
  have "accepted sample_runtime_codec [sample_report 1 (ProgressEvent ''half'' None None)]"
    using accepted.more [OF accepted.none sample_progress_valid] by simp
  from terminal_slot_reserved [OF this] show ?thesis
    by (simp add: sample_report_def is_terminal_def sample_runtime_codec_def)
qed

theorem report_growth_reserved_witness:
  "\<exists>a before after. tc_reports sample_runtime_codec [] = Inr a
    \<and> task_remaining sample_runtime_codec (sample_task ''a'' Running (Some (sample_start ''i'' True None))) = Inr before
    \<and> unat (after :: u64) + 103 = unat before + length a"
proof -
  let ?t = "sample_task ''a'' Running (Some (sample_start ''i'' True None))"
  let ?r = "sample_report 1 (ProgressEvent ''half'' None None)"
  let ?c = "replicate (2 + 101 * length [?r]) (CHR ''x'')"
  have fz: "tk_frozen ?t = Some (sample_start ''i'' True None)" "fz_reports (sample_start ''i'' True None) = []"
    by (simp_all add: sample_task_def sample_start_def)
  have nt: "\<not> is_terminal ?r" by (simp add: is_terminal_def sample_report_def)
  have c: "tc_reports sample_runtime_codec ([] @ [?r]) = Inr ?c"
    unfolding sample_runtime_codec_def runtime_codec.simps append_Nil ..
  obtain a before after where "tc_reports sample_runtime_codec [] = Inr a"
    "task_remaining sample_runtime_codec ?t = Inr before" "unat (after :: u64) + length ?c = unat before + length a"
    using report_growth_reserved [OF sample_array_encoding fz(1), unfolded fz(2), OF sample_progress_valid nt c]
    by blast
  then show ?thesis by auto
qed

end
