(* ===== verification/Inputs.thy ===== *)
theory Inputs
  imports Capacity
begin

text \<open>
  Readiness of \<^verbatim>\<open>crates/runtime/src/tasks/inputs.rs\<close>: a queued task's inputs resolve to
  exact values once its dependencies settled as its bindings accept.  The theorem states exactly when
  a task is ready and which value each binding gets.
\<close>

definition supplied_input ::
  "task_input_value option \<Rightarrow> string \<Rightarrow> bool \<Rightarrow> string + task_input_value" where
  "supplied_input v name optional = (case v of
      None \<Rightarrow> if optional then Inr Absent else Inl (''missing supplied input '' @ name)
    | Some x \<Rightarrow> if x = Absent \<and> \<not> optional then Inl (''missing supplied input '' @ name) else Inr x)"

definition accepts_settled :: "task_definition \<Rightarrow> task_id \<Rightarrow> bool" where
  "accepts_settled d dependency = list_ex (\<lambda>b. case b of
      SettledOutcome p \<Rightarrow> p = dependency
    | TaskOutput p _ optional \<Rightarrow> optional \<and> p = dependency
    | _ \<Rightarrow> False) (bm_values (td_inputs d))"

definition check_dependency :: "workflow_record \<Rightarrow> task_definition \<Rightarrow> task_id \<Rightarrow> string + unit" where
  "check_dependency w d dependency =
    res_bind (ok_or (''dependency '' @ dependency @ '' is absent'') (map_of (wr_tasks w) dependency)) (\<lambda>producer.
    ensure (tk_state producer = Completed \<or> accepts_settled d dependency \<and> is_settled (tk_state producer))
      (''dependency '' @ dependency @ '' is '' @ state_debug (tk_state producer)))"

definition published_output :: "task_record \<Rightarrow> string \<Rightarrow> artifact_reference option" where
  "published_output producer output = Option.bind (tk_result producer) (\<lambda>r. map_of (tr_outputs r) output)"

definition resolve_binding ::
  "runtime_codec \<Rightarrow> workflow_record \<Rightarrow> task_input_binding \<Rightarrow> string + task_input_value" where
  "resolve_binding codec w binding = (case binding of
      InlineBinding v \<Rightarrow> Inr v
    | Supplied name optional \<Rightarrow> supplied_input (map_of (wr_inputs w) name) name optional
    | TaskOutput task output optional \<Rightarrow>
        res_bind (ok_or (''producer '' @ task @ '' is absent'') (map_of (wr_tasks w) task)) (\<lambda>producer.
        res_bind (ensure (optional \<or> tk_state producer = Completed)
          (''required output '' @ task @ ''/'' @ output @ '' needs a successful producer; producer is ''
            @ state_debug (tk_state producer))) (\<lambda>_.
        (case published_output producer output of
            Some reference \<Rightarrow> Inr (ArtifactInput reference)
          | None \<Rightarrow> if optional \<and> is_settled (tk_state producer) then Inr Absent
              else Inl (''missing output '' @ task @ ''/'' @ output))))
    | SettledOutcome task \<Rightarrow>
        res_bind (ok_or (''producer '' @ task @ '' is absent'') (map_of (wr_tasks w) task)) (\<lambda>producer.
        res_bind (ensure (is_settled (tk_state producer)) (''producer '' @ task @ '' is not settled'')) (\<lambda>_.
        Inr (JsonInput (tc_outcome codec task (tk_state producer) (tk_result producer))))))"

primrec resolve_bindings ::
  "runtime_codec \<Rightarrow> workflow_record \<Rightarrow> (string \<times> task_input_binding) list
    \<Rightarrow> string + (string, task_input_value) bmap" where
  "resolve_bindings codec w [] = Inr []"
| "resolve_bindings codec w (e # rest) =
    res_bind (resolve_binding codec w (snd e)) (\<lambda>v.
    res_bind (resolve_bindings codec w rest) (\<lambda>vs.
    Inr (bm_insert (fst e) v vs)))"

definition resolve_inputs ::
  "runtime_codec \<Rightarrow> workflow_record \<Rightarrow> task_record \<Rightarrow> string + (string, task_input_value) bmap" where
  "resolve_inputs codec w t =
    res_bind (case td_corrective_of (tk_definition t) of None \<Rightarrow> Inr ()
      | Some original \<Rightarrow> ensure (opt_any (\<lambda>v. is_settled (tk_state v)) (map_of (wr_tasks w) original))
          (''corrected task '' @ original @ '' has not settled; replacement effects cannot enter'')) (\<lambda>_.
    res_bind (res_all (check_dependency w (tk_definition t)) (td_dependencies (tk_definition t))) (\<lambda>_.
    resolve_bindings codec w (td_inputs (tk_definition t))))"


section \<open>When a task is ready\<close>

definition supplies :: "workflow_record \<Rightarrow> task_input_binding \<Rightarrow> bool" where
  "supplies w binding = (case binding of
      InlineBinding v \<Rightarrow> True
    | Supplied name optional \<Rightarrow> optional \<or> (\<exists>v. map_of (wr_inputs w) name = Some v \<and> v \<noteq> Absent)
    | TaskOutput p output optional \<Rightarrow> (\<exists>producer. map_of (wr_tasks w) p = Some producer
        \<and> (if optional then published_output producer output \<noteq> None \<or> is_settled (tk_state producer)
           else tk_state producer = Completed \<and> published_output producer output \<noteq> None))
    | SettledOutcome p \<Rightarrow> (\<exists>producer. map_of (wr_tasks w) p = Some producer \<and> is_settled (tk_state producer)))"

lemma resolve_binding_ok: "is_ok (resolve_binding codec w b) \<longleftrightarrow> supplies w b"
proof (cases b)
  case (TaskOutput p out optional)
  then show ?thesis
    by (cases "map_of (wr_tasks w) p")
      (auto simp add: resolve_binding_def supplies_def is_ok_bind res_simps split: option.splits)
qed (auto simp add: resolve_binding_def supplies_def supplied_input_def is_ok_bind res_simps
    split: option.splits)

lemma resolve_bindings_ok:
  "is_ok (resolve_bindings codec w bs) \<longleftrightarrow> (\<forall>e \<in> set bs. supplies w (snd e))"
proof (induction bs)
  case (Cons e bs)
  have "is_ok (resolve_bindings codec w (e # bs)) \<longleftrightarrow>
      is_ok (resolve_binding codec w (snd e)) \<and> is_ok (resolve_bindings codec w bs)"
    by (auto simp add: is_ok_bind is_ok_iff res_simps)
  then show ?case using Cons.IH by (simp add: resolve_binding_ok)
qed simp

lemma resolve_bindings_values:
  "resolve_bindings codec w bs = Inr vs \<Longrightarrow> bm_wf bs \<Longrightarrow> bm_wf vs \<and>
    (\<forall>name. case map_of bs name of None \<Rightarrow> map_of vs name = None
      | Some b \<Rightarrow> \<exists>v. resolve_binding codec w b = Inr v \<and> map_of vs name = Some v)"
proof (induction bs arbitrary: vs)
  case (Cons e bs)
  obtain n b where e: "e = (n, b)" by (cases e)
  from Cons.prems obtain v vs' where v: "resolve_binding codec w b = Inr v"
    and vs': "resolve_bindings codec w bs = Inr vs'" and vs: "vs = bm_insert n v vs'"
    by (auto simp add: e res_simps)
  have IH: "bm_wf vs'" "\<And>name. case map_of bs name of None \<Rightarrow> map_of vs' name = None
      | Some b \<Rightarrow> \<exists>v. resolve_binding codec w b = Inr v \<and> map_of vs' name = Some v"
    using Cons.IH [OF vs'] Cons.prems(2) by (auto simp add: e)
  show ?case
  proof (intro conjI allI)
    show "bm_wf vs" using IH(1) by (simp add: vs)
    show "case map_of (e # bs) name of None \<Rightarrow> map_of vs name = None
        | Some b \<Rightarrow> \<exists>v. resolve_binding codec w b = Inr v \<and> map_of vs name = Some v" for name
      using v IH(1) IH(2) [of name] by (cases "name = n"; cases "map_of bs name") (simp_all add: e vs)
  qed
qed simp

text \<open>
  C23.  Readiness is exact.  A queued task's inputs resolve exactly when the task it corrects, if any,
  has settled, every dependency is retained and completed, or settled where a binding of the task
  accepts any outcome, and every binding is supplied: a required supplied input has a value, a
  required output was published by a completed producer, an optional one was published or its
  producer settled, and an outcome's producer settled.  Then every input name, and no other, gets
  the value of its binding; a required output is the very artifact its producer recorded.
\<close>

theorem readiness_exact:
  assumes "bm_wf (td_inputs (tk_definition t))"
  shows "(is_ok (resolve_inputs codec w t) \<longleftrightarrow>
      (\<forall>original. td_corrective_of (tk_definition t) = Some original \<longrightarrow>
        (\<exists>v. map_of (wr_tasks w) original = Some v \<and> is_settled (tk_state v)))
      \<and> (\<forall>d \<in> set (td_dependencies (tk_definition t)). \<exists>producer. map_of (wr_tasks w) d = Some producer
        \<and> (tk_state producer = Completed
          \<or> accepts_settled (tk_definition t) d \<and> is_settled (tk_state producer)))
      \<and> (\<forall>(name, b) \<in> set (td_inputs (tk_definition t)). supplies w b))
    \<and> (\<forall>vs name. resolve_inputs codec w t = Inr vs \<longrightarrow>
      (\<forall>b. map_of (td_inputs (tk_definition t)) name = Some b \<longrightarrow>
        (\<exists>v. resolve_binding codec w b = Inr v \<and> map_of vs name = Some v))
      \<and> (\<forall>p output. map_of (td_inputs (tk_definition t)) name = Some (TaskOutput p output False) \<longrightarrow>
      (\<exists>producer reference. map_of (wr_tasks w) p = Some producer \<and> tk_state producer = Completed
        \<and> published_output producer output = Some reference \<and> map_of vs name = Some (ArtifactInput reference)))
      \<and> (map_of (td_inputs (tk_definition t)) name = None \<longrightarrow> map_of vs name = None))"
proof (rule conjI; (intro allI impI)?)
  let ?d = "tk_definition t"
  have dep: "check_dependency w ?d d = Inr () \<longleftrightarrow> (\<exists>producer. map_of (wr_tasks w) d = Some producer
      \<and> (tk_state producer = Completed \<or> accepts_settled ?d d \<and> is_settled (tk_state producer)))" for d
    by (auto simp add: check_dependency_def res_simps)
  show "is_ok (resolve_inputs codec w t) \<longleftrightarrow>
      (\<forall>original. td_corrective_of ?d = Some original \<longrightarrow>
        (\<exists>v. map_of (wr_tasks w) original = Some v \<and> is_settled (tk_state v)))
      \<and> (\<forall>d \<in> set (td_dependencies ?d). \<exists>producer. map_of (wr_tasks w) d = Some producer
        \<and> (tk_state producer = Completed \<or> accepts_settled ?d d \<and> is_settled (tk_state producer)))
      \<and> (\<forall>(name, b) \<in> set (td_inputs ?d). supplies w b)"
    by (cases "td_corrective_of ?d")
      (simp_all add: resolve_inputs_def is_ok_bind res_all_Inr_iff dep resolve_bindings_ok ensure_Inr_iff
        opt_any_iff case_prod_beta)
next
  let ?d = "tk_definition t"
  fix vs name
  assume "resolve_inputs codec w t = Inr vs"
  then have "resolve_bindings codec w (td_inputs ?d) = Inr vs"
    by (auto simp add: resolve_inputs_def res_bind_Inr_iff)
  then have vals: "case map_of (td_inputs ?d) name of None \<Rightarrow> map_of vs name = None
      | Some b \<Rightarrow> \<exists>v. resolve_binding codec w b = Inr v \<and> map_of vs name = Some v"
    using resolve_bindings_values assms by blast
  have "\<exists>producer reference. map_of (wr_tasks w) p = Some producer \<and> tk_state producer = Completed
      \<and> published_output producer slot = Some reference \<and> map_of vs name = Some (ArtifactInput reference)"
    if "map_of (td_inputs ?d) name = Some (TaskOutput p slot False)" for p slot
    using vals that by (auto simp add: resolve_binding_def res_simps split: option.splits)
  with vals show "(\<forall>b. map_of (td_inputs ?d) name = Some b \<longrightarrow>
        (\<exists>v. resolve_binding codec w b = Inr v \<and> map_of vs name = Some v))
      \<and> (\<forall>p output. map_of (td_inputs ?d) name = Some (TaskOutput p output False) \<longrightarrow>
        (\<exists>producer reference. map_of (wr_tasks w) p = Some producer \<and> tk_state producer = Completed
          \<and> published_output producer output = Some reference \<and> map_of vs name = Some (ArtifactInput reference)))
      \<and> (map_of (td_inputs ?d) name = None \<longrightarrow> map_of vs name = None)" by auto
qed

definition sample_consumer :: task_record where
  "sample_consumer = (sample_task ''b'' Queued None)\<lparr>tk_definition := (sample_definition ''t'' [''a''])
    \<lparr>td_inputs := [(''in'', TaskOutput ''a'' ''out'' False)]\<rparr>\<rparr>"

definition sample_producer :: "task_state \<Rightarrow> task_record" where
  "sample_producer state = (sample_task ''a'' state (Some (sample_start ''i'' True None)))
    \<lparr>tk_result := Some \<lparr>tr_terminal = sample_terminal Success,
      tr_outputs = [(''out'', \<lparr>ar_identity = ''r'', ar_digest = ''d'', ar_media_type = None, ar_size_bytes = Some 3\<rparr>)],
      tr_recorded_at = 9\<rparr>\<rparr>"

theorem readiness_exact_witness:
  "(\<exists>vs. resolve_inputs sample_runtime_codec (sample_workflow [sample_producer Completed, sample_consumer]) sample_consumer = Inr vs)
   \<and> \<not> is_ok (resolve_inputs sample_runtime_codec (sample_workflow [sample_producer Failed, sample_consumer]) sample_consumer)"
proof -
  have wf: "bm_wf (td_inputs (tk_definition sample_consumer))" by (simp add: sample_consumer_def)
  have "is_ok (resolve_inputs sample_runtime_codec (sample_workflow [sample_producer Completed, sample_consumer]) sample_consumer)"
    by (rule iffD2 [OF conjunct1 [OF readiness_exact [OF wf]]])
      (simp add: sample_consumer_def sample_producer_def sample_state supplies_def published_output_def)
  moreover have "\<not> is_ok (resolve_inputs sample_runtime_codec (sample_workflow [sample_producer Failed, sample_consumer]) sample_consumer)"
    unfolding conjunct1 [OF readiness_exact [OF wf]]
    by (simp add: sample_consumer_def sample_producer_def sample_state accepts_settled_def)
  ultimately show ?thesis by (simp add: is_ok_iff)
qed

end
