(* ===== verification/Store.thy ===== *)
theory Store
  imports Ports
begin

text \<open>
  The durable workflow store of \<^verbatim>\<open>adapters/redb-store/src/task.rs\<close> and
  \<^verbatim>\<open>task/capacity.rs\<close>, with the clock watermark of \<^verbatim>\<open>clock.rs\<close> and the managed
  facts of \<^verbatim>\<open>managed/execution.rs\<close>.  A table is an ordered map of decoded rows; a row's
  stored bytes are its encoding, so its length is the encoder's.  A transaction that fails leaves the
  store as it was; a fault after the commit reports an error for a committed transaction.  The holds
  of managed installations are a type parameter with their three operations, and the artifact tables
  appear as the byte counts this file reads from them.  The theorems show compare-and-swap commits,
  exact replay of accepted requests, exact accounting and protected control capacity.
\<close>

section \<open>State\<close>

definition "ACTION_RECEIPT_BYTES = (8192 :: u64)"
definition "MAX_RECEIPT_RESULT_BYTES = (65536 :: nat)"
definition "MAX_WORKFLOW_PAGE_BYTES = (4194304 :: nat)"
definition "MAX_INTERNAL_DOCUMENT_BYTES = (8388608 :: nat)"

record accounting =
  sa_history_bytes :: u64
  sa_receipt_bytes :: u64
  sa_receipt_entries :: u64
  sa_reserved_bytes :: u64
  sa_reserved_receipts :: u64
  sa_artifact_reserved_bytes :: u64
  sa_pending_artifact_bytes :: u64

record ('doc, 'm) store =
  st_workflows :: "(workflow_id, 'doc workflow_snapshot) bmap"
  st_receipts :: "(string, command_receipt) bmap"
  st_action_owners :: "(string, string) bmap"
  st_accounting :: accounting
  st_watermark :: "timestamp option"
  st_managed :: 'm
  st_committed_bytes :: "(workflow_id, u64) bmap"
  st_pending_bytes :: "(workflow_id, u64) bmap"
  st_content_bytes :: u64

record 'doc store_codec =
  sc_snapshot :: "'doc workflow_snapshot encoder"
  sc_receipt :: "command_receipt encoder"
  sc_document :: "'doc encoder"
  sc_json :: "json encoder"
  sc_command :: "command_acceptance encoder"
  sc_parse :: "string \<Rightarrow> json_error + json"

record managed_owner =
  mw_workflow :: workflow_id
  mw_task :: task_id
  mw_invocation :: invocation_id
  mw_accepted_generation :: u64

record 'm managed_ops =
  mo_acquire :: "resolved_snapshot \<Rightarrow> managed_owner \<Rightarrow> 'm \<Rightarrow> persistence_error + 'm"
  mo_entry :: "invocation_id \<Rightarrow> 'm \<Rightarrow> persistence_error + 'm"
  mo_terminal :: "invocation_id \<Rightarrow> 'm \<Rightarrow> persistence_error + 'm"

definition store_bounds :: "string \<Rightarrow> persistence_error" where
  "store_bounds reason = StoreBounds ''task_storage'' reason"

definition corrupt :: "string \<Rightarrow> persistence_error" where
  "corrupt message = Storage CorruptionClass (truncate_utf8 message 4096)"

definition document_limit :: "string \<Rightarrow> nat" where
  "document_limit family = (if family = ''task workflow''
    then MAX_WORKFLOW_DOCUMENT_BYTES + 2097152 else MAX_INTERNAL_DOCUMENT_BYTES)"

definition store_encode :: "'a encoder \<Rightarrow> string \<Rightarrow> 'a \<Rightarrow> persistence_error + string" where
  "store_encode enc family x =
    res_bind (map_err (\<lambda>cause. InvalidDocument (family @ '': '' @ cause)) (enc x)) (\<lambda>bytes.
    res_bind (ensure (length bytes \<le> document_limit family)
      (StoreBounds ''storage_document''
        (family @ '' envelope exceeds '' @ dec (document_limit family) @ '' bytes''))) (\<lambda>_.
    Inr bytes))"

definition serde_bytes :: "'a encoder \<Rightarrow> 'a \<Rightarrow> persistence_error + string" where
  "serde_bytes enc x = map_err StoreJson (enc x)"

text \<open>\<^verbatim>\<open>char::is_control\<close> on UTF-8 bytes: C0, DEL, and C1 behind its lead byte.\<close>

fun has_control :: "string \<Rightarrow> bool" where
  "has_control [] = False"
| "has_control (c # cs) = (byte c < 32 \<or> byte c = 127
    \<or> byte c = 194 \<and> cs \<noteq> [] \<and> 128 \<le> byte (hd cs) \<and> byte (hd cs) \<le> 159 \<or> has_control cs)"

definition store_identity :: "string \<Rightarrow> persistence_error + unit" where
  "store_identity s = ensure (s \<noteq> [] \<and> length s \<le> 512 \<and> \<not> has_control s)
    (store_bounds ''task identity must contain 1..=512 bytes without control characters'')"

definition receipt_key :: "string \<Rightarrow> string \<Rightarrow> persistence_error + string" where
  "receipt_key actor key =
    res_bind (store_identity actor) (\<lambda>_.
    res_bind (store_identity key) (\<lambda>_.
    Inr (dec (length actor) @ '':'' @ actor @ key)))"

definition add_bytes :: "u64 \<Rightarrow> u64 \<Rightarrow> persistence_error + u64" where
  "add_bytes l r = ok_or (store_bounds ''task storage accounting overflow'') (checked_add l r)"

definition replace_bytes :: "u64 \<Rightarrow> u64 \<Rightarrow> u64 \<Rightarrow> persistence_error + u64" where
  "replace_bytes sum_bytes old new =
    res_bind (ok_or (corrupt ''task storage accounting underflow'') (checked_sub sum_bytes old)) (\<lambda>rest.
    add_bytes rest new)"


section \<open>Validation\<close>

definition validate_command ::
  "'doc store_codec \<Rightarrow> command_acceptance \<Rightarrow> persistence_error + unit" where
  "validate_command codec command =
    res_bind (store_identity (cm_actor command)) (\<lambda>_.
    res_bind (store_identity (cm_key command)) (\<lambda>_.
    res_bind (if MAX_WORKFLOW_REQUEST_BYTES < length (cm_canonical_request command) then Inr False
      else res_map (\<lambda>bytes. length bytes \<le> MAX_RECEIPT_RESULT_BYTES) (serde_bytes (sc_json codec) (cm_result command)))
      (\<lambda>fits.
    res_bind (ensure fits (store_bounds ''workflow request or compact result exceeds its bound'')) (\<lambda>_.
    res_bind (map_err StoreJson (sc_parse codec (cm_canonical_request command))) (\<lambda>request.
    res_bind (serde_bytes (sc_json codec) request) (\<lambda>bytes.
    ensure (bytes = cm_canonical_request command)
      (InvalidDocument ''workflow request is not canonical JSON'')))))))"

definition validate_commit ::
  "'doc store_codec \<Rightarrow> 'doc workflow_commit \<Rightarrow> persistence_error + unit" where
  "validate_commit codec c =
    (let s = wc_snapshot c; invocations = ss_entered_invocations s in
    res_bind (ensure (length invocations \<le> 4096 \<and> length (bs_of_list invocations) = length invocations)
      (store_bounds ''workflow entered invocation evidence must be unique and bounded'')) (\<lambda>_.
    res_bind (ok_or (store_bounds ''workflow generation exhausted'')
      (checked_add (case wc_expected_generation c of None \<Rightarrow> 0 | Some g \<Rightarrow> g) 1)) (\<lambda>expected.
    res_bind (ensure (ss_generation s = expected)
      (InvalidDocument ''next workflow generation must increment exactly once'')) (\<lambda>_.
    res_bind (store_identity (ss_owner_actor s)) (\<lambda>_.
    res_bind (if ss_title s = [] \<or> 512 < length (ss_title s) \<or> 65536 < length (ss_description s) then Inr False
      else res_map (\<lambda>bytes. length bytes \<le> MAX_WORKFLOW_DOCUMENT_BYTES) (serde_bytes (sc_document codec) (ss_document s)))
      (\<lambda>fits.
    res_bind (ensure fits (store_bounds ''workflow document or discovery text exceeds its bound'')) (\<lambda>_.
    (case wc_command c of None \<Rightarrow> Inr () | Some command \<Rightarrow> validate_command codec command))))))))"

datatype clock_observation = Advanced | Unchanged | RejectedRollback timestamp

definition observe_clock :: "timestamp \<Rightarrow> timestamp option \<Rightarrow> clock_observation \<times> timestamp option" where
  "observe_clock observed watermark = (case watermark of
      None \<Rightarrow> (Advanced, Some observed)
    | Some mark \<Rightarrow> if observed < mark then (RejectedRollback mark, watermark)
        else if observed = mark then (Unchanged, watermark) else (Advanced, Some observed))"

definition require_clock :: "timestamp \<Rightarrow> timestamp option \<Rightarrow> persistence_error + timestamp option" where
  "require_clock observed watermark = (case observe_clock observed watermark of
      (RejectedRollback _, _) \<Rightarrow> Inl (Storage UnavailableClass ''boundary clock moved behind durable high-water evidence'')
    | (_, mark) \<Rightarrow> Inr mark)"


section \<open>Managed facts\<close>

definition is_managed :: "managed_execution \<Rightarrow> bool" where
  "is_managed mfact \<longleftrightarrow> bm_contains (sn_extensions (me_selection mfact)) ''org.milkdrift/managed-resources''"

definition find_fact :: "managed_execution list \<Rightarrow> invocation_id \<Rightarrow> managed_execution option" where
  "find_fact facts invocation = List.find (\<lambda>f. me_invocation f = invocation) facts"

definition fact_continues :: "managed_execution \<Rightarrow> managed_execution \<Rightarrow> bool" where
  "fact_continues prior mfact \<longleftrightarrow> me_task prior = me_task mfact
    \<and> me_accepted_generation prior = me_accepted_generation mfact \<and> me_selection prior = me_selection mfact
    \<and> (me_entered prior \<longrightarrow> me_entered mfact)
    \<and> (me_settled prior \<longrightarrow> me_settled mfact \<and> me_entered prior = me_entered mfact)"

definition apply_fact ::
  "'m managed_ops \<Rightarrow> managed_execution list \<Rightarrow> 'doc workflow_snapshot \<Rightarrow> managed_execution
    \<Rightarrow> invocation_id bset \<times> task_id bset \<times> 'm
    \<Rightarrow> persistence_error + (invocation_id bset \<times> task_id bset \<times> 'm)" where
  "apply_fact ops previous s mfact = (\<lambda>(identities, tasks, m).
    res_bind (ensure (me_invocation mfact \<notin> set identities \<and> me_task mfact \<notin> set tasks
        \<and> me_accepted_generation mfact \<noteq> 0 \<and> me_accepted_generation mfact \<le> ss_generation s
        \<and> is_managed mfact \<and> me_entered mfact = (me_invocation mfact \<in> set (ss_entered_invocations s)))
      (InvalidDocument ''managed task acceptance contradicts its bounded frozen entry'')) (\<lambda>_.
    res_bind (case find_fact previous (me_invocation mfact) of
        Some prior \<Rightarrow> res_map (\<lambda>_. m) (ensure (fact_continues prior mfact)
          (InvalidDocument ''managed task frozen selection and history are immutable''))
      | None \<Rightarrow>
          res_bind (ensure (\<not> me_entered mfact \<and> \<not> me_settled mfact
              \<and> me_accepted_generation mfact = ss_generation s)
            (InvalidDocument ''managed task requires fresh no-entry acceptance before entry or settlement'')) (\<lambda>_.
          mo_acquire ops (me_selection mfact) \<lparr>mw_workflow = ss_workflow s, mw_task = me_task mfact,
            mw_invocation = me_invocation mfact, mw_accepted_generation = me_accepted_generation mfact\<rparr> m)) (\<lambda>m.
    let prior = find_fact previous (me_invocation mfact) in
    res_bind (if me_entered mfact \<and> opt_any (\<lambda>p. \<not> me_entered p) prior
      then mo_entry ops (me_invocation mfact) m else Inr m) (\<lambda>m.
    res_bind (if me_settled mfact \<and> opt_any (\<lambda>p. \<not> me_settled p) prior
      then mo_terminal ops (me_invocation mfact) m else Inr m) (\<lambda>m.
    Inr (bs_insert (me_invocation mfact) identities, bs_insert (me_task mfact) tasks, m))))))"

definition apply_task_resources ::
  "'m managed_ops \<Rightarrow> 'doc workflow_snapshot option \<Rightarrow> 'doc workflow_snapshot \<Rightarrow> 'm
    \<Rightarrow> persistence_error + 'm" where
  "apply_task_resources ops old s m =
    (let previous = (case old of None \<Rightarrow> [] | Some p \<Rightarrow> ss_managed_executions p) in
    res_bind (res_all (\<lambda>prior. ensure (list_ex (\<lambda>mfact. me_invocation mfact = me_invocation prior) (ss_managed_executions s))
        (InvalidDocument ''managed task acceptance cannot be removed'')) previous) (\<lambda>_.
    res_bind (ensure (length (ss_managed_executions s) \<le> 4096)
      (InvalidDocument ''managed task acceptance count exceeds its bound'')) (\<lambda>_.
    res_map (\<lambda>(_, _, m). m)
      (res_fold (apply_fact ops previous s) (ss_managed_executions s) ([], [], m)))))"

section \<open>Commit\<close>

definition workflow_output_bytes :: "('doc, 'm) store \<Rightarrow> workflow_id \<Rightarrow> persistence_error + u64" where
  "workflow_output_bytes s w = add_bytes
    (case map_of (st_committed_bytes s) w of None \<Rightarrow> 0 | Some b \<Rightarrow> b)
    (case map_of (st_pending_bytes s) w of None \<Rightarrow> 0 | Some b \<Rightarrow> b)"

definition require_history_capacity :: "u64 \<Rightarrow> accounting \<Rightarrow> u64 \<Rightarrow> persistence_error + unit" where
  "require_history_capacity content a limit =
    res_bind (res_fold (\<lambda>x used. add_bytes used x)
      [sa_history_bytes a, sa_reserved_bytes a, sa_artifact_reserved_bytes a, sa_pending_artifact_bytes a, content] 0)
      (\<lambda>used.
    ensure (used \<le> limit)
      (store_bounds ''retained history, artifacts and accepted work reservations fill the storage allowance''))"

definition require_receipt_capacity :: "accounting \<Rightarrow> workflow_storage_limits \<Rightarrow> persistence_error + unit" where
  "require_receipt_capacity a limits =
    res_bind (ok_or (store_bounds ''reserved action capacity overflow'')
      (checked_mul (sa_reserved_receipts a) ACTION_RECEIPT_BYTES)) (\<lambda>reserved.
    res_bind (add_bytes (sa_receipt_bytes a) reserved) (\<lambda>bytes.
    res_bind (add_bytes (sa_receipt_entries a) (sa_reserved_receipts a)) (\<lambda>entries.
    ensure (\<not> (sl_receipt_bytes limits < bytes \<or> ucast (sl_receipt_entries limits) < entries))
      (store_bounds (''task storage is full; accepted work and its settlement/control reserve ''
        @ ''remain protected'')))))"

definition stop_prefix :: "workflow_id \<Rightarrow> string" where
  "stop_prefix w = ''stop:'' @ w @ '':''"

definition reserve_action ::
  "'doc store_codec \<Rightarrow> 'doc workflow_snapshot option \<Rightarrow> 'doc workflow_commit \<Rightarrow> (string, string) bmap
    \<Rightarrow> persistence_error + (string, string) bmap" where
  "reserve_action codec old c owners = (case wc_command c of None \<Rightarrow> Inr owners
    | Some command \<Rightarrow> (case cm_reserved_action command of None \<Rightarrow> Inr owners
      | Some action \<Rightarrow>
          let pre = stop_prefix (ss_workflow (wc_snapshot c)) in
          res_bind (ensure (action = cm_key command \<and> take (length pre) action = pre \<and> length action \<noteq> length pre)
            (store_bounds ''mandatory action must use its exact workflow/task stop identity'')) (\<lambda>_.
          res_bind (ensure (\<not> bm_contains owners action)
            (store_bounds ''mandatory action reservation was already consumed'')) (\<lambda>_.
          res_bind (if \<not> opt_any (\<lambda>p. ss_reserved_receipts (wc_snapshot c) < ss_reserved_receipts p) old then Inr False
            else res_map (\<lambda>bytes. length bytes \<le> unat (ACTION_RECEIPT_BYTES - 1024)) (serde_bytes (sc_command codec) command))
            (\<lambda>available.
          res_bind (ensure available
            (store_bounds ''mandatory action requires an available bounded control reservation'')) (\<lambda>_.
          Inr (bm_insert action (cm_actor command) owners)))))))"

definition receipt_of :: "'doc workflow_commit \<Rightarrow> command_receipt option" where
  "receipt_of c = map_option (\<lambda>acceptance. \<lparr>rc_workflow = ss_workflow (wc_snapshot c),
    rc_generation = ss_generation (wc_snapshot c), rc_acceptance = acceptance\<rparr>) (wc_command c)"

definition encoded_length :: "'a encoder \<Rightarrow> string \<Rightarrow> 'a \<Rightarrow> persistence_error + u64" where
  "encoded_length enc family x = res_map (\<lambda>bytes. of_nat (length bytes)) (store_encode enc family x)"

definition old_or_zero :: "('a \<Rightarrow> u64) \<Rightarrow> 'a option \<Rightarrow> u64" where
  "old_or_zero f old = (case old of None \<Rightarrow> 0 | Some p \<Rightarrow> f p)"

definition charge_commit ::
  "accounting \<Rightarrow> 'doc workflow_snapshot option \<Rightarrow> u64 \<Rightarrow> 'doc workflow_snapshot \<Rightarrow> u64
    \<Rightarrow> u64 option \<Rightarrow> u64 \<Rightarrow> persistence_error + accounting" where
  "charge_commit a old old_bytes s bytes receipt_bytes output_usage =
    res_bind (replace_bytes (sa_history_bytes a) old_bytes bytes) (\<lambda>history.
    res_bind (replace_bytes (sa_reserved_bytes a) (old_or_zero ss_reserved_bytes old) (ss_reserved_bytes s)) (\<lambda>reserved.
    res_bind (replace_bytes (sa_reserved_receipts a)
      (old_or_zero (\<lambda>p. ucast (ss_reserved_receipts p)) old) (ucast (ss_reserved_receipts s))) (\<lambda>receipts.
    res_bind (replace_bytes (sa_artifact_reserved_bytes a)
      (old_or_zero (\<lambda>p. saturating_sub (ss_artifact_capacity p) output_usage) old)
      (saturating_sub (ss_artifact_capacity s) output_usage)) (\<lambda>artifacts.
    res_bind (add_bytes (sa_receipt_bytes a) (case receipt_bytes of None \<Rightarrow> 0 | Some b \<Rightarrow> b)) (\<lambda>receipt_total.
    res_bind (add_bytes (sa_receipt_entries a) (case receipt_bytes of None \<Rightarrow> 0 | Some _ \<Rightarrow> 1)) (\<lambda>entries.
    Inr (a\<lparr>sa_history_bytes := history, sa_reserved_bytes := reserved, sa_reserved_receipts := receipts,
      sa_artifact_reserved_bytes := artifacts, sa_receipt_bytes := receipt_total,
      sa_receipt_entries := entries\<rparr>)))))))"

definition require_generation ::
  "'doc workflow_snapshot option \<Rightarrow> 'doc workflow_commit \<Rightarrow> persistence_error + unit" where
  "require_generation old c =
    res_bind (ensure (map_option ss_generation old = wc_expected_generation c)
      (WorkflowGenerationConflict (ss_workflow (wc_snapshot c)) (wc_expected_generation c)
        (map_option ss_generation old))) (\<lambda>_.
    res_bind (ensure (opt_all (\<lambda>p. ss_owner_actor p = ss_owner_actor (wc_snapshot c)) old)
      (InvalidDocument ''workflow owner is immutable'')) (\<lambda>_.
    ensure (opt_all (\<lambda>p. set (ss_entered_invocations p) \<subseteq> set (ss_entered_invocations (wc_snapshot c))) old)
      (InvalidDocument ''workflow entered invocation evidence cannot be removed'')))"

text \<open>
  What a fresh commit writes, up to but excluding the transaction's commit.  The clock sample is what
  the store's clock returned.
\<close>

definition prepare_commit ::
  "'doc store_codec \<Rightarrow> 'm managed_ops \<Rightarrow> workflow_storage_limits \<Rightarrow> persistence_error + timestamp
    \<Rightarrow> 'doc workflow_commit \<Rightarrow> string option \<Rightarrow> ('doc, 'm) store
    \<Rightarrow> persistence_error + ('doc, 'm) store" where
  "prepare_commit codec ops limits sample c key s =
    (let snap = wc_snapshot c; old = map_of (st_workflows s) (ss_workflow snap); receipt = receipt_of c in
    res_bind (validate_commit codec c) (\<lambda>_.
    res_bind sample (\<lambda>observed.
    res_bind (require_clock observed (st_watermark s)) (\<lambda>watermark.
    res_bind (require_generation old c) (\<lambda>_.
    res_bind (reserve_action codec old c (st_action_owners s)) (\<lambda>owners.
    res_bind (encoded_length (sc_snapshot codec) ''task workflow'' snap) (\<lambda>bytes.
    res_bind (apply_task_resources ops old snap (st_managed s)) (\<lambda>managed.
    res_bind (case receipt of None \<Rightarrow> Inr None
      | Some r \<Rightarrow> res_map Some (encoded_length (sc_receipt codec) ''task receipt'' r)) (\<lambda>receipt_bytes.
    res_bind (workflow_output_bytes s (ss_workflow snap)) (\<lambda>output_usage.
    res_bind (ensure (unat (sa_receipt_entries (st_accounting s)) = length (st_receipts s))
      (corrupt ''task receipt count differs from accounting'')) (\<lambda>_.
    res_bind (case old of None \<Rightarrow> Inr 0
      | Some p \<Rightarrow> encoded_length (sc_snapshot codec) ''task workflow'' p) (\<lambda>old_bytes.
    res_bind (charge_commit (st_accounting s) old old_bytes snap bytes receipt_bytes output_usage) (\<lambda>accounting.
    res_bind (require_history_capacity (st_content_bytes s) accounting (sl_history_bytes limits)) (\<lambda>_.
    res_bind (require_receipt_capacity accounting limits) (\<lambda>_.
    Inr (s\<lparr>st_workflows := bm_insert (ss_workflow snap) snap (st_workflows s),
      st_receipts := (case (key, receipt) of (Some k, Some r) \<Rightarrow> bm_insert k r (st_receipts s) | _ \<Rightarrow> st_receipts s),
      st_action_owners := owners, st_accounting := accounting, st_watermark := watermark,
      st_managed := managed\<rparr>))))))))))))))))"

record commit_faults =
  cf_before :: "persistence_error option"
  cf_after :: "persistence_error option"

definition fault_check :: "persistence_error option \<Rightarrow> persistence_error + unit" where
  "fault_check fault = (case fault of None \<Rightarrow> Inr () | Some e \<Rightarrow> Inl e)"

definition replay_receipt ::
  "'doc workflow_commit \<Rightarrow> string option \<Rightarrow> ('doc, 'm) store \<Rightarrow> command_receipt option" where
  "replay_receipt c key s = Option.bind key (map_of (st_receipts s))"

definition commit_key :: "'doc workflow_commit \<Rightarrow> persistence_error + string option" where
  "commit_key c = (case wc_command c of None \<Rightarrow> Inr None
    | Some command \<Rightarrow> res_map Some (receipt_key (cm_actor command) (cm_key command)))"

definition commit_workflow ::
  "'doc store_codec \<Rightarrow> 'm managed_ops \<Rightarrow> workflow_storage_limits \<Rightarrow> persistence_error + timestamp
    \<Rightarrow> commit_faults \<Rightarrow> 'doc workflow_commit \<Rightarrow> ('doc, 'm) store
    \<Rightarrow> (persistence_error + commit_outcome) \<times> ('doc, 'm) store" where
  "commit_workflow codec ops limits sample faults c s = (case commit_key c of
      Inl e \<Rightarrow> (Inl e, s)
    | Inr key \<Rightarrow> (case (replay_receipt c key s, wc_command c) of
        (Some receipt, Some command) \<Rightarrow>
          if cm_canonical_request (rc_acceptance receipt) \<noteq> cm_canonical_request command
          then (Inl (WorkflowIdempotencyConflict (cm_actor command) (cm_key command)), s)
          else (Inr (Replay receipt), s)
      | _ \<Rightarrow> (case res_bind (prepare_commit codec ops limits sample c key s)
            (\<lambda>s'. res_map (\<lambda>_. s') (fault_check (cf_before faults))) of
          Inl e \<Rightarrow> (Inl e, s)
        | Inr s' \<Rightarrow> (case fault_check (cf_after faults) of
            Inl e \<Rightarrow> (Inl e, s') | Inr _ \<Rightarrow> (Inr (Applied (receipt_of c)), s')))))"


section \<open>Reading\<close>

definition store_workflow :: "('doc, 'm) store \<Rightarrow> workflow_id \<Rightarrow> 'doc workflow_snapshot option" where
  "store_workflow s w = map_of (st_workflows s) w"

definition workflow_receipt :: "('doc, 'm) store \<Rightarrow> string \<Rightarrow> string \<Rightarrow> persistence_error + command_receipt option" where
  "workflow_receipt s actor key = res_map (map_of (st_receipts s)) (receipt_key actor key)"

definition row_length :: "'doc store_codec \<Rightarrow> 'doc workflow_snapshot \<Rightarrow> nat" where
  "row_length codec snap = (case store_encode (sc_snapshot codec) ''task workflow'' snap of Inl _ \<Rightarrow> 0 | Inr b \<Rightarrow> length b)"

definition usize_saturating_add :: "nat \<Rightarrow> nat \<Rightarrow> nat" where
  "usize_saturating_add a b = min (a + b) (2 ^ 64 - 1)"

fun page_loop ::
  "'doc store_codec \<Rightarrow> nat \<Rightarrow> (workflow_id \<times> 'doc workflow_snapshot) list \<Rightarrow> 'doc workflow_snapshot list \<Rightarrow> nat
    \<Rightarrow> 'doc workflow_page" where
  "page_loop codec limit [] items bytes = \<lparr>pg_items = items, pg_next = None\<rparr>"
| "page_loop codec limit ((k, v) # rows) items bytes =
    (if length items = limit \<or> items \<noteq> [] \<and> MAX_WORKFLOW_PAGE_BYTES < usize_saturating_add bytes (row_length codec v)
     then \<lparr>pg_items = items, pg_next = (if items = [] then None else Some (ss_workflow (last items)))\<rparr>
     else page_loop codec limit rows (items @ [v]) (usize_saturating_add bytes (row_length codec v)))"

definition store_workflows ::
  "'doc store_codec \<Rightarrow> ('doc, 'm) store \<Rightarrow> string option \<Rightarrow> nat \<Rightarrow> persistence_error + 'doc workflow_page" where
  "store_workflows codec s after limit =
    res_bind (ensure (limit \<noteq> 0 \<and> limit \<le> 200) (store_bounds ''workflow page must contain 1..=200 records'')) (\<lambda>_.
    res_bind (case after of None \<Rightarrow> Inr () | Some cursor \<Rightarrow> store_identity cursor) (\<lambda>_.
    Inr (page_loop codec limit
      (filter (\<lambda>(k, v). case after of None \<Rightarrow> True | Some a \<Rightarrow> a < k) (st_workflows s)) [] 0)))"

section \<open>What a commit does\<close>

lemma prepare_commit_Inr:
  assumes "prepare_commit codec ops limits sample c key s = Inr s'"
  shows "validate_commit codec c = Inr ()"
    and "require_generation (map_of (st_workflows s) (ss_workflow (wc_snapshot c))) c = Inr ()"
    and "st_workflows s' = bm_insert (ss_workflow (wc_snapshot c)) (wc_snapshot c) (st_workflows s)"
    and "st_receipts s' = (case (key, receipt_of c) of (Some k, Some r) \<Rightarrow> bm_insert k r (st_receipts s)
      | _ \<Rightarrow> st_receipts s)"
    and "\<exists>observed. sample = Inr observed \<and> require_clock observed (st_watermark s) = Inr (st_watermark s')"
    and "reserve_action codec (map_of (st_workflows s) (ss_workflow (wc_snapshot c))) c (st_action_owners s)
      = Inr (st_action_owners s')"
  using assms unfolding prepare_commit_def Let_def res_bind_Inr_iff by (auto simp add: res_simps)

lemma prepare_commit_accounting:
  assumes "prepare_commit codec ops limits sample c key s = Inr s'"
  shows "\<exists>bytes receipt_bytes output_usage old_bytes.
      encoded_length (sc_snapshot codec) ''task workflow'' (wc_snapshot c) = Inr bytes
      \<and> (case receipt_of c of None \<Rightarrow> Inr None
          | Some r \<Rightarrow> res_map Some (encoded_length (sc_receipt codec) ''task receipt'' r)) = Inr receipt_bytes
      \<and> workflow_output_bytes s (ss_workflow (wc_snapshot c)) = Inr output_usage
      \<and> (case map_of (st_workflows s) (ss_workflow (wc_snapshot c)) of None \<Rightarrow> Inr 0
          | Some p \<Rightarrow> encoded_length (sc_snapshot codec) ''task workflow'' p) = Inr old_bytes
      \<and> charge_commit (st_accounting s) (map_of (st_workflows s) (ss_workflow (wc_snapshot c))) old_bytes
          (wc_snapshot c) bytes receipt_bytes output_usage = Inr (st_accounting s')"
    and "require_history_capacity (st_content_bytes s') (st_accounting s') (sl_history_bytes limits) = Inr ()"
    and "require_receipt_capacity (st_accounting s') limits = Inr ()"
    and "st_committed_bytes s' = st_committed_bytes s" "st_pending_bytes s' = st_pending_bytes s"
      "st_content_bytes s' = st_content_bytes s"
  using assms unfolding prepare_commit_def Let_def res_bind_Inr_iff by auto

lemma commit_workflow_cases:
  assumes "commit_workflow codec ops limits sample faults c s = (r, s')"
  obtains (refused) e where "r = Inl e" "s' = s"
  | (replayed) command key receipt where "wc_command c = Some command"
      "receipt_key (cm_actor command) (cm_key command) = Inr key" "map_of (st_receipts s) key = Some receipt"
      "cm_canonical_request (rc_acceptance receipt) = cm_canonical_request command"
      "r = Inr (Replay receipt)" "s' = s"
  | (written) key where "commit_key c = Inr key" "Option.bind key (map_of (st_receipts s)) = None"
      "prepare_commit codec ops limits sample c key s = Inr s'"
      "r = Inr (Applied (receipt_of c)) \<or> (\<exists>e. r = Inl e \<and> cf_after faults = Some e)"
proof (cases "commit_key c")
  case (Inl e)
  then show ?thesis using assms refused by (auto simp add: commit_workflow_def)
next
  case (Inr key)
  note key = this
  show ?thesis
  proof (cases "Option.bind key (map_of (st_receipts s))")
    case None
    then show ?thesis
    proof (cases "prepare_commit codec ops limits sample c key s")
      case (Inl e)
      then show ?thesis using assms key None refused by (auto simp add: commit_workflow_def replay_receipt_def)
    next
      case (Inr t)
      then show ?thesis
        using assms key None refused written
        by (cases "cf_before faults"; cases "cf_after faults")
          (auto simp add: commit_workflow_def replay_receipt_def fault_check_def)
    qed
  next
    case (Some receipt)
    then obtain k where k: "key = Some k" "map_of (st_receipts s) k = Some receipt"
      by (auto simp add: bind_eq_Some_conv)
    then obtain command where m: "wc_command c = Some command"
      "receipt_key (cm_actor command) (cm_key command) = Inr k"
      using key by (auto simp add: commit_key_def res_simps split: option.splits)
    have w: "commit_workflow codec ops limits sample faults c s =
      (if cm_canonical_request (rc_acceptance receipt) \<noteq> cm_canonical_request command
       then Inl (WorkflowIdempotencyConflict (cm_actor command) (cm_key command)) else Inr (Replay receipt), s)"
      by (simp add: commit_workflow_def replay_receipt_def key k m)
    show ?thesis
    proof (cases "cm_canonical_request (rc_acceptance receipt) = cm_canonical_request command")
      case True
      then show ?thesis using replayed [OF m k(2) True] w assms by simp
    next
      case False
      then show ?thesis using refused w assms by simp
    qed
  qed
qed

lemma prepare_commit_swapped:
  assumes "prepare_commit codec ops limits sample c key s = Inr s'" and "bm_wf (st_workflows s)"
  shows "swapped store_workflow c s s'" and "bm_wf (st_workflows s')"
proof -
  note f = prepare_commit_Inr [OF assms(1)]
  have "unat (ss_generation (wc_snapshot c)) = Suc (case wc_expected_generation c of None \<Rightarrow> 0 | Some g \<Rightarrow> unat g)"
    using f(1) by (auto simp add: validate_commit_def Let_def res_simps checked_add_unat split: option.splits)
  then show "swapped store_workflow c s s'"
    using f(2,3) assms(2) by (auto simp add: swapped_def require_generation_def res_simps store_workflow_def fun_eq_iff)
  show "bm_wf (st_workflows s')" using f(3) assms(2) by simp
qed

text \<open>The environment of a commit: what the store's clock returned and which faults occurred.\<close>

definition commit_in ::
  "'doc store_codec \<Rightarrow> 'm managed_ops \<Rightarrow> workflow_storage_limits
    \<Rightarrow> (persistence_error + timestamp) \<times> commit_faults \<Rightarrow> 'doc workflow_commit \<Rightarrow> ('doc, 'm) store
    \<Rightarrow> (persistence_error + commit_outcome) \<times> ('doc, 'm) store" where
  "commit_in codec ops limits x = commit_workflow codec ops limits (fst x) (snd x)"

interpretation redb: workflow_port store_workflow "commit_in codec ops limits" "\<lambda>s. bm_wf (st_workflows s)"
  for codec :: "'doc store_codec" and ops :: "'m managed_ops" and limits
proof (unfold_locales, unfold commit_in_def)
  fix s s' :: "('doc, 'm) store" and x r c
  assume wf: "bm_wf (st_workflows s)"
    and c: "commit_workflow codec ops limits (fst x) (snd x) c s = (r, s')"
  show "bm_wf (st_workflows s')"
    using c wf by (cases rule: commit_workflow_cases) (auto dest: prepare_commit_swapped(2))
next
  fix s s' :: "('doc, 'm) store" and x c receipt
  assume wf: "bm_wf (st_workflows s)"
    and c: "commit_workflow codec ops limits (fst x) (snd x) c s = (Inr (Applied receipt), s')"
  show "swapped store_workflow c s s'"
    using c wf by (cases rule: commit_workflow_cases) (auto dest: prepare_commit_swapped(1))
next
  fix s s' :: "('doc, 'm) store" and x c receipt
  assume c: "commit_workflow codec ops limits (fst x) (snd x) c s = (Inr (Replay receipt), s')"
  show "s' = s" using c by (cases rule: commit_workflow_cases) auto
next
  fix s s' :: "('doc, 'm) store" and x c e
  assume wf: "bm_wf (st_workflows s)"
    and c: "commit_workflow codec ops limits (fst x) (snd x) c s = (Inl e, s')"
  show "s' = s \<or> swapped store_workflow c s s'"
    using c wf by (cases rule: commit_workflow_cases) (auto dest: prepare_commit_swapped(1))
qed

text \<open>
  C12.  No accepted transition is lost.  Two transitions of one workflow planned from the same
  generation cannot both be applied, whatever commits of any workflow, refused, replayed or
  committed with a lost reply, happen in between.
\<close>

theorem no_lost_update:
  assumes "bm_wf (st_workflows s)"
    and "commit_workflow codec ops limits sample faults c s = (Inr (Applied a), s1)"
    and "(\<lambda>s s'. \<exists>sample faults c. s' = snd (commit_workflow codec ops limits sample faults c s))\<^sup>*\<^sup>* s1 s2"
    and "ss_workflow (wc_snapshot d) = ss_workflow (wc_snapshot c)"
    and "wc_expected_generation d = wc_expected_generation c"
  shows "\<nexists>b s3. commit_workflow codec ops limits sample' faults' d s2 = (Inr (Applied b), s3)"
proof -
  have "(\<lambda>s s'. \<exists>x c. s' = snd (commit_in codec ops limits x c s))
      = (\<lambda>s s'. \<exists>sample faults c. s' = snd (commit_workflow codec ops limits sample faults c s))"
    by (auto simp add: commit_in_def fun_eq_iff)
  then show ?thesis
    using redb.one_winner [of s codec ops limits "(sample, faults)" c a s1 s2 d "(sample', faults')"] assms
    by (simp add: commit_in_def)
qed

text \<open>
  C7.  Commits are atomic compare-and-swaps.  If a commit is reported as applied, the stored
  workflow had exactly the generation the caller expected (none for a new workflow), the new
  generation is the next one, the stored snapshot is the committed one and no other workflow
  changed; the owner is unchanged, no entered invocation is forgotten, and the boundary clock is not
  behind the durable watermark.  If it is refused without a fault after the transaction's commit,
  nothing changed at all.
\<close>

theorem commit_compare_and_swap:
  assumes "commit_workflow codec ops limits sample faults c s = (r, s')" and "bm_wf (st_workflows s)"
  shows "(\<forall>receipt. r = Inr (Applied receipt) \<longrightarrow>
      map_option ss_generation (store_workflow s (ss_workflow (wc_snapshot c))) = wc_expected_generation c
      \<and> unat (ss_generation (wc_snapshot c)) = Suc (case wc_expected_generation c of None \<Rightarrow> 0 | Some g \<Rightarrow> unat g)
      \<and> store_workflow s' = (store_workflow s)(ss_workflow (wc_snapshot c) \<mapsto> wc_snapshot c)
      \<and> (\<forall>old. store_workflow s (ss_workflow (wc_snapshot c)) = Some old \<longrightarrow>
          ss_owner_actor old = ss_owner_actor (wc_snapshot c)
          \<and> set (ss_entered_invocations old) \<subseteq> set (ss_entered_invocations (wc_snapshot c)))
      \<and> (\<exists>observed. sample = Inr observed \<and> st_watermark s' = Some observed
          \<and> (\<forall>mark. st_watermark s = Some mark \<longrightarrow> mark \<le> observed)))
    \<and> (\<forall>e. r = Inl e \<and> cf_after faults = None \<longrightarrow> s' = s)"
proof (rule conjI; intro allI impI)
  show "s' = s" if "r = Inl e \<and> cf_after faults = None" for e
    using assms(1) that by (cases rule: commit_workflow_cases) auto
next
  fix receipt
  assume a: "r = Inr (Applied receipt)"
  from assms(1) a obtain key where p: "prepare_commit codec ops limits sample c key s = Inr s'"
    by (cases rule: commit_workflow_cases) auto
  note f = prepare_commit_Inr [OF p]
  have sw: "swapped store_workflow c s s'" using prepare_commit_swapped(1) [OF p assms(2)] .
  obtain observed where o: "sample = Inr observed" "require_clock observed (st_watermark s) = Inr (st_watermark s')"
    using f(5) by blast
  then have mark: "st_watermark s' = Some observed \<and> (\<forall>mark. st_watermark s = Some mark \<longrightarrow> mark \<le> observed)"
    by (auto simp add: require_clock_def observe_clock_def split: option.splits if_splits)
  show "map_option ss_generation (store_workflow s (ss_workflow (wc_snapshot c))) = wc_expected_generation c
      \<and> unat (ss_generation (wc_snapshot c)) = Suc (case wc_expected_generation c of None \<Rightarrow> 0 | Some g \<Rightarrow> unat g)
      \<and> store_workflow s' = (store_workflow s)(ss_workflow (wc_snapshot c) \<mapsto> wc_snapshot c)
      \<and> (\<forall>old. store_workflow s (ss_workflow (wc_snapshot c)) = Some old \<longrightarrow>
          ss_owner_actor old = ss_owner_actor (wc_snapshot c)
          \<and> set (ss_entered_invocations old) \<subseteq> set (ss_entered_invocations (wc_snapshot c)))
      \<and> (\<exists>observed. sample = Inr observed \<and> st_watermark s' = Some observed
          \<and> (\<forall>mark. st_watermark s = Some mark \<longrightarrow> mark \<le> observed))"
    using f(2) sw o(1) mark
    by (auto simp add: require_generation_def res_simps opt_all_iff store_workflow_def swapped_def)
qed

section \<open>Requests are accepted once\<close>

lemma receipts_step:
  assumes "commit_workflow codec ops limits sample faults c s = (r, s')" and "bm_wf (st_receipts s)"
    and "map_of (st_receipts s) k = Some receipt"
  shows "bm_wf (st_receipts s') \<and> map_of (st_receipts s') k = Some receipt"
  using assms(1)
proof (cases rule: commit_workflow_cases)
  case (written key)
  then show ?thesis
    using assms(2,3) prepare_commit_Inr(4) [OF written(3)] by (auto split: option.splits)
qed (use assms in auto)

lemma bm_wf_receipts_step:
  assumes "commit_workflow codec ops limits sample faults c s = (r, s')" and "bm_wf (st_receipts s)"
  shows "bm_wf (st_receipts s')"
  using assms(1)
proof (cases rule: commit_workflow_cases)
  case (written key)
  then show ?thesis
    using assms(2) prepare_commit_Inr(4) [OF written(3)] by (auto split: option.splits)
qed (use assms in auto)

text \<open>Stores reached by any number of further commits, by anyone, with any clock and any faults.\<close>

inductive store_reaches ::
  "'doc store_codec \<Rightarrow> 'm managed_ops \<Rightarrow> workflow_storage_limits \<Rightarrow> ('doc, 'm) store \<Rightarrow> ('doc, 'm) store \<Rightarrow> bool"
  for codec ops limits s where
  here: "store_reaches codec ops limits s s"
| commit: "store_reaches codec ops limits s t \<Longrightarrow>
    commit_workflow codec ops limits sample faults c t = (r, t') \<Longrightarrow> store_reaches codec ops limits s t'"

lemma receipts_persist:
  "store_reaches codec ops limits s t \<Longrightarrow> bm_wf (st_receipts s) \<Longrightarrow> map_of (st_receipts s) k = Some receipt \<Longrightarrow>
    bm_wf (st_receipts t) \<and> map_of (st_receipts t) k = Some receipt"
proof (induction rule: store_reaches.induct)
  case (commit t sample faults c r t')
  then show ?case using receipts_step [OF commit.hyps(2)] by blast
qed simp

lemma commit_with_receipt:
  assumes "wc_command c = Some command" and "receipt_key (cm_actor command) (cm_key command) = Inr k"
    and "map_of (st_receipts s) k = Some receipt"
  shows "commit_workflow codec ops limits sample faults c s =
    (if cm_canonical_request (rc_acceptance receipt) = cm_canonical_request command then Inr (Replay receipt)
     else Inl (WorkflowIdempotencyConflict (cm_actor command) (cm_key command)), s)"
  using assms by (simp add: commit_workflow_def commit_key_def replay_receipt_def)

text \<open>
  C8.  An external request takes effect at most once and its answer stays recoverable.  Suppose a
  commit with a command changed the store, even if the caller saw an error because the reply was
  lost after the transaction committed.  Then in every store reached from there by any further
  commits, committing the same actor's same request key again changes nothing: with the same
  canonical request it returns the original receipt, and with a different one it is refused as a
  conflict.
\<close>

theorem command_accepted_once:
  assumes "commit_workflow codec ops limits sample faults c s = (r, s')" and "s' \<noteq> s"
    and "bm_wf (st_receipts s)" and "wc_command c = Some command"
    and "store_reaches codec ops limits s' t"
    and "wc_command again = Some command'" and "cm_actor command' = cm_actor command"
      "cm_key command' = cm_key command"
  shows "\<exists>receipt. receipt_of c = Some receipt \<and> rc_acceptance receipt = command
    \<and> commit_workflow codec ops limits sample' faults' again t =
      (if cm_canonical_request command = cm_canonical_request command' then Inr (Replay receipt)
       else Inl (WorkflowIdempotencyConflict (cm_actor command) (cm_key command)), t)"
proof -
  from assms(1,2) obtain key where key: "commit_key c = Inr key"
    and p: "prepare_commit codec ops limits sample c key s = Inr s'"
    by (cases rule: commit_workflow_cases) auto
  from key assms(4) obtain k where k: "key = Some k" "receipt_key (cm_actor command) (cm_key command) = Inr k"
    by (auto simp add: commit_key_def res_simps)
  define receipt where "receipt = \<lparr>rc_workflow = ss_workflow (wc_snapshot c),
    rc_generation = ss_generation (wc_snapshot c), rc_acceptance = command\<rparr>"
  have r: "receipt_of c = Some receipt" using assms(4) by (simp add: receipt_of_def receipt_def)
  have "st_receipts s' = bm_insert k receipt (st_receipts s)"
    using prepare_commit_Inr(4) [OF p] k r by simp
  then have "bm_wf (st_receipts s')" "map_of (st_receipts s') k = Some receipt"
    using assms(3) by simp_all
  then have "map_of (st_receipts t) k = Some receipt" using receipts_persist [OF assms(5)] by blast
  from commit_with_receipt [OF assms(6) _ this, of codec ops limits sample' faults'] k(2) r assms(7,8)
  show ?thesis by (auto simp add: receipt_def)
qed

section \<open>Accounting is exact\<close>

definition receipt_length :: "'doc store_codec \<Rightarrow> command_receipt \<Rightarrow> nat" where
  "receipt_length codec r = (case store_encode (sc_receipt codec) ''task receipt'' r of Inl _ \<Rightarrow> 0 | Inr b \<Rightarrow> length b)"

definition output_usage :: "('doc, 'm) store \<Rightarrow> workflow_id \<Rightarrow> nat" where
  "output_usage s w = (case map_of (st_committed_bytes s) w of None \<Rightarrow> 0 | Some b \<Rightarrow> unat b)
    + (case map_of (st_pending_bytes s) w of None \<Rightarrow> 0 | Some b \<Rightarrow> unat b)"

text \<open>The counters equal the sums over the rows they summarise.\<close>

definition accounted :: "'doc store_codec \<Rightarrow> ('doc, 'm) store \<Rightarrow> bool" where
  "accounted codec s \<longleftrightarrow> bm_wf (st_workflows s) \<and> bm_wf (st_receipts s)
    \<and> unat (sa_history_bytes (st_accounting s)) = (\<Sum>(k, v)\<leftarrow>st_workflows s. row_length codec v)
    \<and> unat (sa_reserved_bytes (st_accounting s)) = (\<Sum>(k, v)\<leftarrow>st_workflows s. unat (ss_reserved_bytes v))
    \<and> unat (sa_reserved_receipts (st_accounting s)) = (\<Sum>(k, v)\<leftarrow>st_workflows s. unat (ss_reserved_receipts v))
    \<and> unat (sa_artifact_reserved_bytes (st_accounting s))
      = (\<Sum>(k, v)\<leftarrow>st_workflows s. unat (ss_artifact_capacity v) - output_usage s k)
    \<and> unat (sa_receipt_bytes (st_accounting s)) = (\<Sum>(k, v)\<leftarrow>st_receipts s. receipt_length codec v)
    \<and> unat (sa_receipt_entries (st_accounting s)) = length (st_receipts s)"

lemma add_bytes_Inr: "add_bytes a b = Inr c \<longleftrightarrow> unat c = unat a + unat b"
  by (simp add: add_bytes_def res_simps checked_add_unat)

lemma replace_bytes_Inr: "replace_bytes a old new = Inr c \<longleftrightarrow> unat old \<le> unat a \<and> unat c = unat a - unat old + unat new"
  by (auto simp add: replace_bytes_def res_simps add_bytes_Inr checked_sub_def word_order_nat unat_sub)

lemma encoded_length_Inr:
  assumes "encoded_length enc family x = Inr n"
  shows "unat n = (case store_encode enc family x of Inl _ \<Rightarrow> 0 | Inr b \<Rightarrow> length b)"
proof -
  from assms obtain b where b: "store_encode enc family x = Inr b" "n = of_nat (length b)"
    by (auto simp add: encoded_length_def res_simps)
  then have "length b < 2 ^ 64"
    by (auto simp add: store_encode_def res_simps document_limit_def MAX_WORKFLOW_DOCUMENT_BYTES_def
        MAX_INTERNAL_DOCUMENT_BYTES_def split: if_splits)
  then show ?thesis using b by (simp add: unat_of_nat)
qed

lemma unat_ucast_u64: "unat (ucast (x :: u32) :: u64) = unat x"
proof -
  have "unat x < 2 ^ 64" using unat_bound [of x] by (simp del: unsigned_less)
  then show ?thesis by (simp add: unsigned_ucast_eq take_bit_nat_eq_self)
qed

lemma replaced_sum:
  fixes f :: "workflow_id \<Rightarrow> 'doc workflow_snapshot \<Rightarrow> nat"
  assumes "bm_wf m" and "replace_bytes a old new = Inr c" and "unat a = (\<Sum>(k, v)\<leftarrow>m. f k v)"
    and "unat old = (case map_of m k of None \<Rightarrow> 0 | Some p \<Rightarrow> f k p)" and "unat new = f k v"
  shows "unat c = (\<Sum>(k, v)\<leftarrow>bm_insert k v m. f k v)"
  using btree.sum_put [OF assms(1), of f k v] assms(2-5) by (simp add: replace_bytes_Inr)

lemma prepare_accounted:
  assumes "prepare_commit codec ops limits sample c key s = Inr s'" and "accounted codec s"
    and "commit_key c = Inr key" and "Option.bind key (map_of (st_receipts s)) = None"
  shows "accounted codec s'"
proof -
  let ?w = "ss_workflow (wc_snapshot c)" let ?old = "map_of (st_workflows s) ?w" let ?a = "st_accounting s"
  obtain bytes receipt_bytes out old_bytes where
    bytes: "encoded_length (sc_snapshot codec) ''task workflow'' (wc_snapshot c) = Inr bytes"
    and rb: "(case receipt_of c of None \<Rightarrow> Inr None
          | Some r \<Rightarrow> res_map Some (encoded_length (sc_receipt codec) ''task receipt'' r)) = Inr receipt_bytes"
    and out: "workflow_output_bytes s ?w = Inr out"
    and ob: "(case ?old of None \<Rightarrow> Inr 0 | Some p \<Rightarrow> encoded_length (sc_snapshot codec) ''task workflow'' p) = Inr old_bytes"
    and ch: "charge_commit ?a ?old old_bytes (wc_snapshot c) bytes receipt_bytes out = Inr (st_accounting s')"
    using prepare_commit_accounting(1) [OF assms(1)] by blast
  note same = prepare_commit_accounting(4-6) [OF assms(1)]
  have wf: "bm_wf (st_workflows s)" "bm_wf (st_receipts s)" using assms(2) by (simp_all add: accounted_def)
  have w': "st_workflows s' = bm_insert ?w (wc_snapshot c) (st_workflows s)" using prepare_commit_Inr(3) [OF assms(1)] .
  have usage: "output_usage s' k = output_usage s k" for k by (simp add: output_usage_def same)
  have out_n: "unat out = output_usage s ?w"
    using out by (auto simp add: workflow_output_bytes_def add_bytes_Inr output_usage_def split: option.splits)
  from ch obtain h rs rr ar rt re where
    h: "replace_bytes (sa_history_bytes ?a) old_bytes bytes = Inr h"
    and rs: "replace_bytes (sa_reserved_bytes ?a) (old_or_zero ss_reserved_bytes ?old) (ss_reserved_bytes (wc_snapshot c)) = Inr rs"
    and rr: "replace_bytes (sa_reserved_receipts ?a) (old_or_zero (\<lambda>p. ucast (ss_reserved_receipts p)) ?old)
        (ucast (ss_reserved_receipts (wc_snapshot c))) = Inr rr"
    and ar: "replace_bytes (sa_artifact_reserved_bytes ?a) (old_or_zero (\<lambda>p. saturating_sub (ss_artifact_capacity p) out) ?old)
        (saturating_sub (ss_artifact_capacity (wc_snapshot c)) out) = Inr ar"
    and rt: "add_bytes (sa_receipt_bytes ?a) (case receipt_bytes of None \<Rightarrow> 0 | Some b \<Rightarrow> b) = Inr rt"
    and re: "add_bytes (sa_receipt_entries ?a) (case receipt_bytes of None \<Rightarrow> 0 | Some _ \<Rightarrow> 1) = Inr re"
    and a': "st_accounting s' = ?a\<lparr>sa_history_bytes := h, sa_reserved_bytes := rs, sa_reserved_receipts := rr,
      sa_artifact_reserved_bytes := ar, sa_receipt_bytes := rt, sa_receipt_entries := re\<rparr>"
    unfolding charge_commit_def res_bind_Inr_iff by auto
  have "unat h = (\<Sum>(k, v)\<leftarrow>st_workflows s'. row_length codec v)"
    unfolding w' using assms(2) ob encoded_length_Inr [OF bytes]
    by (intro replaced_sum [OF wf(1) h])
      (auto simp add: accounted_def row_length_def dest!: encoded_length_Inr split: option.splits)
  moreover have "unat rs = (\<Sum>(k, v)\<leftarrow>st_workflows s'. unat (ss_reserved_bytes v))"
    unfolding w' using assms(2)
    by (intro replaced_sum [OF wf(1) rs]) (auto simp add: accounted_def old_or_zero_def split: option.splits)
  moreover have "unat rr = (\<Sum>(k, v)\<leftarrow>st_workflows s'. unat (ss_reserved_receipts v))"
    unfolding w' using assms(2)
    by (intro replaced_sum [OF wf(1) rr]) (auto simp add: accounted_def old_or_zero_def unat_ucast_u64 split: option.splits)
  moreover have "unat ar = (\<Sum>(k, v)\<leftarrow>st_workflows s'. unat (ss_artifact_capacity v) - output_usage s' k)"
    unfolding w' usage using assms(2)
    by (intro replaced_sum [OF wf(1) ar])
      (auto simp add: accounted_def old_or_zero_def unat_saturating_sub out_n split: option.splits)
  moreover have "bm_wf (st_receipts s') \<and> unat rt = (\<Sum>(k, v)\<leftarrow>st_receipts s'. receipt_length codec v)
      \<and> unat re = length (st_receipts s')"
  proof (cases "wc_command c")
    case None
    then have "st_receipts s' = st_receipts s" "receipt_bytes = None"
      using prepare_commit_Inr(4) [OF assms(1)] rb by (auto simp add: receipt_of_def split: option.splits)
    then show ?thesis using wf rt re assms(2) by (simp add: add_bytes_Inr accounted_def)
  next
    case (Some command)
    then obtain k r where k: "key = Some k" "receipt_of c = Some r" "map_of (st_receipts s) k = None"
      using assms(3,4) by (auto simp add: commit_key_def receipt_of_def res_simps)
    then obtain b where b: "receipt_bytes = Some b" "unat b = receipt_length codec r"
      using rb by (auto simp add: res_simps receipt_length_def dest!: encoded_length_Inr)
    have s': "st_receipts s' = bm_insert k r (st_receipts s)"
      using prepare_commit_Inr(4) [OF assms(1)] k by simp
    show ?thesis
      using wf rt re assms(2) b k(3) btree.sum_put [OF wf(2), of "\<lambda>_. receipt_length codec" k r]
        btree.length_put_fresh [OF wf(2) k(3), of r]
      by (simp add: s' add_bytes_Inr accounted_def)
  qed
  ultimately show ?thesis using wf a' by (simp add: accounted_def w')
qed

text \<open>
  C13.  The store's counters are exact.  If the history, reservation, receipt and output counters
  equal the sums over the stored rows, they do after every commit, whatever its outcome: applied,
  replayed, refused, or committed with a lost reply.
\<close>

theorem commit_keeps_accounting:
  assumes "accounted codec s" and "commit_workflow codec ops limits sample faults c s = (r, s')"
  shows "accounted codec s'"
  using assms(2)
proof (cases rule: commit_workflow_cases)
  case (written key)
  show ?thesis by (rule prepare_accounted [OF written(3) assms(1) written(1,2)])
qed (use assms in auto)

section \<open>Capacity is protected\<close>

lemma require_receipt_capacity_Inr:
  "require_receipt_capacity a limits = Inr u \<longleftrightarrow>
    unat (sa_receipt_bytes a) + 8192 * unat (sa_reserved_receipts a) \<le> unat (sl_receipt_bytes limits)
    \<and> unat (sa_receipt_entries a) + unat (sa_reserved_receipts a) \<le> unat (sl_receipt_entries limits)"
    (is "?L \<longleftrightarrow> ?R")
proof
  assume ?L
  then obtain reserved bytes entries where "unat (reserved :: u64) = unat (sa_reserved_receipts a) * 8192"
    "unat bytes = unat (sa_receipt_bytes a) + unat reserved"
    "unat (entries :: u64) = unat (sa_receipt_entries a) + unat (sa_reserved_receipts a)"
    "bytes \<le> sl_receipt_bytes limits" "entries \<le> ucast (sl_receipt_entries limits)"
    by (auto simp add: require_receipt_capacity_def res_simps checked_mul_unat add_bytes_Inr ACTION_RECEIPT_BYTES_def not_less)
  then show ?R by (simp add: word_order_nat unat_ucast_u64 mult.commute)
next
  assume R: ?R
  have lim: "unat (sl_receipt_bytes limits) < 2 ^ 64" "unat (sl_receipt_entries limits) < 2 ^ 32"
    using unat_bound [of "sl_receipt_bytes limits"] unat_bound [of "sl_receipt_entries limits"]
    by (simp_all del: unsigned_less)
  let ?reserved = "sa_reserved_receipts a * 8192" let ?bytes = "sa_receipt_bytes a + ?reserved"
  let ?entries = "sa_receipt_entries a + sa_reserved_receipts a"
  have u: "unat ?reserved = unat (sa_reserved_receipts a) * 8192"
    "unat ?bytes = unat (sa_receipt_bytes a) + unat ?reserved"
    "unat ?entries = unat (sa_receipt_entries a) + unat (sa_reserved_receipts a)"
    using R lim by (simp_all add: unat_word_ariths mult.commute)
  then have "checked_mul (sa_reserved_receipts a) ACTION_RECEIPT_BYTES = Some ?reserved"
    "add_bytes (sa_receipt_bytes a) ?reserved = Inr ?bytes"
    "add_bytes (sa_receipt_entries a) (sa_reserved_receipts a) = Inr ?entries"
    by (simp_all add: checked_mul_unat add_bytes_Inr ACTION_RECEIPT_BYTES_def)
  moreover have "?bytes \<le> sl_receipt_bytes limits" "?entries \<le> ucast (sl_receipt_entries limits)"
    using R u by (simp_all add: word_order_nat unat_ucast_u64 mult.commute)
  ultimately show ?L by (simp add: require_receipt_capacity_def not_less)
qed

lemma require_history_capacity_Inr:
  "require_history_capacity content a limit = Inr u \<Longrightarrow>
    unat (sa_history_bytes a) + unat (sa_reserved_bytes a) + unat (sa_artifact_reserved_bytes a)
      + unat (sa_pending_artifact_bytes a) + unat content \<le> unat limit"
  by (auto simp add: require_history_capacity_def res_simps add_bytes_Inr word_order_nat)


text \<open>
  C28.  A reserved control request never finds the receipt table full.  If the accounting is within the
  receipt allowances and a commit replaces a workflow's snapshot by one that reserves fewer control
  slots, then the accounting charged with its receipt of at most 8 KiB is within the allowances again;
  so a stop request that consumes a reserved slot is not refused for receipt space.
\<close>

theorem stop_receipt_protected:
  assumes "require_receipt_capacity a limits = Inr ()"
    and "charge_commit a (Some p) old_bytes snap bytes (Some receipt_bytes) usage = Inr a'"
    and "ss_reserved_receipts snap < ss_reserved_receipts p"
    and "receipt_bytes \<le> ACTION_RECEIPT_BYTES"
  shows "require_receipt_capacity a' limits = Inr ()"
proof -
  have "unat (ss_reserved_receipts p) \<le> unat (sa_reserved_receipts a)
      \<and> unat (sa_reserved_receipts a') = unat (sa_reserved_receipts a) - unat (ss_reserved_receipts p) + unat (ss_reserved_receipts snap)
      \<and> unat (sa_receipt_bytes a') = unat (sa_receipt_bytes a) + unat receipt_bytes
      \<and> unat (sa_receipt_entries a') = unat (sa_receipt_entries a) + 1"
    using assms(2) unfolding charge_commit_def res_bind_Inr_iff
    by (auto simp add: replace_bytes_Inr add_bytes_Inr old_or_zero_def unat_ucast_u64)
  then have r: "unat (sa_reserved_receipts a') < unat (sa_reserved_receipts a)"
    "unat (sa_receipt_bytes a') = unat (sa_receipt_bytes a) + unat receipt_bytes"
    "unat (sa_receipt_entries a') = unat (sa_receipt_entries a) + 1"
    using assms(3) by (auto simp add: word_order_nat)
  have "8192 * unat (sa_reserved_receipts a') + 8192 \<le> 8192 * unat (sa_reserved_receipts a)"
    using r(1) by simp
  moreover have "unat receipt_bytes \<le> 8192" using assms(4) by (simp add: word_order_nat ACTION_RECEIPT_BYTES_def)
  ultimately show ?thesis using assms(1) r unfolding require_receipt_capacity_Inr by simp
qed


section \<open>Receipt keys and pages\<close>

lemma colon_split:
  assumes "a @ CHR '':'' # x = b @ CHR '':'' # y" and "CHR '':'' \<notin> set a" and "CHR '':'' \<notin> set b"
  shows "a = b \<and> x = y"
proof -
  have tw: "takeWhile (\<lambda>c. c \<noteq> CHR '':'') (z @ CHR '':'' # w) = z" if "CHR '':'' \<notin> set z" for z w
    using that by (simp add: takeWhile_append)
  have "a = b" using tw [OF assms(2), of x] tw [OF assms(3), of y] assms(1) by simp
  then show ?thesis using assms(1) by simp
qed

lemma colon_not_digit: "CHR '':'' \<notin> set (dec n)"
  by (auto dest!: dec_digits simp add: text_eval)

text \<open>
  A receipt key names one actor and one request key: two pairs of identities with the same
  stored key are equal, although the key is their plain concatenation behind the actor's length.
\<close>

theorem receipt_key_injective:
  assumes "receipt_key actor key = Inr k" and "receipt_key actor' key' = Inr k"
  shows "actor = actor' \<and> key = key'"
proof -
  have "dec (length actor) @ CHR '':'' # (actor @ key) = dec (length actor') @ CHR '':'' # (actor' @ key')"
    using assms by (simp add: receipt_key_def res_simps)
  then have "dec (length actor) = dec (length actor')" "actor @ key = actor' @ key'"
    using colon_split colon_not_digit by blast+
  then show ?thesis by simp
qed

text \<open>Reading all pages, as every scan over the store does; the fuel bounds the number of pages.\<close>

primrec collect_pages ::
  "nat \<Rightarrow> 'doc store_codec \<Rightarrow> ('doc, 'm) store \<Rightarrow> nat \<Rightarrow> string option
    \<Rightarrow> (persistence_error + 'doc workflow_snapshot list) option" where
  "collect_pages 0 codec s limit cursor = None"
| "collect_pages (Suc n) codec s limit cursor = (case store_workflows codec s cursor limit of
      Inl e \<Rightarrow> Some (Inl e)
    | Inr page \<Rightarrow> (case pg_next page of
        None \<Rightarrow> Some (Inr (pg_items page))
      | Some c \<Rightarrow> map_option (res_map ((@) (pg_items page))) (collect_pages n codec s limit (Some c))))"

lemma page_loop_takes:
  "limit \<noteq> 0 \<Longrightarrow> \<exists>n \<le> length rows. pg_items (page_loop codec limit rows items bytes) = items @ map snd (take n rows)
    \<and> (pg_next (page_loop codec limit rows items bytes) = None \<longrightarrow> n = length rows)
    \<and> (\<forall>c. pg_next (page_loop codec limit rows items bytes) = Some c \<longrightarrow>
        items @ map snd (take n rows) \<noteq> [] \<and> c = ss_workflow (last (items @ map snd (take n rows))))"
proof (induction codec limit rows items bytes rule: page_loop.induct)
  case (1 codec limit items bytes)
  then show ?case by simp
next
  case (2 codec limit k v rows items bytes)
  show ?case
  proof (cases "length items = limit \<or> items \<noteq> [] \<and> MAX_WORKFLOW_PAGE_BYTES < usize_saturating_add bytes (row_length codec v)")
    case True
    then have "items \<noteq> []" using "2.prems" by auto
    with True show ?thesis by (intro exI [of _ 0]) auto
  next
    case False
    let ?p = "page_loop codec limit rows (items @ [v]) (usize_saturating_add bytes (row_length codec v))"
    from "2.IH" [OF False "2.prems"] obtain n where
      n: "n \<le> length rows \<and> pg_items ?p = (items @ [v]) @ map snd (take n rows)
        \<and> (pg_next ?p = None \<longrightarrow> n = length rows)
        \<and> (\<forall>c. pg_next ?p = Some c \<longrightarrow> (items @ [v]) @ map snd (take n rows) \<noteq> []
          \<and> c = ss_workflow (last ((items @ [v]) @ map snd (take n rows))))" by (rule exE)
    have p: "page_loop codec limit ((k, v) # rows) items bytes = ?p" using False by (simp only: page_loop.simps if_False)
    show ?thesis
      unfolding p by (rule exI [of _ "Suc n"]) (use n in simp)
  qed
qed

definition keyed :: "(workflow_id, 'doc workflow_snapshot) bmap \<Rightarrow> bool" where
  "keyed rows \<longleftrightarrow> (\<forall>(k, v) \<in> set rows. ss_workflow v = k \<and> store_identity k = Inr ())"

lemma rows_after:
  assumes "bm_wf rows" and "0 < n" and "n \<le> length rows"
  shows "filter (\<lambda>(k, v). fst (rows ! (n - 1)) < k) rows = drop n rows"
proof -
  let ?c = "fst (rows ! (n - 1))"
  have sorted: "sorted_wrt (<) (map fst rows)" using assms(1) by (simp add: bm_wf_def)
  have le: "fst e \<le> ?c" if e: "e \<in> set (take n rows)" for e
  proof -
    obtain i where i: "i < n" "e = rows ! i" using e assms(3) by (auto simp add: in_set_conv_nth)
    show ?thesis
    proof (cases "i = n - 1")
      case False
      then have "i < n - 1" "n - 1 < length rows" using i(1) assms(2,3) by auto
      then show ?thesis using sorted_wrt_nth_less [OF sorted, of i "n - 1"] i(2) by auto
    qed (use i in simp)
  qed
  have gt: "?c < fst e" if e: "e \<in> set (drop n rows)" for e
  proof -
    obtain j where "j < length (drop n rows)" "e = drop n rows ! j"
      using e by (metis in_set_conv_nth)
    then have j: "n + j < length rows" "e = rows ! (n + j)" by auto
    then show ?thesis using sorted_wrt_nth_less [OF sorted, of "n - 1" "n + j"] assms(2) by auto
  qed
  have "filter (\<lambda>(k, v). ?c < k) (take n rows) = []"
    using le by (auto simp add: filter_empty_conv case_prod_beta not_less)
  moreover have "filter (\<lambda>(k, v). ?c < k) (drop n rows) = drop n rows"
    using gt by (auto simp add: filter_id_conv)
  ultimately show ?thesis
    using filter_append [of "\<lambda>(k, v). ?c < k" "take n rows" "drop n rows"] by simp
qed

lemma collect_from:
  assumes "bm_wf rows" and "keyed rows" and "limit \<noteq> 0" and "limit \<le> 200"
    and "length rows < fuel"
    and "filter (\<lambda>(k, v). case cursor of None \<Rightarrow> True | Some a \<Rightarrow> a < k) (st_workflows s) = rows"
    and "\<forall>c. cursor = Some c \<longrightarrow> store_identity c = Inr ()"
    and "bm_wf (st_workflows s)"
  shows "collect_pages fuel codec s limit cursor = Some (Inr (map snd rows))"
  using assms
proof (induction fuel arbitrary: rows cursor)
  case (Suc fuel)
  let ?page = "page_loop codec limit rows [] 0"
  have page: "store_workflows codec s cursor limit = Inr ?page"
    using Suc.prems(3,4,6,7) by (cases cursor) (simp_all add: store_workflows_def)
  obtain n where n: "n \<le> length rows" "pg_items ?page = map snd (take n rows)"
    "pg_next ?page = None \<longrightarrow> n = length rows"
    "\<forall>c. pg_next ?page = Some c \<longrightarrow> map snd (take n rows) \<noteq> [] \<and> c = ss_workflow (last (map snd (take n rows)))"
    using page_loop_takes [OF Suc.prems(3), of rows codec "[]" 0] by auto
  show ?case
  proof (cases "pg_next ?page")
    case None
    then show ?thesis using n page by simp
  next
    case (Some c)
    then have ne: "take n rows \<noteq> []" and c: "c = ss_workflow (snd (rows ! (n - 1)))"
      using n by (auto simp add: last_map last_conv_nth min_def)
    then have pos: "0 < n" by auto
    then have "rows ! (n - 1) \<in> set rows" using n(1) by simp
    then have key: "fst (rows ! (n - 1)) = c" and id: "store_identity c = Inr ()"
      using Suc.prems(2) c by (auto simp add: keyed_def case_prod_beta)
    have drop: "filter (\<lambda>(k, v). c < k) rows = drop n rows"
      using rows_after [OF Suc.prems(1) pos n(1)] key by simp
    have "filter (\<lambda>(k, v). c < k) (st_workflows s) = filter (\<lambda>(k, v). c < k) rows"
    proof (cases cursor)
      case (Some a)
      have "a < c" using \<open>rows ! (n - 1) \<in> set rows\<close> Suc.prems(6) Some key by (auto simp add: case_prod_beta)
      have "filter (\<lambda>(k, v). c < k) rows = filter (\<lambda>e. c < fst e \<and> a < fst e) (st_workflows s)"
        using Suc.prems(6) Some by (auto simp add: case_prod_beta conj_commute)
      also have "\<dots> = filter (\<lambda>(k, v). c < k) (st_workflows s)"
        using \<open>a < c\<close> by (intro filter_cong) auto
      finally show ?thesis by simp
    qed (use Suc.prems(6) in auto)
    then have rest: "filter (\<lambda>(k, v). case Some c of None \<Rightarrow> True | Some a \<Rightarrow> a < k) (st_workflows s) = drop n rows"
      using drop by simp
    have "bm_wf (drop n rows)" using Suc.prems(1) by (simp add: bm_wf_def sorted_wrt_drop flip: drop_map)
    moreover have "keyed (drop n rows)" using Suc.prems(2) by (auto simp add: keyed_def dest: in_set_dropD)
    moreover have "length (drop n rows) < fuel" using Suc.prems(5) pos n(1) by simp
    ultimately have "collect_pages fuel codec s limit (Some c) = Some (Inr (map snd (drop n rows)))"
      using Suc.IH [of "drop n rows" "Some c"] Suc.prems(3,4,8) rest id by simp
    then show ?thesis using page Some n(2) by (simp add: map_append [symmetric] del: map_append)
  qed
qed simp

text \<open>
  C29.  Scans miss nothing.  Reading pages until there is no further cursor returns every stored
  workflow exactly once, in identity order, however pages are cut short by size, and it takes at most
  one page more than there are workflows.
\<close>

theorem paging_complete:
  assumes "bm_wf (st_workflows s)" and "keyed (st_workflows s)" and "1 \<le> limit" and "limit \<le> 200"
    and "length (st_workflows s) < fuel"
  shows "collect_pages fuel codec s limit None = Some (Inr (map snd (st_workflows s)))"
  by (rule collect_from) (use assms in \<open>auto simp add: case_prod_beta\<close>)

section \<open>A concrete store\<close>

definition sample_store_codec :: "unit store_codec" where
  "sample_store_codec = \<lparr>sc_snapshot = (\<lambda>_. Inr ''{}''), sc_receipt = (\<lambda>_. Inr ''{}''), sc_document = (\<lambda>_. Inr ''{}''),
    sc_json = (\<lambda>_. Inr ''null''), sc_command = (\<lambda>_. Inr ''{}''), sc_parse = (\<lambda>_. Inr JNull)\<rparr>"

definition sample_managed_ops :: "unit managed_ops" where
  "sample_managed_ops = \<lparr>mo_acquire = (\<lambda>_ _ m. Inr m), mo_entry = (\<lambda>_ m. Inr m), mo_terminal = (\<lambda>_ m. Inr m)\<rparr>"

definition empty_accounting :: accounting where
  "empty_accounting = \<lparr>sa_history_bytes = 0, sa_receipt_bytes = 0, sa_receipt_entries = 0, sa_reserved_bytes = 0,
    sa_reserved_receipts = 0, sa_artifact_reserved_bytes = 0, sa_pending_artifact_bytes = 0\<rparr>"

definition empty_store :: "('doc, unit) store" where
  "empty_store = \<lparr>st_workflows = [], st_receipts = [], st_action_owners = [], st_accounting = empty_accounting,
    st_watermark = None, st_managed = (), st_committed_bytes = [], st_pending_bytes = [], st_content_bytes = 0\<rparr>"

definition sample_stored :: "u64 \<Rightarrow> u32 \<Rightarrow> unit workflow_snapshot" where
  "sample_stored generation slots = \<lparr>ss_workflow = ''w'', ss_generation = generation, ss_title = ''t'',
    ss_description = [], ss_owner_actor = ''ai'', ss_updated_at = 7, ss_document = (), ss_entered_invocations = [],
    ss_managed_executions = [], ss_artifact_capacity = 2097152, ss_reserved_bytes = 600, ss_reserved_receipts = slots\<rparr>"

definition sample_command :: "string \<Rightarrow> command_acceptance" where
  "sample_command key = \<lparr>cm_actor = ''ai'', cm_key = key, cm_reserved_action = None,
    cm_canonical_request = ''null'', cm_result = JNull\<rparr>"

definition sample_commit :: "unit workflow_commit" where
  "sample_commit = \<lparr>wc_expected_generation = None, wc_snapshot = sample_stored 1 1,
    wc_command = Some (sample_command ''k1'')\<rparr>"

definition no_faults :: commit_faults where
  "no_faults = \<lparr>cf_before = None, cf_after = None\<rparr>"

definition sample_store :: "(unit, unit) store" where
  "sample_store = empty_store\<lparr>st_workflows := [(''w'', sample_stored 1 1)],
    st_receipts := [(''2:aik1'', \<lparr>rc_workflow = ''w'', rc_generation = 1, rc_acceptance = sample_command ''k1''\<rparr>)],
    st_accounting := empty_accounting\<lparr>sa_history_bytes := 2, sa_receipt_bytes := 2, sa_receipt_entries := 1,
      sa_reserved_bytes := 600, sa_reserved_receipts := 1, sa_artifact_reserved_bytes := 2097152\<rparr>,
    st_watermark := Some 7\<rparr>"

lemmas store_samples = sample_store_codec_def sample_managed_ops_def empty_accounting_def empty_store_def
  sample_stored_def sample_command_def sample_commit_def no_faults_def sample_store_def

lemmas store_eval = commit_workflow_def commit_key_def receipt_key_def store_identity_def text_eval
  replay_receipt_def prepare_commit_def validate_commit_def validate_command_def serde_bytes_def Let_def
  require_clock_def observe_clock_def require_generation_def opt_all_def opt_any_def reserve_action_def
  encoded_length_def store_encode_def document_limit_def apply_task_resources_def workflow_output_bytes_def
  add_bytes_def replace_bytes_def charge_commit_def old_or_zero_def require_history_capacity_def
  require_receipt_capacity_def fault_check_def receipt_of_def checked_add_def checked_sub_def checked_mul_def
  saturating_sub_def default_storage_limits_def MAX_WORKFLOW_REQUEST_BYTES_def MAX_RECEIPT_RESULT_BYTES_def
  MAX_WORKFLOW_DOCUMENT_BYTES_def MAX_INTERNAL_DOCUMENT_BYTES_def ACTION_RECEIPT_BYTES_def bs_of_list_def
  dec.simps char_of_def bit_0

lemma sample_commit_applied:
  "commit_workflow sample_store_codec sample_managed_ops default_storage_limits (Inr 7) no_faults sample_commit empty_store
    = (Inr (Applied (Some \<lparr>rc_workflow = ''w'', rc_generation = 1, rc_acceptance = sample_command ''k1''\<rparr>)), sample_store)"
  by (simp add: store_samples store_eval)

theorem commit_compare_and_swap_witness:
  "store_workflow sample_store = (store_workflow empty_store)(''w'' \<mapsto> sample_stored 1 1)
    \<and> unat (ss_generation (sample_stored 1 1)) = 1"
  using commit_compare_and_swap [OF sample_commit_applied]
  by (simp add: empty_store_def sample_commit_def sample_stored_def)

theorem no_lost_update_witness:
  "\<nexists>b s3. commit_workflow sample_store_codec sample_managed_ops default_storage_limits (Inr 9) no_faults
      (sample_commit\<lparr>wc_command := None\<rparr>) sample_store = (Inr (Applied b), s3)"
  by (rule no_lost_update [OF _ sample_commit_applied rtranclp.rtrancl_refl])
    (simp_all add: empty_store_def sample_commit_def)

theorem command_accepted_once_witness:
  "\<exists>receipt. commit_workflow sample_store_codec sample_managed_ops default_storage_limits (Inr 9) no_faults
      sample_commit sample_store = (Inr (Replay receipt), sample_store)"
proof -
  have "\<exists>receipt. receipt_of sample_commit = Some receipt \<and> rc_acceptance receipt = sample_command ''k1''
    \<and> commit_workflow sample_store_codec sample_managed_ops default_storage_limits (Inr 9) no_faults sample_commit sample_store =
      (if cm_canonical_request (sample_command ''k1'') = cm_canonical_request (sample_command ''k1'') then Inr (Replay receipt)
       else Inl (WorkflowIdempotencyConflict (cm_actor (sample_command ''k1'')) (cm_key (sample_command ''k1''))), sample_store)"
    by (rule command_accepted_once [OF sample_commit_applied _ _ _ store_reaches.here])
      (simp_all add: store_samples)
  then show ?thesis by auto
qed

theorem commit_keeps_accounting_witness: "accounted sample_store_codec sample_store"
  by (rule commit_keeps_accounting [OF _ sample_commit_applied]) (simp add: accounted_def store_samples)


theorem stop_receipt_protected_witness:
  "\<exists>a'. charge_commit (st_accounting sample_store) (Some (sample_stored 1 1)) 2 (sample_stored 2 0) 2 (Some 8192) 0 = Inr a'
    \<and> require_receipt_capacity a' (default_storage_limits\<lparr>sl_receipt_entries := 2\<rparr>) = Inr ()"
proof -
  have "\<exists>a'. charge_commit (st_accounting sample_store) (Some (sample_stored 1 1)) 2 (sample_stored 2 0) 2 (Some 8192) 0 = Inr a'"
    by (simp add: store_samples store_eval)
  then obtain a' where a': "charge_commit (st_accounting sample_store) (Some (sample_stored 1 1)) 2 (sample_stored 2 0) 2 (Some 8192) 0 = Inr a'"
    by blast
  have "require_receipt_capacity a' (default_storage_limits\<lparr>sl_receipt_entries := 2\<rparr>) = Inr ()"
    by (rule stop_receipt_protected [OF _ a']) (simp_all add: store_samples store_eval)
  with a' show ?thesis by blast
qed

theorem receipt_key_injective_witness:
  "\<exists>k. receipt_key ''a'' ''bc'' = Inr k \<and> receipt_key ''ab'' ''c'' \<noteq> Inr k"
proof -
  have "\<exists>k. receipt_key ''a'' ''bc'' = Inr k" by (simp add: receipt_key_def store_identity_def text_eval)
  then obtain k where k: "receipt_key ''a'' ''bc'' = Inr k" ..
  then show ?thesis using receipt_key_injective [OF k, of "''ab''" "''c''"] by auto
qed

theorem paging_complete_witness:
  "collect_pages 2 sample_store_codec sample_store 1 None = Some (Inr [sample_stored 1 1])"
  using paging_complete [of sample_store 1 2 sample_store_codec]
  by (simp add: store_samples keyed_def store_identity_def text_eval)

end
