(* ===== verification/Artifacts.thy ===== *)
theory Artifacts
  imports Ports Workspace
begin

text \<open>
  The artifact port of \<^verbatim>\<open>crates/persistence/src/artifact.rs\<close>: requests to begin a publication
  and their accounting transition, outcomes, bounded read requests, the default-deny read rule and the
  cleanup cursor.  The lemmas show that a request built by a constructor passes the port's own
  validation, that its resulting usage is exactly the budget charge, and that a read of content that
  is not public needs an explicit authority.
\<close>

section \<open>Publication requests\<close>

record begin_publication =
  bp_publication :: string
  bp_owner :: artifact_owner
  bp_metadata :: artifact_metadata
  bp_budget :: workspace_budget
  bp_expected_usage :: workspace_usage
  bp_resulting_usage :: workspace_usage
  bp_task_output_limit :: "u64 option"

definition charge_result :: "workspace_error + 'a \<Rightarrow> persistence_error + 'a" where
  "charge_result r = map_err (\<lambda>e. InvalidDocument (workspace_display e)) r"

definition producer_matches :: "artifact_owner \<Rightarrow> causal_reference \<Rightarrow> persistence_error + unit" where
  "producer_matches owner producer = (case owner of
      PeerInput host peer \<Rightarrow>
        ensure (case producer of PeerClaim source _ \<Rightarrow> source = peer | _ \<Rightarrow> False)
          (InvalidDocument ''peer input must retain its authenticated source claim'')
    | ClientInput host client \<Rightarrow>
        ensure (case producer of ClientUpload h c _ \<Rightarrow> host = h \<and> client = c | _ \<Rightarrow> False)
          (InvalidDocument ''client input producer differs from its authenticated owner'')
    | HostInvocationOwner host invocation \<Rightarrow>
        ensure (producer = CausalHostInvocation host invocation)
          (InvalidDocument ''serving artifact producer differs from its invocation owner'')
    | _ \<Rightarrow> Inr ())"

definition publication_validate :: "begin_publication \<Rightarrow> persistence_error + unit" where
  "publication_validate r =
    res_bind (producer_matches (bp_owner r) (ap_producer (am_provenance (bp_metadata r)))) (\<lambda>_.
    res_bind (charge_result (validate_usage (bp_budget r) (bp_expected_usage r))) (\<lambda>_.
    res_bind (charge_result (admit_artifact (bp_budget r) (bp_expected_usage r) (bp_metadata r))) (\<lambda>usage.
    ensure (usage = bp_resulting_usage r)
      (InvalidDocument ''artifact resulting usage does not match its budget charge''))))"

definition publication_request ::
  "string \<Rightarrow> artifact_owner \<Rightarrow> artifact_metadata \<Rightarrow> workspace_budget \<Rightarrow> workspace_usage
    \<Rightarrow> persistence_error + begin_publication" where
  "publication_request publication owner metadata budget expected =
    res_bind (charge_result (admit_artifact budget expected metadata)) (\<lambda>resulting.
    Inr \<lparr>bp_publication = publication, bp_owner = owner, bp_metadata = metadata, bp_budget = budget,
      bp_expected_usage = expected, bp_resulting_usage = resulting, bp_task_output_limit = None\<rparr>)"

definition publication_for_run ::
  "string \<Rightarrow> run_id \<Rightarrow> artifact_metadata \<Rightarrow> workspace_budget \<Rightarrow> workspace_usage
    \<Rightarrow> persistence_error + begin_publication" where
  "publication_for_run publication run metadata budget expected =
    publication_request publication (WorkflowOwner run) metadata budget expected"

text \<open>\<^verbatim>\<open>for_peer_input\<close>, \<^verbatim>\<open>for_client_input\<close>, \<^verbatim>\<open>for_host_invocation\<close> and \<^verbatim>\<open>for_transfer\<close> differ in the owner only.\<close>

definition publication_for_owner ::
  "string \<Rightarrow> artifact_owner \<Rightarrow> artifact_metadata \<Rightarrow> workspace_budget \<Rightarrow> workspace_usage
    \<Rightarrow> persistence_error + begin_publication" where
  "publication_for_owner publication owner metadata budget expected =
    res_bind (publication_request publication owner metadata budget expected) (\<lambda>r.
    res_bind (publication_validate r) (\<lambda>_. Inr r))"

definition with_task_output_limit :: "u64 \<Rightarrow> begin_publication \<Rightarrow> persistence_error + begin_publication" where
  "with_task_output_limit bytes r =
    (if bytes = 0 \<or> owner_run (bp_owner r) = None
       \<or> \<not> (case ap_producer (am_provenance (bp_metadata r)) of CausalInvocation _ \<Rightarrow> True | _ \<Rightarrow> False)
     then Inl (InvalidDocument ''task output allowance requires a workflow invocation producer'')
     else Inr (r\<lparr>bp_task_output_limit := Some bytes\<rparr>))"


section \<open>Outcomes\<close>

datatype begin_outcome = WritableSession | ResumedSession u64 | AlreadyCommitted artifact_metadata

record write_progress =
  wp_bytes_received :: u64
  wp_complete_size :: bool

datatype commit_artifact_outcome =
    ArtifactPublished artifact_metadata bool workspace_usage
  | ArtifactReplayed artifact_metadata workspace_usage


section \<open>Reads\<close>

definition MAX_ARTIFACT_CHUNK_BYTES :: nat where "MAX_ARTIFACT_CHUNK_BYTES = 1048576"

datatype read_authority = PublicOnly | Authorized actor_ref string

record read_request =
  rr_reference :: ws_artifact
  rr_offset :: u64
  rr_maximum_bytes :: u32
  rr_authority :: read_authority

definition read_validate :: "read_request \<Rightarrow> persistence_error + unit" where
  "read_validate r =
    (if rr_maximum_bytes r = 0 \<or> MAX_ARTIFACT_CHUNK_BYTES < unat (rr_maximum_bytes r)
     then Inl (StoreBounds ''artifact.read.maximum_bytes''
       (''must be between 1 and '' @ dec MAX_ARTIFACT_CHUNK_BYTES))
     else if wa_size_bytes (rr_reference r) < rr_offset r
     then Inl (StoreBounds ''artifact.read.offset'' ''offset is beyond exact artifact size'')
     else Inr ())"

definition read_request_new ::
  "ws_artifact \<Rightarrow> u64 \<Rightarrow> u32 \<Rightarrow> read_authority \<Rightarrow> persistence_error + read_request" where
  "read_request_new reference offset maximum_bytes authority =
    (let r = \<lparr>rr_reference = reference, rr_offset = offset, rr_maximum_bytes = maximum_bytes,
        rr_authority = authority\<rparr> in
    res_bind (read_validate r) (\<lambda>_. Inr r))"

record read_chunk =
  ch_offset :: u64
  ch_bytes :: string
  ch_end_of_artifact :: bool

definition authorize_artifact_read :: "artifact_sensitivity \<Rightarrow> read_authority \<Rightarrow> persistence_error + unit" where
  "authorize_artifact_read sensitivity authority =
    ensure (permits_unauthorized_export sensitivity \<or> (case authority of Authorized _ _ \<Rightarrow> True | PublicOnly \<Rightarrow> False))
      (ArtifactAccessDenied ''explicit authority is required to read non-public artifact content'')"


section \<open>Cleanup\<close>

definition MAX_ORPHAN_CLEANUP_CURSOR_KEY_BYTES :: nat where "MAX_ORPHAN_CLEANUP_CURSOR_KEY_BYTES = 512"

datatype cleanup_family = WritablePublications | TemporaryFiles | ContentFiles

record cleanup_cursor =
  cc_family :: cleanup_family
  cc_after_key :: string
  cc_created_before :: timestamp

definition cleanup_cursor_new :: "cleanup_family \<Rightarrow> string \<Rightarrow> timestamp \<Rightarrow> persistence_error + cleanup_cursor" where
  "cleanup_cursor_new family after_key created_before =
    (if after_key = [] \<or> MAX_ORPHAN_CLEANUP_CURSOR_KEY_BYTES < length after_key
     then Inl (InvalidCursor (''orphan-cleanup cursor key must contain 1..=''
       @ dec MAX_ORPHAN_CLEANUP_CURSOR_KEY_BYTES @ '' bytes''))
     else Inr \<lparr>cc_family = family, cc_after_key = after_key, cc_created_before = created_before\<rparr>)"


section \<open>What a request guarantees\<close>

lemma charge_result_Inr [res_simps]: "charge_result r = Inr x \<longleftrightarrow> r = Inr x"
  by (cases r) (simp_all add: charge_result_def)

lemma publication_validate_ok:
  "publication_validate r = Inr () \<longleftrightarrow> producer_matches (bp_owner r) (ap_producer (am_provenance (bp_metadata r))) = Inr ()
    \<and> admit_artifact (bp_budget r) (bp_expected_usage r) (bp_metadata r) = Inr (bp_resulting_usage r)"
  by (auto simp add: publication_validate_def res_simps admit_artifact_def admit_artifact_reference_def)

lemma publication_request_valid:
  assumes "publication_for_owner publication owner metadata budget expected = Inr r
    \<or> publication_for_run publication run metadata budget expected = Inr r \<and> owner = WorkflowOwner run"
  shows "publication_validate r = Inr () \<and> bp_owner r = owner \<and> bp_metadata r = metadata"
  using assms
  by (auto simp add: publication_for_owner_def publication_for_run_def publication_request_def res_simps
      publication_validate_ok producer_matches_def)

lemma output_limit_valid:
  assumes "with_task_output_limit bytes r = Inr r'" and "publication_validate r = Inr ()"
  shows "publication_validate r' = Inr () \<and> bp_task_output_limit r' = Some bytes"
  using assms by (auto simp add: with_task_output_limit_def publication_validate_ok split: if_splits)

lemma authorize_artifact_read_ok:
  "authorize_artifact_read sensitivity authority = Inr () \<longleftrightarrow> sensitivity = Public \<or> authority \<noteq> PublicOnly"
  by (cases authority) (simp_all add: authorize_artifact_read_def permits_unauthorized_export_def res_simps)

end
