(* ===== verification/Runtime.thy ===== *)
theory Runtime
  imports Actions Messages ModelTask Policy Account Inputs Store Artifacts
begin

text \<open>
  The task runtime of \<^verbatim>\<open>crates/runtime/src/tasks.rs\<close> over its ports: reading a workflow, the
  save that commits every transition, the advance to the next generation, and the count of active
  starts (with \<^verbatim>\<open>observe_duration\<close> of \<^verbatim>\<open>tasks/duration.rs\<close>).  The executor, the
  authority evaluator, the clocks, storage faults and \<^verbatim>\<open>serde_json\<close> are fields of
  \<^verbatim>\<open>ports\<close>; the runtime's state keeps the calls it made of them, latest first, and what a
  call returns may depend on all earlier ones.  A method that holds the transition gate is one
  action; a poisoned lock is not modelled.
\<close>

section \<open>Ports and state\<close>

text \<open>What an entered adapter does with its reporter.\<close>

datatype adapter_call = ReportCall invocation_event | HeartbeatCall

datatype external_call =
    ReadCall
  | CommitCall
  | ClockCall
  | EvaluateCall authority_request
  | ResolveCall capability_requirement resolution_context u64
  | PrepareCall execution_dispatch
  | EnterCall execution_dispatch
  | CancelCall cancellation_request
  | SettleCall execution_dispatch
  | MetadataCall string
  | ChunkCall read_request

type_synonym trace = "external_call list"

record ('doc, 'm) ports =
  po_store_codec :: "'doc store_codec"
  po_managed :: "'m managed_ops"
  po_storage_limits :: workflow_storage_limits
  po_codec :: runtime_codec
  po_to_value :: "workflow_record \<Rightarrow> json_error + 'doc"
  po_from_value :: "'doc \<Rightarrow> json_error + workflow_record"
  po_blake3 :: "string \<Rightarrow> string"
  po_payload_digest :: "resolved_snapshot \<Rightarrow> contract_error + string"
  po_authority_codec :: authority_codec
  po_extensions :: "extensions encoder"
  po_model_document :: "model_task_request \<Rightarrow> json_error + json"
  po_create_value :: "workflow_create \<Rightarrow> json_error + json"
  po_batch_value :: "task_batch \<Rightarrow> json_error + json"
  po_parse :: "string \<Rightarrow> json_error + json"
  po_outputs_value :: "(string, task_output_declaration) bmap \<Rightarrow> json"
  po_limits_value :: "workflow_limits \<Rightarrow> json"
  po_definition_value :: "task_definition \<Rightarrow> json"
  po_render :: "json \<Rightarrow> string"
  po_quoted :: "string \<Rightarrow> string"
  po_failure_debug :: "invocation_failure \<Rightarrow> string"
  po_read :: "trace \<Rightarrow> persistence_error + unit"
  po_store_clock :: "trace \<Rightarrow> persistence_error + timestamp"
  po_faults :: "trace \<Rightarrow> commit_faults"
  po_clock :: "trace \<Rightarrow> runtime_error + timestamp"
  po_evaluate :: "trace \<Rightarrow> authority_request \<Rightarrow> authority_error + authority_decision"
  po_resolve :: "trace \<Rightarrow> capability_requirement \<Rightarrow> resolution_context \<Rightarrow> u64 \<Rightarrow> executor_error + resolved_capability"
  po_prepare :: "trace \<Rightarrow> execution_dispatch \<Rightarrow> executor_error + prepared_execution"
  po_enter :: "trace \<Rightarrow> execution_dispatch \<Rightarrow> adapter_call list \<times> (executor_error + unit)"
  po_cancel :: "trace \<Rightarrow> cancellation_request \<Rightarrow> executor_error + cancellation_acknowledgement"
  po_settle :: "trace \<Rightarrow> execution_dispatch \<Rightarrow> executor_error + unit"

record ('doc, 'm) runtime =
  rt_store :: "('doc, 'm) store"
  rt_ids :: id_generator
  rt_cursor :: "string option"
  rt_cancellation_cursor :: "string option"
  rt_maximum_active_tasks :: u32
  rt_active_tasks :: "u64 option"
  rt_executing :: "invocation_id bset"
  rt_admission_closed :: bool
  rt_calls :: trace

type_synonym ('doc, 'm, 'a) act = "(('doc, 'm) runtime, runtime_error, 'a) action"

definition runtime_new :: "('doc, 'm) store \<Rightarrow> id_generator \<Rightarrow> ('doc, 'm) runtime" where
  "runtime_new store ids = \<lparr>rt_store = store, rt_ids = ids, rt_cursor = None, rt_cancellation_cursor = None,
    rt_maximum_active_tasks = 32, rt_active_tasks = None, rt_executing = [], rt_admission_closed = False,
    rt_calls = []\<rparr>"

definition with_maximum_active_tasks ::
  "u32 \<Rightarrow> ('doc, 'm) runtime \<Rightarrow> runtime_error + ('doc, 'm) runtime" where
  "with_maximum_active_tasks maximum rt =
    (if maximum = 0 \<or> 65536 < maximum
     then Inl (Scheduling ''global task concurrency must be 1..=65,536'')
     else Inr (rt\<lparr>rt_maximum_active_tasks := maximum\<rparr>))"

definition begin_shutdown :: "('doc, 'm, unit) act" where
  "begin_shutdown = act_update (\<lambda>rt. rt\<lparr>rt_admission_closed := True\<rparr>)"

definition is_closed :: "('doc, 'm, bool) act" where
  "is_closed = act_get rt_admission_closed"

text \<open>One call of a port: its result, and the call recorded.\<close>

definition act_call ::
  "external_call \<Rightarrow> (trace \<Rightarrow> 'e + 'a) \<Rightarrow> ('e \<Rightarrow> 'f) \<Rightarrow> (('doc, 'm) runtime, 'f, 'a) action" where
  "act_call c f err = (\<lambda>rt. (map_err err (f (rt_calls rt)), rt\<lparr>rt_calls := c # rt_calls rt\<rparr>))"

text \<open>One call whose failure the caller matches on.\<close>

definition act_try_call :: "external_call \<Rightarrow> (trace \<Rightarrow> 'e + 'a) \<Rightarrow> ('doc, 'm, 'e + 'a) act" where
  "act_try_call c f = (\<lambda>rt. (Inr (f (rt_calls rt)), rt\<lparr>rt_calls := c # rt_calls rt\<rparr>))"

definition clock_now :: "('doc, 'm) ports \<Rightarrow> ('doc, 'm, timestamp) act" where
  "clock_now p = act_call ClockCall (po_clock p) (\<lambda>e. e)"

definition evaluate_now :: "('doc, 'm) ports \<Rightarrow> authority_request \<Rightarrow> ('doc, 'm, authority_decision) act" where
  "evaluate_now p q = act_call (EvaluateCall q) (\<lambda>calls. po_evaluate p calls q) RtAuthority"

definition settle_now :: "('doc, 'm) ports \<Rightarrow> execution_dispatch \<Rightarrow> ('doc, 'm, unit) act" where
  "settle_now p x = act_call (SettleCall x) (\<lambda>calls. po_settle p calls x) RtExecutor"

definition resolve_now ::
  "('doc, 'm) ports \<Rightarrow> capability_requirement \<Rightarrow> resolution_context \<Rightarrow> timestamp
    \<Rightarrow> ('doc, 'm, resolved_capability) act" where
  "resolve_now p requirement context now =
    act_call (ResolveCall requirement context now) (\<lambda>calls. po_resolve p calls requirement context now) RtExecutor"

definition next_id :: "string \<Rightarrow> ('doc, 'm, string) act" where
  "next_id kind = (\<lambda>rt. case sequential_next kind (rt_ids rt) of (r, g) \<Rightarrow> (r, rt\<lparr>rt_ids := g\<rparr>))"

text \<open>A read of the store, after whatever failure of its backing file.\<close>

definition store_read :: "('doc, 'm) ports \<Rightarrow> (('doc, 'm) store \<Rightarrow> persistence_error + 'a) \<Rightarrow> ('doc, 'm, 'a) act" where
  "store_read p f = act_bind (act_call ReadCall (po_read p) RtPersistence) (\<lambda>_.
    act_bind (act_get rt_store) (\<lambda>s. act_lift (map_err RtPersistence (f s))))"


section \<open>Reading and saving\<close>

definition ENVELOPE_DIFFERS :: string where
  "ENVELOPE_DIFFERS = ''task workflow envelope differs from its durable document''"

definition read_snapshot ::
  "('doc, 'm) ports \<Rightarrow> 'doc workflow_snapshot \<Rightarrow> runtime_error + workflow_record" where
  "read_snapshot p snap =
    res_bind (map_err RtJson (po_from_value p (ss_document snap))) (\<lambda>w.
    res_bind (read_version w) (\<lambda>_.
    res_bind (ensure (wr_id w = ss_workflow snap \<and> wr_generation w = ss_generation snap
        \<and> wr_owner_actor w = ss_owner_actor snap \<and> wr_title w = ss_title snap
        \<and> wr_description w = ss_description snap \<and> wr_updated_at w = ss_updated_at snap
        \<and> entered_invocations w = ss_entered_invocations snap
        \<and> managed_executions w = ss_managed_executions snap)
      (InvalidHistory ENVELOPE_DIFFERS)) (\<lambda>_.
    Inr w)))"

definition workflow :: "('doc, 'm) ports \<Rightarrow> workflow_id \<Rightarrow> ('doc, 'm, workflow_record option) act" where
  "workflow p i =
    act_bind (store_read p (\<lambda>s. Inr (store_workflow s i))) (\<lambda>found.
    act_lift (case found of None \<Rightarrow> Inr None | Some snap \<Rightarrow> res_map Some (read_snapshot p snap)))"

definition require_workflow :: "('doc, 'm) ports \<Rightarrow> workflow_id \<Rightarrow> ('doc, 'm, workflow_record) act" where
  "require_workflow p i =
    act_bind (workflow p i) (\<lambda>found.
    act_lift (ok_or (InvalidCommand ''workflow does not exist'') found))"

definition pending_tasks :: "workflow_record \<Rightarrow> nat" where
  "pending_tasks w = length (filter (\<lambda>t. \<not> is_settled (tk_state t)) (task_list w))"

definition stoppable :: "task_record \<Rightarrow> bool" where
  "stoppable t \<longleftrightarrow> \<not> is_settled (tk_state t) \<and> \<not> tk_stop_requested t"

definition reserved_receipts :: "workflow_record \<Rightarrow> runtime_error + u32" where
  "reserved_receipts w = ok_or (InvalidTransition ''task control reservation overflow'')
    (try_from_usize (length (filter stoppable (task_list w))))"

definition artifact_capacity :: "workflow_record \<Rightarrow> runtime_error + u64" where
  "artifact_capacity w = (if pending_tasks w = 0 then Inr 0
    else ok_or (InvalidTransition ''artifact reservation overflow'')
      (checked_mul (ucast (wr_admitted_tasks w)) TASK_OUTPUT_BYTES))"

definition snapshot_of ::
  "workflow_record \<Rightarrow> 'doc \<Rightarrow> u64 \<Rightarrow> u32 \<Rightarrow> u64 \<Rightarrow> 'doc workflow_snapshot" where
  "snapshot_of w document reserved receipts artifacts = \<lparr>ss_workflow = wr_id w, ss_generation = wr_generation w,
    ss_title = wr_title w, ss_description = wr_description w, ss_owner_actor = wr_owner_actor w,
    ss_updated_at = wr_updated_at w, ss_document = document,
    ss_entered_invocations = entered_invocations w, ss_managed_executions = managed_executions w,
    ss_artifact_capacity = artifacts, ss_reserved_bytes = reserved, ss_reserved_receipts = receipts\<rparr>"

definition document_fits :: "u64 \<Rightarrow> u64 \<Rightarrow> bool" where
  "document_fits document reserved \<longleftrightarrow>
    opt_any (\<lambda>bytes. bytes \<le> of_nat MAX_WORKFLOW_DOCUMENT_BYTES) (checked_add document reserved)"

text \<open>The occupancy after a save, when the count is cached.\<close>

definition next_active ::
  "('doc, 'm) ports \<Rightarrow> workflow_record \<Rightarrow> u64 option \<Rightarrow> ('doc, 'm, u64 option) act" where
  "next_active p w active = (case active of
      None \<Rightarrow> act_return None
    | Some count \<Rightarrow>
        act_bind (workflow p (wr_id w)) (\<lambda>found.
        act_bind (act_lift (case found of None \<Rightarrow> Inr 0 | Some v \<Rightarrow> active_starts v)) (\<lambda>prior.
        act_lift (ok_or (Scheduling ''global task occupancy contradicts durable starts'')
          (Option.bind (checked_sub count prior) (\<lambda>rest.
           case active_starts w of Inl _ \<Rightarrow> None | Inr n \<Rightarrow> map_option Some (checked_add rest n)))))))"

definition commit_now :: "('doc, 'm) ports \<Rightarrow> 'doc workflow_commit \<Rightarrow> ('doc, 'm, commit_outcome) act" where
  "commit_now p c = (\<lambda>rt.
    case commit_in (po_store_codec p) (po_managed p) (po_storage_limits p)
        (po_store_clock p (rt_calls rt), po_faults p (rt_calls rt)) c (rt_store rt) of
      (r, s) \<Rightarrow> (map_err RtPersistence r, rt\<lparr>rt_store := s, rt_calls := CommitCall # rt_calls rt\<rparr>))"

definition is_applied :: "commit_outcome \<Rightarrow> bool" where
  "is_applied r \<longleftrightarrow> (case r of Applied _ \<Rightarrow> True | Replay _ \<Rightarrow> False)"

definition save ::
  "('doc, 'm) ports \<Rightarrow> workflow_record \<Rightarrow> u64 option \<Rightarrow> command_acceptance option \<Rightarrow> ('doc, 'm, commit_outcome) act" where
  "save p w expected command =
    act_bind (act_lift (remaining_bytes (po_codec p) w)) (\<lambda>reserved.
    act_bind (act_lift (map_err RtJson (po_to_value p w))) (\<lambda>document.
    act_bind (act_lift (encoded_u64 (sc_document (po_store_codec p)) document)) (\<lambda>bytes.
    act_bind (act_ensure (document_fits bytes reserved) (InvalidTransition
      (''workflow document cannot reserve its remaining start, observation and settlement records''))) (\<lambda>_.
    act_bind (act_lift (reserved_receipts w)) (\<lambda>receipts.
    act_bind (act_get rt_active_tasks) (\<lambda>active.
    act_bind (next_active p w active) (\<lambda>next.
    act_bind (act_lift (artifact_capacity w)) (\<lambda>artifacts.
    act_bind (commit_now p \<lparr>wc_expected_generation = expected,
      wc_snapshot = snapshot_of w document reserved receipts artifacts, wc_command = command\<rparr>) (\<lambda>outcome.
    act_bind (act_update (\<lambda>rt. if is_applied outcome then rt\<lparr>rt_active_tasks := next\<rparr> else rt)) (\<lambda>_.
    act_return outcome))))))))))"

text \<open>The record half of \<^verbatim>\<open>advance\<close>, at the time its clock returned.\<close>

definition advanced :: "timestamp \<Rightarrow> workflow_record \<Rightarrow> runtime_error + workflow_record" where
  "advanced now w =
    res_bind (request_policy_stop (w\<lparr>wr_updated_at := now\<rparr>)) (\<lambda>(w', _).
    Inr (update_workflow_state w'))"

definition advance :: "('doc, 'm) ports \<Rightarrow> workflow_record \<Rightarrow> ('doc, 'm, u64 \<times> workflow_record) act" where
  "advance p w =
    act_bind (act_lift (ok_or (InvalidTransition ''workflow generation exhausted'')
      (checked_add (wr_generation w) 1))) (\<lambda>generation.
    act_bind (clock_now p) (\<lambda>now.
    act_bind (act_lift (advanced now (w\<lparr>wr_generation := generation\<rparr>))) (\<lambda>w'.
    act_return (wr_generation w, w'))))"

text \<open>The pair of calls that ends nearly every transition.\<close>

definition advance_save :: "('doc, 'm) ports \<Rightarrow> workflow_record \<Rightarrow> ('doc, 'm, workflow_record) act" where
  "advance_save p w =
    act_bind (advance p w) (\<lambda>(expected, w').
    act_bind (save p w' (Some expected) None) (\<lambda>_. act_return w'))"

definition observe_duration ::
  "('doc, 'm) ports \<Rightarrow> workflow_record \<Rightarrow> timestamp \<Rightarrow> ('doc, 'm, workflow_record) act" where
  "observe_duration p w now =
    act_bind (act_lift (accrue w now)) (\<lambda>(w', changed).
    case request_duration_stop w' of (w'', stopped) \<Rightarrow>
      if stopped \<or> changed then advance_save p w'' else act_return w'')"


section \<open>Counting active starts\<close>

definition count_page ::
  "('doc, 'm) ports \<Rightarrow> 'doc workflow_snapshot list \<Rightarrow> u64 \<Rightarrow> ('doc, 'm, u64) act" where
  "count_page p = act_fold (\<lambda>snap count.
    act_bind (require_workflow p (ss_workflow snap)) (\<lambda>w.
    act_bind (act_lift (active_starts w)) (\<lambda>n.
    act_lift (ok_or (Scheduling ''global task occupancy overflow'') (checked_add count n)))))"

text \<open>
  The scan's loop.  Every page ends with a later cursor, so it visits at most one page more than
  there are workflows; the fuel of \<^verbatim>\<open>active_task_count\<close> is that bound, and the theory
  Scans shows that it is never used up.
\<close>

definition SCAN_FUEL_EXHAUSTED :: runtime_error where
  "SCAN_FUEL_EXHAUSTED = Scheduling ''scan bound exceeded''"

primrec count_pages ::
  "nat \<Rightarrow> ('doc, 'm) ports \<Rightarrow> string option \<Rightarrow> u64 \<Rightarrow> ('doc, 'm, u64) act" where
  "count_pages 0 p cursor count = act_fail SCAN_FUEL_EXHAUSTED"
| "count_pages (Suc fuel) p cursor count =
    act_bind (store_read p (\<lambda>s. store_workflows (po_store_codec p) s cursor 200)) (\<lambda>page.
    act_bind (count_page p (pg_items page) count) (\<lambda>count'.
    case pg_next page of
      None \<Rightarrow> act_return count'
    | Some cursor' \<Rightarrow> count_pages fuel p (Some cursor') count'))"

definition active_task_count :: "('doc, 'm) ports \<Rightarrow> ('doc, 'm, u64) act" where
  "active_task_count p =
    act_bind (act_get rt_active_tasks) (\<lambda>active. case active of
      Some count \<Rightarrow> act_return count
    | None \<Rightarrow>
        act_bind (act_get (\<lambda>rt. Suc (length (st_workflows (rt_store rt))))) (\<lambda>fuel.
        act_bind (count_pages fuel p None 0) (\<lambda>count.
        act_bind (act_update (\<lambda>rt. rt\<lparr>rt_active_tasks := Some count\<rparr>)) (\<lambda>_.
        act_return count))))"

end
