(* ===== verification/Evolution.thy ===== *)
theory Evolution
  imports Runtime "HOL-Library.Sublist"
begin

text \<open>
  What every transition of the task runtime keeps.  \<^verbatim>\<open>record_ok\<close> is the invariant of a durable
  workflow record; \<^verbatim>\<open>workflow_evolves\<close> is what may differ between an earlier and a later record
  of one workflow: counters and ledgers only grow, no task disappears, an accepted start keeps its
  definition, inputs and dispatch, an entered one also its authorization, reports are only appended,
  and a settled task is final.  The triples at the end carry both from the record a handler read to
  the one it commits; the handlers' theories rest on them.
\<close>

section \<open>What may change in a record\<close>

definition opt_keeps :: "('a \<Rightarrow> 'b \<Rightarrow> bool) \<Rightarrow> 'a option \<Rightarrow> 'b option \<Rightarrow> bool" where
  "opt_keeps R a b \<longleftrightarrow> (\<forall>x. a = Some x \<longrightarrow> (\<exists>y. b = Some y \<and> R x y))"

lemma opt_keeps_simps [simp]:
  "opt_keeps R None b" "opt_keeps R (Some x) (Some y) \<longleftrightarrow> R x y" "\<not> opt_keeps R (Some x) None"
  by (simp_all add: opt_keeps_def)

lemma opt_keeps_refl: "(\<And>x. R x x) \<Longrightarrow> opt_keeps R a a"
  by (cases a) simp_all

lemma opt_keeps_trans:
  "(\<And>x y z. R x y \<Longrightarrow> R y z \<Longrightarrow> R x z) \<Longrightarrow> opt_keeps R a b \<Longrightarrow> opt_keeps R b c \<Longrightarrow> opt_keeps R a c"
  unfolding opt_keeps_def by metis

definition duration_evolves :: "execution_duration \<Rightarrow> execution_duration \<Rightarrow> bool" where
  "duration_evolves d d' \<longleftrightarrow> du_started_at d' = du_started_at d \<and> du_maximum_ms d' = du_maximum_ms d
    \<and> du_accounted_at d \<le> du_accounted_at d'"

text \<open>The same dispatch up to the authorization of its entry.\<close>

definition rebound :: "execution_dispatch \<Rightarrow> execution_dispatch \<Rightarrow> bool" where
  "rebound x y \<longleftrightarrow> (\<exists>entry. y = x\<lparr>xd_entry_authorization := entry\<rparr>)"

definition frozen_evolves :: "frozen_start \<Rightarrow> frozen_start \<Rightarrow> bool" where
  "frozen_evolves fz fz' \<longleftrightarrow>
    fz_accepted_generation fz' = fz_accepted_generation fz \<and> fz_definition fz' = fz_definition fz
    \<and> fz_inputs fz' = fz_inputs fz
    \<and> rebound (fz_dispatch fz) (fz_dispatch fz')
    \<and> (fz_entered fz \<longrightarrow> fz_entered fz' \<and> fz_dispatch fz' = fz_dispatch fz)
    \<and> opt_keeps duration_evolves (fz_duration fz) (fz_duration fz')
    \<and> prefix (fz_reports fz) (fz_reports fz')"

text \<open>A settled task may still be adopted as corrected, or have its cancellation acknowledged.\<close>

definition final_task :: "task_record \<Rightarrow> task_record \<Rightarrow> bool" where
  "final_task t t' \<longleftrightarrow> (\<exists>sent adopted. t' = t\<lparr>tk_cancellation_sent := sent, tk_adopted_correction := adopted\<rparr>)"

definition task_evolves :: "task_record \<Rightarrow> task_record \<Rightarrow> bool" where
  "task_evolves t t' \<longleftrightarrow>
    tk_id t' = tk_id t \<and> tk_created_at t' = tk_created_at t
    \<and> tk_version t \<le> tk_version t' \<and> prefix (tk_previous_definitions t) (tk_previous_definitions t')
    \<and> (tk_removed t \<longrightarrow> tk_removed t') \<and> (tk_stop_requested t \<longrightarrow> tk_stop_requested t')
    \<and> (tk_cancellation_sent t \<longrightarrow> tk_cancellation_sent t')
    \<and> opt_keeps frozen_evolves (tk_frozen t) (tk_frozen t')
    \<and> (tk_frozen t \<noteq> None \<longrightarrow> tk_definition t' = tk_definition t \<and> tk_version t' = tk_version t
        \<and> tk_started_at t' = tk_started_at t)
    \<and> opt_keeps (=) (tk_result t) (tk_result t')
    \<and> opt_keeps (=) (tk_adopted_correction t) (tk_adopted_correction t')
    \<and> (is_settled (tk_state t) \<longrightarrow> final_task t t')"

definition status_follows :: "admission_status \<Rightarrow> admission_status \<Rightarrow> bool" where
  "status_follows s s' \<longleftrightarrow> s' = s \<or> s = PendingAdmission
    \<or> s = RejectedAdmission \<and> (s' = RepairedAdmission \<or> s' = DismissedAdmission)"

definition admission_evolves :: "model_admission \<Rightarrow> model_admission \<Rightarrow> bool" where
  "admission_evolves a a' \<longleftrightarrow> ma_response a' = ma_response a
    \<and> ma_expected_generation a' = ma_expected_generation a \<and> status_follows (ma_status a) (ma_status a')
    \<and> (\<not> blocks_completion (ma_status a) \<longrightarrow> a' = a)"

definition budget_grows :: "authority_budget \<Rightarrow> authority_budget \<Rightarrow> bool" where
  "budget_grows b b' \<longleftrightarrow> amount (ab_cost_minor b) \<le> amount (ab_cost_minor b')
    \<and> amount (ab_duration_ms b) \<le> amount (ab_duration_ms b')
    \<and> amount (ab_invocations b) \<le> amount (ab_invocations b')
    \<and> amount (ab_artifact_bytes b) \<le> amount (ab_artifact_bytes b')
    \<and> amount (ab_units b) \<le> amount (ab_units b')"

definition workflow_evolves :: "workflow_record \<Rightarrow> workflow_record \<Rightarrow> bool" where
  "workflow_evolves w w' \<longleftrightarrow>
    wr_id w' = wr_id w \<and> wr_title w' = wr_title w \<and> wr_description w' = wr_description w
    \<and> wr_owner_actor w' = wr_owner_actor w \<and> wr_created_at w' = wr_created_at w
    \<and> wr_execution_authority w' = wr_execution_authority w \<and> wr_allowance w' = wr_allowance w
    \<and> wr_generation w \<le> wr_generation w' \<and> wr_admitted_tasks w \<le> wr_admitted_tasks w'
    \<and> wr_admitted_model_batches w \<le> wr_admitted_model_batches w'
    \<and> wr_active_execution_ms w \<le> wr_active_execution_ms w'
    \<and> budget_grows (wr_committed_allowance w) (wr_committed_allowance w')
    \<and> opt_keeps (=) (wr_spending_currency w) (wr_spending_currency w')
    \<and> (wr_finish_when_settled w \<longrightarrow> wr_finish_when_settled w')
    \<and> (\<forall>i. opt_keeps task_evolves (map_of (wr_tasks w) i) (map_of (wr_tasks w') i))
    \<and> (\<forall>i. opt_keeps admission_evolves (map_of (wr_admissions w) i) (map_of (wr_admissions w') i))"

lemma duration_evolves_refl [simp]: "duration_evolves d d"
  by (simp add: duration_evolves_def)

lemma duration_evolves_trans: "duration_evolves a b \<Longrightarrow> duration_evolves b c \<Longrightarrow> duration_evolves a c"
  by (auto simp add: duration_evolves_def)

lemma rebound_refl [simp]: "rebound x x"
  unfolding rebound_def by (rule exI [of _ "xd_entry_authorization x"]) simp

lemma rebound_trans: "rebound x y \<Longrightarrow> rebound y z \<Longrightarrow> rebound x z"
  by (auto simp add: rebound_def)

lemma rebound_simps [simp]:
  "rebound x (x\<lparr>xd_entry_authorization := entry\<rparr>)"
  "rebound x y \<Longrightarrow> xd_run y = xd_run x" "rebound x y \<Longrightarrow> xd_node y = xd_node x"
  "rebound x y \<Longrightarrow> xd_request y = xd_request x"
  by (auto simp add: rebound_def)

lemma frozen_evolves_refl [simp]: "frozen_evolves fz fz"
  by (simp add: frozen_evolves_def opt_keeps_refl)

lemma frozen_evolves_trans:
  assumes "frozen_evolves a b" and "frozen_evolves b c"
  shows "frozen_evolves a c"
  using assms unfolding frozen_evolves_def
  by (auto intro: opt_keeps_trans [OF duration_evolves_trans] prefix_order.trans rebound_trans)

lemma final_task_refl [simp]: "final_task t t"
  unfolding final_task_def
  by (intro exI [of _ "tk_cancellation_sent t"] exI [of _ "tk_adopted_correction t"]) simp

lemma final_task_trans:
  assumes "final_task a b" and "final_task b c"
  shows "final_task a c"
proof -
  obtain s d where b: "b = a\<lparr>tk_cancellation_sent := s, tk_adopted_correction := d\<rparr>"
    using assms(1) unfolding final_task_def by (elim exE)
  obtain s' d' where "c = b\<lparr>tk_cancellation_sent := s', tk_adopted_correction := d'\<rparr>"
    using assms(2) unfolding final_task_def by (elim exE)
  then have "c = a\<lparr>tk_cancellation_sent := s', tk_adopted_correction := d'\<rparr>" by (simp add: b)
  then show ?thesis unfolding final_task_def by (intro exI)
qed

lemma final_task_simps:
  assumes "final_task t t'"
  shows "tk_state t' = tk_state t" "tk_frozen t' = tk_frozen t" "tk_result t' = tk_result t"
    "tk_definition t' = tk_definition t" "tk_ended_at t' = tk_ended_at t"
  using assms by (auto simp add: final_task_def)

lemma task_evolves_refl [simp]: "task_evolves t t"
  by (simp add: task_evolves_def opt_keeps_refl)

lemma task_evolves_trans:
  assumes "task_evolves a b" and "task_evolves b c"
  shows "task_evolves a c"
proof -
  note ab = assms(1) [unfolded task_evolves_def] and bc = assms(2) [unfolded task_evolves_def]
  have fz: "opt_keeps frozen_evolves (tk_frozen a) (tk_frozen c)"
    by (rule opt_keeps_trans [where b = "tk_frozen b", OF frozen_evolves_trans]) (use ab bc in simp_all)
  have "opt_keeps (=) (tk_result a) (tk_result c)"
    by (rule opt_keeps_trans [of _ _ "tk_result b"]) (use ab bc in simp_all)
  moreover have "opt_keeps (=) (tk_adopted_correction a) (tk_adopted_correction c)"
    by (rule opt_keeps_trans [of _ _ "tk_adopted_correction b"]) (use ab bc in simp_all)
  moreover have started: "tk_frozen b \<noteq> None" if "tk_frozen a \<noteq> None"
    using ab that by (auto simp add: opt_keeps_def)
  moreover have "final_task a c" if settled: "is_settled (tk_state a)"
  proof -
    have "final_task a b" using ab settled by simp
    moreover have "final_task b c" using bc settled final_task_simps(1) [OF calculation] by simp
    ultimately show ?thesis by (rule final_task_trans)
  qed
  moreover have "prefix (tk_previous_definitions a) (tk_previous_definitions c)"
    using ab bc prefix_order.trans by blast
  moreover have "tk_version a \<le> tk_version c" using ab bc order.trans by blast
  ultimately show ?thesis unfolding task_evolves_def using ab bc fz by simp
qed

lemma admission_evolves_refl [simp]: "admission_evolves a a"
  by (simp add: admission_evolves_def status_follows_def)

lemma admission_evolves_trans: "admission_evolves a b \<Longrightarrow> admission_evolves b c \<Longrightarrow> admission_evolves a c"
  by (auto simp add: admission_evolves_def status_follows_def blocks_completion_def)

lemma budget_grows_refl [simp]: "budget_grows b b"
  by (simp add: budget_grows_def)

lemma budget_grows_trans: "budget_grows a b \<Longrightarrow> budget_grows b c \<Longrightarrow> budget_grows a c"
  by (auto simp add: budget_grows_def)

lemma workflow_evolves_refl [simp]: "workflow_evolves w w"
  by (simp add: workflow_evolves_def opt_keeps_refl)

lemma workflow_evolves_trans:
  assumes "workflow_evolves a b" and "workflow_evolves b c"
  shows "workflow_evolves a c"
  using assms unfolding workflow_evolves_def
  by (auto intro: order.trans budget_grows_trans opt_keeps_trans [OF task_evolves_trans]
      opt_keeps_trans [OF admission_evolves_trans] opt_keeps_trans [where R = "(=)"])

section \<open>The invariant of a record\<close>

text \<open>What a terminal report makes of its task, before its outputs are checked.\<close>

primrec terminal_state :: "terminal_status \<Rightarrow> task_state" where
  "terminal_state Success = Completed"
| "terminal_state Failure = Failed"
| "terminal_state Rejected = Failed"
| "terminal_state Cancelled = Stopped"
| "terminal_state Uncertain = Unresolved"

definition published_outputs :: "invocation_event list \<Rightarrow> (string, artifact_reference) bmap" where
  "published_outputs reports = fold (\<lambda>(name, r). bm_insert name r) (report_outputs reports) []"

definition result_state :: "task_definition \<Rightarrow> task_result \<Rightarrow> task_state" where
  "result_state d r = (let state = terminal_state (tm_status (tr_terminal r)) in
    if state = Completed \<and> output_contract_failure d (tr_outputs r) \<noteq> None then Failed else state)"

text \<open>
  A result is exactly what the terminal report says, over the outputs published before it; without a
  result there was no terminal report, and an entered task is then still unsettled.
\<close>

definition evidence_ok :: "task_record \<Rightarrow> frozen_start \<Rightarrow> bool" where
  "evidence_ok t fz \<longleftrightarrow> (case tk_result t of
      None \<Rightarrow> \<not> list_ex is_terminal (fz_reports fz) \<and> (fz_entered fz \<longrightarrow> \<not> is_settled (tk_state t))
    | Some r \<Rightarrow> fz_entered fz
        \<and> (\<exists>front e. fz_reports fz = front @ [e] \<and> \<not> list_ex is_terminal front
            \<and> kind_terminal (ev_kind e) = Some (tr_terminal r))
        \<and> tr_outputs r = published_outputs (fz_reports fz)
        \<and> tk_state t = result_state (fz_definition fz) r)"

definition reports_ok :: "runtime_codec \<Rightarrow> frozen_start \<Rightarrow> bool" where
  "reports_ok codec fz \<longleftrightarrow> accepted codec (fz_reports fz)
    \<and> (\<forall>i < length (fz_reports fz). unat (ev_sequence (fz_reports fz ! i)) = Suc i
        \<and> ev_invocation (fz_reports fz ! i) = task_invocation fz)
    \<and> distinct (map fst (report_outputs (fz_reports fz)))
    \<and> (\<not> fz_entered fz \<longrightarrow> fz_reports fz = [])"

definition start_ok :: "runtime_codec \<Rightarrow> workflow_id \<Rightarrow> task_record \<Rightarrow> frozen_start \<Rightarrow> bool" where
  "start_ok codec wid t fz \<longleftrightarrow>
    xd_run (fz_dispatch fz) = wid \<and> xd_node (fz_dispatch fz) = tk_id t
    \<and> fz_definition fz = tk_definition t \<and> tk_started_at t \<noteq> None
    \<and> (fz_entered fz \<longrightarrow> fz_duration fz \<noteq> None \<and> tk_state t \<noteq> Queued)
    \<and> (tk_state t = Unresolved \<longrightarrow> fz_duration fz \<noteq> None)
    \<and> (tk_state t = Queued \<or> tk_state t = Running \<longrightarrow> fz_entered fz \<or> fz_duration fz = None)
    \<and> reports_ok codec fz \<and> evidence_ok t fz"

definition task_ok :: "runtime_codec \<Rightarrow> workflow_id \<Rightarrow> task_id \<Rightarrow> task_record \<Rightarrow> bool" where
  "task_ok codec wid tid t \<longleftrightarrow> tk_id t = tid
    \<and> (tk_result t = None \<longrightarrow> tk_state t \<noteq> Completed)
    \<and> (case tk_frozen t of
        None \<Rightarrow> tk_result t = None \<and> tk_state t \<noteq> Running \<and> tk_state t \<noteq> Unresolved
      | Some fz \<Rightarrow> start_ok codec wid t fz)"

definition model_reported :: "task_record \<Rightarrow> bool" where
  "model_reported t \<longleftrightarrow> opt_any (\<lambda>fz. ''model_response'' \<in> fst ` set (report_outputs (fz_reports fz))
    \<or> tk_result t \<noteq> None) (tk_frozen t)"

definition record_ok :: "runtime_codec \<Rightarrow> workflow_record \<Rightarrow> bool" where
  "record_ok codec w \<longleftrightarrow>
    wr_schema_version w = SCHEMA_VERSION
    \<and> bm_wf (wr_tasks w) \<and> bm_wf (wr_admissions w)
    \<and> (\<forall>tid t. map_of (wr_tasks w) tid = Some t \<longrightarrow> task_ok codec (wr_id w) tid t)
    \<and> (\<forall>tid a. map_of (wr_admissions w) tid = Some a \<longrightarrow> opt_any model_reported (map_of (wr_tasks w) tid))
    \<and> length (wr_tasks w) = unat (wr_admitted_tasks w) \<and> wr_admitted_tasks w \<le> wl_tasks (wr_limits w)
    \<and> wr_admitted_model_batches w \<le> wl_model_batches (wr_limits w)
    \<and> fits_within (wr_committed_allowance w) (wr_allowance w)"

text \<open>One transition of a record: the invariant is kept and the record evolves.\<close>

definition progresses :: "runtime_codec \<Rightarrow> workflow_record \<Rightarrow> workflow_record \<Rightarrow> bool" where
  "progresses codec w w' \<longleftrightarrow> (record_ok codec w \<longrightarrow> record_ok codec w' \<and> workflow_evolves w w')"

lemma progresses_refl [simp]: "progresses codec w w"
  by (simp add: progresses_def)

lemma progresses_trans:
  "progresses codec a b \<Longrightarrow> progresses codec b c \<Longrightarrow> progresses codec a c"
  by (auto simp add: progresses_def intro: workflow_evolves_trans)

text \<open>Fields the invariant says nothing about.\<close>

lemma record_ok_free [simp]:
  "record_ok codec (w\<lparr>wr_wait_question := q\<rparr>) = record_ok codec w"
  "record_ok codec (w\<lparr>wr_model_admission_wait := m\<rparr>) = record_ok codec w"
  "record_ok codec (w\<lparr>wr_updated_at := now\<rparr>) = record_ok codec w"
  "record_ok codec (w\<lparr>wr_state := st\<rparr>) = record_ok codec w"
  "record_ok codec (w\<lparr>wr_generation := g\<rparr>) = record_ok codec w"
  "record_ok codec (w\<lparr>wr_decision_generation := g\<rparr>) = record_ok codec w"
  "record_ok codec (w\<lparr>wr_rejected_responses := n\<rparr>) = record_ok codec w"
  "record_ok codec (w\<lparr>wr_inputs := inputs\<rparr>) = record_ok codec w"
  "record_ok codec (w\<lparr>wr_finish_when_settled := b\<rparr>) = record_ok codec w"
  "record_ok codec (w\<lparr>wr_active_execution_ms := ms\<rparr>) = record_ok codec w"
  "record_ok codec (w\<lparr>wr_spending_currency := c\<rparr>) = record_ok codec w"
  by (simp_all add: record_ok_def)

lemma workflow_evolves_free [simp]:
  "workflow_evolves w (v\<lparr>wr_wait_question := q\<rparr>) = workflow_evolves w v"
  "workflow_evolves w (v\<lparr>wr_model_admission_wait := m\<rparr>) = workflow_evolves w v"
  "workflow_evolves w (v\<lparr>wr_updated_at := now\<rparr>) = workflow_evolves w v"
  "workflow_evolves w (v\<lparr>wr_state := st\<rparr>) = workflow_evolves w v"
  "workflow_evolves w (v\<lparr>wr_decision_generation := g\<rparr>) = workflow_evolves w v"
  "workflow_evolves w (v\<lparr>wr_rejected_responses := n\<rparr>) = workflow_evolves w v"
  "workflow_evolves w (v\<lparr>wr_inputs := inputs\<rparr>) = workflow_evolves w v"
  by (simp_all add: workflow_evolves_def)

lemma progresses_free [simp]:
  "progresses codec w (v\<lparr>wr_wait_question := q\<rparr>) = progresses codec w v"
  "progresses codec w (v\<lparr>wr_model_admission_wait := m\<rparr>) = progresses codec w v"
  "progresses codec w (v\<lparr>wr_updated_at := now\<rparr>) = progresses codec w v"
  "progresses codec w (v\<lparr>wr_state := st\<rparr>) = progresses codec w v"
  "progresses codec w (v\<lparr>wr_decision_generation := g\<rparr>) = progresses codec w v"
  "progresses codec w (v\<lparr>wr_rejected_responses := n\<rparr>) = progresses codec w v"
  "progresses codec w (v\<lparr>wr_inputs := inputs\<rparr>) = progresses codec w v"
  by (simp_all add: progresses_def)

section \<open>Updates of the tasks\<close>

lemma report_outputs_append: "report_outputs (xs @ ys) = report_outputs xs @ report_outputs ys"
  by (simp add: report_outputs_def List.map_filter_def)

lemma model_reported_evolves:
  assumes "task_evolves t t'" and "model_reported t"
  shows "model_reported t'"
proof -
  obtain fz where fz: "tk_frozen t = Some fz"
    and r: "''model_response'' \<in> fst ` set (report_outputs (fz_reports fz)) \<or> tk_result t \<noteq> None"
    using assms(2) by (auto simp add: model_reported_def opt_any_iff)
  obtain fz' where fz': "tk_frozen t' = Some fz'" and e: "frozen_evolves fz fz'"
    using assms(1) fz by (auto simp add: task_evolves_def opt_keeps_def)
  obtain more where "fz_reports fz' = fz_reports fz @ more"
    using e by (auto simp add: frozen_evolves_def prefix_def)
  moreover have "tk_result t \<noteq> None \<Longrightarrow> tk_result t' \<noteq> None"
    using assms(1) by (auto simp add: task_evolves_def opt_keeps_def)
  ultimately show ?thesis
    using r fz' by (auto simp add: model_reported_def opt_any_iff report_outputs_append)
qed

lemma progresses_tasks:
  assumes keys: "bm_keys m = bm_keys (wr_tasks w)"
    and each: "\<And>tid t. map_of (wr_tasks w) tid = Some t \<Longrightarrow> task_ok codec (wr_id w) tid t \<Longrightarrow>
      \<exists>t'. map_of m tid = Some t' \<and> task_ok codec (wr_id w) tid t' \<and> task_evolves t t'"
  shows "progresses codec w (w\<lparr>wr_tasks := m\<rparr>)"
  unfolding progresses_def
proof (intro impI conjI)
  assume ok: "record_ok codec w"
  have wf: "bm_wf m" using ok keys by (simp add: record_ok_def bm_wf_def bm_keys_def)
  have len: "length m = length (wr_tasks w)" using arg_cong [OF keys, of length] by (simp add: bm_keys_def)
  have dom: "\<exists>t. map_of (wr_tasks w) tid = Some t" if "map_of m tid = Some t'" for tid t'
    using that arg_cong [OF keys, of set] by (auto simp add: set_bm_keys)
  have step: "\<exists>t'. map_of m tid = Some t' \<and> task_ok codec (wr_id w) tid t' \<and> task_evolves t t'"
    if "map_of (wr_tasks w) tid = Some t" for tid t
    using that ok by (intro each) (auto simp add: record_ok_def)
  have tasks: "task_ok codec (wr_id w) tid t'" if m: "map_of m tid = Some t'" for tid t'
    using dom [OF m] step m by (metis option.inject)
  have adm: "opt_any model_reported (map_of m tid)" if a: "map_of (wr_admissions w) tid = Some a" for tid a
  proof -
    obtain t where t: "map_of (wr_tasks w) tid = Some t" "model_reported t"
      using ok a unfolding record_ok_def opt_any_iff by blast
    then obtain t' where "map_of m tid = Some t'" "task_evolves t t'" using step by blast
    then show ?thesis using model_reported_evolves t(2) by (simp add: opt_any_iff)
  qed
  show "record_ok codec (w\<lparr>wr_tasks := m\<rparr>)"
    using ok wf len tasks adm by (simp add: record_ok_def)
  show "workflow_evolves w (w\<lparr>wr_tasks := m\<rparr>)"
    using step by (auto simp add: workflow_evolves_def opt_keeps_refl opt_keeps_def)
qed

lemma progresses_map:
  assumes "\<And>tid t. map_of (wr_tasks w) tid = Some t \<Longrightarrow> task_ok codec (wr_id w) tid t \<Longrightarrow>
      task_ok codec (wr_id w) tid (f t) \<and> task_evolves t (f t)"
  shows "progresses codec w (w\<lparr>wr_tasks := bm_map (\<lambda>_. f) (wr_tasks w)\<rparr>)"
  by (rule progresses_tasks) (simp_all add: assms)

lemma progresses_adjust:
  assumes "map_of (wr_tasks w) tid = Some t"
    and "task_ok codec (wr_id w) tid t \<Longrightarrow> task_ok codec (wr_id w) tid (f t) \<and> task_evolves t (f t)"
  shows "progresses codec w (w\<lparr>wr_tasks := bm_adjust tid f (wr_tasks w)\<rparr>)"
  by (rule progresses_tasks) (use assms in auto)

lemma task_ok_stop [simp]:
  "task_ok codec wid tid (t\<lparr>tk_stop_requested := b\<rparr>) = task_ok codec wid tid t"
  by (simp add: task_ok_def start_ok_def evidence_ok_def split: option.splits)

lemma task_evolves_stop [simp]:
  "\<not> is_settled (tk_state t) \<Longrightarrow> task_evolves t (t\<lparr>tk_stop_requested := True\<rparr>)"
  by (simp add: task_evolves_def opt_keeps_refl)

lemma charge_open:
  assumes "chargeable now t" and "open_duration t = Some d"
  shows "\<exists>fz. tk_frozen t = Some fz \<and> \<not> is_settled (tk_state t) \<and> fz_duration fz = Some d
    \<and> du_accounted_at d \<le> now
    \<and> charge now t = t\<lparr>tk_frozen := Some (fz\<lparr>fz_duration := Some (d\<lparr>du_accounted_at := now\<rparr>)\<rparr>)\<rparr>"
  using assms
  by (cases "tk_frozen t") (auto simp add: open_duration_def task_duration_def chargeable_def charge_def
      set_accounted_def split: if_splits)

lemma reports_ok_duration [simp]: "reports_ok codec (fz\<lparr>fz_duration := d\<rparr>) = reports_ok codec fz"
  by (simp add: reports_ok_def task_invocation_def)

lemma charge_progress:
  assumes "chargeable now t" and "task_ok codec wid tid t"
  shows "task_ok codec wid tid (charge now t) \<and> task_evolves t (charge now t)"
proof (cases "open_duration t")
  case None
  then show ?thesis using assms(2) by (simp add: charge_def)
next
  case (Some d)
  then obtain fz where fz: "tk_frozen t = Some fz" "\<not> is_settled (tk_state t)" "fz_duration fz = Some d"
    and now: "du_accounted_at d \<le> now"
    and c: "charge now t = t\<lparr>tk_frozen := Some (fz\<lparr>fz_duration := Some (d\<lparr>du_accounted_at := now\<rparr>)\<rparr>)\<rparr>"
    using charge_open [OF assms(1)] by blast
  have "task_ok codec wid tid (charge now t)"
    using assms(2) fz unfolding c by (simp add: task_ok_def start_ok_def evidence_ok_def split: option.splits)
  moreover have "task_evolves t (charge now t)"
    using fz now unfolding c by (simp add: task_evolves_def frozen_evolves_def duration_evolves_def opt_keeps_refl)
  ultimately show ?thesis ..
qed

lemma accrue_progresses:
  assumes "accrue w now = Inr (w', changed)"
  shows "progresses codec w w'"
proof -
  obtain spent where a: "\<forall>t \<in> set (task_list w). chargeable now t"
    and spent: "unat spent = unat (wr_active_execution_ms w) + (\<Sum>t\<leftarrow>task_list w. owed now t)"
    and w': "w' = w\<lparr>wr_tasks := bm_map (\<lambda>_. charge now) (wr_tasks w), wr_active_execution_ms := spent\<rparr>"
    using assms by (auto simp add: accrue_Inr)
  have "progresses codec w (w\<lparr>wr_tasks := bm_map (\<lambda>_. charge now) (wr_tasks w)\<rparr>)"
  proof (rule progresses_map)
    fix tid t
    assume t: "map_of (wr_tasks w) tid = Some t" and ok: "task_ok codec (wr_id w) tid t"
    have "chargeable now t"
      using a map_of_SomeD [OF t] by (force simp add: task_list_def bm_values_def)
    then show "task_ok codec (wr_id w) tid (charge now t) \<and> task_evolves t (charge now t)"
      using ok by (rule charge_progress)
  qed
  then show ?thesis
    using spent by (simp add: w' progresses_def workflow_evolves_def word_order_nat)
qed

lemma duration_stop_cases:
  assumes "request_duration_stop w = (w', changed)"
  obtains w1 where "w1 = (if remaining w = 0 \<and> wr_wait_question w = None
      then w\<lparr>wr_wait_question := Some EXHAUSTED, wr_model_admission_wait := None\<rparr> else w)"
    "w' = w1\<lparr>wr_tasks := bm_map (\<lambda>_ t. if limit_stops (remaining w = 0) t then t\<lparr>tk_stop_requested := True\<rparr> else t)
      (wr_tasks w1)\<rparr>"
    "\<not> changed \<Longrightarrow> w1 = w \<and> \<not> list_ex (limit_stops (remaining w = 0)) (task_list w)"
proof (rule that [OF refl])
  show "w' = (if remaining w = 0 \<and> wr_wait_question w = None
      then w\<lparr>wr_wait_question := Some EXHAUSTED, wr_model_admission_wait := None\<rparr> else w)
    \<lparr>wr_tasks := bm_map (\<lambda>_ t. if limit_stops (remaining w = 0) t then t\<lparr>tk_stop_requested := True\<rparr> else t)
      (wr_tasks (if remaining w = 0 \<and> wr_wait_question w = None
        then w\<lparr>wr_wait_question := Some EXHAUSTED, wr_model_admission_wait := None\<rparr> else w))\<rparr>"
    using assms by (simp add: request_duration_stop_def Let_def)
  have "changed \<longleftrightarrow> remaining w = 0 \<and> wr_wait_question w = None
      \<or> list_ex (limit_stops (remaining w = 0)) (task_list w)"
    using assms by (simp only: request_duration_stop_def Let_def prod.inject)
  then show "(if remaining w = 0 \<and> wr_wait_question w = None
        then w\<lparr>wr_wait_question := Some EXHAUSTED, wr_model_admission_wait := None\<rparr> else w) = w
      \<and> \<not> list_ex (limit_stops (remaining w = 0)) (task_list w)" if "\<not> changed"
    using that by auto
qed

lemma duration_stop_progresses:
  assumes "request_duration_stop w = (w', changed)"
  shows "progresses codec w w'"
  using assms
proof (cases rule: duration_stop_cases)
  case (1 w1)
  have "progresses codec w w1" by (simp add: 1(1))
  moreover have "progresses codec w1 w'"
    unfolding 1(2) by (rule progresses_map) (simp add: limit_stops_def)
  ultimately show ?thesis by (rule progresses_trans)
qed

lemma policy_stop_cases:
  assumes "request_policy_stop w = Inr (w', changed)"
  obtains (unchanged) "w' = w" "\<not> changed"
  | (asked) reason w1 where "w1 = (if wr_wait_question w = None
      then w\<lparr>wr_wait_question := Some reason, wr_model_admission_wait := None\<rparr> else w)"
    "w' = w1\<lparr>wr_tasks := bm_map (\<lambda>_ t. if policy_stops t then t\<lparr>tk_stop_requested := True\<rparr> else t) (wr_tasks w1)\<rparr>"
  using assms by (auto simp add: request_policy_stop_def res_bind_Inr_iff Let_def split: option.splits)

lemma policy_stop_progresses:
  assumes "request_policy_stop w = Inr (w', changed)"
  shows "progresses codec w w'"
  using assms
proof (cases rule: policy_stop_cases)
  case (asked reason w1)
  have "progresses codec w w1" by (simp add: asked(1))
  moreover have "progresses codec w1 w'"
    unfolding asked(2) by (rule progresses_map) (simp add: policy_stops_def)
  ultimately show ?thesis by (rule progresses_trans)
qed simp

text \<open>What \<^verbatim>\<open>advance\<close> does to the tasks: it may only ask some of them to stop.\<close>

definition asks_stop :: "(task_record \<Rightarrow> task_record) \<Rightarrow> bool" where
  "asks_stop f \<longleftrightarrow> (\<forall>t. f t = t \<or> tk_frozen t \<noteq> None \<and> f t = t\<lparr>tk_stop_requested := True\<rparr>)"

lemma asks_stop_unstarted: "asks_stop f \<Longrightarrow> tk_frozen t = None \<Longrightarrow> f t = t"
  by (auto simp add: asks_stop_def)

lemma asks_stop_simps:
  assumes "asks_stop f"
  shows "tk_state (f t) = tk_state t" "tk_frozen (f t) = tk_frozen t" "tk_result (f t) = tk_result t"
    "tk_id (f t) = tk_id t" "tk_definition (f t) = tk_definition t"
    "tk_adopted_correction (f t) = tk_adopted_correction t" "tk_removed (f t) = tk_removed t"
proof -
  have "f t = t \<or> f t = t\<lparr>tk_stop_requested := True\<rparr>" using assms by (auto simp add: asks_stop_def)
  then have "tk_state (f t) = tk_state t \<and> tk_frozen (f t) = tk_frozen t \<and> tk_result (f t) = tk_result t
    \<and> tk_id (f t) = tk_id t \<and> tk_definition (f t) = tk_definition t
    \<and> tk_adopted_correction (f t) = tk_adopted_correction t \<and> tk_removed (f t) = tk_removed t"
    by (elim disjE) simp_all
  then show "tk_state (f t) = tk_state t" "tk_frozen (f t) = tk_frozen t" "tk_result (f t) = tk_result t"
    "tk_id (f t) = tk_id t" "tk_definition (f t) = tk_definition t"
    "tk_adopted_correction (f t) = tk_adopted_correction t" "tk_removed (f t) = tk_removed t" by blast+
qed

lemma policy_stop_tasks:
  assumes "request_policy_stop w = Inr (w', changed)"
  obtains f where "asks_stop f" "wr_tasks w' = bm_map (\<lambda>_. f) (wr_tasks w)" "wr_id w' = wr_id w"
    "wr_generation w' = wr_generation w" "wr_limits w' = wr_limits w" "wr_allowance w' = wr_allowance w"
    "wr_admissions w' = wr_admissions w"
  using assms
proof (cases rule: policy_stop_cases)
  case unchanged
  have "wr_tasks w' = bm_map (\<lambda>_ t. t) (wr_tasks w)" by (simp add: unchanged bm_map_def)
  then show ?thesis using that [of "\<lambda>t. t"] by (simp add: unchanged asks_stop_def)
next
  case (asked reason w1)
  show ?thesis
    by (rule that [of "\<lambda>t. if policy_stops t then t\<lparr>tk_stop_requested := True\<rparr> else t"])
      (simp_all add: asked asks_stop_def policy_stops_def)
qed

lemma advanced_tasks:
  assumes "advanced now w = Inr w'"
  obtains f where "asks_stop f" "wr_tasks w' = bm_map (\<lambda>_. f) (wr_tasks w)" "wr_id w' = wr_id w"
    "wr_generation w' = wr_generation w" "wr_limits w' = wr_limits w" "wr_allowance w' = wr_allowance w"
    "wr_admissions w' = wr_admissions w"
proof -
  obtain v changed where v: "request_policy_stop (w\<lparr>wr_updated_at := now\<rparr>) = Inr (v, changed)"
    and w': "w' = update_workflow_state v"
    using assms by (auto simp add: advanced_def res_simps)
  show ?thesis by (rule policy_stop_tasks [OF v]) (rule that, simp_all add: w')
qed

lemma update_workflow_state_progresses [simp]: "progresses codec w (update_workflow_state w)"
  unfolding update_workflow_state_def Let_def by simp

lemma advanced_progresses:
  assumes "progresses codec w v" and "wr_generation v \<le> g" and "advanced now (v\<lparr>wr_generation := g\<rparr>) = Inr w'"
  shows "progresses codec w w'"
proof -
  let ?v = "v\<lparr>wr_generation := g, wr_updated_at := now\<rparr>"
  have "progresses codec v ?v" using assms(2) by (simp add: progresses_def workflow_evolves_def opt_keeps_refl)
  moreover obtain u changed where u: "request_policy_stop ?v = Inr (u, changed)"
    and w': "w' = update_workflow_state u"
    using assms(3) by (auto simp add: advanced_def res_simps)
  have "progresses codec ?v w'"
    unfolding w' by (rule progresses_trans [OF policy_stop_progresses [OF u]]) simp
  ultimately show ?thesis using assms(1) progresses_trans by blast
qed

section \<open>Durable states\<close>

text \<open>A document reads back as the record it was written from.\<close>

definition roundtrip :: "('doc, 'm) ports \<Rightarrow> bool" where
  "roundtrip p \<longleftrightarrow> (\<forall>w document. po_to_value p w = Inr document \<longrightarrow> po_from_value p document = Inr w)"

definition stored :: "('doc, 'm) ports \<Rightarrow> ('doc, 'm) store \<Rightarrow> workflow_id \<Rightarrow> workflow_record \<Rightarrow> bool" where
  "stored p s i w \<longleftrightarrow> (\<exists>snap. store_workflow s i = Some snap \<and> po_from_value p (ss_document snap) = Inr w)"

definition sealed :: "('doc, 'm) ports \<Rightarrow> workflow_id \<Rightarrow> 'doc workflow_snapshot \<Rightarrow> workflow_record \<Rightarrow> bool" where
  "sealed p i snap w \<longleftrightarrow> po_from_value p (ss_document snap) = Inr w \<and> record_ok (po_codec p) w \<and> wr_id w = i
    \<and> (\<exists>document reserved receipts artifacts. snap = snapshot_of w document reserved receipts artifacts)"

definition store_ok :: "('doc, 'm) ports \<Rightarrow> ('doc, 'm) store \<Rightarrow> bool" where
  "store_ok p s \<longleftrightarrow> bm_wf (st_workflows s)
    \<and> (\<forall>i snap. store_workflow s i = Some snap \<longrightarrow> (\<exists>w. sealed p i snap w))"

definition store_evolves :: "('doc, 'm) ports \<Rightarrow> ('doc, 'm) store \<Rightarrow> ('doc, 'm) store \<Rightarrow> bool" where
  "store_evolves p s s' \<longleftrightarrow> (\<forall>i w. stored p s i w \<longrightarrow> (\<exists>w'. stored p s' i w' \<and> workflow_evolves w w'))"

lemma store_evolves_refl [simp]: "store_evolves p s s"
  unfolding store_evolves_def using workflow_evolves_refl by blast

lemma store_evolves_trans: "store_evolves p a b \<Longrightarrow> store_evolves p b c \<Longrightarrow> store_evolves p a c"
  unfolding store_evolves_def using workflow_evolves_trans by meson

lemma stored_unique: "stored p s i w \<Longrightarrow> stored p s i v \<Longrightarrow> w = v"
  by (auto simp add: stored_def)

lemma stored_ok:
  assumes "store_ok p s" and "stored p s i w"
  shows "record_ok (po_codec p) w" and "wr_id w = i"
proof -
  obtain snap v where "store_workflow s i = Some snap" "po_from_value p (ss_document snap) = Inr w" "sealed p i snap v"
    using assms unfolding store_ok_def stored_def by blast
  then show "record_ok (po_codec p) w" and "wr_id w = i" by (simp_all add: sealed_def)
qed

text \<open>
  A dispatch owns the start it was frozen into.  \<^verbatim>\<open>P\<close> is what is known of the task and its start.
\<close>

definition owns ::
  "('doc, 'm) ports \<Rightarrow> ('doc, 'm) store \<Rightarrow> execution_dispatch \<Rightarrow> (task_record \<Rightarrow> frozen_start \<Rightarrow> bool) \<Rightarrow> bool" where
  "owns p s x P \<longleftrightarrow> (\<exists>w t fz. stored p s (xd_run x) w \<and> map_of (wr_tasks w) (xd_node x) = Some t
    \<and> tk_frozen t = Some fz \<and> rebound x (fz_dispatch fz) \<and> P t fz)"

definition started :: "('doc, 'm) ports \<Rightarrow> execution_dispatch \<Rightarrow> ('doc, 'm) store \<Rightarrow> bool" where
  "started p x s \<longleftrightarrow> owns p s x (\<lambda>_ _. True)"

definition has_entered :: "('doc, 'm) ports \<Rightarrow> execution_dispatch \<Rightarrow> ('doc, 'm) store \<Rightarrow> bool" where
  "has_entered p x s \<longleftrightarrow> owns p s x (\<lambda>_ fz. fz_entered fz \<and> fz_dispatch fz = x)"

definition has_settled :: "('doc, 'm) ports \<Rightarrow> execution_dispatch \<Rightarrow> ('doc, 'm) store \<Rightarrow> bool" where
  "has_settled p x s \<longleftrightarrow> owns p s x (\<lambda>t _. is_settled (tk_state t))"

definition stop_asked :: "('doc, 'm) ports \<Rightarrow> invocation_id \<Rightarrow> ('doc, 'm) store \<Rightarrow> bool" where
  "stop_asked p invocation s \<longleftrightarrow> (\<exists>x. owns p s x (\<lambda>t fz. tk_stop_requested t)
    \<and> ir_invocation (xd_request x) = invocation)"

text \<open>
  The durable fact every external call rests on: a start is prepared only once it is accepted,
  entered only once its entry is recorded, settled only once its task settled, and an invocation is
  cancelled only once its task was asked to stop.
\<close>

fun justified :: "('doc, 'm) ports \<Rightarrow> ('doc, 'm) store \<Rightarrow> external_call \<Rightarrow> bool" where
  "justified p s (PrepareCall x) = started p x s"
| "justified p s (EnterCall x) = has_entered p x s"
| "justified p s (SettleCall x) = has_settled p x s"
| "justified p s (CancelCall q) = stop_asked p (cr_invocation q) s"
| "justified p s _ = True"

definition good :: "('doc, 'm) ports \<Rightarrow> ('doc, 'm) runtime \<Rightarrow> bool" where
  "good p rt \<longleftrightarrow> store_ok p (rt_store rt) \<and> (\<forall>c \<in> set (rt_calls rt). justified p (rt_store rt) c)"

definition stable :: "('doc, 'm) ports \<Rightarrow> (('doc, 'm) store \<Rightarrow> bool) \<Rightarrow> bool" where
  "stable p A \<longleftrightarrow> (\<forall>s s'. store_evolves p s s' \<longrightarrow> A s \<longrightarrow> A s')"

lemma stableD: "stable p A \<Longrightarrow> store_evolves p s s' \<Longrightarrow> A s \<Longrightarrow> A s'"
  by (auto simp add: stable_def)

lemma stable_owns:
  assumes "\<And>t t' fz fz'. task_evolves t t' \<Longrightarrow> tk_frozen t = Some fz \<Longrightarrow> tk_frozen t' = Some fz' \<Longrightarrow>
    frozen_evolves fz fz' \<Longrightarrow> P t fz \<Longrightarrow> P t' fz'"
  shows "stable p (\<lambda>s. owns p s x P)"
  unfolding stable_def
proof (intro allI impI)
  fix s s' assume e: "store_evolves p s s'" and o: "owns p s x P"
  obtain w t fz where w: "stored p s (xd_run x) w" and t: "map_of (wr_tasks w) (xd_node x) = Some t"
    and fz: "tk_frozen t = Some fz" "rebound x (fz_dispatch fz)" "P t fz"
    using o by (auto simp add: owns_def)
  obtain w' where w': "stored p s' (xd_run x) w'" and ev: "workflow_evolves w w'"
    using e w by (auto simp add: store_evolves_def)
  obtain t' where t': "map_of (wr_tasks w') (xd_node x) = Some t'" and te: "task_evolves t t'"
    using ev t unfolding workflow_evolves_def opt_keeps_def by blast
  obtain fz' where fz': "tk_frozen t' = Some fz'" and fe: "frozen_evolves fz fz'"
    using te fz(1) by (auto simp add: task_evolves_def opt_keeps_def)
  have "rebound x (fz_dispatch fz')"
    using fz(2) fe rebound_trans by (auto simp add: frozen_evolves_def)
  moreover have "P t' fz'" using assms [OF te fz(1) fz' fe fz(3)] .
  ultimately show "owns p s' x P" using w' t' fz' by (auto simp add: owns_def)
qed

lemma stable_started [intro]: "stable p (started p x)"
  unfolding started_def by (rule stable_owns) simp

lemma stable_entered [intro]: "stable p (has_entered p x)"
  unfolding has_entered_def by (rule stable_owns) (simp add: frozen_evolves_def)

lemma stable_settled [intro]: "stable p (has_settled p x)"
  unfolding has_settled_def
  by (rule stable_owns) (auto simp add: task_evolves_def dest: final_task_simps)

lemma stable_stop_asked [intro]: "stable p (stop_asked p i)"
proof -
  have "stable p (\<lambda>s. owns p s x (\<lambda>t fz. tk_stop_requested t))" for x
    by (rule stable_owns) (simp add: task_evolves_def)
  then show ?thesis unfolding stop_asked_def stable_def by blast
qed

lemma stable_justified: "stable p (\<lambda>s. justified p s c)"
  by (cases c) (simp_all add: stable_started stable_entered stable_settled stable_stop_asked stable_def [of _ "\<lambda>_. True"])

section \<open>Actions that keep the durable state\<close>

definition entry_calls :: "trace \<Rightarrow> execution_dispatch list" where
  "entry_calls calls = List.map_filter (\<lambda>c. case c of EnterCall x \<Rightarrow> Some x | _ \<Rightarrow> None) calls"

definition follows :: "('doc, 'm) ports \<Rightarrow> ('doc, 'm) runtime \<Rightarrow> ('doc, 'm) runtime \<Rightarrow> bool" where
  "follows p rt rt' \<longleftrightarrow> good p rt' \<and> store_evolves p (rt_store rt) (rt_store rt')
    \<and> entry_calls (rt_calls rt') = entry_calls (rt_calls rt)"

text \<open>
  From a good state in which \<^verbatim>\<open>A\<close> holds of the store, an action that is safe leaves a good state whose
  store evolved, whether it returns a value or an error, enters no adapter, and establishes
  \<^verbatim>\<open>B\<close> of its value.
\<close>

definition safely ::
  "('doc, 'm) ports \<Rightarrow> (('doc, 'm) store \<Rightarrow> bool) \<Rightarrow> (('doc, 'm) runtime, 'e, 'a) action
    \<Rightarrow> ('a \<Rightarrow> ('doc, 'm) store \<Rightarrow> bool) \<Rightarrow> bool" where
  "safely p A a B \<longleftrightarrow> (\<forall>rt. triple (\<lambda>rt'. rt' = rt \<and> good p rt \<and> A (rt_store rt)) a
    (\<lambda>x rt'. follows p rt rt' \<and> B x (rt_store rt')) (\<lambda>e rt'. follows p rt rt'))"

named_theorems safe_rules

lemma follows_refl: "good p rt \<Longrightarrow> follows p rt rt"
  by (simp add: follows_def)

lemma follows_trans: "follows p a b \<Longrightarrow> follows p b c \<Longrightarrow> follows p a c"
  by (auto simp add: follows_def intro: store_evolves_trans)

lemma safelyI:
  assumes "\<And>rt r rt'. good p rt \<Longrightarrow> A (rt_store rt) \<Longrightarrow> a rt = (r, rt') \<Longrightarrow>
    follows p rt rt' \<and> (\<forall>x. r = Inr x \<longrightarrow> B x (rt_store rt'))"
  shows "safely p A a B"
  unfolding safely_def using assms by (blast intro: tripleI)

lemma safelyD:
  assumes "safely p A a B" and "good p rt" and "A (rt_store rt)" and "a rt = (r, rt')"
  shows "follows p rt rt'" and "r = Inr x \<Longrightarrow> B x (rt_store rt')"
  using tripleD [OF spec [OF assms(1) [unfolded safely_def], of rt]] assms(2-4) by (cases r, blast, blast)+

lemma safely_bind:
  assumes "safely p A a R" and "\<And>x. safely p (R x) (f x) B"
  shows "safely p A (act_bind a f) B"
proof (rule safelyI)
  fix rt r rt'
  assume g: "good p rt" "A (rt_store rt)" and run: "act_bind a f rt = (r, rt')"
  obtain q rt1 where a: "a rt = (q, rt1)" by fastforce
  note first = safelyD [OF assms(1) g a]
  show "follows p rt rt' \<and> (\<forall>x. r = Inr x \<longrightarrow> B x (rt_store rt'))"
  proof (cases q)
    case (Inl e)
    then show ?thesis using run a first(1) by (auto simp add: act_bind_def)
  next
    case (Inr x)
    then have f: "f x rt1 = (r, rt')" using run a by (simp add: act_bind_def)
    have "good p rt1" using first(1) by (simp add: follows_def)
    from safelyD [OF assms(2) this first(2) [OF Inr] f] show ?thesis
      using first(1) follows_trans by blast
  qed
qed

lemma safely_return [safe_rules]: "(\<And>s. store_ok p s \<Longrightarrow> A s \<Longrightarrow> B x s) \<Longrightarrow> safely p A (act_return x) B"
  by (rule safelyI) (auto simp add: act_return_def good_def intro!: follows_refl)

lemma safely_fail [safe_rules]: "safely p A (act_fail e) B"
  by (rule safelyI) (auto simp add: act_fail_def intro!: follows_refl)

lemma safely_lift [safe_rules]:
  "(\<And>x s. r = Inr x \<Longrightarrow> store_ok p s \<Longrightarrow> A s \<Longrightarrow> B x s) \<Longrightarrow> safely p A (act_lift r) B"
  by (rule safelyI) (auto simp add: act_lift_def good_def intro!: follows_refl)

lemma safely_lift_bind [safe_rules]:
  "(\<And>x. r = Inr x \<Longrightarrow> safely p A (f x) B) \<Longrightarrow> safely p A (act_bind (act_lift r) f) B"
  by (rule safelyI) (cases r; auto simp add: act_bind_def act_lift_def intro!: follows_refl dest: safelyD)

lemma safely_ensure [safe_rules]:
  "(\<And>s. b \<Longrightarrow> store_ok p s \<Longrightarrow> A s \<Longrightarrow> B () s) \<Longrightarrow> safely p A (act_ensure b e) B"
  unfolding act_ensure_def by (rule safely_lift) (simp add: res_simps)

lemma safely_ensure_bind [safe_rules]:
  "(b \<Longrightarrow> safely p A (f ()) B) \<Longrightarrow> safely p A (act_bind (act_ensure b e) f) B"
  unfolding act_ensure_def by (rule safely_lift_bind) (simp add: res_simps)

lemma safely_if [safe_rules]:
  assumes "b \<Longrightarrow> safely p A a B" and "\<not> b \<Longrightarrow> safely p A c B"
  shows "safely p A (if b then a else c) B"
  using assms by simp

lemma safely_get_bind [safe_rules]:
  assumes "\<And>x. safely p A (f x) B"
  shows "safely p A (act_bind (act_get g) f) B"
  by (rule safelyI) (auto simp add: act_bind_def act_get_def dest: safelyD [OF assms])

lemma safely_weaken:
  assumes "safely p A' a B'" and "\<And>s. store_ok p s \<Longrightarrow> A s \<Longrightarrow> A' s"
    and "\<And>x s. store_ok p s \<Longrightarrow> B' x s \<Longrightarrow> B x s"
  shows "safely p A a B"
proof (rule safelyI)
  fix rt r rt'
  assume g: "good p rt" "A (rt_store rt)" and run: "a rt = (r, rt')"
  have "A' (rt_store rt)" using assms(2) g by (simp add: good_def)
  note d = safelyD [OF assms(1) g(1) this run]
  then show "follows p rt rt' \<and> (\<forall>x. r = Inr x \<longrightarrow> B x (rt_store rt'))"
    using assms(3) by (auto simp add: follows_def good_def)
qed

lemma safely_pure:
  assumes "\<And>s. store_ok p s \<Longrightarrow> A s \<Longrightarrow> c" and "c \<Longrightarrow> safely p A a B"
  shows "safely p A a B"
proof (rule safelyI)
  fix rt r rt'
  assume g: "good p rt" "A (rt_store rt)" and run: "a rt = (r, rt')"
  have c using assms(1) [of "rt_store rt"] g by (simp add: good_def)
  from safelyD [OF assms(2) [OF this] g run] show "follows p rt rt' \<and> (\<forall>x. r = Inr x \<longrightarrow> B x (rt_store rt'))"
    by blast
qed

text \<open>What was established before an action still holds after it, when it is stable.\<close>

lemma safely_frame:
  assumes "safely p A a B" and "stable p C"
  shows "safely p (\<lambda>s. A s \<and> C s) a (\<lambda>x s. B x s \<and> C s)"
proof (rule safelyI)
  fix rt r rt'
  assume g: "good p rt" "A (rt_store rt) \<and> C (rt_store rt)" and run: "a rt = (r, rt')"
  note d = safelyD [OF assms(1) g(1) conjunct1 [OF g(2)] run]
  have "C (rt_store rt')" using d(1) g(2) by (auto simp add: follows_def intro: stableD [OF assms(2)])
  then show "follows p rt rt' \<and> (\<forall>x. r = Inr x \<longrightarrow> B x (rt_store rt') \<and> C (rt_store rt'))"
    using d by blast
qed

lemma safely_try_bind [safe_rules]:
  assumes "safely p A a R" and "\<And>x. safely p (R x) (f (Inr x)) B" and "\<And>e. safely p (\<lambda>_. True) (f (Inl e)) B"
  shows "safely p A (act_bind (act_try a) f) B"
proof (rule safelyI)
  fix rt r rt'
  assume g: "good p rt" "A (rt_store rt)" and run: "act_bind (act_try a) f rt = (r, rt')"
  obtain q rt1 where a: "a rt = (q, rt1)" by fastforce
  note first = safelyD [OF assms(1) g a]
  have f: "f q rt1 = (r, rt')" using run a by (simp add: act_bind_def act_try_def)
  have g1: "good p rt1" using first(1) by (simp add: follows_def)
  have "follows p rt1 rt' \<and> (\<forall>x. r = Inr x \<longrightarrow> B x (rt_store rt'))"
  proof (cases q)
    case (Inl e)
    then show ?thesis using safelyD [OF assms(3) g1 _ f [unfolded Inl]] by blast
  next
    case (Inr x)
    then show ?thesis using safelyD [OF assms(2) g1 first(2) [OF Inr] f [unfolded Inr]] by blast
  qed
  then show "follows p rt rt' \<and> (\<forall>x. r = Inr x \<longrightarrow> B x (rt_store rt'))"
    using first(1) follows_trans by blast
qed

lemma safely_fold:
  assumes "\<And>x acc. x \<in> set xs \<Longrightarrow> safely p (J acc) (f x acc) J"
  shows "safely p (J acc) (act_fold f xs acc) J"
  using assms by (induction xs arbitrary: acc) (auto intro!: safely_return intro: safely_bind)

section \<open>Ports, reads and saves\<close>

lemma good_call:
  "good p rt \<Longrightarrow> justified p (rt_store rt) c \<Longrightarrow> (\<And>x. c \<noteq> EnterCall x) \<Longrightarrow>
    follows p rt (rt\<lparr>rt_calls := c # rt_calls rt\<rparr>)"
  by (cases c) (simp_all add: follows_def good_def entry_calls_def List.map_filter_def)

lemma safely_call:
  assumes "\<And>s. store_ok p s \<Longrightarrow> A s \<Longrightarrow> justified p s c" and "\<And>x. c \<noteq> EnterCall x"
  shows "safely p A (act_call c f err) (\<lambda>_. A)"
proof (rule safelyI)
  fix rt r rt'
  assume g: "good p rt" "A (rt_store rt)" and run: "act_call c f err rt = (r, rt')"
  have rt': "rt' = rt\<lparr>rt_calls := c # rt_calls rt\<rparr>" using run by (auto simp add: act_call_def)
  have "justified p (rt_store rt) c" using g assms(1) by (simp add: good_def)
  then show "follows p rt rt' \<and> (\<forall>x. r = Inr x \<longrightarrow> A (rt_store rt'))"
    using good_call [OF g(1)] assms(2) g(2) by (simp add: rt')
qed

text \<open>Calls that need no durable fact.\<close>

lemma safely_clock [safe_rules]: "safely p A (clock_now p) (\<lambda>_. A)"
  unfolding clock_now_def by (rule safely_call) simp_all

lemma safely_evaluate [safe_rules]: "safely p A (evaluate_now p q) (\<lambda>_. A)"
  unfolding evaluate_now_def by (rule safely_call) simp_all

lemma safely_resolve [safe_rules]: "safely p A (resolve_now p requirement context now) (\<lambda>_. A)"
  unfolding resolve_now_def by (rule safely_call) simp_all

lemma safely_settle [safe_rules]:
  assumes "\<And>s. store_ok p s \<Longrightarrow> A s \<Longrightarrow> has_settled p x s"
  shows "safely p A (settle_now p x) (\<lambda>_. A)"
  unfolding settle_now_def by (rule safely_call) (simp_all add: assms)

lemma safely_update [safe_rules]:
  assumes "\<And>rt. rt_store (f rt) = rt_store rt" and "\<And>rt. rt_calls (f rt) = rt_calls rt"
  shows "safely p A (act_update f) (\<lambda>_. A)"
  by (rule safelyI) (auto simp add: act_update_def follows_def good_def assms)

lemma safely_next_id [safe_rules]: "safely p A (next_id kind) (\<lambda>_. A)"
  by (rule safelyI) (auto simp add: next_id_def follows_def good_def split: prod.splits)

lemma safely_get [safe_rules]: "safely p A (act_get g) (\<lambda>_. A)"
  by (rule safelyI) (auto simp add: act_get_def intro!: follows_refl)

lemma safely_store_read [safe_rules]:
  "safely p A (store_read p f) (\<lambda>x s. f s = Inr x \<and> A s)"
proof (rule safelyI)
  fix rt r rt'
  assume g: "good p rt" "A (rt_store rt)" and run: "store_read p f rt = (r, rt')"
  have rt': "rt' = rt\<lparr>rt_calls := ReadCall # rt_calls rt\<rparr>"
    and r: "\<And>x. r = Inr x \<Longrightarrow> f (rt_store rt) = Inr x"
    using run by (auto simp add: store_read_def act_call_def act_simps res_simps split: sum.splits)
  then show "follows p rt rt' \<and> (\<forall>x. r = Inr x \<longrightarrow> f (rt_store rt') = Inr x \<and> A (rt_store rt'))"
    using good_call [OF g(1), of ReadCall] g(2) by simp
qed

lemma read_snapshot_Inr:
  "read_snapshot p snap = Inr w \<Longrightarrow> po_from_value p (ss_document snap) = Inr w \<and> read_version w = Inr ()"
  by (auto simp add: read_snapshot_def res_simps)

lemma safely_workflow [safe_rules]:
  "safely p A (workflow p i) (\<lambda>found s. (case found of
      None \<Rightarrow> store_workflow s i = None | Some w \<Rightarrow> stored p s i w \<and> read_version w = Inr ()) \<and> A s)"
  unfolding workflow_def
  by (rule safely_bind [OF safely_store_read], rule safely_lift)
    (auto simp add: res_simps stored_def dest!: read_snapshot_Inr split: option.splits)

lemma safely_require_workflow [safe_rules]:
  "safely p A (require_workflow p i) (\<lambda>w s. (stored p s i w \<and> read_version w = Inr ()) \<and> A s)"
  unfolding require_workflow_def
  by (rule safely_bind [OF safely_workflow], rule safely_lift) (auto simp add: res_simps)

lemma safely_next_active [safe_rules]: "safely p A (next_active p w active) (\<lambda>_. A)"
proof (cases active)
  case (Some count)
  show ?thesis
    unfolding next_active_def Some option.case
    by (rule safely_bind [OF safely_workflow], (rule safely_lift_bind safely_lift)+) simp
qed (simp add: next_active_def safely_return)

text \<open>A commit that took effect replaced one snapshot by the new record's.\<close>

lemma swapped_evolves:
  assumes s: "store_ok p s" and sw: "swapped store_workflow c s s'" and wf: "bm_wf (st_workflows s')"
    and new: "sealed p (ss_workflow (wc_snapshot c)) (wc_snapshot c) w'"
    and old: "\<And>w. stored p s (ss_workflow (wc_snapshot c)) w \<Longrightarrow>
      wc_expected_generation c = Some (wr_generation w) \<Longrightarrow> workflow_evolves w w'"
  shows "store_ok p s'" and "store_evolves p s s'" and "stored p s' (ss_workflow (wc_snapshot c)) w'"
proof -
  let ?i = "ss_workflow (wc_snapshot c)"
  have look: "store_workflow s' = (store_workflow s)(?i \<mapsto> wc_snapshot c)"
    using sw by (simp add: swapped_def)
  show st: "stored p s' ?i w'" using new by (simp add: stored_def look sealed_def)
  show "store_ok p s'" using s wf new by (auto simp add: store_ok_def look)
  show "store_evolves p s s'"
    unfolding store_evolves_def
  proof (intro allI impI)
    fix i w assume w: "stored p s i w"
    show "\<exists>w'. stored p s' i w' \<and> workflow_evolves w w'"
    proof (cases "i = ?i")
      case True
      obtain snap v where snap: "store_workflow s i = Some snap" "po_from_value p (ss_document snap) = Inr w"
        and v: "sealed p i snap v"
        using w s unfolding stored_def store_ok_def by blast
      then have "ss_generation snap = wr_generation w" by (auto simp add: sealed_def snapshot_of_def)
      then have "wc_expected_generation c = Some (wr_generation w)"
        using sw snap(1) True by (auto simp add: swapped_def)
      then show ?thesis using old w st True by blast
    next
      case False
      then have "stored p s' i w" using w by (simp add: stored_def look)
      then show ?thesis using workflow_evolves_refl by blast
    qed
  qed
qed

lemma follows_store:
  assumes "good p rt" and "store_ok p s'" and "store_evolves p (rt_store rt) s'" and "\<And>x. c \<noteq> EnterCall x"
    and "justified p s' c"
  shows "follows p rt (rt\<lparr>rt_store := s', rt_calls := c # rt_calls rt\<rparr>)"
  using assms stableD [OF stable_justified assms(3)]
  by (cases c) (auto simp add: follows_def good_def entry_calls_def List.map_filter_def)

lemma safely_commit:
  assumes new: "\<And>s. store_ok p s \<Longrightarrow> A s \<Longrightarrow> sealed p (ss_workflow (wc_snapshot c)) (wc_snapshot c) w'"
    and old: "\<And>s w. store_ok p s \<Longrightarrow> A s \<Longrightarrow> stored p s (ss_workflow (wc_snapshot c)) w \<Longrightarrow>
      wc_expected_generation c = Some (wr_generation w) \<Longrightarrow> workflow_evolves w w'"
  shows "safely p A (commit_now p c)
    (\<lambda>outcome s. is_applied outcome \<longrightarrow> stored p s (ss_workflow (wc_snapshot c)) w')"
proof (rule safelyI)
  fix rt r rt'
  assume g: "good p rt" "A (rt_store rt)" and run: "commit_now p c rt = (r, rt')"
  let ?s = "rt_store rt"
  obtain q s' where q: "commit_in (po_store_codec p) (po_managed p) (po_storage_limits p)
      (po_store_clock p (rt_calls rt), po_faults p (rt_calls rt)) c ?s = (q, s')" by fastforce
  have r: "r = map_err RtPersistence q" and rt': "rt' = rt\<lparr>rt_store := s', rt_calls := CommitCall # rt_calls rt\<rparr>"
    using run q by (simp_all add: commit_now_def)
  have s: "store_ok p ?s" using g(1) by (simp add: good_def)
  then have wf: "bm_wf (st_workflows ?s)" by (simp add: store_ok_def)
  have wf': "bm_wf (st_workflows s')" by (rule redb.commit_invar [OF wf q])
  note sw = swapped_evolves [OF s _ wf' new [OF s g(2)] old [OF s g(2)]]
  from redb.commit_cases [OF wf q] have "store_ok p s' \<and> store_evolves p ?s s'"
  proof
    assume "s' = ?s" then show ?thesis using s by simp
  next
    assume "swapped store_workflow c ?s s'"
    from sw(1,2) [OF this] show ?thesis by blast
  qed
  then have "follows p rt rt'" unfolding rt' by (intro follows_store) (simp_all add: g(1))
  moreover have "is_applied outcome \<longrightarrow> stored p (rt_store rt') (ss_workflow (wc_snapshot c)) w'"
    if res: "r = Inr outcome" for outcome
  proof
    assume applied: "is_applied outcome"
    have "q = Inr outcome" using res r by (cases q) simp_all
    then obtain receipt where "q = Inr (Applied receipt)"
      using applied by (cases outcome) (simp_all add: is_applied_def)
    then show "stored p (rt_store rt') (ss_workflow (wc_snapshot c)) w'"
      using sw(3) [OF redb.commit_applied [OF wf]] q by (simp add: rt')
  qed
  ultimately show "follows p rt rt' \<and> (\<forall>x. r = Inr x \<longrightarrow> is_applied x \<longrightarrow>
      stored p (rt_store rt') (ss_workflow (wc_snapshot c)) w')" by blast
qed

lemma commit_now_applies:
  assumes "commit_now p c rt = (Inr outcome, rt')" and "wc_command c = None"
  shows "is_applied outcome"
proof -
  let ?run = "commit_workflow (po_store_codec p) (po_managed p) (po_storage_limits p)
    (po_store_clock p (rt_calls rt)) (po_faults p (rt_calls rt)) c (rt_store rt)"
  obtain s' where "?run = (Inr outcome, s')"
    using assms(1) by (auto simp add: commit_now_def commit_in_def res_simps split: prod.splits)
  then show ?thesis
    using assms(2)
    by (auto simp add: commit_workflow_def commit_key_def replay_receipt_def is_applied_def
        split: sum.splits option.splits)
qed

lemma safely_commit_plain:
  assumes "safely p A (commit_now p c) (\<lambda>outcome s. is_applied outcome \<longrightarrow> C s)" and "wc_command c = None"
  shows "safely p A (commit_now p c) (\<lambda>outcome s. is_applied outcome \<and> C s)"
proof (rule safelyI)
  fix rt r rt'
  assume g: "good p rt" "A (rt_store rt)" and run: "commit_now p c rt = (r, rt')"
  note d = safelyD [OF assms(1) g run]
  have "is_applied x" if "r = Inr x" for x using commit_now_applies run that assms(2) by blast
  then show "follows p rt rt' \<and> (\<forall>x. r = Inr x \<longrightarrow> is_applied x \<and> C (rt_store rt'))"
    using d by blast
qed

lemma snapshot_of_simps [simp]:
  "ss_workflow (snapshot_of w document reserved receipts artifacts) = wr_id w"
  "ss_document (snapshot_of w document reserved receipts artifacts) = document"
  by (simp_all add: snapshot_of_def)

lemma sealed_snapshot:
  "roundtrip p \<Longrightarrow> po_to_value p w = Inr document \<Longrightarrow> record_ok (po_codec p) w \<Longrightarrow>
    sealed p (wr_id w) (snapshot_of w document reserved receipts artifacts) w"
  by (auto simp add: sealed_def roundtrip_def)

text \<open>Saving what a record the store holds progressed to, or a new one.\<close>

lemma safely_save:
  assumes rt: "roundtrip p"
    and ok: "\<And>s. store_ok p s \<Longrightarrow> A s \<Longrightarrow> record_ok (po_codec p) w'"
    and old: "\<And>s w. store_ok p s \<Longrightarrow> A s \<Longrightarrow> stored p s (wr_id w') w \<Longrightarrow>
      expected = Some (wr_generation w) \<Longrightarrow> workflow_evolves w w'"
  shows "safely p A (save p w' expected command)
    (\<lambda>outcome s. (command = None \<longrightarrow> is_applied outcome) \<and> (is_applied outcome \<longrightarrow> stored p s (wr_id w') w'))"
proof -
  have commit: "safely p A (commit_now p \<lparr>wc_expected_generation = expected,
      wc_snapshot = snapshot_of w' document reserved receipts artifacts, wc_command = command\<rparr>)
    (\<lambda>outcome s. (command = None \<longrightarrow> is_applied outcome) \<and> (is_applied outcome \<longrightarrow> stored p s (wr_id w') w'))"
    (is "safely p A (commit_now p ?c) _")
    if document: "po_to_value p w' = Inr document" for document reserved receipts artifacts
  proof -
    have c: "safely p A (commit_now p ?c) (\<lambda>outcome s. is_applied outcome \<longrightarrow> stored p s (wr_id w') w')"
      using safely_commit [of p A ?c w'] sealed_snapshot [OF rt document] ok old by simp
    show ?thesis
    proof (cases "command = None")
      case True
      then show ?thesis by (intro safely_weaken [OF safely_commit_plain [OF c]]) simp_all
    next
      case False
      then show ?thesis by (intro safely_weaken [OF c]) auto
    qed
  qed
  show ?thesis
    unfolding save_def
    by (intro safely_lift_bind safely_ensure_bind safely_get_bind
        safely_bind [OF safely_next_active] safely_bind [OF commit] safely_bind [OF safely_update] safely_return)
      (simp_all add: res_simps)
qed

lemma safely_save_stored:
  assumes "roundtrip p" and "progresses (po_codec p) w w'" and "wr_id w' = wr_id w"
  shows "safely p (\<lambda>s. stored p s i w) (save p w' expected command)
    (\<lambda>outcome s. (command = None \<longrightarrow> is_applied outcome) \<and> (is_applied outcome \<longrightarrow> stored p s i w'))"
proof (rule safely_pure)
  fix s assume "store_ok p s" and "stored p s i w"
  from stored_ok [OF this] show "record_ok (po_codec p) w \<and> wr_id w = i" ..
next
  assume w: "record_ok (po_codec p) w \<and> wr_id w = i"
  then have w': "record_ok (po_codec p) w'" "workflow_evolves w w'" "wr_id w' = i"
    using assms(2,3) by (simp_all add: progresses_def)
  have "workflow_evolves v w'" if "stored p s (wr_id w') v" and "stored p s i w" for s v
  proof -
    have "v = w" by (rule stored_unique [where i = i]) (use that w' in simp_all)
    then show ?thesis using w'(2) by simp
  qed
  then show ?thesis
    using safely_save [OF assms(1), of "\<lambda>s. stored p s i w" w' expected command] w' by simp
qed

text \<open>Every transition of a stored workflow: advance what its record progressed to, and save it.\<close>

definition advanced_from ::
  "('doc, 'm) ports \<Rightarrow> workflow_record \<Rightarrow> workflow_record \<Rightarrow> workflow_record \<Rightarrow> bool" where
  "advanced_from p w v w' \<longleftrightarrow> progresses (po_codec p) w w' \<and> wr_id w' = wr_id w
    \<and> wr_limits w' = wr_limits v \<and> wr_allowance w' = wr_allowance v \<and> wr_admissions w' = wr_admissions v
    \<and> unat (wr_generation w') = Suc (unat (wr_generation v))
    \<and> (\<exists>f. asks_stop f \<and> wr_tasks w' = bm_map (\<lambda>_. f) (wr_tasks v))"

lemma safely_advance:
  assumes "progresses (po_codec p) w v" and "wr_id v = wr_id w"
  shows "safely p A (advance p v) (\<lambda>r s. A s \<and> advanced_from p w v (snd r))"
  unfolding advance_def
proof (intro safely_lift_bind safely_bind [OF safely_clock] safely_return)
  fix generation now w' s
  assume g: "ok_or (InvalidTransition ''workflow generation exhausted'') (checked_add (wr_generation v) 1)
      = Inr generation"
    and a: "advanced now (v\<lparr>wr_generation := generation\<rparr>) = Inr w'" and A: "A s"
  have suc: "unat generation = Suc (unat (wr_generation v))"
    using g by (auto simp add: res_simps checked_add_unat)
  then have "wr_generation v \<le> generation" by (simp add: word_order_nat)
  then have "progresses (po_codec p) w w'" using advanced_progresses assms(1) a by blast
  moreover obtain f where f: "asks_stop f" "wr_tasks w' = bm_map (\<lambda>_. f) (wr_tasks v)" "wr_id w' = wr_id v"
      "wr_generation w' = generation" "wr_limits w' = wr_limits v" "wr_allowance w' = wr_allowance v"
      "wr_admissions w' = wr_admissions v"
    by (rule advanced_tasks [OF a]) simp
  ultimately show "A s \<and> advanced_from p w v (snd (wr_generation v, w'))"
    unfolding advanced_from_def snd_conv by (intro conjI exI [of _ f] A) (simp_all add: assms(2) suc)
qed

lemma safely_advance_save:
  assumes "roundtrip p" and "progresses (po_codec p) w v" and "wr_id v = wr_id w"
  shows "safely p (\<lambda>s. stored p s i w) (advance_save p v)
    (\<lambda>w' s. stored p s i w' \<and> advanced_from p w v w')"
  unfolding advance_save_def
proof (rule safely_bind [OF safely_advance [OF assms(2,3)]])
  fix r :: "u64 \<times> workflow_record"
  obtain expected w' where r: "r = (expected, w')" by (cases r)
  show "safely p (\<lambda>s. stored p s i w \<and> advanced_from p w v (snd r))
      (case r of (expected, w') \<Rightarrow> act_bind (save p w' (Some expected) None) (\<lambda>_. act_return w'))
      (\<lambda>w' s. stored p s i w' \<and> advanced_from p w v w')"
    unfolding r prod.case snd_conv
  proof (rule safely_pure [where c = "advanced_from p w v w'"])
    fix s assume "stored p s i w \<and> advanced_from p w v w'"
    then show "advanced_from p w v w'" ..
  next
    assume f: "advanced_from p w v w'"
    then have "progresses (po_codec p) w w'" "wr_id w' = wr_id w" by (simp_all add: advanced_from_def)
    note saved = safely_save_stored [OF assms(1) this, of i "Some expected" None]
    show "safely p (\<lambda>s. stored p s i w \<and> advanced_from p w v w')
        (act_bind (save p w' (Some expected) None) (\<lambda>_. act_return w'))
        (\<lambda>w' s. stored p s i w' \<and> advanced_from p w v w')"
    proof (rule safely_bind)
      show "safely p (\<lambda>s. stored p s i w \<and> advanced_from p w v w') (save p w' (Some expected) None)
          (\<lambda>_ s. stored p s i w')"
        by (rule safely_weaken [OF saved]) simp_all
      show "safely p (\<lambda>s. stored p s i w') (act_return w') (\<lambda>w' s. stored p s i w' \<and> advanced_from p w v w')"
        by (rule safely_return) (simp add: f)
    qed
  qed
qed

section \<open>Observing elapsed time\<close>

lemma charge_nothing:
  assumes "chargeable now t" and "owed now t = 0"
  shows "charge now t = t"
proof (cases "open_duration t")
  case (Some d)
  then obtain fz where fz: "tk_frozen t = Some fz" "fz_duration fz = Some d" "du_accounted_at d \<le> now"
    and c: "charge now t = t\<lparr>tk_frozen := Some (fz\<lparr>fz_duration := Some (d\<lparr>du_accounted_at := now\<rparr>)\<rparr>)\<rparr>"
    using charge_open [OF assms(1)] by blast
  have "du_accounted_at d = now"
    using assms(2) Some fz(3) by (simp add: owed_def word_order_nat word_unat_eq_iff)
  then have "d\<lparr>du_accounted_at := now\<rparr> = d" by (metis execution_duration.surjective execution_duration.update_convs(2))
  then have "fz\<lparr>fz_duration := Some (d\<lparr>du_accounted_at := now\<rparr>)\<rparr> = fz" using fz(2) by simp
  then show ?thesis using c fz(1) by simp
qed (simp add: charge_def)

lemma accrue_unchanged: "accrue w now = Inr (w', False) \<Longrightarrow> w' = w"
proof -
  assume a: "accrue w now = Inr (w', False)"
  obtain spent where ch: "\<forall>t \<in> set (task_list w). chargeable now t"
    and spent: "unat spent = unat (wr_active_execution_ms w) + (\<Sum>t\<leftarrow>task_list w. owed now t)"
    and w': "w' = w\<lparr>wr_tasks := bm_map (\<lambda>_. charge now) (wr_tasks w), wr_active_execution_ms := spent\<rparr>"
    and none: "\<forall>t \<in> set (task_list w). owed now t = 0"
    using a by (auto simp add: accrue_Inr)
  have "bm_map (\<lambda>_. charge now) (wr_tasks w) = wr_tasks w"
    unfolding bm_map_def
    by (rule map_idI) (use ch none charge_nothing in \<open>force simp add: task_list_def bm_values_def\<close>)
  moreover have "(\<Sum>t\<leftarrow>task_list w. owed now t) = 0" using none by simp
  then have "spent = wr_active_execution_ms w" using spent by (simp add: word_unat_eq_iff)
  ultimately show ?thesis by (simp add: w')
qed

lemma duration_stop_unchanged:
  assumes "request_duration_stop w = (w', False)"
  shows "w' = w"
  using assms
proof (cases rule: duration_stop_cases)
  case (1 w1)
  then have none: "w1 = w" "\<forall>t \<in> set (task_list w). \<not> limit_stops (remaining w = 0) t"
    by (simp_all add: list_ex_iff)
  have "bm_map (\<lambda>_ t. if limit_stops (remaining w = 0) t then t\<lparr>tk_stop_requested := True\<rparr> else t) (wr_tasks w)
      = wr_tasks w"
    unfolding bm_map_def by (rule map_idI) (use none(2) in \<open>force simp add: task_list_def bm_values_def\<close>)
  then show ?thesis using 1(2) none(1) by simp
qed

text \<open>
  Every such bookkeeping step keeps the limits, the allowance and the state of each task, and leaves a task that was not started
  alone.
\<close>

definition same_unstarted :: "workflow_record \<Rightarrow> workflow_record \<Rightarrow> bool" where
  "same_unstarted w w' \<longleftrightarrow> wr_id w' = wr_id w \<and> wr_limits w' = wr_limits w \<and> wr_allowance w' = wr_allowance w
    \<and> (\<forall>tid. map_option tk_state (map_of (wr_tasks w') tid) = map_option tk_state (map_of (wr_tasks w) tid))
    \<and> (\<forall>tid t. map_of (wr_tasks w) tid = Some t \<longrightarrow> tk_frozen t = None \<longrightarrow> map_of (wr_tasks w') tid = Some t)"

lemma same_unstarted_refl [simp]: "same_unstarted w w"
  by (simp add: same_unstarted_def)

lemma same_unstarted_trans: "same_unstarted a b \<Longrightarrow> same_unstarted b c \<Longrightarrow> same_unstarted a c"
  by (simp add: same_unstarted_def)

lemma same_unstarted_map:
  assumes "wr_id w' = wr_id w" and "wr_limits w' = wr_limits w" and "wr_allowance w' = wr_allowance w"
    and "wr_tasks w' = bm_map (\<lambda>_. f) (wr_tasks w)"
    and "\<And>t. tk_state (f t) = tk_state t" and "\<And>t. tk_frozen t = None \<Longrightarrow> f t = t"
  shows "same_unstarted w w'"
  using assms by (simp add: same_unstarted_def option.map_comp comp_def)

lemma same_unstarted_accrue: "accrue w now = Inr (w', changed) \<Longrightarrow> same_unstarted w w'"
  by (rule same_unstarted_map [where f = "charge now"])
    (auto simp add: accrue_Inr charge_def set_accounted_def open_duration_def task_duration_def split: option.splits)

lemma same_unstarted_duration_stop: "request_duration_stop w = (w', changed) \<Longrightarrow> same_unstarted w w'"
  by (erule duration_stop_cases,
      rule same_unstarted_map [where f = "\<lambda>t. if limit_stops (remaining w = 0) t then t\<lparr>tk_stop_requested := True\<rparr> else t"])
    (simp_all add: limit_stops_def)

lemma same_unstarted_policy_stop: "request_policy_stop w = Inr (w', changed) \<Longrightarrow> same_unstarted w w'"
  by (erule policy_stop_tasks, rule same_unstarted_map, assumption+) (simp_all add: asks_stop_unstarted asks_stop_simps)

lemma same_unstarted_advanced:
  assumes "advanced_from p w v w'" and "same_unstarted u v" and "wr_id v = wr_id w"
  shows "same_unstarted u w'"
proof -
  obtain f where f: "asks_stop f" "wr_tasks w' = bm_map (\<lambda>_. f) (wr_tasks v)" and "wr_id w' = wr_id w" "wr_limits w' = wr_limits v"
    "wr_allowance w' = wr_allowance v"
    using assms(1) by (auto simp add: advanced_from_def)
  then have "same_unstarted v w'"
    using assms(3) by (intro same_unstarted_map [OF _ _ _ f(2)]) (simp_all add: asks_stop_unstarted asks_stop_simps)
  then show ?thesis using assms(2) by (rule same_unstarted_trans [rotated])
qed

lemma safely_observe_duration:
  assumes "roundtrip p"
  shows "safely p (\<lambda>s. stored p s i w) (observe_duration p w now) (\<lambda>w' s. stored p s i w' \<and> same_unstarted w w')"
  unfolding observe_duration_def
proof (rule safely_lift_bind, clarify)
  fix v changed
  assume a: "accrue w now = Inr (v, changed)"
  obtain u stopped where u: "request_duration_stop v = (u, stopped)" by fastforce
  have uv: "progresses (po_codec p) w u" "same_unstarted w u"
    using progresses_trans [OF accrue_progresses [OF a] duration_stop_progresses [OF u]]
      same_unstarted_trans [OF same_unstarted_accrue [OF a] same_unstarted_duration_stop [OF u]] .
  then have wid: "wr_id u = wr_id w" by (simp add: same_unstarted_def)
  have "safely p (\<lambda>s. stored p s i w) (if stopped \<or> changed then advance_save p u else act_return u)
      (\<lambda>w' s. stored p s i w' \<and> same_unstarted w w')"
  proof (rule safely_if)
    show "safely p (\<lambda>s. stored p s i w) (advance_save p u) (\<lambda>w' s. stored p s i w' \<and> same_unstarted w w')"
      by (rule safely_weaken [OF safely_advance_save [OF assms uv(1) wid]])
        (use uv(2) wid same_unstarted_advanced in blast)+
    assume "\<not> (stopped \<or> changed)"
    then have "u = v" "v = w"
      using a u by (simp_all add: accrue_unchanged duration_stop_unchanged)
    then have "u = w" by simp
    then show "safely p (\<lambda>s. stored p s i w) (act_return u) (\<lambda>w' s. stored p s i w' \<and> same_unstarted w w')"
      by (intro safely_return) simp
  qed
  then show "safely p (\<lambda>s. stored p s i w) (case request_duration_stop v of
      (w'', stopped) \<Rightarrow> if stopped \<or> changed then advance_save p w'' else act_return w'')
    (\<lambda>w' s. stored p s i w' \<and> same_unstarted w w')" by (simp add: u)
qed

section \<open>Rules for the handlers\<close>

lemma safely_conj:
  assumes "safely p A a B" and "safely p A a C"
  shows "safely p A a (\<lambda>x s. B x s \<and> C x s)"
proof (rule safelyI)
  fix rt r rt'
  assume g: "good p rt" "A (rt_store rt)" "a rt = (r, rt')"
  from safelyD [OF assms(1) g] safelyD [OF assms(2) g]
  show "follows p rt rt' \<and> (\<forall>x. r = Inr x \<longrightarrow> B x (rt_store rt') \<and> C x (rt_store rt'))" by blast
qed

lemma safely_true: "safely p A a B \<Longrightarrow> safely p A a (\<lambda>_ _. True)"
  by (erule safely_weaken) simp_all

lemma safely_kept:
  assumes "safely p A a B" and "stable p C" and "\<And>s. A s \<Longrightarrow> C s"
  shows "safely p A a (\<lambda>_. C)"
  by (rule safely_weaken [OF safely_frame [OF assms(1,2)]]) (simp_all add: assms(3))

lemma safely_call_bind:
  assumes "safely p A a (\<lambda>_. A)" and "\<And>x. safely p A (f x) B"
  shows "safely p A (act_bind a f) B"
  using assms by (rule safely_bind)

lemmas safely_clock_bind = safely_call_bind [OF safely_clock]
  and safely_evaluate_bind = safely_call_bind [OF safely_evaluate]

lemma safely_store_read_bind:
  assumes "\<And>x. safely p A (f x) B"
  shows "safely p A (act_bind (store_read p g) f) B"
  by (rule safely_bind [OF safely_store_read], rule safely_weaken [OF assms]) simp_all

lemma safely_read_keep:
  assumes "\<And>w. record_ok (po_codec p) w \<Longrightarrow> wr_id w = i \<Longrightarrow> read_version w = Inr () \<Longrightarrow>
    safely p (\<lambda>s. stored p s i w \<and> A s) (f w) B"
  shows "safely p A (act_bind (require_workflow p i) f) B"
proof (rule safely_bind [OF safely_require_workflow])
  fix w
  show "safely p (\<lambda>s. (stored p s i w \<and> read_version w = Inr ()) \<and> A s) (f w) B"
  proof (rule safely_pure)
    fix s assume "store_ok p s" "(stored p s i w \<and> read_version w = Inr ()) \<and> A s"
    then show "record_ok (po_codec p) w \<and> wr_id w = i \<and> read_version w = Inr ()" using stored_ok by blast
  next
    assume "record_ok (po_codec p) w \<and> wr_id w = i \<and> read_version w = Inr ()"
    then have "safely p (\<lambda>s. stored p s i w \<and> A s) (f w) B" using assms by blast
    then show "safely p (\<lambda>s. (stored p s i w \<and> read_version w = Inr ()) \<and> A s) (f w) B"
      by (rule safely_weaken) simp_all
  qed
qed

lemma safely_read_bind:
  assumes "\<And>w. record_ok (po_codec p) w \<Longrightarrow> wr_id w = i \<Longrightarrow> read_version w = Inr () \<Longrightarrow>
    safely p (\<lambda>s. stored p s i w) (f w) B"
  shows "safely p A (act_bind (require_workflow p i) f) B"
  by (rule safely_read_keep, rule safely_weaken [OF assms]) simp_all

lemma safely_transition_bind:
  assumes "roundtrip p" and "progresses (po_codec p) w v" and "wr_id v = wr_id w"
    and "\<And>w'. advanced_from p w v w' \<Longrightarrow> safely p (\<lambda>s. stored p s i w') (f w') B"
  shows "safely p (\<lambda>s. stored p s i w) (act_bind (advance_save p v) f) B"
proof (rule safely_bind [OF safely_advance_save [OF assms(1-3)]])
  fix w'
  show "safely p (\<lambda>s. stored p s i w' \<and> advanced_from p w v w') (f w') B"
  proof (rule safely_pure)
    assume "advanced_from p w v w'"
    then have "safely p (\<lambda>s. stored p s i w') (f w') B" by (rule assms(4))
    then show "safely p (\<lambda>s. stored p s i w' \<and> advanced_from p w v w') (f w') B"
      by (rule safely_weaken) simp_all
  qed simp
qed

lemma safely_observe_bind:
  assumes "roundtrip p"
    and "\<And>w'. record_ok (po_codec p) w' \<Longrightarrow> wr_id w' = i \<Longrightarrow> same_unstarted w w' \<Longrightarrow>
      safely p (\<lambda>s. stored p s i w') (f w') B"
  shows "safely p (\<lambda>s. stored p s i w) (act_bind (observe_duration p w now) f) B"
proof (rule safely_bind [OF safely_observe_duration [OF assms(1)]])
  fix w'
  show "safely p (\<lambda>s. stored p s i w' \<and> same_unstarted w w') (f w') B"
  proof (rule safely_pure)
    fix s assume "store_ok p s" "stored p s i w' \<and> same_unstarted w w'"
    then show "record_ok (po_codec p) w' \<and> wr_id w' = i \<and> same_unstarted w w'" using stored_ok by blast
  next
    assume "record_ok (po_codec p) w' \<and> wr_id w' = i \<and> same_unstarted w w'"
    then have "safely p (\<lambda>s. stored p s i w') (f w') B" using assms(2) by blast
    then show "safely p (\<lambda>s. stored p s i w' \<and> same_unstarted w w') (f w') B"
      by (rule safely_weaken) simp_all
  qed
qed

lemma record_task:
  assumes "record_ok codec w" and "map_of (wr_tasks w) tid = Some t"
  shows "task_ok codec (wr_id w) tid t"
  using assms by (simp add: record_ok_def)

lemma task_start:
  assumes "task_ok codec wid tid t" and "tk_frozen t = Some fz"
  shows "start_ok codec wid t fz" and "xd_run (fz_dispatch fz) = wid" and "xd_node (fz_dispatch fz) = tid"
  using assms by (simp_all add: task_ok_def start_ok_def)

lemma ownsI:
  assumes "store_ok p s" and "stored p s i w" and "map_of (wr_tasks w) tid = Some t" and "tk_frozen t = Some fz"
    and "rebound x (fz_dispatch fz)" and "P t fz"
  shows "owns p s x P"
proof -
  have "task_ok (po_codec p) i tid t" using record_task stored_ok assms(1-3) by metis
  from task_start(2,3) [OF this assms(4)] have "xd_run x = i" "xd_node x = tid" using assms(5) by simp_all
  then show ?thesis using assms by (auto simp add: owns_def)
qed

lemma advanced_task:
  assumes "advanced_from p w v w'" and "map_of (wr_tasks v) tid = Some t"
  obtains t' where "map_of (wr_tasks w') tid = Some t'" "tk_state t' = tk_state t" "tk_frozen t' = tk_frozen t"
    "tk_result t' = tk_result t"
proof -
  obtain f where f: "asks_stop f" "wr_tasks w' = bm_map (\<lambda>_. f) (wr_tasks v)"
    using assms(1) by (auto simp add: advanced_from_def)
  show ?thesis by (rule that [of "f t"]) (use assms(2) f in \<open>simp_all add: asks_stop_simps\<close>)
qed

lemma advanced_record:
  assumes "record_ok (po_codec p) w" and "advanced_from p w v w'"
  shows "record_ok (po_codec p) w'" and "wr_id w' = wr_id w"
  using assms by (simp_all add: advanced_from_def progresses_def)

text \<open>A loop whose invariant depends on what is left to do.\<close>

lemma safely_fold_rest:
  assumes "\<And>x xs acc. safely p (J (x # xs) acc) (f x acc) (J xs)"
  shows "safely p (J xs acc) (act_fold f xs acc) (J [])"
proof (induction xs arbitrary: acc)
  case (Cons x xs)
  then show ?case by (simp add: safely_bind [OF assms])
qed (simp add: safely_return)

end
