(* ===== verification/Effects.thy ===== *)
theory Effects
  imports Evolution
begin

text \<open>
  External effects of \<^verbatim>\<open>crates/runtime/src/tasks/effects.rs\<close>: entering a prepared start once,
  refusing or deferring one before entry, recording reports and heartbeats of the adapter, marking an
  outcome unresolved, cancellation, and recovery after a restart.  A method that releases the
  transition gate in the middle is split there; \<^verbatim>\<open>pending\<close> is what it does next.
\<close>

section \<open>Coordinates\<close>

definition identity_display :: "identity_error \<Rightarrow> string" where
  "identity_display e = (case e of IdentityError kind reason \<Rightarrow> ''invalid '' @ kind @ '': '' @ reason)"

definition workflow_of_run :: "run_id \<Rightarrow> runtime_error + workflow_id" where
  "workflow_of_run run = res_map (\<lambda>_. run)
    (map_err (\<lambda>e. transition_error (identity_display e)) (validate_identity run ''WorkflowId'' 128))"

definition task_of_node :: "node_id \<Rightarrow> runtime_error + task_id" where
  "task_of_node node = res_map (\<lambda>_. node)
    (map_err (\<lambda>e. transition_error (identity_display e)) (validate_identity node ''TaskId'' 128))"

definition find_task :: "workflow_record \<Rightarrow> task_id \<Rightarrow> string \<Rightarrow> runtime_error + task_record" where
  "find_task w tid message = ok_or (transition_error message) (map_of (wr_tasks w) tid)"

definition find_start :: "task_record \<Rightarrow> string \<Rightarrow> runtime_error + frozen_start" where
  "find_start t message = ok_or (transition_error message) (tk_frozen t)"

definition set_task :: "task_id \<Rightarrow> task_record \<Rightarrow> workflow_record \<Rightarrow> workflow_record" where
  "set_task tid t w = w\<lparr>wr_tasks := bm_adjust tid (\<lambda>_. t) (wr_tasks w)\<rparr>"

definition bounded_reason :: "string \<Rightarrow> string option" where
  "bounded_reason reason = Some (truncate_utf8 reason 4096)"


section \<open>Settlement without entry and unresolved outcomes\<close>

definition settle_start :: "('doc, 'm) ports \<Rightarrow> task_record \<Rightarrow> ('doc, 'm, unit) act" where
  "settle_start p t = (case tk_frozen t of None \<Rightarrow> act_return () | Some fz \<Rightarrow> settle_now p (fz_dispatch fz))"

definition paused :: "bool \<Rightarrow> string \<Rightarrow> workflow_record \<Rightarrow> workflow_record" where
  "paused pause reason w = (if pause
    then w\<lparr>wr_wait_question := bounded_reason reason, wr_model_admission_wait := None\<rparr> else w)"

definition finish_without_entry_policy ::
  "('doc, 'm) ports \<Rightarrow> workflow_id \<Rightarrow> task_id \<Rightarrow> task_state \<Rightarrow> string \<Rightarrow> bool \<Rightarrow> ('doc, 'm, unit) act" where
  "finish_without_entry_policy p wid tid state reason pause =
    act_bind (require_workflow p wid) (\<lambda>w.
    act_bind (act_lift (find_task w tid ''task is absent'')) (\<lambda>t.
    if is_settled (tk_state t) then settle_start p t
    else
      act_bind (act_ensure (\<not> opt_any (\<lambda>fz. fz_entered fz \<or> fz_duration fz \<noteq> None) (tk_frozen t))
        (transition_error ''entered or unresolved task cannot be settled using non-entry evidence'')) (\<lambda>_.
      act_bind (clock_now p) (\<lambda>now.
      act_bind (advance_save p (set_task tid
        (t\<lparr>tk_state := state, tk_reason := bounded_reason reason, tk_ended_at := Some now\<rparr>)
        (paused pause reason w))) (\<lambda>_.
      settle_start p t)))))"

definition finish_without_entry ::
  "('doc, 'm) ports \<Rightarrow> workflow_id \<Rightarrow> task_id \<Rightarrow> task_state \<Rightarrow> string \<Rightarrow> ('doc, 'm, unit) act" where
  "finish_without_entry p wid tid state reason = finish_without_entry_policy p wid tid state reason False"

definition unresolved_duration ::
  "workflow_record \<Rightarrow> task_record \<Rightarrow> frozen_start \<Rightarrow> runtime_error + execution_duration" where
  "unresolved_duration w t fz = (case fz_duration fz of
      Some d \<Rightarrow> Inr d
    | None \<Rightarrow> res_map (\<lambda>started_at. \<lparr>du_started_at = started_at, du_accounted_at = started_at,
          du_maximum_ms = wl_active_execution_ms (wr_limits w)\<rparr>)
        (ok_or (transition_error ''uncertain task lost its accepted start time'') (tk_started_at t)))"

definition mark_uncertain ::
  "('doc, 'm) ports \<Rightarrow> workflow_id \<Rightarrow> task_id \<Rightarrow> string \<Rightarrow> ('doc, 'm, unit) act" where
  "mark_uncertain p wid tid reason =
    act_bind (require_workflow p wid) (\<lambda>w.
    act_bind (act_lift (find_task w tid ''task is absent'')) (\<lambda>t.
    if is_settled (tk_state t) then act_return ()
    else
      act_bind (act_lift (find_start t ''uncertain task lost its accepted start'')) (\<lambda>fz.
      act_bind (act_lift (unresolved_duration w t fz)) (\<lambda>duration.
      act_bind (clock_now p) (\<lambda>now.
      act_bind (act_lift (accrue (set_task tid (t\<lparr>tk_state := Unresolved,
        tk_frozen := Some (fz\<lparr>fz_duration := Some duration\<rparr>), tk_reason := bounded_reason reason\<rparr>) w) now))
        (\<lambda>(accrued, _).
      act_bind (advance_save p (fst (request_duration_stop accrued))) (\<lambda>_.
      act_return ())))))))"


section \<open>Entering once\<close>

definition claim_execution :: "invocation_id \<Rightarrow> ('doc, 'm, unit) act" where
  "claim_execution invocation = (\<lambda>rt.
    if 65536 \<le> length (rt_executing rt) \<or> invocation \<in> set (rt_executing rt)
    then (Inl (transition_error ''exact task invocation is already owned by an active worker''), rt)
    else (Inr (), rt\<lparr>rt_executing := bs_insert invocation (rt_executing rt)\<rparr>))"

definition release_claim :: "invocation_id \<Rightarrow> ('doc, 'm, unit) act" where
  "release_claim invocation =
    act_update (\<lambda>rt. rt\<lparr>rt_executing := filter (\<lambda>i. i \<noteq> invocation) (rt_executing rt)\<rparr>)"

definition dispatch_invocation :: "execution_dispatch \<Rightarrow> invocation_id" where
  "dispatch_invocation x = ir_invocation (xd_request x)"

text \<open>The exact unentered start a dispatch must still own.\<close>

definition owns_unentered :: "execution_dispatch \<Rightarrow> task_record \<Rightarrow> frozen_start \<Rightarrow> bool" where
  "owns_unentered x t fz \<longleftrightarrow> fz_dispatch fz = x \<and> \<not> fz_entered fz \<and> tk_state t = Running"

definition check_owned ::
  "('doc, 'm) ports \<Rightarrow> workflow_id \<Rightarrow> task_id \<Rightarrow> execution_dispatch \<Rightarrow> ('doc, 'm, bool) act" where
  "check_owned p wid tid x =
    act_bind (require_workflow p wid) (\<lambda>w.
    act_bind (act_lift (find_task w tid ''dispatch task is absent'')) (\<lambda>t.
    act_bind (act_lift (find_start t ''dispatch has no frozen start'')) (\<lambda>fz.
    act_bind (act_ensure (owns_unentered x t fz)
      (transition_error ''dispatch no longer owns the exact unentered task'')) (\<lambda>_.
    act_return (tk_stop_requested t)))))"

datatype pending =
    NothingLeft
  | SettleIt execution_dispatch
  | FinishIt task_state string bool
  | EnterIt execution_dispatch

definition run_pending ::
  "('doc, 'm) ports \<Rightarrow> workflow_id \<Rightarrow> task_id \<Rightarrow> pending \<Rightarrow> ('doc, 'm, unit) act" where
  "run_pending p wid tid next = (case next of
      SettleIt x \<Rightarrow> settle_now p x
    | FinishIt state reason pause \<Rightarrow> finish_without_entry_policy p wid tid state reason pause
    | _ \<Rightarrow> act_return ())"

definition defer_before_entry ::
  "('doc, 'm) ports \<Rightarrow> workflow_id \<Rightarrow> task_id \<Rightarrow> execution_dispatch \<Rightarrow> string \<Rightarrow> ('doc, 'm, pending) act" where
  "defer_before_entry p wid tid x reason =
    act_bind (require_workflow p wid) (\<lambda>read.
    act_bind (clock_now p) (\<lambda>now.
    act_bind (act_lift (accrue read now)) (\<lambda>(w, _).
    act_bind (act_lift (find_task w tid ''capacity-deferred task is absent'')) (\<lambda>t.
    if is_settled (tk_state t) then act_return (SettleIt x)
    else
      act_bind (act_lift (find_start t ''capacity refusal lost its accepted start'')) (\<lambda>fz.
      act_bind (act_ensure (owns_unentered x t fz)
        (transition_error ''capacity refusal does not own the exact unentered task'')) (\<lambda>_.
      if tk_stop_requested t
      then act_return (FinishIt Stopped ''stopped while awaiting capability capacity'' False)
      else
        act_bind (advance_save p (set_task tid (t\<lparr>tk_state := Queued,
          tk_reason := bounded_reason (''waiting for capability capacity: '' @ reason)\<rparr>) w)) (\<lambda>_.
        act_bind (release_claim (dispatch_invocation x)) (\<lambda>_.
        act_return NothingLeft))))))))"

text \<open>
  The identity of the last decision hashes the invocation; the hash renders as 64 hexadecimal
  digits, so \<^verbatim>\<open>DecisionId::new\<close> accepts it.
\<close>

definition entry_request :: "('doc, 'm) ports \<Rightarrow> execution_dispatch \<Rightarrow> timestamp \<Rightarrow> authority_request" where
  "entry_request p x now = (ad_request (xd_entry_authorization x))\<lparr>
    aq_decision := ''entry_'' @ po_blake3 p (dispatch_invocation x), aq_evaluated_at := now\<rparr>"

definition entry_reservation ::
  "workflow_record \<Rightarrow> execution_dispatch \<Rightarrow> admission_envelope
    \<Rightarrow> runtime_error + (authority_budget \<times> string option \<times> u64)" where
  "entry_reservation w x envelope =
    res_bind (reserve_duration w envelope) (\<lambda>maximum.
    res_map (\<lambda>(allowance, currency). (allowance, currency, maximum)) (reserve_account w x envelope maximum))"

definition entered_record ::
  "task_id \<Rightarrow> task_record \<Rightarrow> frozen_start \<Rightarrow> execution_dispatch \<Rightarrow> timestamp
    \<Rightarrow> authority_budget \<times> string option \<times> u64 \<Rightarrow> workflow_record \<Rightarrow> workflow_record" where
  "entered_record tid t fz exact now reservation w = (case reservation of (allowance, currency, maximum) \<Rightarrow>
    (set_task tid (t\<lparr>tk_frozen := Some (fz\<lparr>fz_dispatch := exact, fz_entered := True,
      fz_duration := Some \<lparr>du_started_at = now, du_accounted_at = now, du_maximum_ms = maximum\<rparr>\<rparr>)\<rparr>) w)
    \<lparr>wr_committed_allowance := allowance, wr_spending_currency := currency\<rparr>)"

definition enter_owned ::
  "('doc, 'm) ports \<Rightarrow> task_id \<Rightarrow> execution_dispatch \<Rightarrow> timestamp
    \<Rightarrow> authority_budget \<times> string option \<times> u64 \<Rightarrow> workflow_record \<Rightarrow> ('doc, 'm, pending) act" where
  "enter_owned p tid x now reservation w =
    act_bind (act_lift (find_task w tid ''dispatch task is absent'')) (\<lambda>t.
    act_bind (act_lift (find_start t ''dispatch has no frozen start'')) (\<lambda>fz.
    act_bind (act_ensure (owns_unentered x t fz)
      (transition_error ''task changed during preparation'')) (\<lambda>_.
    if tk_stop_requested t then act_return (FinishIt Stopped ''stopped during local preparation'' False)
    else
      act_bind (evaluate_now p (entry_request p x now)) (\<lambda>decision.
      if \<not> is_allowed decision
      then act_return (FinishIt Failed ''authority was revoked before external entry'' False)
      else if xd_lease_expires_at x \<le> now
      then act_return (FinishIt Failed ''task execution allowance expired before entry'' False)
      else
        act_bind (act_lift (map_err RtExecutor
          (with_entry_authorization (po_payload_digest p) x decision))) (\<lambda>exact.
        act_bind (advance_save p (entered_record tid t fz exact now reservation w)) (\<lambda>_.
        act_return (EnterIt exact)))))))"

definition entry_section ::
  "('doc, 'm) ports \<Rightarrow> workflow_id \<Rightarrow> task_id \<Rightarrow> execution_dispatch \<Rightarrow> prepared_execution
    \<Rightarrow> ('doc, 'm, pending) act" where
  "entry_section p wid tid x prepared =
    act_bind (require_workflow p wid) (\<lambda>read.
    act_bind (clock_now p) (\<lambda>now.
    act_bind (observe_duration p read now) (\<lambda>w.
    if opt_any (\<lambda>t. is_settled (tk_state t)) (map_of (wr_tasks w) tid) then act_return (SettleIt x)
    else case wr_wait_question w of
      Some reason \<Rightarrow>
        act_return (FinishIt Failed (''workflow paused before external entry: '' @ reason) False)
    | None \<Rightarrow> (case entry_reservation w x (pe_envelope prepared) of
        Inl error \<Rightarrow> act_return (FinishIt Failed (runtime_display (po_quoted p) error) True)
      | Inr reservation \<Rightarrow> enter_owned p tid x now reservation w))))"

section \<open>Reports and heartbeats\<close>

definition "MAX_REPORTS_PER_DISPATCH = (1024 :: nat)"

definition check_continuation ::
  "('doc, 'm) ports \<Rightarrow> workflow_id \<Rightarrow> task_id \<Rightarrow> execution_dispatch \<Rightarrow> ('doc, 'm, observation_disposition) act" where
  "check_continuation p wid tid x =
    act_bind (require_workflow p wid) (\<lambda>read.
    act_bind (clock_now p) (\<lambda>now.
    act_bind (observe_duration p read now) (\<lambda>w.
    act_bind (act_lift (find_task w tid ''heartbeat task disappeared'')) (\<lambda>t.
    act_bind (act_ensure (opt_any (\<lambda>fz. fz_entered fz \<and> fz_dispatch fz = x) (tk_frozen t)
        \<and> \<not> is_settled (tk_state t))
      (transition_error ''heartbeat differs from an unsettled entered execution'')) (\<lambda>_.
    act_bind (act_ensure (\<not> (tk_stop_requested t \<or> remaining w = 0 \<or> xd_lease_expires_at x \<le> now))
      (transition_error ''task continuation refused by its stop or cumulative execution allowance'')) (\<lambda>_.
    act_return ObservationApplied))))))"

definition kind_progress :: "invocation_event_kind \<Rightarrow> string option" where
  "kind_progress k = (case k of ProgressEvent message _ _ \<Rightarrow> Some message | _ \<Rightarrow> None)"

definition pending_admission :: "artifact_reference option \<Rightarrow> frozen_start \<Rightarrow> model_admission" where
  "pending_admission response fz = \<lparr>ma_response = response,
    ma_expected_generation = fz_accepted_generation fz, ma_status = PendingAdmission, ma_reason = None,
    ma_repair_allowed = False, ma_receipt_key = None, ma_aliases = []\<rparr>"

text \<open>What a terminal report makes of its task, over the outputs published before it.\<close>

definition settle_report ::
  "(invocation_failure \<Rightarrow> string) \<Rightarrow> timestamp \<Rightarrow> frozen_start \<Rightarrow> invocation_terminal \<Rightarrow> task_record \<Rightarrow> task_record" where
  "settle_report failure_debug now fz terminal t =
    (let state = terminal_state (tm_status terminal);
         outputs = published_outputs (fz_reports fz);
         contract = (if state = Completed then output_contract_failure (fz_definition fz) outputs else None) in
     t\<lparr>tk_state := (if contract = None then state else Failed),
       tk_ended_at := (if is_settled state then Some now else None),
       tk_reason := (if contract = None then map_option failure_debug (tm_failure terminal) else contract),
       tk_result := Some \<lparr>tr_terminal = terminal, tr_outputs = outputs, tr_recorded_at = now\<rparr>\<rparr>)"

definition reported_task ::
  "(invocation_failure \<Rightarrow> string) \<Rightarrow> timestamp \<Rightarrow> frozen_start \<Rightarrow> invocation_event \<Rightarrow> task_record \<Rightarrow> task_record" where
  "reported_task failure_debug now fz report t =
    (let fz' = fz\<lparr>fz_reports := fz_reports fz @ [report]\<rparr>;
         t' = t\<lparr>tk_frozen := Some fz', tk_reason := (case kind_progress (ev_kind report) of
           None \<Rightarrow> tk_reason t | Some message \<Rightarrow> Some message)\<rparr> in
     case kind_terminal (ev_kind report) of
       None \<Rightarrow> t'
     | Some terminal \<Rightarrow> settle_report failure_debug now fz' terminal t')"

text \<open>
  The admissions after a report: a published model response is admitted at once, and a task that
  completes without one is admitted with no response.
\<close>

definition reported_admissions ::
  "task_id \<Rightarrow> frozen_start \<Rightarrow> invocation_event \<Rightarrow> task_record
    \<Rightarrow> (task_id, model_admission) bmap \<Rightarrow> (task_id, model_admission) bmap" where
  "reported_admissions tid fz report t admissions =
    (if td_actions (fz_definition fz) = None then admissions
     else
      let published = (case kind_output (ev_kind report) of
          Some (name, reference) \<Rightarrow> if name = ''model_response''
            then bm_insert tid (pending_admission (Some reference) fz) admissions else admissions
        | None \<Rightarrow> admissions) in
      if is_terminal report \<and> tk_state t = Completed \<and> \<not> bm_contains published tid
      then bm_insert tid (pending_admission
        (Option.bind (tk_result t) (\<lambda>r. map_of (tr_outputs r) ''model_response'')) fz) published
      else published)"

text \<open>One report on the accrued record; None when it was recorded before.\<close>

definition apply_report ::
  "('doc, 'm) ports \<Rightarrow> task_id \<Rightarrow> execution_dispatch \<Rightarrow> invocation_event \<Rightarrow> timestamp \<Rightarrow> workflow_record
    \<Rightarrow> runtime_error + workflow_record option" where
  "apply_report p tid x report now w =
    res_bind (find_task w tid ''report task disappeared'') (\<lambda>t.
    res_bind (find_start t ''report task lost its start'') (\<lambda>fz.
    res_bind (ensure (fz_entered fz \<and> fz_dispatch fz = x)
      (transition_error ''report differs from exact entered dispatch'')) (\<lambda>_.
    (case List.find (\<lambda>e. ev_sequence e = ev_sequence report) (fz_reports fz) of
      Some existing \<Rightarrow>
        if existing = report then Inr None
        else Inl (transition_error ''report sequence reused with different content'')
    | None \<Rightarrow>
        res_bind (ensure (\<not> (is_settled (tk_state t) \<or> tk_result t \<noteq> None
            \<or> MAX_REPORTS_PER_DISPATCH \<le> length (fz_reports fz)
            \<or> ev_sequence report \<noteq> of_nat (Suc (length (fz_reports fz)))))
          (transition_error ''report sequence or task state is invalid'')) (\<lambda>_.
        res_bind (validate_report (po_codec p) (fz_reports fz) report) (\<lambda>_.
        res_bind (ensure (\<not> opt_any (\<lambda>out. list_ex (\<lambda>prior. fst prior = fst out) (report_outputs (fz_reports fz)))
            (kind_output (ev_kind report)))
          (transition_error ''an immutable named output cannot be published twice'')) (\<lambda>_.
        let t' = reported_task (po_failure_debug p) now fz report t in
        Inr (Some ((set_task tid t' w)
          \<lparr>wr_admissions := reported_admissions tid fz report t' (wr_admissions w)\<rparr>)))))))))"

definition record_report ::
  "('doc, 'm) ports \<Rightarrow> workflow_id \<Rightarrow> task_id \<Rightarrow> execution_dispatch \<Rightarrow> invocation_event
    \<Rightarrow> ('doc, 'm, observation_disposition) act" where
  "record_report p wid tid x report =
    act_bind (act_ensure (ev_invocation report = dispatch_invocation x)
      (transition_error ''report names another invocation'')) (\<lambda>_.
    act_bind (require_workflow p wid) (\<lambda>read.
    act_bind (clock_now p) (\<lambda>now.
    act_bind (act_lift (accrue read now)) (\<lambda>(w, _).
    act_bind (act_lift (apply_report p tid x report now w)) (\<lambda>applied. case applied of
      None \<Rightarrow> act_return Replayed
    | Some reported \<Rightarrow>
        let w' = fst (request_duration_stop reported) in
        act_bind (advance_save p w') (\<lambda>_.
        act_bind (act_ensure (\<not> (\<not> is_terminal report \<and> opt_any tk_stop_requested (map_of (wr_tasks w') tid)))
          (transition_error (''further execution refused after the retained report exhausted its duration ''
            @ ''or stop allowance''))) (\<lambda>_.
        act_return ObservationApplied)))))))"


section \<open>One execution\<close>

definition reporter_call ::
  "('doc, 'm) ports \<Rightarrow> workflow_id \<Rightarrow> task_id \<Rightarrow> execution_dispatch \<Rightarrow> adapter_call
    \<Rightarrow> ('doc, 'm, observation_disposition) act" where
  "reporter_call p wid tid x c = (case c of
      ReportCall report \<Rightarrow> record_report p wid tid x report
    | HeartbeatCall \<Rightarrow> check_continuation p wid tid x)"

text \<open>
  The adapter's run.  It sees the outcome of each of its calls; the list of calls it makes is
  whatever they were in this run.
\<close>

definition adapter_run ::
  "('doc, 'm) ports \<Rightarrow> workflow_id \<Rightarrow> task_id \<Rightarrow> execution_dispatch \<Rightarrow> adapter_call list \<Rightarrow> ('doc, 'm, unit) act" where
  "adapter_run p wid tid x calls =
    act_fold (\<lambda>c _. act_bind (act_try (reporter_call p wid tid x c)) (\<lambda>_. act_return ())) calls ()"

definition enter_prepared ::
  "('doc, 'm) ports \<Rightarrow> workflow_id \<Rightarrow> task_id \<Rightarrow> prepared_execution \<Rightarrow> execution_dispatch
    \<Rightarrow> ('doc, 'm, executor_error + unit) act" where
  "enter_prepared p wid tid prepared exact =
    (case require_final_dispatch (po_payload_digest p) prepared exact of
      Inl e \<Rightarrow> act_return (Inl e)
    | Inr _ \<Rightarrow>
        act_bind (\<lambda>rt. (Inr (po_enter p (rt_calls rt) exact), rt\<lparr>rt_calls := EnterCall exact # rt_calls rt\<rparr>))
          (\<lambda>(calls, outcome).
        act_bind (adapter_run p wid tid exact calls) (\<lambda>_. act_return outcome)))"

definition after_entry ::
  "('doc, 'm) ports \<Rightarrow> workflow_id \<Rightarrow> task_id \<Rightarrow> execution_dispatch \<Rightarrow> executor_error + unit \<Rightarrow> ('doc, 'm, unit) act" where
  "after_entry p wid tid exact outcome =
    act_bind (require_workflow p wid) (\<lambda>w.
    act_bind (act_lift (find_task w tid ''entered task disappeared'')) (\<lambda>t.
    if is_settled (tk_state t) then settle_now p exact
    else if tk_state t = Unresolved then act_return ()
    else mark_uncertain p wid tid (case outcome of
        Inr _ \<Rightarrow> ''adapter returned without durable terminal evidence''
      | Inl e \<Rightarrow> ''external outcome remains uncertain: '' @ executor_display (po_quoted p) e)))"

definition refused_before_entry :: "executor_error \<Rightarrow> bool" where
  "refused_before_entry e = (case e of
      BoundaryBeforeEntry _ \<Rightarrow> True
    | UnavailableGeneration _ _ \<Rightarrow> True
    | Unavailable _ \<Rightarrow> True
    | AdmissionClosed \<Rightarrow> True
    | InvalidDispatch _ \<Rightarrow> True
    | ExecContract _ \<Rightarrow> True
    | AdapterPanicked entered \<Rightarrow> \<not> entered
    | _ \<Rightarrow> False)"

definition prepare_now ::
  "('doc, 'm) ports \<Rightarrow> execution_dispatch \<Rightarrow> ('doc, 'm, executor_error + prepared_execution) act" where
  "prepare_now p x = act_try_call (PrepareCall x) (\<lambda>calls. po_prepare p calls x)"

text \<open>The body of an execution; it returns whether its claim is still held.\<close>

definition execute_claimed ::
  "('doc, 'm) ports \<Rightarrow> workflow_id \<Rightarrow> task_id \<Rightarrow> execution_dispatch \<Rightarrow> ('doc, 'm, bool) act" where
  "execute_claimed p wid tid x =
    act_bind (check_owned p wid tid x) (\<lambda>stopping.
    if stopping
    then act_bind (finish_without_entry p wid tid Stopped ''stopped before external entry'') (\<lambda>_. act_return True)
    else
      act_bind (prepare_now p x) (\<lambda>prepared. case prepared of
        Inl (CapacityUnavailable reason) \<Rightarrow>
          act_bind (defer_before_entry p wid tid x reason) (\<lambda>next.
          act_bind (run_pending p wid tid next) (\<lambda>_. act_return (next \<noteq> NothingLeft)))
      | Inl e \<Rightarrow>
          act_bind (if refused_before_entry e
            then finish_without_entry p wid tid Failed
              (''local preparation refused before entry: '' @ executor_display (po_quoted p) e)
            else mark_uncertain p wid tid
              (''preparation could not establish exclusive non-entry: '' @ executor_display (po_quoted p) e))
            (\<lambda>_. act_return True)
      | Inr prepared \<Rightarrow>
          act_bind (entry_section p wid tid x prepared) (\<lambda>next. case next of
            EnterIt exact \<Rightarrow>
              act_bind (enter_prepared p wid tid prepared exact) (\<lambda>outcome.
              act_bind (after_entry p wid tid exact outcome) (\<lambda>_. act_return True))
          | _ \<Rightarrow> act_bind (run_pending p wid tid next) (\<lambda>_. act_return True))))"

definition execute :: "('doc, 'm) ports \<Rightarrow> execution_dispatch \<Rightarrow> ('doc, 'm, unit) act" where
  "execute p x =
    act_bind (claim_execution (dispatch_invocation x)) (\<lambda>_.
    act_bind (act_try (
      act_bind (act_lift (workflow_of_run (xd_run x))) (\<lambda>wid.
      act_bind (act_lift (task_of_node (xd_node x))) (\<lambda>tid.
      execute_claimed p wid tid x)))) (\<lambda>outcome.
    act_bind (if outcome = Inr False then act_return () else release_claim (dispatch_invocation x)) (\<lambda>_.
    act_lift (res_map (\<lambda>_. ()) outcome))))"

section \<open>Cancellation\<close>

definition cancellation_due :: "task_record \<Rightarrow> bool" where
  "cancellation_due t \<longleftrightarrow> tk_stop_requested t \<and> \<not> tk_cancellation_sent t \<and> \<not> is_settled (tk_state t)"

definition cancellation_for :: "frozen_start \<Rightarrow> runtime_error + cancellation_request" where
  "cancellation_for fz = map_err (\<lambda>e. transition_error (contract_display e))
    (cancellation_new (task_invocation fz) 1 ''authorized task stop request'')"

definition cancel_now ::
  "('doc, 'm) ports \<Rightarrow> cancellation_request \<Rightarrow> ('doc, 'm, executor_error + cancellation_acknowledgement) act" where
  "cancel_now p q = act_try_call (CancelCall q) (\<lambda>calls. po_cancel p calls q)"

definition acknowledge_cancellation ::
  "('doc, 'm) ports \<Rightarrow> workflow_id \<Rightarrow> task_id \<Rightarrow> ('doc, 'm, unit) act" where
  "acknowledge_cancellation p wid tid =
    act_bind (require_workflow p wid) (\<lambda>w.
    act_bind (act_lift (find_task w tid ''cancelled task disappeared'')) (\<lambda>t.
    act_bind (advance_save p (set_task tid (t\<lparr>tk_cancellation_sent := True,
      tk_reason := (if is_settled (tk_state t) then tk_reason t
        else Some ''stop requested; awaiting terminal stop evidence'')\<rparr>) w)) (\<lambda>_.
    act_return ())))"

text \<open>Asking the executor to cancel one invocation, and what its answer means.\<close>

definition cancel_entered ::
  "('doc, 'm) ports \<Rightarrow> workflow_id \<Rightarrow> task_id \<Rightarrow> frozen_start \<Rightarrow> ('doc, 'm, unit) act" where
  "cancel_entered p wid tid fz =
    act_bind (act_lift (cancellation_for fz)) (\<lambda>request.
    act_bind (cancel_now p request) (\<lambda>answer. case answer of
      Inr acknowledgement \<Rightarrow>
        if ca_invocation acknowledgement = cr_invocation request
          \<and> ca_sequence acknowledgement = cr_sequence request
        then acknowledge_cancellation p wid tid
        else mark_uncertain p wid tid
          ''cancellation acknowledgement named a different invocation or request''
    | Inl e \<Rightarrow> mark_uncertain p wid tid
        (''stop request outcome is unresolved: '' @ executor_display (po_quoted p) e)))"

definition cancel_task ::
  "('doc, 'm) ports \<Rightarrow> workflow_id \<Rightarrow> cancellation_dispatch \<Rightarrow> task_id \<times> task_record \<Rightarrow> ('doc, 'm, unit) act" where
  "cancel_task p wid dispatch entry = (case entry of (tid, t) \<Rightarrow>
    if \<not> cancellation_due t then act_return ()
    else case tk_frozen t of
      None \<Rightarrow> act_return ()
    | Some fz \<Rightarrow>
        if xd_attempt (fz_dispatch fz) \<noteq> xc_attempt dispatch
          \<or> task_invocation fz \<noteq> cr_invocation (xc_request dispatch)
        then act_return ()
        else if \<not> fz_entered fz \<and> fz_duration fz = None
        then finish_without_entry p wid tid Stopped ''stop won before external entry''
        else cancel_entered p wid tid fz)"

definition execute_cancellation :: "('doc, 'm) ports \<Rightarrow> cancellation_dispatch \<Rightarrow> ('doc, 'm, unit) act" where
  "execute_cancellation p dispatch =
    act_bind (act_lift (workflow_of_run (xc_run dispatch))) (\<lambda>wid.
    act_bind (require_workflow p wid) (\<lambda>w.
    act_fold (\<lambda>entry _. cancel_task p (wr_id w) dispatch entry) (wr_tasks w) ()))"

text \<open>The actions collected so far, and whether the page's bound was reached.\<close>

definition cancellation_action ::
  "nat \<Rightarrow> task_record \<Rightarrow> effect_action list \<times> bool \<Rightarrow> runtime_error + (effect_action list \<times> bool)" where
  "cancellation_action maximum t found = (case found of (actions, full) \<Rightarrow>
    if full \<or> maximum \<le> length actions then Inr (actions, True)
    else if \<not> cancellation_due t then Inr (actions, False)
    else case tk_frozen t of
      None \<Rightarrow> Inr (actions, False)
    | Some fz \<Rightarrow>
        res_bind (cancellation_for fz) (\<lambda>request.
        Inr (actions @ [CancelAction \<lparr>xc_run = xd_run (fz_dispatch fz), xc_attempt = xd_attempt (fz_dispatch fz),
          xc_request = request\<rparr>], False)))"

definition cancellation_actions :: "('doc, 'm) ports \<Rightarrow> nat \<Rightarrow> ('doc, 'm, effect_action list) act" where
  "cancellation_actions p maximum =
    act_bind (act_get rt_cancellation_cursor) (\<lambda>cursor.
    act_bind (store_read p (\<lambda>s. store_workflows (po_store_codec p) s cursor (min maximum 200))) (\<lambda>page.
    act_bind (act_update (\<lambda>rt. rt\<lparr>rt_cancellation_cursor := pg_next page\<rparr>)) (\<lambda>_.
    act_bind (act_fold (\<lambda>snap found. if snd found then act_return found else
        act_bind (require_workflow p (ss_workflow snap)) (\<lambda>w.
        act_lift (res_fold (cancellation_action maximum) (task_list w) found)))
      (pg_items page) ([], False)) (\<lambda>found.
    act_return (fst found)))))"


section \<open>Recovery\<close>

definition "RESTARTED = ''daemon restarted after durable external entry; no terminal evidence is available''"

definition requeue_start :: "('doc, 'm) ports \<Rightarrow> workflow_id \<Rightarrow> task_id \<Rightarrow> ('doc, 'm, unit) act" where
  "requeue_start p wid tid =
    act_bind (require_workflow p wid) (\<lambda>w.
    act_bind (act_lift (find_task w tid ''recoverable task disappeared'')) (\<lambda>t.
    act_bind (advance_save p (set_task tid (t\<lparr>tk_state := Queued,
      tk_reason := Some ''accepted start retained for bounded worker recovery''\<rparr>) w)) (\<lambda>_.
    act_return ())))"

definition recover_task ::
  "('doc, 'm) ports \<Rightarrow> workflow_record \<Rightarrow> task_id \<times> task_record \<Rightarrow> execution_dispatch list
    \<Rightarrow> ('doc, 'm, execution_dispatch list) act" where
  "recover_task p w entry ready = (case entry of (tid, t) \<Rightarrow>
    if is_settled (tk_state t) then act_bind (settle_start p t) (\<lambda>_. act_return ready)
    else if tk_state t \<noteq> Running then act_return ready
    else
      act_bind (act_lift (find_start t ''running task lost its frozen start'')) (\<lambda>fz.
      if fz_entered fz
      then act_bind (mark_uncertain p (wr_id w) tid RESTARTED) (\<lambda>_. act_return ready)
      else if 200 \<le> length ready
      then act_bind (requeue_start p (wr_id w) tid) (\<lambda>_. act_return ready)
      else act_return (if \<not> tk_stop_requested t \<and> wr_wait_question w = None
        then ready @ [fz_dispatch fz] else ready)))"

definition recover_workflow ::
  "('doc, 'm) ports \<Rightarrow> workflow_id \<Rightarrow> execution_dispatch list \<Rightarrow> ('doc, 'm, execution_dispatch list) act" where
  "recover_workflow p wid ready =
    act_bind (require_workflow p wid) (\<lambda>read.
    act_bind (clock_now p) (\<lambda>now.
    act_bind (observe_duration p read now) (\<lambda>w.
    act_fold (recover_task p w) (wr_tasks w) ready)))"

text \<open>Bounded like the count of active starts.\<close>

primrec recover_pages ::
  "nat \<Rightarrow> ('doc, 'm) ports \<Rightarrow> string option \<Rightarrow> execution_dispatch list \<Rightarrow> ('doc, 'm, execution_dispatch list) act" where
  "recover_pages 0 p cursor ready = act_fail SCAN_FUEL_EXHAUSTED"
| "recover_pages (Suc fuel) p cursor ready =
    act_bind (store_read p (\<lambda>s. store_workflows (po_store_codec p) s cursor 200)) (\<lambda>page.
    act_bind (act_fold (\<lambda>snap. recover_workflow p (ss_workflow snap)) (pg_items page) ready) (\<lambda>ready'.
    case pg_next page of
      None \<Rightarrow> act_return ready'
    | Some cursor' \<Rightarrow> recover_pages fuel p (Some cursor') ready'))"

definition recover :: "('doc, 'm) ports \<Rightarrow> ('doc, 'm, execution_dispatch list) act" where
  "recover p =
    act_bind (act_get (\<lambda>rt. Suc (length (st_workflows (rt_store rt))))) (\<lambda>fuel.
    recover_pages fuel p None [])"

section \<open>What each handler keeps\<close>

lemma progresses_set_task:
  assumes "map_of (wr_tasks w) tid = Some t"
    and "task_ok codec (wr_id w) tid t \<Longrightarrow> task_ok codec (wr_id w) tid t' \<and> task_evolves t t'"
  shows "progresses codec w (set_task tid t' w)"
  unfolding set_task_def using assms by (rule progresses_adjust)

lemma set_task_simps [simp]:
  "wr_id (set_task tid t w) = wr_id w"
  "map_of (wr_tasks w) tid = Some u \<Longrightarrow> map_of (wr_tasks (set_task tid t w)) tid = Some t"
  "tid' \<noteq> tid \<Longrightarrow> map_of (wr_tasks (set_task tid t w)) tid' = map_of (wr_tasks w) tid'"
  by (simp_all add: set_task_def)

lemma find_task_Inr: "find_task w tid message = Inr t \<longleftrightarrow> map_of (wr_tasks w) tid = Some t"
  by (simp add: find_task_def res_simps)

lemma find_start_Inr: "find_start t message = Inr fz \<longleftrightarrow> tk_frozen t = Some fz"
  by (simp add: find_start_def res_simps)

lemmas find_simps = find_task_Inr find_start_Inr

lemma safely_settle_start:
  assumes "\<And>s fz. store_ok p s \<Longrightarrow> A s \<Longrightarrow> tk_frozen t = Some fz \<Longrightarrow> has_settled p (fz_dispatch fz) s"
  shows "safely p A (settle_start p t) (\<lambda>_ _. True)"
proof (cases "tk_frozen t")
  case None
  then show ?thesis by (simp add: settle_start_def safely_return)
next
  case (Some fz)
  have "safely p A (settle_now p (fz_dispatch fz)) (\<lambda>_. A)"
    by (rule safely_settle) (use assms Some in blast)
  then show ?thesis by (simp add: settle_start_def Some safely_true)
qed

lemma unentered_result:
  assumes "task_ok codec wid tid t"
    and "\<not> opt_any (\<lambda>fz. fz_entered fz \<or> fz_duration fz \<noteq> None) (tk_frozen t)"
  shows "tk_result t = None"
  using assms by (auto simp add: task_ok_def start_ok_def evidence_ok_def opt_any_iff split: option.splits)

lemma finish_progress:
  assumes "task_ok codec wid tid t" and "\<not> is_settled (tk_state t)" and "state = Failed \<or> state = Stopped"
    and "\<not> opt_any (\<lambda>fz. fz_entered fz \<or> fz_duration fz \<noteq> None) (tk_frozen t)"
  shows "task_ok codec wid tid (t\<lparr>tk_state := state, tk_reason := r, tk_ended_at := e\<rparr>)
    \<and> task_evolves t (t\<lparr>tk_state := state, tk_reason := r, tk_ended_at := e\<rparr>)"
  using assms unentered_result [OF assms(1,4)]
  by (auto simp add: task_ok_def start_ok_def evidence_ok_def opt_any_iff task_evolves_def opt_keeps_refl
      split: option.splits)

lemma paused_simps [simp]:
  "wr_tasks (paused pause reason w) = wr_tasks w" "wr_id (paused pause reason w) = wr_id w"
  "progresses codec w (paused pause reason w)"
  by (simp_all add: paused_def)

lemma advanced_set_task:
  assumes "advanced_from p w (set_task tid t v) w'" and "map_of (wr_tasks v) tid = Some u"
  shows "\<exists>t'. map_of (wr_tasks w') tid = Some t' \<and> tk_state t' = tk_state t \<and> tk_frozen t' = tk_frozen t
    \<and> tk_result t' = tk_result t"
  by (rule advanced_task [OF assms(1), of tid t]) (use assms(2) in auto)

lemma safely_finish:
  assumes "roundtrip p" and "state = Failed \<or> state = Stopped"
  shows "safely p A (finish_without_entry_policy p wid tid state reason pause) (\<lambda>_ _. True)"
  unfolding finish_without_entry_policy_def
proof (intro safely_read_bind safely_lift_bind safely_if safely_ensure_bind safely_clock_bind, unfold find_simps)
  fix w :: workflow_record and t assume t: "map_of (wr_tasks w) tid = Some t" and settled: "is_settled (tk_state t)"
  show "safely p (\<lambda>s. stored p s wid w) (settle_start p t) (\<lambda>_ _. True)"
    by (rule safely_settle_start)
      (use settled in \<open>auto simp add: has_settled_def intro!: ownsI [OF _ _ t]\<close>)
next
  fix w :: workflow_record and t now
  assume t: "map_of (wr_tasks w) tid = Some t" and open_: "\<not> is_settled (tk_state t)"
    and un: "\<not> opt_any (\<lambda>fz. fz_entered fz \<or> fz_duration fz \<noteq> None) (tk_frozen t)"
  let ?t = "t\<lparr>tk_state := state, tk_reason := bounded_reason reason, tk_ended_at := Some now\<rparr>"
  let ?v = "set_task tid ?t (paused pause reason w)"
  have "progresses (po_codec p) (paused pause reason w) ?v"
    by (rule progresses_set_task) (use t in simp, rule finish_progress [OF _ open_ assms(2) un])
  then have prog: "progresses (po_codec p) w ?v" by (rule progresses_trans [rotated]) simp
  show "safely p (\<lambda>s. stored p s wid w) (act_bind (advance_save p ?v) (\<lambda>_. settle_start p t)) (\<lambda>_ _. True)"
  proof (rule safely_transition_bind [OF assms(1) prog])
    fix w' assume "advanced_from p w ?v w'"
    from advanced_set_task [OF this] t obtain t' where t': "map_of (wr_tasks w') tid = Some t'"
      "tk_state t' = state" "tk_frozen t' = tk_frozen t" by auto
    show "safely p (\<lambda>s. stored p s wid w') (settle_start p t) (\<lambda>_ _. True)"
      by (rule safely_settle_start)
        (use t' assms(2) in \<open>auto simp add: has_settled_def intro!: ownsI [OF _ _ t'(1)]\<close>)
  qed simp
qed

lemma result_state_open:
  "\<not> is_settled (result_state d r) \<Longrightarrow> result_state d r = Unresolved"
  by (cases "tm_status (tr_terminal r)") (auto simp add: result_state_def Let_def split: if_splits)

lemma unresolved_progress:
  assumes "task_ok codec wid tid t" and "tk_frozen t = Some fz" and "\<not> is_settled (tk_state t)"
    and "opt_keeps (=) (fz_duration fz) (Some d)"
  shows "task_ok codec wid tid (t\<lparr>tk_state := Unresolved, tk_frozen := Some (fz\<lparr>fz_duration := Some d\<rparr>), tk_reason := r\<rparr>)
    \<and> task_evolves t (t\<lparr>tk_state := Unresolved, tk_frozen := Some (fz\<lparr>fz_duration := Some d\<rparr>), tk_reason := r\<rparr>)"
proof -
  have keeps: "opt_keeps duration_evolves (fz_duration fz) (Some d)"
    using assms(4) by (cases "fz_duration fz") simp_all
  have "tk_result t = Some q \<Longrightarrow> result_state (fz_definition fz) q = Unresolved" for q
    using assms(1-3) result_state_open by (auto simp add: task_ok_def start_ok_def evidence_ok_def)
  then show ?thesis
    using assms(1-3) keeps
    by (cases "tk_result t") (auto simp add: task_ok_def start_ok_def evidence_ok_def task_evolves_def
        frozen_evolves_def opt_keeps_refl)
qed

lemma unresolved_duration_keeps:
  "unresolved_duration w t fz = Inr d \<Longrightarrow> opt_keeps (=) (fz_duration fz) (Some d)"
  by (auto simp add: unresolved_duration_def split: option.splits)

lemma accrue_stop_progresses:
  assumes "accrue w now = Inr (w', changed)"
  shows "progresses codec w (fst (request_duration_stop w'))"
    and "wr_id (fst (request_duration_stop w')) = wr_id w"
proof -
  obtain u stopped where u: "request_duration_stop w' = (u, stopped)" by fastforce
  show "progresses codec w (fst (request_duration_stop w'))"
    unfolding u fst_conv by (rule progresses_trans [OF accrue_progresses [OF assms] duration_stop_progresses [OF u]])
  show "wr_id (fst (request_duration_stop w')) = wr_id w"
    using same_unstarted_accrue [OF assms] same_unstarted_duration_stop [OF u] by (simp add: u same_unstarted_def)
qed

lemma safely_mark_uncertain:
  assumes "roundtrip p"
  shows "safely p A (mark_uncertain p wid tid reason) (\<lambda>_ _. True)"
  unfolding mark_uncertain_def
proof (intro safely_read_bind safely_lift_bind safely_if safely_clock_bind safely_return, unfold find_simps)
  fix w :: workflow_record and t fz d now and r :: "workflow_record \<times> bool"
  assume t: "map_of (wr_tasks w) tid = Some t" and open_: "\<not> is_settled (tk_state t)" and fz: "tk_frozen t = Some fz"
    and d: "unresolved_duration w t fz = Inr d"
  let ?v = "set_task tid (t\<lparr>tk_state := Unresolved, tk_frozen := Some (fz\<lparr>fz_duration := Some d\<rparr>),
    tk_reason := bounded_reason reason\<rparr>) w"
  assume r: "accrue ?v now = Inr r"
  obtain accrued changed where rr: "r = (accrued, changed)" by (cases r)
  have "progresses (po_codec p) w ?v"
    by (rule progresses_set_task [OF t]) (rule unresolved_progress [OF _ fz open_ unresolved_duration_keeps [OF d]])
  then have "progresses (po_codec p) w (fst (request_duration_stop accrued))"
    using accrue_stop_progresses(1) [OF r [unfolded rr]] by (rule progresses_trans)
  then have "safely p (\<lambda>s. stored p s wid w)
      (act_bind (advance_save p (fst (request_duration_stop accrued))) (\<lambda>_. act_return ())) (\<lambda>_ _. True)"
    by (rule safely_transition_bind [OF assms])
      (use accrue_stop_progresses(2) [OF r [unfolded rr]] in \<open>simp_all add: safely_return\<close>)
  then show "safely p (\<lambda>s. stored p s wid w) (case r of (accrued, uu_) \<Rightarrow>
      act_bind (advance_save p (fst (request_duration_stop accrued))) (\<lambda>_. act_return ())) (\<lambda>_ _. True)"
    by (simp add: rr)
qed simp

text \<open>What is known of the next step when the gate is released.\<close>

definition settled_at :: "('doc, 'm) ports \<Rightarrow> workflow_id \<Rightarrow> task_id \<Rightarrow> ('doc, 'm) store \<Rightarrow> bool" where
  "settled_at p wid tid s \<longleftrightarrow> (\<exists>w t. stored p s wid w \<and> map_of (wr_tasks w) tid = Some t \<and> is_settled (tk_state t))"

fun pending_ok :: "('doc, 'm) ports \<Rightarrow> execution_dispatch \<Rightarrow> pending \<Rightarrow> ('doc, 'm) store \<Rightarrow> bool" where
  "pending_ok p x NothingLeft s = True"
| "pending_ok p x (SettleIt y) s = (y = x \<and> settled_at p (xd_run x) (xd_node x) s)"
| "pending_ok p x (FinishIt state reason pause) s = (state = Failed \<or> state = Stopped)"
| "pending_ok p x (EnterIt y) s = (rebound x y \<and> has_entered p y s)"

lemma started_settled:
  assumes "started p x s" and "settled_at p (xd_run x) (xd_node x) s"
  shows "has_settled p x s"
  using assms unfolding started_def owns_def settled_at_def has_settled_def
  by (metis option.inject stored_unique)

lemma safely_run_pending:
  assumes "roundtrip p" and "\<And>s. A s \<Longrightarrow> started p x s \<and> pending_ok p x next s"
  shows "safely p A (run_pending p wid tid next) (\<lambda>_ _. True)"
proof (cases "next")
  case (SettleIt y)
  have "safely p A (settle_now p y) (\<lambda>_. A)"
    by (rule safely_settle) (use assms(2) started_settled SettleIt in fastforce)
  then show ?thesis by (simp add: run_pending_def SettleIt safely_true)
next
  case (FinishIt state reason pause)
  show ?thesis
  proof (rule safely_pure)
    show "state = Failed \<or> state = Stopped" if "A s" for s using assms(2) that FinishIt by fastforce
    show "safely p A (run_pending p wid tid next) (\<lambda>_ _. True)" if "state = Failed \<or> state = Stopped"
      using safely_finish [OF assms(1) that] by (simp add: run_pending_def FinishIt)
  qed
qed (simp_all add: run_pending_def safely_return)

lemma safely_check_owned: "safely p A (check_owned p wid tid x) (\<lambda>_. started p x)"
  unfolding check_owned_def
  by (intro safely_read_bind safely_lift_bind safely_ensure_bind safely_return)
    (auto simp add: find_simps started_def owns_unentered_def intro: ownsI)

lemma safely_prepare:
  assumes "\<And>s. A s \<Longrightarrow> started p x s"
  shows "safely p A (prepare_now p x) (\<lambda>_. A)"
proof (rule safelyI)
  fix rt r rt'
  assume g: "good p rt" "A (rt_store rt)" and run: "prepare_now p x rt = (r, rt')"
  have "rt' = rt\<lparr>rt_calls := PrepareCall x # rt_calls rt\<rparr>"
    using run by (simp add: prepare_now_def act_try_call_def)
  then show "follows p rt rt' \<and> (\<forall>x. r = Inr x \<longrightarrow> A (rt_store rt'))"
    using good_call [OF g(1), of "PrepareCall x"] assms [OF g(2)] g(2) by simp
qed

lemma safely_release [safe_rules]: "safely p A (release_claim i) (\<lambda>_. A)"
  unfolding release_claim_def by (rule safely_update) simp_all

lemma owned_result:
  assumes "task_ok codec wid tid t" and "tk_frozen t = Some fz" and "owns_unentered x t fz"
  shows "tk_result t = None" and "fz_duration fz = None" and "fz_reports fz = []"
  using assms by (auto simp add: task_ok_def start_ok_def evidence_ok_def reports_ok_def owns_unentered_def
      split: option.splits)

lemma requeue_progress:
  assumes "task_ok codec wid tid t" and "tk_frozen t = Some fz" and "\<not> fz_entered fz" and "tk_state t = Running"
  shows "task_ok codec wid tid (t\<lparr>tk_state := Queued, tk_reason := r\<rparr>)
    \<and> task_evolves t (t\<lparr>tk_state := Queued, tk_reason := r\<rparr>)"
  using assms by (auto simp add: task_ok_def start_ok_def evidence_ok_def task_evolves_def opt_keeps_refl
      split: option.splits)

lemma accrue_settled_at:
  assumes "accrue w now = Inr (w', changed)" and "map_of (wr_tasks w') tid = Some t" and "is_settled (tk_state t)"
  shows "\<exists>t. map_of (wr_tasks w) tid = Some t \<and> is_settled (tk_state t)"
  using assms by (auto simp add: accrue_Inr)

lemma safely_defer:
  assumes "roundtrip p"
  shows "safely p A (defer_before_entry p (xd_run x) (xd_node x) x reason) (pending_ok p x)"
  unfolding defer_before_entry_def
proof (intro safely_read_bind safely_clock_bind safely_lift_bind, clarify,
    intro safely_lift_bind safely_if safely_ensure_bind safely_return, unfold find_simps)
  fix read :: workflow_record and now w changed t s
  assume a: "accrue read now = Inr (w, changed)" and t: "map_of (wr_tasks w) (xd_node x) = Some t"
    and settled: "is_settled (tk_state t)" and s: "stored p s (xd_run x) read"
  show "pending_ok p x (SettleIt x) s"
    using accrue_settled_at [OF a t settled] s by (auto simp add: settled_at_def)
next
  fix read :: workflow_record and now w changed t fz
  assume a: "accrue read now = Inr (w, changed)" and t: "map_of (wr_tasks w) (xd_node x) = Some t"
    and fz: "tk_frozen t = Some fz" and owned: "owns_unentered x t fz"
  let ?v = "set_task (xd_node x) (t\<lparr>tk_state := Queued,
    tk_reason := bounded_reason (''waiting for capability capacity: '' @ reason)\<rparr>) w"
  have "progresses (po_codec p) w ?v"
    by (rule progresses_set_task [OF t], rule requeue_progress [OF _ fz])
      (use owned in \<open>simp_all add: owns_unentered_def\<close>)
  with accrue_progresses [OF a] have prog: "progresses (po_codec p) read ?v" by (rule progresses_trans)
  show "safely p (\<lambda>s. stored p s (xd_run x) read) (act_bind (advance_save p ?v) (\<lambda>_.
      act_bind (release_claim (dispatch_invocation x)) (\<lambda>_. act_return NothingLeft))) (pending_ok p x)"
    by (rule safely_transition_bind [OF assms prog])
      (use same_unstarted_accrue [OF a] in \<open>auto simp add: same_unstarted_def
        intro!: safely_call_bind [OF safely_release] safely_return\<close>)
qed simp_all

lemma enter_progress:
  fixes d :: execution_duration
  assumes "task_ok codec wid tid t" and "tk_frozen t = Some fz" and "owns_unentered x t fz" and "rebound x exact"
  defines "t' \<equiv> t\<lparr>tk_frozen := Some (fz\<lparr>fz_dispatch := exact, fz_entered := True, fz_duration := Some d\<rparr>)\<rparr>"
  shows "task_ok codec wid tid t' \<and> task_evolves t t'"
proof
  note owned = owned_result [OF assms(1-3)] and own = assms(3) [unfolded owns_unentered_def]
  have "reports_ok codec (fz\<lparr>fz_dispatch := exact, fz_entered := True, fz_duration := Some d\<rparr>)"
    using owned(3) by (simp add: reports_ok_def accepted.none report_outputs_def)
  then show "task_ok codec wid tid t'"
    using assms(1,2,4) own owned(1,3) by (simp add: t'_def task_ok_def start_ok_def evidence_ok_def)
  show "task_evolves t t'"
    using assms(2,4) own owned
    by (simp add: t'_def task_evolves_def frozen_evolves_def opt_keeps_refl)
qed

lemma entry_reservation_Inr:
  assumes "entry_reservation w x envelope = Inr (allowance, currency, maximum)"
  shows "reserve_duration w envelope = Inr maximum"
    and "reserve_account w x envelope maximum = Inr (allowance, currency)"
  using assms by (auto simp add: entry_reservation_def res_simps)

lemma reserved_progresses:
  assumes "entry_reservation w x envelope = Inr (allowance, currency, maximum)" and "progresses codec w v"
    and "wr_allowance v = wr_allowance w"
  shows "progresses codec w (v\<lparr>wr_committed_allowance := allowance, wr_spending_currency := currency\<rparr>)"
  unfolding progresses_def
proof
  assume ok: "record_ok codec w"
  then have v: "record_ok codec v" "workflow_evolves w v" using assms(2) by (auto simp add: progresses_def)
  have "fits_within (wr_committed_allowance w) (wr_allowance w)" using ok by (simp add: record_ok_def)
  note k = reserve_account_keeps [OF entry_reservation_Inr(2) [OF assms(1)] this]
  have "record_ok codec (v\<lparr>wr_committed_allowance := allowance, wr_spending_currency := currency\<rparr>)"
    using v(1) k assms(3) by (simp add: record_ok_def)
  moreover have "opt_keeps (=) (wr_spending_currency w) currency"
    using k by (cases "wr_spending_currency w") simp_all
  then have "workflow_evolves w (v\<lparr>wr_committed_allowance := allowance, wr_spending_currency := currency\<rparr>)"
    using v(2) k by (simp add: workflow_evolves_def budget_grows_def)
  ultimately show "record_ok codec (v\<lparr>wr_committed_allowance := allowance, wr_spending_currency := currency\<rparr>)
    \<and> workflow_evolves w (v\<lparr>wr_committed_allowance := allowance, wr_spending_currency := currency\<rparr>)" ..
qed

lemma entered_record_progresses:
  assumes "entry_reservation w x envelope = Inr reservation" and "map_of (wr_tasks w) tid = Some t"
    and "tk_frozen t = Some fz" and "owns_unentered x t fz" and "rebound x exact"
  shows "progresses codec w (entered_record tid t fz exact now reservation w)"
proof -
  obtain allowance currency maximum where r: "reservation = (allowance, currency, maximum)" by (cases reservation)
  have "progresses codec w (set_task tid (t\<lparr>tk_frozen := Some (fz\<lparr>fz_dispatch := exact, fz_entered := True,
      fz_duration := Some \<lparr>du_started_at = now, du_accounted_at = now, du_maximum_ms = maximum\<rparr>\<rparr>)\<rparr>) w)"
    by (rule progresses_set_task [OF assms(2)]) (rule enter_progress [OF _ assms(3-5)])
  from reserved_progresses [OF assms(1) [unfolded r] this] show ?thesis
    by (simp add: entered_record_def r set_task_def)
qed

lemma entered_record_task:
  assumes "map_of (wr_tasks w) tid = Some t"
  shows "\<exists>t' fz'. map_of (wr_tasks (entered_record tid t fz exact now reservation w)) tid = Some t'
    \<and> tk_frozen t' = Some fz' \<and> fz_entered fz' \<and> fz_dispatch fz' = exact"
  using assms by (cases reservation) (simp add: entered_record_def)

lemma safely_enter_owned:
  assumes "roundtrip p" and "entry_reservation w x envelope = Inr reservation"
  shows "safely p (\<lambda>s. stored p s (xd_run x) w) (enter_owned p (xd_node x) x now reservation w) (pending_ok p x)"
  unfolding enter_owned_def
proof (intro safely_lift_bind safely_if safely_ensure_bind safely_evaluate_bind safely_return,
    unfold find_simps map_err_Inr_iff with_entry_authorization_Inr)
  fix t fz decision exact
  assume t: "map_of (wr_tasks w) (xd_node x) = Some t" and fz: "tk_frozen t = Some fz"
    and own: "owns_unentered x t fz"
    and exact: "entry_binds decision (xd_entry_authorization x)
      \<and> is_ok (snapshot_validate_request (po_payload_digest p) (xd_resolution x) (xd_request x))
      \<and> exact = x\<lparr>xd_entry_authorization := decision\<rparr>"
  let ?v = "entered_record (xd_node x) t fz exact now reservation w"
  have re: "rebound x exact" using exact by simp
  have prog: "progresses (po_codec p) w ?v" by (rule entered_record_progresses [OF assms(2) t fz own re])
  show "safely p (\<lambda>s. stored p s (xd_run x) w) (act_bind (advance_save p ?v) (\<lambda>_. act_return (EnterIt exact)))
      (pending_ok p x)"
  proof (rule safely_transition_bind [OF assms(1) prog], goal_cases)
    case 1
    show ?case by (cases reservation) (simp add: entered_record_def)
  next
    case (2 w')
    obtain t' fz' where t': "map_of (wr_tasks ?v) (xd_node x) = Some t'" "tk_frozen t' = Some fz'"
      "fz_entered fz'" "fz_dispatch fz' = exact"
      using entered_record_task [OF t] by blast
    obtain t'' where "map_of (wr_tasks w') (xd_node x) = Some t''" "tk_frozen t'' = Some fz'"
      by (rule advanced_task [OF 2 t'(1)]) (use t'(2) in simp)
    then show ?case
      using t'(3,4) re by (auto simp add: has_entered_def intro!: safely_return ownsI)
  qed
qed simp_all

lemma safely_entry_section:
  assumes "roundtrip p"
  shows "safely p A (entry_section p (xd_run x) (xd_node x) x prepared) (pending_ok p x)"
  unfolding entry_section_def
proof (intro safely_read_bind safely_clock_bind safely_observe_bind [OF assms] safely_if)
  fix w :: workflow_record
  assume "opt_any (\<lambda>t. is_settled (tk_state t)) (map_of (wr_tasks w) (xd_node x))"
  then show "safely p (\<lambda>s. stored p s (xd_run x) w) (act_return (SettleIt x)) (pending_ok p x)"
    by (intro safely_return) (auto simp add: settled_at_def opt_any_iff)
next
  fix w :: workflow_record and now
  show "safely p (\<lambda>s. stored p s (xd_run x) w) (case wr_wait_question w of
      Some reason \<Rightarrow> act_return (FinishIt Failed (''workflow paused before external entry: '' @ reason) False)
    | None \<Rightarrow> (case entry_reservation w x (pe_envelope prepared) of
        Inl error \<Rightarrow> act_return (FinishIt Failed (runtime_display (po_quoted p) error) True)
      | Inr reservation \<Rightarrow> enter_owned p (xd_node x) x now reservation w)) (pending_ok p x)"
    by (cases "wr_wait_question w"; cases "entry_reservation w x (pe_envelope prepared)")
      (simp_all add: safely_return safely_enter_owned [OF assms])
qed

lemma safely_check_continuation:
  assumes "roundtrip p"
  shows "safely p A (check_continuation p wid tid x) (\<lambda>_ _. True)"
  unfolding check_continuation_def
  by (intro safely_read_bind safely_clock_bind safely_observe_bind [OF assms] safely_lift_bind safely_ensure_bind
      safely_return) simp

text \<open>A report that was accepted after those of an entered, unsettled start without a result.\<close>

definition report_accepted ::
  "runtime_codec \<Rightarrow> task_record \<Rightarrow> frozen_start \<Rightarrow> invocation_event \<Rightarrow> bool" where
  "report_accepted codec t fz report \<longleftrightarrow> tk_frozen t = Some fz \<and> fz_entered fz \<and> \<not> is_settled (tk_state t)
    \<and> tk_result t = None \<and> ev_invocation report = task_invocation fz
    \<and> ev_sequence report = of_nat (Suc (length (fz_reports fz)))
    \<and> length (fz_reports fz) < MAX_REPORTS_PER_DISPATCH
    \<and> validate_report codec (fz_reports fz) report = Inr ()
    \<and> opt_all (\<lambda>out. fst out \<notin> fst ` set (report_outputs (fz_reports fz))) (kind_output (ev_kind report))"

lemma report_outputs_one:
  "report_outputs (xs @ [e]) = report_outputs xs @ (case kind_output (ev_kind e) of None \<Rightarrow> [] | Some out \<Rightarrow> [out])"
  by (simp add: report_outputs_append) (simp add: report_outputs_def List.map_filter_def split: option.splits)

lemma reports_ok_more:
  assumes "reports_ok codec fz" and "report_accepted codec t fz report"
  shows "reports_ok codec (fz\<lparr>fz_reports := fz_reports fz @ [report]\<rparr>)"
proof -
  note r = assms(1) [unfolded reports_ok_def] and a = assms(2) [unfolded report_accepted_def]
  have "accepted codec (fz_reports fz @ [report])" using r a accepted.more by blast
  moreover have "unat (ev_sequence report) = Suc (length (fz_reports fz))"
    using a by (simp add: unat_of_nat MAX_REPORTS_PER_DISPATCH_def del: of_nat_Suc)
  moreover have "distinct (map fst (report_outputs (fz_reports fz @ [report])))"
    using r a by (cases "kind_output (ev_kind report)") (simp_all add: report_outputs_one opt_all_def)
  ultimately show ?thesis using r a by (auto simp add: reports_ok_def task_invocation_def nth_append less_Suc_eq)
qed

lemma reported_task_simps [simp]:
  "tk_frozen (reported_task dbg now fz report t) = Some (fz\<lparr>fz_reports := fz_reports fz @ [report]\<rparr>)"
  "tk_id (reported_task dbg now fz report t) = tk_id t"
  "tk_created_at (reported_task dbg now fz report t) = tk_created_at t"
  "tk_version (reported_task dbg now fz report t) = tk_version t"
  "tk_previous_definitions (reported_task dbg now fz report t) = tk_previous_definitions t"
  "tk_removed (reported_task dbg now fz report t) = tk_removed t"
  "tk_stop_requested (reported_task dbg now fz report t) = tk_stop_requested t"
  "tk_cancellation_sent (reported_task dbg now fz report t) = tk_cancellation_sent t"
  "tk_definition (reported_task dbg now fz report t) = tk_definition t"
  "tk_started_at (reported_task dbg now fz report t) = tk_started_at t"
  "tk_adopted_correction (reported_task dbg now fz report t) = tk_adopted_correction t"
  by (simp_all add: reported_task_def settle_report_def Let_def split: option.splits)

lemma reported_task_result:
  "tk_result (reported_task dbg now fz report t) = (case kind_terminal (ev_kind report) of
      None \<Rightarrow> tk_result t
    | Some terminal \<Rightarrow> Some \<lparr>tr_terminal = terminal,
        tr_outputs = published_outputs (fz_reports fz @ [report]), tr_recorded_at = now\<rparr>)"
  by (simp add: reported_task_def settle_report_def Let_def split: option.splits)

lemma reported_task_state:
  "tk_state (reported_task dbg now fz report t) = (case kind_terminal (ev_kind report) of
      None \<Rightarrow> tk_state t
    | Some terminal \<Rightarrow> result_state (fz_definition fz) \<lparr>tr_terminal = terminal,
        tr_outputs = published_outputs (fz_reports fz @ [report]), tr_recorded_at = now\<rparr>)"
  by (auto simp add: reported_task_def settle_report_def result_state_def Let_def split: option.splits)

lemma terminal_state_simps [simp]: "terminal_state st \<noteq> Queued" "terminal_state st \<noteq> Running"
  by (cases st; simp)+

lemma result_state_simps [simp]: "result_state d r \<noteq> Queued" "result_state d r \<noteq> Running"
  by (simp_all add: result_state_def Let_def)

lemma report_progress:
  assumes ok: "task_ok codec wid tid t" and acc: "report_accepted codec t fz report"
  shows "task_ok codec wid tid (reported_task dbg now fz report t)
    \<and> task_evolves t (reported_task dbg now fz report t)"
proof -
  let ?fz = "fz\<lparr>fz_reports := fz_reports fz @ [report]\<rparr>"
  note a = acc [unfolded report_accepted_def]
  have start: "start_ok codec wid t fz" using ok a by (simp add: task_ok_def)
  then have ev: "\<not> list_ex is_terminal (fz_reports fz)" and ro: "reports_ok codec fz"
    using a by (simp_all add: start_ok_def evidence_ok_def)
  have rep: "reports_ok codec ?fz" by (rule reports_ok_more [OF ro acc])
  have fe: "frozen_evolves fz ?fz" by (simp add: frozen_evolves_def opt_keeps_refl)
  have "task_ok codec wid tid (reported_task dbg now fz report t)"
    using ok start a rep ev
    by (cases "kind_terminal (ev_kind report)")
      (simp_all add: task_ok_def start_ok_def evidence_ok_def is_terminal_def reported_task_state reported_task_result)
  moreover have "task_evolves t (reported_task dbg now fz report t)"
    using a fe by (simp add: task_evolves_def opt_keeps_refl)
  ultimately show ?thesis ..
qed

lemma admission_progresses:
  assumes "record_ok codec v \<Longrightarrow> opt_any model_reported (map_of (wr_tasks v) tid)"
    and "map_of (wr_admissions v) tid = None"
  shows "progresses codec v (v\<lparr>wr_admissions := bm_insert tid a (wr_admissions v)\<rparr>)"
  unfolding progresses_def
proof
  assume ok: "record_ok codec v"
  then have wf: "bm_wf (wr_admissions v)" by (simp add: record_ok_def)
  have "record_ok codec (v\<lparr>wr_admissions := bm_insert tid a (wr_admissions v)\<rparr>)"
    using ok wf assms(1) [OF ok] by (simp add: record_ok_def)
  moreover have "workflow_evolves v (v\<lparr>wr_admissions := bm_insert tid a (wr_admissions v)\<rparr>)"
    using wf assms(2) by (simp add: workflow_evolves_def opt_keeps_refl opt_keeps_def)
  ultimately show "record_ok codec (v\<lparr>wr_admissions := bm_insert tid a (wr_admissions v)\<rparr>)
    \<and> workflow_evolves v (v\<lparr>wr_admissions := bm_insert tid a (wr_admissions v)\<rparr>)" ..
qed

lemma unreported_admission:
  assumes "record_ok codec w" and "map_of (wr_tasks w) tid = Some t" and "report_accepted codec t fz report"
    and "kind_output (ev_kind report) = Some (''model_response'', reference)"
  shows "map_of (wr_admissions w) tid = None"
proof (rule ccontr)
  assume "map_of (wr_admissions w) tid \<noteq> None"
  then have "model_reported t" using assms(1,2) by (auto simp add: record_ok_def opt_any_iff)
  then show False using assms(3,4) by (auto simp add: model_reported_def report_accepted_def opt_all_def)
qed

lemma reported_admissions_cases:
  fixes dbg :: "invocation_failure \<Rightarrow> string" and now :: timestamp
  assumes "record_ok codec w" and "map_of (wr_tasks w) tid = Some t" and "report_accepted codec t fz report"
  defines "t' \<equiv> reported_task dbg now fz report t"
  shows "reported_admissions tid fz report t' (wr_admissions w) = wr_admissions w
    \<or> (\<exists>a. reported_admissions tid fz report t' (wr_admissions w) = bm_insert tid a (wr_admissions w)
        \<and> map_of (wr_admissions w) tid = None \<and> model_reported t')"
proof (cases "kind_output (ev_kind report)")
  case None
  have adm: "reported_admissions tid fz report t' (wr_admissions w) =
      (if td_actions (fz_definition fz) \<noteq> None \<and> is_terminal report \<and> tk_state t' = Completed
          \<and> map_of (wr_admissions w) tid = None
       then bm_insert tid (pending_admission
         (Option.bind (tk_result t') (\<lambda>r. map_of (tr_outputs r) ''model_response'')) fz) (wr_admissions w)
       else wr_admissions w)"
    by (auto simp add: reported_admissions_def None bm_contains_iff Let_def)
  have "model_reported t'" if "is_terminal report"
    using that by (auto simp add: model_reported_def t'_def is_terminal_def reported_task_result)
  then show ?thesis unfolding adm by auto
next
  case (Some out)
  obtain name reference where out: "out = (name, reference)" by (cases out)
  have "\<not> is_terminal report" using Some by (cases "ev_kind report") (simp_all add: is_terminal_def)
  moreover have "model_reported t'" if "name = ''model_response''"
    using Some that by (simp add: t'_def model_reported_def report_outputs_one out)
  ultimately show ?thesis
    using unreported_admission [OF assms(1-3)] Some
    by (cases "name = ''model_response''") (auto simp add: reported_admissions_def out Let_def)
qed

lemma apply_report_accepts:
  assumes "apply_report p tid x report now w = Inr (Some w')" and "ev_invocation report = dispatch_invocation x"
  obtains t fz where "map_of (wr_tasks w) tid = Some t" "fz_dispatch fz = x" "report_accepted (po_codec p) t fz report"
    "w' = (set_task tid (reported_task (po_failure_debug p) now fz report t) w)\<lparr>wr_admissions :=
      reported_admissions tid fz report (reported_task (po_failure_debug p) now fz report t) (wr_admissions w)\<rparr>"
proof -
  obtain t fz where f: "map_of (wr_tasks w) tid = Some t" "tk_frozen t = Some fz" "fz_entered fz" "fz_dispatch fz = x"
    "\<not> is_settled (tk_state t)" "tk_result t = None" "length (fz_reports fz) < MAX_REPORTS_PER_DISPATCH"
    "ev_sequence report = of_nat (Suc (length (fz_reports fz)))"
    "validate_report (po_codec p) (fz_reports fz) report = Inr ()"
    "\<not> opt_any (\<lambda>out. list_ex (\<lambda>prior. fst prior = fst out) (report_outputs (fz_reports fz))) (kind_output (ev_kind report))"
    and w': "w' = (set_task tid (reported_task (po_failure_debug p) now fz report t) w)\<lparr>wr_admissions :=
      reported_admissions tid fz report (reported_task (po_failure_debug p) now fz report t) (wr_admissions w)\<rparr>"
    using assms(1) unfolding apply_report_def
    by (auto simp add: res_simps find_simps Let_def split: option.splits if_splits simp del: of_nat_Suc)
  have "opt_all (\<lambda>out. fst out \<notin> fst ` set (report_outputs (fz_reports fz))) (kind_output (ev_kind report))"
    using f(10) by (cases "kind_output (ev_kind report)") (force simp add: opt_all_def opt_any_def list_ex_iff)+
  then have "report_accepted (po_codec p) t fz report"
    using f assms(2) by (simp add: report_accepted_def task_invocation_def dispatch_invocation_def)
  then show ?thesis using that f w' by blast
qed

lemma apply_report_progresses:
  assumes "apply_report p tid x report now w = Inr (Some w')" and "ev_invocation report = dispatch_invocation x"
  shows "progresses (po_codec p) w w'" and "wr_id w' = wr_id w"
proof -
  obtain t fz where t: "map_of (wr_tasks w) tid = Some t" and acc: "report_accepted (po_codec p) t fz report"
    and w': "w' = (set_task tid (reported_task (po_failure_debug p) now fz report t) w)\<lparr>wr_admissions :=
      reported_admissions tid fz report (reported_task (po_failure_debug p) now fz report t) (wr_admissions w)\<rparr>"
    by (rule apply_report_accepts [OF assms])
  let ?t = "reported_task (po_failure_debug p) now fz report t"
  let ?v = "set_task tid ?t w"
  show "wr_id w' = wr_id w" by (simp add: w')
  have v: "progresses (po_codec p) w ?v" "wr_admissions ?v = wr_admissions w"
    by (rule progresses_set_task [OF t], rule report_progress [OF _ acc], assumption) (simp add: set_task_def)
  show "progresses (po_codec p) w w'"
    unfolding progresses_def
  proof
    assume ok: "record_ok (po_codec p) w"
    from reported_admissions_cases [OF ok t acc, of "po_failure_debug p" now]
    have "progresses (po_codec p) ?v w'"
    proof (elim disjE exE conjE)
      assume "reported_admissions tid fz report ?t (wr_admissions w) = wr_admissions w"
      then have "w' = ?v" using v(2) by (simp add: w')
      then show ?thesis by simp
    next
      fix a assume "reported_admissions tid fz report ?t (wr_admissions w) = bm_insert tid a (wr_admissions w)"
        "map_of (wr_admissions w) tid = None" "model_reported ?t"
      then show ?thesis
        unfolding w' using v(2) t admission_progresses [of "po_codec p" ?v tid a] by simp
    qed
    then show "record_ok (po_codec p) w' \<and> workflow_evolves w w'"
      using progresses_trans [OF v(1)] ok unfolding progresses_def by blast
  qed
qed

lemma safely_record_report:
  assumes "roundtrip p"
  shows "safely p A (record_report p wid tid x report) (\<lambda>_ _. True)"
  unfolding record_report_def
proof (intro safely_ensure_bind safely_read_bind safely_clock_bind safely_lift_bind,
    unfold split_paired_all prod.case, intro safely_lift_bind)
  fix read :: workflow_record and now w changed applied
  assume inv: "ev_invocation report = dispatch_invocation x" and a: "accrue read now = Inr (w, changed)"
    and r: "apply_report p tid x report now w = Inr applied"
  let ?g = "\<lambda>w'. act_bind (advance_save p w') (\<lambda>_.
      act_bind (act_ensure (\<not> (\<not> is_terminal report \<and> opt_any tk_stop_requested (map_of (wr_tasks w') tid)))
        (transition_error (''further execution refused after the retained report exhausted its duration ''
          @ ''or stop allowance''))) (\<lambda>_. act_return ObservationApplied))"
  have "safely p (\<lambda>s. stored p s wid read) (?g (fst (request_duration_stop w1))) (\<lambda>_ _. True)"
    if "applied = Some w1" for w1
  proof -
    note rep = apply_report_progresses [OF r [unfolded that] inv]
    obtain u stopped where u: "request_duration_stop w1 = (u, stopped)" by fastforce
    have "progresses (po_codec p) read u"
      by (rule progresses_trans [OF progresses_trans [OF accrue_progresses [OF a] rep(1)] duration_stop_progresses [OF u]])
    moreover have "wr_id u = wr_id read"
      using rep(2) same_unstarted_accrue [OF a] same_unstarted_duration_stop [OF u] by (simp add: same_unstarted_def)
    ultimately show ?thesis
      unfolding u fst_conv
      by (rule safely_transition_bind [OF assms]) (intro safely_ensure_bind safely_return, simp)
  qed
  then show "safely p (\<lambda>s. stored p s wid read) (case applied of None \<Rightarrow> act_return Replayed
      | Some reported \<Rightarrow> let w' = fst (request_duration_stop reported) in ?g w') (\<lambda>_ _. True)"
    by (cases applied) (simp_all add: safely_return Let_def)
qed

lemma safely_after_entry:
  assumes "roundtrip p"
  shows "safely p (has_entered p x) (after_entry p (xd_run x) (xd_node x) x outcome) (\<lambda>_ _. True)"
  unfolding after_entry_def
proof (intro safely_read_keep safely_lift_bind safely_if safely_return, unfold find_simps)
  fix w :: workflow_record and t
  assume t: "map_of (wr_tasks w) (xd_node x) = Some t" and settled: "is_settled (tk_state t)"
  have "has_settled p x s" if s: "stored p s (xd_run x) w \<and> has_entered p x s" for s
  proof (rule started_settled)
    show "started p x s" using s by (auto simp add: started_def has_entered_def owns_def)
    show "settled_at p (xd_run x) (xd_node x) s" using s t settled by (auto simp add: settled_at_def)
  qed
  then show "safely p (\<lambda>s. stored p s (xd_run x) w \<and> has_entered p x s) (settle_now p x) (\<lambda>_ _. True)"
    by (intro safely_true [OF safely_settle]) blast
qed (simp_all add: safely_mark_uncertain [OF assms])

lemma acknowledge_progress:
  assumes "task_ok codec wid tid t"
  defines "t' \<equiv> t\<lparr>tk_cancellation_sent := True, tk_reason := (if is_settled (tk_state t) then tk_reason t
    else Some ''stop requested; awaiting terminal stop evidence'')\<rparr>"
  shows "task_ok codec wid tid t' \<and> task_evolves t t'"
proof
  show "task_ok codec wid tid t'"
    using assms(1) by (auto simp add: t'_def task_ok_def start_ok_def evidence_ok_def split: option.splits)
  have "final_task t t'" if "is_settled (tk_state t)"
    unfolding final_task_def t'_def using that
    by (intro exI [of _ True] exI [of _ "tk_adopted_correction t"]) simp
  then show "task_evolves t t'" by (simp add: task_evolves_def opt_keeps_refl) (simp add: t'_def opt_keeps_refl)
qed

lemma safely_acknowledge:
  assumes "roundtrip p"
  shows "safely p A (acknowledge_cancellation p wid tid) (\<lambda>_ _. True)"
  unfolding acknowledge_cancellation_def
proof (intro safely_read_bind safely_lift_bind safely_transition_bind [OF assms] safely_return, unfold find_simps)
  fix w :: workflow_record and t
  assume "map_of (wr_tasks w) tid = Some t"
  then show "progresses (po_codec p) w (set_task tid (t\<lparr>tk_cancellation_sent := True,
      tk_reason := (if is_settled (tk_state t) then tk_reason t
        else Some ''stop requested; awaiting terminal stop evidence'')\<rparr>) w)"
    by (rule progresses_set_task) (rule acknowledge_progress)
qed simp_all

text \<open>Stop requests a worker read are still there when it acts on them.\<close>

definition stops_asked :: "('doc, 'm) ports \<Rightarrow> task_record list \<Rightarrow> ('doc, 'm) store \<Rightarrow> bool" where
  "stops_asked p ts s \<longleftrightarrow> (\<forall>t \<in> set ts. \<forall>fz. tk_frozen t = Some fz \<longrightarrow> tk_stop_requested t \<longrightarrow>
    stop_asked p (task_invocation fz) s)"

lemma stable_stops_asked: "stable p (stops_asked p ts)"
  using stable_stop_asked unfolding stable_def stops_asked_def by blast

lemma record_entry:
  assumes "record_ok codec w" and "(tid, t) \<in> set (wr_tasks w)"
  shows "map_of (wr_tasks w) tid = Some t"
proof -
  have "distinct (map fst (wr_tasks w))" using assms(1) by (intro bm_wf_distinct) (simp add: record_ok_def)
  from map_of_eq_Some_iff [OF this] show ?thesis using assms(2) by blast
qed

lemma stored_stops_asked:
  assumes "store_ok p s" and "stored p s i w"
  shows "stops_asked p (task_list w) s"
  unfolding stops_asked_def
proof (intro ballI allI impI)
  fix t fz assume "t \<in> set (task_list w)" and fz: "tk_frozen t = Some fz" "tk_stop_requested t"
  then obtain tid where "(tid, t) \<in> set (wr_tasks w)" by (auto simp add: task_list_def bm_values_def)
  then have "map_of (wr_tasks w) tid = Some t" using record_entry stored_ok(1) [OF assms] by blast
  then have "owns p s (fz_dispatch fz) (\<lambda>t fz. tk_stop_requested t)" using ownsI [OF assms] fz by simp
  then show "stop_asked p (task_invocation fz) s"
    by (auto simp add: stop_asked_def task_invocation_def)
qed

lemma safely_cancel:
  assumes "\<And>s. A s \<Longrightarrow> stop_asked p (cr_invocation q) s"
  shows "safely p A (cancel_now p q) (\<lambda>_. A)"
proof (rule safelyI)
  fix rt r rt'
  assume g: "good p rt" "A (rt_store rt)" and run: "cancel_now p q rt = (r, rt')"
  have "rt' = rt\<lparr>rt_calls := CancelCall q # rt_calls rt\<rparr>"
    using run by (simp add: cancel_now_def act_try_call_def)
  then show "follows p rt rt' \<and> (\<forall>x. r = Inr x \<longrightarrow> A (rt_store rt'))"
    using good_call [OF g(1), of "CancelCall q"] assms [OF g(2)] g(2) by simp
qed

lemma safely_cancel_entered:
  assumes "roundtrip p" and "\<And>s. A s \<Longrightarrow> stop_asked p (task_invocation fz) s"
  shows "safely p A (cancel_entered p wid tid fz) (\<lambda>_ _. True)"
  unfolding cancel_entered_def
proof (rule safely_lift_bind, rule safely_bind [OF safely_cancel])
  fix request s assume "cancellation_for fz = Inr request" and "A s"
  then show "stop_asked p (cr_invocation request) s"
    using assms(2) by (auto simp add: cancellation_for_def cancellation_new_def res_simps)
qed (auto intro!: safely_acknowledge [OF assms(1)] safely_mark_uncertain [OF assms(1)] split: sum.split)

lemma safely_cancel_task:
  assumes "roundtrip p" and "t \<in> set ts"
  shows "safely p (stops_asked p ts) (cancel_task p wid dispatch (tid, t)) (\<lambda>_ _. True)"
proof (cases "tk_frozen t")
  case (Some fz)
  have "safely p (stops_asked p ts) (cancel_entered p wid tid fz) (\<lambda>_ _. True)" if "tk_stop_requested t"
    by (rule safely_cancel_entered [OF assms(1)]) (use assms(2) Some that in \<open>simp add: stops_asked_def\<close>)
  then show ?thesis
    unfolding cancel_task_def prod.case cancellation_due_def finish_without_entry_def Some option.case
    by (intro safely_if safely_return safely_finish [OF assms(1)]) simp_all
qed (simp add: cancel_task_def safely_return)

lemma safely_execute_cancellation:
  assumes "roundtrip p"
  shows "safely p A (execute_cancellation p dispatch) (\<lambda>_ _. True)"
  unfolding execute_cancellation_def
proof (intro safely_lift_bind safely_read_bind)
  fix wid and w :: workflow_record
  have "safely p (stops_asked p (task_list w))
      (act_fold (\<lambda>entry _. cancel_task p (wr_id w) dispatch entry) (wr_tasks w) ()) (\<lambda>_. stops_asked p (task_list w))"
  proof (rule safely_fold [where J = "\<lambda>_. stops_asked p (task_list w)"])
    fix entry assume "entry \<in> set (wr_tasks w)"
    then have "snd entry \<in> set (task_list w)" by (simp add: task_list_def bm_values_def)
    from safely_cancel_task [OF assms this, of "wr_id w" dispatch "fst entry"]
    show "safely p (stops_asked p (task_list w)) (cancel_task p (wr_id w) dispatch entry)
        (\<lambda>_. stops_asked p (task_list w))"
      by (intro safely_kept [OF _ stable_stops_asked]) simp_all
  qed
  then show "safely p (\<lambda>s. stored p s wid w)
      (act_fold (\<lambda>entry _. cancel_task p (wr_id w) dispatch entry) (wr_tasks w) ()) (\<lambda>_ _. True)"
    by (rule safely_weaken) (use stored_stops_asked in blast, simp)
qed

lemma safely_cancellation_actions:
  fixes p :: "('doc, 'm) ports"
  shows "safely p A (cancellation_actions p maximum) (\<lambda>_ _. True)"
  unfolding cancellation_actions_def
proof (rule safely_get_bind, rule safely_bind [OF safely_store_read], rule safely_bind [OF safely_update])
  fix cursor and page :: "'doc workflow_page"
  have "safely p (\<lambda>_. True) (act_fold (\<lambda>snap found. if snd found then act_return found else
      act_bind (require_workflow p (ss_workflow snap)) (\<lambda>w.
      act_lift (res_fold (cancellation_action maximum) (task_list w) found))) (pg_items page) ([], False))
    (\<lambda>_ _. True)"
    by (rule safely_fold [where J = "\<lambda>_ _. True"]) (intro safely_if safely_return safely_read_bind safely_lift; simp)
  then show "safely p (\<lambda>s. store_workflows (po_store_codec p) s cursor (min maximum 200) = Inr page \<and> A s)
      (act_bind (act_fold (\<lambda>snap found. if snd found then act_return found else
        act_bind (require_workflow p (ss_workflow snap)) (\<lambda>w.
        act_lift (res_fold (cancellation_action maximum) (task_list w) found))) (pg_items page) ([], False))
        (\<lambda>found. act_return (fst found))) (\<lambda>_ _. True)"
    by (intro safely_bind [OF safely_weaken]) (simp_all add: safely_return)
qed simp_all

text \<open>An accepted start that no worker has entered, and that no other task's bookkeeping touches.\<close>

definition fresh_in :: "workflow_record \<Rightarrow> task_id \<Rightarrow> bool" where
  "fresh_in w tid \<longleftrightarrow> (\<exists>t fz. map_of (wr_tasks w) tid = Some t \<and> tk_state t = Running \<and> tk_frozen t = Some fz
    \<and> \<not> fz_entered fz)"

definition fresh_at :: "('doc, 'm) ports \<Rightarrow> workflow_id \<Rightarrow> task_id \<Rightarrow> ('doc, 'm) store \<Rightarrow> bool" where
  "fresh_at p wid tid s \<longleftrightarrow> (\<exists>w. stored p s wid w \<and> fresh_in w tid)"

lemma fresh_set_task: "tid' \<noteq> tid \<Longrightarrow> fresh_in (set_task tid t w) tid' = fresh_in w tid'"
  by (simp add: fresh_in_def)

lemma fresh_accrue:
  assumes "accrue w now = Inr (w', changed)" and "fresh_in w tid"
  shows "fresh_in w' tid"
proof -
  obtain t fz where t: "map_of (wr_tasks w) tid = Some t" "tk_state t = Running" "tk_frozen t = Some fz" "\<not> fz_entered fz"
    using assms(2) by (auto simp add: fresh_in_def)
  have c: "chargeable now t" "map_of (wr_tasks w') tid = Some (charge now t)"
    using assms(1) t(1) map_of_SomeD [OF t(1)] by (force simp add: accrue_Inr task_list_def bm_values_def)+
  show ?thesis
  proof (cases "open_duration t")
    case None
    then show ?thesis using c(2) t by (simp add: charge_def fresh_in_def)
  next
    case (Some d)
    from charge_open [OF c(1) this] show ?thesis using c(2) t by (auto simp add: fresh_in_def)
  qed
qed

lemma fresh_map:
  assumes "wr_tasks w' = bm_map (\<lambda>_. f) (wr_tasks w)" and "\<And>t. tk_state (f t) = tk_state t"
    and "\<And>t. tk_frozen (f t) = tk_frozen t" and "fresh_in w tid"
  shows "fresh_in w' tid"
  using assms(4) by (auto simp add: fresh_in_def assms(1-3))

lemma fresh_duration_stop: "fresh_in w tid \<Longrightarrow> fresh_in (fst (request_duration_stop w)) tid"
proof -
  assume f: "fresh_in w tid"
  obtain u stopped where u: "request_duration_stop w = (u, stopped)" by fastforce
  from u show ?thesis
  proof (cases rule: duration_stop_cases)
    case (1 w1)
    then have "wr_tasks u = bm_map (\<lambda>_ t. if limit_stops (remaining w = 0) t then t\<lparr>tk_stop_requested := True\<rparr> else t)
        (wr_tasks w)" by (simp split: if_splits)
    from fresh_map [OF this _ _ f] show ?thesis by (simp add: u)
  qed
qed

lemma fresh_advanced:
  assumes "advanced_from p w v w'" and "fresh_in v tid"
  shows "fresh_in w' tid"
proof -
  obtain f where f: "asks_stop f" "wr_tasks w' = bm_map (\<lambda>_. f) (wr_tasks v)"
    using assms(1) by (auto simp add: advanced_from_def)
  show ?thesis by (rule fresh_map [OF f(2) _ _ assms(2)]) (simp_all add: asks_stop_simps [OF f(1)])
qed

lemma fresh_at_in: "stored p s wid w \<Longrightarrow> fresh_at p wid tid s = fresh_in w tid"
  unfolding fresh_at_def by (blast dest: stored_unique)

lemma fresh_at_advanced:
  "advanced_from p w v w' \<Longrightarrow> fresh_in v tid \<Longrightarrow> stored p s wid w' \<Longrightarrow> fresh_at p wid tid s"
  using fresh_advanced by (auto simp add: fresh_at_in)

lemma safely_mark_uncertain_fresh:
  assumes "roundtrip p" and "tid' \<noteq> tid"
  shows "safely p (fresh_at p wid tid') (mark_uncertain p wid tid reason) (\<lambda>_. fresh_at p wid tid')"
  unfolding mark_uncertain_def
proof (intro safely_read_keep safely_lift_bind safely_if safely_clock_bind safely_return, unfold find_simps)
  fix w :: workflow_record and t fz d now and r :: "workflow_record \<times> bool"
  assume t: "map_of (wr_tasks w) tid = Some t" and open_: "\<not> is_settled (tk_state t)" and fz: "tk_frozen t = Some fz"
    and d: "unresolved_duration w t fz = Inr d"
  let ?v = "set_task tid (t\<lparr>tk_state := Unresolved, tk_frozen := Some (fz\<lparr>fz_duration := Some d\<rparr>),
    tk_reason := bounded_reason reason\<rparr>) w"
  assume r: "accrue ?v now = Inr r"
  obtain accrued changed where rr: "r = (accrued, changed)" by (cases r)
  note step = accrue_stop_progresses [OF r [unfolded rr]]
  have "progresses (po_codec p) w ?v"
    by (rule progresses_set_task [OF t]) (rule unresolved_progress [OF _ fz open_ unresolved_duration_keeps [OF d]])
  from progresses_trans [OF this step(1)]
  have prog: "progresses (po_codec p) w (fst (request_duration_stop accrued))" .
  have "safely p (\<lambda>s. stored p s wid w \<and> fresh_at p wid tid' s)
      (act_bind (advance_save p (fst (request_duration_stop accrued))) (\<lambda>_. act_return ())) (\<lambda>_. fresh_at p wid tid')"
  proof (rule safely_pure)
    fix s assume "stored p s wid w \<and> fresh_at p wid tid' s"
    then show "fresh_in w tid'" using fresh_at_in by blast
  next
    assume "fresh_in w tid'"
    then have "fresh_in (fst (request_duration_stop accrued)) tid'"
      using fresh_duration_stop fresh_accrue [OF r [unfolded rr]] fresh_set_task [OF assms(2)] by blast
    then have "safely p (\<lambda>s. stored p s wid w)
        (act_bind (advance_save p (fst (request_duration_stop accrued))) (\<lambda>_. act_return ())) (\<lambda>_. fresh_at p wid tid')"
      by (intro safely_transition_bind [OF assms(1) prog] safely_return)
        (simp_all add: step(2) fresh_at_advanced)
    then show "safely p (\<lambda>s. stored p s wid w \<and> fresh_at p wid tid' s)
        (act_bind (advance_save p (fst (request_duration_stop accrued))) (\<lambda>_. act_return ())) (\<lambda>_. fresh_at p wid tid')"
      by (rule safely_weaken) simp_all
  qed
  then show "safely p (\<lambda>s. stored p s wid w \<and> fresh_at p wid tid' s) (case r of (accrued, uu_) \<Rightarrow>
      act_bind (advance_save p (fst (request_duration_stop accrued))) (\<lambda>_. act_return ())) (\<lambda>_. fresh_at p wid tid')"
    by (simp add: rr)
qed simp

lemma safely_requeue:
  assumes "roundtrip p" and "tid' \<noteq> tid"
  shows "safely p (fresh_at p wid tid) (requeue_start p wid tid) (\<lambda>_ _. True)"
    and "safely p (\<lambda>s. fresh_at p wid tid s \<and> fresh_at p wid tid' s) (requeue_start p wid tid)
      (\<lambda>_. fresh_at p wid tid')"
proof -
  have step: "safely p (\<lambda>s. fresh_at p wid tid s \<and> C s) (requeue_start p wid tid) (\<lambda>_. D)"
    if C: "\<And>s w. stored p s wid w \<Longrightarrow> C s \<Longrightarrow> c w"
      and D: "\<And>s w w' t. stored p s wid w' \<Longrightarrow> advanced_from p w (set_task tid t w) w' \<Longrightarrow> c w \<Longrightarrow> D s"
    for c :: "workflow_record \<Rightarrow> bool" and C D :: "('a, 'b) store \<Rightarrow> bool"
    unfolding requeue_start_def
  proof (intro safely_read_keep safely_lift_bind, unfold find_simps)
    fix w :: workflow_record and t assume t: "map_of (wr_tasks w) tid = Some t"
    let ?v = "set_task tid (t\<lparr>tk_state := Queued,
      tk_reason := Some ''accepted start retained for bounded worker recovery''\<rparr>) w"
    show "safely p (\<lambda>s. stored p s wid w \<and> fresh_at p wid tid s \<and> C s)
        (act_bind (advance_save p ?v) (\<lambda>_. act_return ())) (\<lambda>_. D)"
    proof (rule safely_pure)
      fix s assume "stored p s wid w \<and> fresh_at p wid tid s \<and> C s"
      then show "fresh_in w tid \<and> c w" using fresh_at_in C by blast
    next
      assume f: "fresh_in w tid \<and> c w"
      then obtain fz where fz: "tk_frozen t = Some fz" "\<not> fz_entered fz" "tk_state t = Running"
        using t by (auto simp add: fresh_in_def)
      have prog: "progresses (po_codec p) w ?v"
        by (rule progresses_set_task [OF t]) (rule requeue_progress [OF _ fz])
      have "safely p (\<lambda>s. stored p s wid w) (act_bind (advance_save p ?v) (\<lambda>_. act_return ())) (\<lambda>_. D)"
        by (intro safely_transition_bind [OF assms(1) prog] safely_return) (use D f in \<open>simp, blast\<close>)
      then show "safely p (\<lambda>s. stored p s wid w \<and> fresh_at p wid tid s \<and> C s)
          (act_bind (advance_save p ?v) (\<lambda>_. act_return ())) (\<lambda>_. D)"
        by (rule safely_weaken) simp_all
    qed
  qed
  show "safely p (fresh_at p wid tid) (requeue_start p wid tid) (\<lambda>_ _. True)"
    using step [of "\<lambda>_. True" "\<lambda>_. True" "\<lambda>_. True"] by simp
  show "safely p (\<lambda>s. fresh_at p wid tid s \<and> fresh_at p wid tid' s) (requeue_start p wid tid) (\<lambda>_. fresh_at p wid tid')"
  proof (rule step [of _ "\<lambda>w. fresh_in w tid'"])
    show "fresh_in w tid'" if "stored p s wid w" "fresh_at p wid tid' s" for s w using that fresh_at_in by blast
    show "fresh_at p wid tid' s" if "stored p s wid w'" "advanced_from p w (set_task tid t w) w'" "fresh_in w tid'"
      for s w w' t
      using fresh_at_advanced [OF that(2) _ that(1)] fresh_set_task [OF assms(2)] that(3) by blast
  qed
qed

text \<open>What recovery still relies on for the entries it has not visited.\<close>

definition recoverable ::
  "('doc, 'm) ports \<Rightarrow> workflow_id \<Rightarrow> (task_id \<times> task_record) list \<Rightarrow> ('doc, 'm) store \<Rightarrow> bool" where
  "recoverable p wid entries s \<longleftrightarrow> distinct (map fst entries)
    \<and> (\<forall>(tid, t) \<in> set entries. \<forall>fz. tk_frozen t = Some fz \<longrightarrow>
        started p (fz_dispatch fz) s \<and> (is_settled (tk_state t) \<longrightarrow> has_settled p (fz_dispatch fz) s)
        \<and> (tk_state t = Running \<and> \<not> fz_entered fz \<longrightarrow> fresh_at p wid tid s))"

lemma stored_recoverable:
  assumes "store_ok p s" and "stored p s wid w"
  shows "recoverable p wid (wr_tasks w) s"
  unfolding recoverable_def
proof (intro conjI ballI)
  show "distinct (map fst (wr_tasks w))"
    using stored_ok(1) [OF assms] by (intro bm_wf_distinct) (simp add: record_ok_def)
  fix e assume e: "e \<in> set (wr_tasks w)"
  obtain tid t where et: "e = (tid, t)" by (cases e)
  have t: "map_of (wr_tasks w) tid = Some t" using record_entry stored_ok(1) [OF assms] e et by blast
  show "case e of (tid, t) \<Rightarrow> \<forall>fz. tk_frozen t = Some fz \<longrightarrow>
      started p (fz_dispatch fz) s \<and> (is_settled (tk_state t) \<longrightarrow> has_settled p (fz_dispatch fz) s)
      \<and> (tk_state t = Running \<and> \<not> fz_entered fz \<longrightarrow> fresh_at p wid tid s)"
    unfolding et prod.case started_def has_settled_def fresh_at_in [OF assms(2)] fresh_in_def
    using t ownsI [OF assms t] by auto
qed

definition all_started :: "('doc, 'm) ports \<Rightarrow> execution_dispatch list \<Rightarrow> ('doc, 'm) store \<Rightarrow> bool" where
  "all_started p xs s \<longleftrightarrow> (\<forall>x \<in> set xs. started p x s)"

lemma stable_all_started: "stable p (all_started p xs)"
  using stable_started unfolding stable_def all_started_def by blast

lemma recoverable_tail: "recoverable p wid (e # es) s \<Longrightarrow> recoverable p wid es s"
  by (simp add: recoverable_def)

text \<open>An action that keeps the freshness of every other task keeps what is left recoverable.\<close>

lemma safely_recoverable:
  assumes step: "\<And>tid'. tid' \<noteq> tid \<Longrightarrow> safely p (\<lambda>s. A s \<and> fresh_at p wid tid' s) a (\<lambda>_. fresh_at p wid tid')"
    and a: "safely p A a B"
  shows "safely p (\<lambda>s. A s \<and> recoverable p wid ((tid, t) # es) s) a (\<lambda>_. recoverable p wid es)"
proof (rule safelyI)
  fix rt r rt'
  assume g: "good p rt" and pre: "A (rt_store rt) \<and> recoverable p wid ((tid, t) # es) (rt_store rt)"
    and run: "a rt = (r, rt')"
  note d = safelyD [OF a g conjunct1 [OF pre] run]
  have ev: "store_evolves p (rt_store rt) (rt_store rt')" using d(1) by (simp add: follows_def)
  note kept = stableD [OF stable_settled ev] stableD [OF stable_started ev]
  have fresh: "fresh_at p wid tid' (rt_store rt')"
    if "r = Inr v" "tid' \<noteq> tid" "fresh_at p wid tid' (rt_store rt)" for v tid'
    using safelyD(2) [OF step [OF that(2)] g _ run that(1)] pre that(3) by blast
  have "recoverable p wid es (rt_store rt')" if r: "r = Inr v" for v
    unfolding recoverable_def
  proof (intro conjI ballI)
    show "distinct (map fst es)" using pre by (simp add: recoverable_def)
    fix e assume "e \<in> set es"
    moreover obtain tid' t' where "e = (tid', t')" by (cases e)
    moreover from this calculation have "tid' \<noteq> tid" using pre by (force simp add: recoverable_def)
    ultimately show "case e of (tid, t) \<Rightarrow> \<forall>fz. tk_frozen t = Some fz \<longrightarrow>
        started p (fz_dispatch fz) (rt_store rt')
        \<and> (is_settled (tk_state t) \<longrightarrow> has_settled p (fz_dispatch fz) (rt_store rt'))
        \<and> (tk_state t = Running \<and> \<not> fz_entered fz \<longrightarrow> fresh_at p wid tid (rt_store rt'))"
      using pre kept fresh [OF r] by (auto simp add: recoverable_def)
  qed
  then show "follows p rt rt' \<and> (\<forall>x. r = Inr x \<longrightarrow> recoverable p wid es (rt_store rt'))" using d(1) by blast
qed

lemma safely_recover_task:
  assumes "roundtrip p" and wid: "wr_id w = wid"
  shows "safely p (\<lambda>s. recoverable p wid ((tid, t) # es) s \<and> all_started p ready s)
    (recover_task p w (tid, t) ready) (\<lambda>ready s. recoverable p wid es s \<and> all_started p ready s)"
proof -
  let ?A = "\<lambda>s. recoverable p wid ((tid, t) # es) s \<and> all_started p ready s"
  let ?B = "\<lambda>ready s. recoverable p wid es s \<and> all_started p ready s"
  have plain: "safely p ?A (act_bind a (\<lambda>_. act_return ready)) (\<lambda>ready s. recoverable p wid es s \<and> all_started p ready s)"
    if "safely p (recoverable p wid ((tid, t) # es)) a (\<lambda>_. recoverable p wid es)" for a
    by (rule safely_bind [OF safely_frame [OF that stable_all_started]]) (simp add: safely_return)
  have settle: "safely p (recoverable p wid ((tid, t) # es)) (settle_start p t) (\<lambda>_. recoverable p wid es)"
    if "is_settled (tk_state t)"
  proof (cases "tk_frozen t")
    case None
    then show ?thesis unfolding settle_start_def by (auto intro!: safely_return dest: recoverable_tail)
  next
    case (Some fz)
    have "safely p (recoverable p wid ((tid, t) # es)) (settle_now p (fz_dispatch fz)) (\<lambda>_. recoverable p wid ((tid, t) # es))"
      by (rule safely_settle) (use that Some in \<open>simp add: recoverable_def\<close>)
    then show ?thesis
      unfolding settle_start_def Some option.case by (rule safely_weaken) (auto dest: recoverable_tail)
  qed
  have mark: "safely p (recoverable p wid ((tid, t) # es)) (mark_uncertain p wid tid reason) (\<lambda>_. recoverable p wid es)" for reason
  proof -
    have "safely p (\<lambda>s. True \<and> recoverable p wid ((tid, t) # es) s) (mark_uncertain p wid tid reason)
        (\<lambda>_. recoverable p wid es)"
    proof (rule safely_recoverable)
      show "safely p (\<lambda>s. True \<and> fresh_at p wid tid' s) (mark_uncertain p wid tid reason) (\<lambda>_. fresh_at p wid tid')"
        if "tid' \<noteq> tid" for tid' using safely_mark_uncertain_fresh [OF assms(1) that] by simp
    qed (rule safely_mark_uncertain [OF assms(1)])
    then show ?thesis by simp
  qed
  have requeue: "safely p (recoverable p wid ((tid, t) # es)) (requeue_start p wid tid) (\<lambda>_. recoverable p wid es)"
    if "tk_state t = Running" "tk_frozen t = Some fz" "\<not> fz_entered fz" for fz
  proof -
    have other: "tid @ ''x'' \<noteq> tid" by simp
    have "safely p (\<lambda>s. fresh_at p wid tid s \<and> recoverable p wid ((tid, t) # es) s) (requeue_start p wid tid)
        (\<lambda>_. recoverable p wid es)"
      by (rule safely_recoverable [OF safely_requeue(2) [OF assms(1)] safely_requeue(1) [OF assms(1) other]])
    then show ?thesis
      by (rule safely_weaken) (use that in \<open>auto simp add: recoverable_def\<close>)
  qed
  show ?thesis
    unfolding recover_task_def prod.case wid
  proof (intro safely_if safely_lift_bind plain [OF mark], unfold find_simps)
    assume "is_settled (tk_state t)"
    then show "safely p ?A (act_bind (settle_start p t) (\<lambda>_. act_return ready)) ?B" by (rule plain [OF settle])
  next
    show "safely p ?A (act_return ready) ?B" by (rule safely_return) (auto dest: recoverable_tail)
  next
    fix fz assume "tk_frozen t = Some fz" "\<not> tk_state t \<noteq> Running" "\<not> fz_entered fz"
    then show "safely p ?A (act_bind (requeue_start p wid tid) (\<lambda>_. act_return ready)) ?B"
      by (intro plain requeue) auto
  next
    fix fz assume "tk_frozen t = Some fz"
    then show "safely p ?A (act_return (if \<not> tk_stop_requested t \<and> wr_wait_question w = None
        then ready @ [fz_dispatch fz] else ready)) ?B"
      by (intro safely_return) (auto simp add: all_started_def recoverable_def)
  qed
qed

lemma safely_recover_workflow:
  assumes "roundtrip p"
  shows "safely p (all_started p ready) (recover_workflow p wid ready) (all_started p)"
  unfolding recover_workflow_def
proof (rule safely_read_keep, rule safely_clock_bind)
  fix read :: workflow_record and now
  let ?R = "\<lambda>w s. (stored p s wid w \<and> same_unstarted read w) \<and> all_started p ready s"
  show "safely p (\<lambda>s. stored p s wid read \<and> all_started p ready s)
      (act_bind (observe_duration p read now) (\<lambda>w. act_fold (recover_task p w) (wr_tasks w) ready)) (all_started p)"
  proof (rule safely_bind [OF safely_frame [OF safely_observe_duration [OF assms] stable_all_started]])
    fix w :: workflow_record
    show "safely p (?R w) (act_fold (recover_task p w) (wr_tasks w) ready) (all_started p)"
    proof (rule safely_pure)
      show "wr_id w = wid" if "store_ok p s" "?R w s" for s using stored_ok(2) that by blast
      assume w: "wr_id w = wid"
      let ?J = "\<lambda>es ready s. recoverable p wid es s \<and> all_started p ready s"
      have "safely p (?J (wr_tasks w) ready) (act_fold (recover_task p w) (wr_tasks w) ready) (?J [])"
      proof (rule safely_fold_rest)
        fix e es ready
        show "safely p (?J (e # es) ready) (recover_task p w e ready) (?J es)"
          using safely_recover_task [OF assms w] by (cases e) simp
      qed
      then show ?thesis by (rule safely_weaken) (use stored_recoverable in blast)+
    qed
  qed
qed

lemma safely_recover_pages:
  assumes "roundtrip p"
  shows "safely p (all_started p ready) (recover_pages fuel p cursor ready) (all_started p)"
proof (induction fuel arbitrary: cursor ready)
  case (Suc fuel)
  have step: "safely p (all_started p ready) (act_fold (\<lambda>snap. recover_workflow p (ss_workflow snap)) items ready)
      (all_started p)" for items :: "'a workflow_snapshot list"
    by (rule safely_fold) (rule safely_recover_workflow [OF assms])
  show ?case
    unfolding recover_pages.simps
  proof (rule safely_store_read_bind, rule safely_bind [OF step])
    fix page :: "'a workflow_page" and ready'
    show "safely p (all_started p ready') (case pg_next page of None \<Rightarrow> act_return ready'
        | Some cursor' \<Rightarrow> recover_pages fuel p (Some cursor') ready') (all_started p)"
      by (cases "pg_next page") (simp_all add: Suc safely_return)
  qed
qed (simp add: safely_fail)

lemma safely_recover:
  assumes "roundtrip p"
  shows "safely p (\<lambda>_. True) (recover p) (all_started p)"
  unfolding recover_def
  by (rule safely_get_bind, rule safely_weaken [OF safely_recover_pages [OF assms]]) (simp_all add: all_started_def)

end
