(* ===== verification/Scheduling.thy ===== *)
theory Scheduling
  imports ModelActions
begin

text \<open>
  The scheduler of \<^verbatim>\<open>crates/runtime/src/tasks/scheduling.rs\<close>: one tick visits a page of
  workflows, and for each queued task whose inputs are ready builds the exact dispatch, freezes it
  into the record and returns it once the record is committed.  The lemmas show that everything a
  tick returns is a committed start, that it keeps the durable state's invariant, and that it stays
  within its bound and within the limits on concurrent tasks.
\<close>

section \<open>Building a dispatch\<close>

definition scheduling_error :: "string \<Rightarrow> runtime_error" where
  "scheduling_error text = Scheduling text"

definition task_node :: "task_id \<Rightarrow> runtime_error + node_id" where
  "task_node tid = res_map (\<lambda>_. tid)
    (map_err (\<lambda>e. scheduling_error (identity_display e)) (validate_identity tid ''NodeId'' 128))"

definition store_identity_of :: "string \<Rightarrow> string \<Rightarrow> runtime_error + string" where
  "store_identity_of kind text = res_map (\<lambda>_. text)
    (map_err (\<lambda>e. scheduling_error (persistence_display e)) (store_validate_identity text kind))"

definition capability_identity_of :: "string \<Rightarrow> nat \<Rightarrow> string \<Rightarrow> runtime_error + string" where
  "capability_identity_of kind maximum text = res_map (\<lambda>_. text)
    (map_err (\<lambda>e. scheduling_error (contract_display e)) (validate_id text kind maximum Simple))"

definition contract_result :: "contract_error + 'a \<Rightarrow> runtime_error + 'a" where
  "contract_result r = map_err (\<lambda>e. scheduling_error (contract_display e)) r"

definition model_result :: "model_contract_error + 'a \<Rightarrow> runtime_error + 'a" where
  "model_result r = map_err (\<lambda>e. scheduling_error (model_display e)) r"

definition task_key :: "task_id \<Rightarrow> operation_contract \<Rightarrow> runtime_error + idempotency_key option" where
  "task_key tid contract = (case oc_idempotency contract of
      IdemUnsupported \<Rightarrow> Inr None
    | _ \<Rightarrow> res_map Some (capability_identity_of ''IdempotencyKey'' 192 (''task_'' @ tid)))"

definition inline :: "('doc, 'm) ports \<Rightarrow> string \<Rightarrow> json \<Rightarrow> runtime_error + input_reference" where
  "inline p name v =
    res_bind (contract_result (bounded_json_new (bc_json (tc_blueprint (po_codec p))) v)) (\<lambda>bounded.
    contract_result (input_new name (Inline bounded)))"

definition artifact_input :: "string \<Rightarrow> artifact_reference \<Rightarrow> runtime_error + input_reference" where
  "artifact_input name reference = contract_result (input_new name (Artifact reference))"

text \<open>The prompt text so far, and the artifacts supplied beside it.\<close>

definition render_input ::
  "('doc, 'm) ports \<Rightarrow> string \<times> task_input_value \<Rightarrow> string \<times> input_reference list
    \<Rightarrow> runtime_error + (string \<times> input_reference list)" where
  "render_input p entry state = (case (entry, state) of ((name, v), (content, references)) \<Rightarrow>
    let content' = content @ [CHR 0x0A, CHR 0x0A] @ ''Input '' @ name @ '':'' @ [CHR 0x0A] in
    (case v of
      Text text \<Rightarrow> Inr (content' @ text, references)
    | TextFile _ text _ _ \<Rightarrow> Inr (content' @ text, references)
    | JsonInput j \<Rightarrow> res_map (\<lambda>text. (content' @ text, references))
        (encode_json (bc_json (tc_blueprint (po_codec p))) j)
    | Absent \<Rightarrow> Inr (content' @ ''[explicitly absent optional input]'', references)
    | ArtifactInput reference \<Rightarrow> res_map (\<lambda>i.
        (content' @ ''[immutable named artifact supplied with this request]'', references @ [i]))
        (artifact_input name reference)))"

definition model_inputs ::
  "('doc, 'm) ports \<Rightarrow> workflow_record \<Rightarrow> task_record \<Rightarrow> (string, task_input_value) bmap
    \<Rightarrow> runtime_error + input_reference list" where
  "model_inputs p w t inputs =
    res_bind (res_fold (render_input p) inputs (td_instructions (tk_definition t), [])) (\<lambda>(content, references).
    res_bind (model_result (message_new UserRole [TextPart content] None)) (\<lambda>prompt.
    res_bind (if td_actions (tk_definition t) = None then Inr ([prompt], None)
      else res_bind (authoring_context p w t) (\<lambda>(snapshot, schema).
        res_bind (model_result (message_new UserRole [TextPart snapshot] None)) (\<lambda>context.
        Inr ([prompt, context], Some schema)))) (\<lambda>(messages, structured).
    res_bind (model_result (model_request_new \<lparr>mr_messages = messages, mr_tools = [],
      mr_structured_output = structured, mr_session = Fresh, mr_reasoning = None,
      mr_maximum_output_units = 4096, mr_streaming = False, mr_extensions = []\<rparr>)) (\<lambda>request.
    res_bind (map_err RtJson (po_model_document p request)) (\<lambda>document.
    res_bind (inline p MODEL_TASK_INPUT_NAME document) (\<lambda>i.
    Inr (references @ [i])))))))"

definition plain_input ::
  "('doc, 'm) ports \<Rightarrow> string \<times> task_input_value \<Rightarrow> runtime_error + input_reference" where
  "plain_input p entry = (case entry of (name, v) \<Rightarrow> (case v of
      Text text \<Rightarrow> inline p name (JString text)
    | TextFile _ text _ _ \<Rightarrow> inline p name (JString text)
    | JsonInput j \<Rightarrow> inline p name j
    | Absent \<Rightarrow> inline p name JNull
    | ArtifactInput reference \<Rightarrow> artifact_input name reference))"

definition plain_inputs ::
  "('doc, 'm) ports \<Rightarrow> task_record \<Rightarrow> (string, task_input_value) bmap \<Rightarrow> runtime_error + input_reference list" where
  "plain_inputs p t inputs =
    res_bind (inline p ''instructions'' (JString (td_instructions (tk_definition t)))) (\<lambda>instructions.
    res_bind (res_collect (plain_input p) inputs) (\<lambda>rest.
    Inr (instructions # rest)))"

definition output_budget :: "workflow_record \<Rightarrow> runtime_error + workspace_budget" where
  "output_budget w =
    res_bind (ok_or (scheduling_error ''output count overflow'')
      (checked_mul (ucast (wl_tasks (wr_limits w))) 64)) (\<lambda>artifacts.
    res_bind (ok_or (scheduling_error ''output capacity overflow'')
      (checked_mul (ucast (wl_tasks (wr_limits w))) TASK_OUTPUT_BYTES)) (\<lambda>bytes.
    map_err (\<lambda>e. scheduling_error (workspace_display e)) (workspace_budget_new
      \<lparr>wb_max_value_versions = 0, wb_max_inline_bytes_per_value = 0, wb_max_total_inline_bytes = 0,
       wb_max_artifacts = artifacts, wb_max_bytes_per_artifact = TASK_OUTPUT_BYTES,
       wb_max_total_artifact_bytes = bytes\<rparr>)))"

text \<open>A fresh identity of the generator, checked by the type it is read into.\<close>

definition fresh_identity :: "string \<Rightarrow> (string \<Rightarrow> runtime_error + string) \<Rightarrow> ('doc, 'm, string) act" where
  "fresh_identity kind check = act_bind (next_id kind) (\<lambda>text. act_lift (check text))"

definition supplied_definition :: "task_definition \<Rightarrow> (string, task_input_value) bmap \<Rightarrow> task_definition" where
  "supplied_definition d inputs = d\<lparr>td_inputs := bm_map (\<lambda>_. InlineBinding) inputs\<rparr>"

text \<open>The authorized selection of a capability for one attempt.\<close>

definition select_capability ::
  "('doc, 'm) ports \<Rightarrow> workflow_record \<Rightarrow> task_record \<Rightarrow> timestamp
    \<Rightarrow> ('doc, 'm, resolution_context \<times> resolved_capability \<times> authority_decision) act" where
  "select_capability p w t now =
    act_bind (act_lift (encode_json (bc_definition (tc_blueprint (po_codec p))) (tk_definition t))) (\<lambda>bytes.
    act_bind (act_lift (task_node (tk_id t))) (\<lambda>node.
    act_bind (act_lift (store_identity_of ''NodeExecutionId'' (''execution_'' @ tk_id t))) (\<lambda>execution.
    act_bind (fresh_identity ''attempt'' (store_identity_of ''AttemptId'')) (\<lambda>attempt.
    act_bind (act_lift (task_context w (tk_definition t) (revision_identity p bytes) node execution attempt)) (\<lambda>context.
    act_bind (resolve_now p (td_capability (tk_definition t)) context now) (\<lambda>resolved.
    act_bind (act_lift (ok_or (scheduling_error ''executor omitted exact selection authorization'')
      (rv_authorization resolved))) (\<lambda>authorization.
    act_return (context, resolved, authorization))))))))"

definition invocation_for ::
  "('doc, 'm) ports \<Rightarrow> workflow_record \<Rightarrow> task_record \<Rightarrow> (string, task_input_value) bmap \<Rightarrow> resolved_capability
    \<Rightarrow> invocation_id \<Rightarrow> runtime_error + invocation_request" where
  "invocation_for p w t inputs resolved invocation = (let s = rv_snapshot resolved in
    res_bind (task_key (tk_id t) (sn_contract s)) (\<lambda>key.
    res_bind (if cd_category (rv_descriptor resolved) = Model then model_inputs p w t inputs
      else plain_inputs p t inputs) (\<lambda>references.
    contract_result (request_new (po_extensions p) \<lparr>ir_invocation = invocation,
      ir_capability = sn_capability s, ir_operation = sn_operation s,
      ir_provider_profile = sn_provider_profile s, ir_idempotency_key = key,
      ir_inputs = references, ir_extensions = []\<rparr>))))"

definition assemble_dispatch ::
  "('doc, 'm) ports \<Rightarrow> workflow_record \<Rightarrow> task_record \<Rightarrow> resolution_context \<Rightarrow> resolved_capability
    \<Rightarrow> authority_decision \<Rightarrow> authority_decision \<Rightarrow> invocation_request \<Rightarrow> lease_id \<Rightarrow> timestamp
    \<Rightarrow> runtime_error + execution_dispatch" where
  "assemble_dispatch p w t context resolved authorization entry request lease expires_at =
    res_bind (output_budget w) (\<lambda>budget.
    res_bind (map_err (\<lambda>e. scheduling_error (workspace_display e)) (workspace_identity (wr_id w) ''RunId'' 128)) (\<lambda>_.
    res_bind (map_err RtExecutor (from_snapshot (po_payload_digest p)
      \<lparr>xd_task_inputs = False, xd_task_artifact_budget = None, xd_native_path_claims = [], xd_task_tools = [],
       xd_maximum_tool_calls = 0, xd_run = wr_id w, xd_revision = rx_revision context, xd_node = rx_node context,
       xd_execution = rx_execution context, xd_attempt = rx_attempt context, xd_lease = lease,
       xd_lease_expires_at = expires_at, xd_resolution = rv_snapshot resolved,
       xd_execution_authority = wr_execution_authority w, xd_resolution_authorization = authorization,
       xd_entry_authorization = entry, xd_request = request\<rparr>)) (\<lambda>x.
    let dispatch = with_task_tools (td_tools (tk_definition t)) (wl_tool_calls_per_task (wr_limits w))
      (for_task budget (td_paths (tk_definition t)) x) in
    res_bind (encode_json (tc_dispatch (po_codec p)) dispatch) (\<lambda>bytes.
    res_bind (ensure (length bytes \<le> MAX_DISPATCH_BYTES)
      (scheduling_error ''frozen external dispatch exceeds its reserved 64 KiB allowance'')) (\<lambda>_.
    Inr dispatch)))))"

definition prepare_dispatch ::
  "('doc, 'm) ports \<Rightarrow> workflow_record \<Rightarrow> task_record \<Rightarrow> (string, task_input_value) bmap \<Rightarrow> timestamp
    \<Rightarrow> ('doc, 'm, execution_dispatch) act" where
  "prepare_dispatch p w t inputs now =
    act_bind (act_lift (map_err (\<lambda>e. scheduling_error (definition_display e))
      (validate_supplied_inputs (tc_blueprint (po_codec p)) (supplied_definition (tk_definition t) inputs) []))) (\<lambda>_.
    act_bind (select_capability p w t now) (\<lambda>(context, resolved, authorization).
    act_bind (fresh_identity ''invocation'' (capability_identity_of ''InvocationId'' 128)) (\<lambda>invocation.
    act_bind (act_lift (invocation_for p w t inputs resolved invocation)) (\<lambda>request.
    act_bind (fresh_identity ''lease'' (store_identity_of ''LeaseId'')) (\<lambda>lease.
    act_bind (act_lift (ok_or (scheduling_error ''task lease deadline overflow'')
      (checked_add now (remaining w)))) (\<lambda>expires_at.
    act_bind (evaluate_now p ((ad_request authorization)\<lparr>aq_evaluated_at := now\<rparr>)) (\<lambda>entry.
    act_bind (act_ensure (is_allowed entry) (scheduling_error ''grant was revoked before task start'')) (\<lambda>_.
    act_lift (assemble_dispatch p w t context resolved authorization entry request lease expires_at)))))))))"


section \<open>One tick\<close>

text \<open>What became of one candidate: the loop stops, goes on, or has a new start.\<close>

datatype candidate =
    StopLoop
  | NextCandidate workflow_record
  | StartedCandidate workflow_record execution_dispatch

text \<open>A start is a decision: it moves the generation model authors are compared with.\<close>

definition advance_decided ::
  "('doc, 'm) ports \<Rightarrow> workflow_record \<Rightarrow> (workflow_record \<Rightarrow> command_acceptance option)
    \<Rightarrow> ('doc, 'm, commit_outcome \<times> workflow_record) act" where
  "advance_decided p w command =
    act_bind (advance p w) (\<lambda>(expected, w').
    let decided = w'\<lparr>wr_decision_generation := wr_generation w'\<rparr> in
    act_bind (save p decided (Some expected) (command decided)) (\<lambda>outcome.
    act_return (outcome, decided)))"

definition queued_task :: "workflow_record \<Rightarrow> task_id \<Rightarrow> runtime_error + task_record" where
  "queued_task w tid = ok_or (scheduling_error ''queued task disappeared'') (map_of (wr_tasks w) tid)"

definition concurrency_limit :: "workflow_record \<Rightarrow> nat" where
  "concurrency_limit w = unat (min (wl_concurrent_tasks (wr_limits w))
    (case ab_concurrency (wr_allowance w) of None \<Rightarrow> wl_concurrent_tasks (wr_limits w) | Some n \<Rightarrow> n))"

definition occupies :: "task_record \<Rightarrow> bool" where
  "occupies t \<longleftrightarrow> tk_state t = Running \<or> tk_state t = Unresolved"

text \<open>A reason is saved only when it changed.\<close>

definition note_reason ::
  "('doc, 'm) ports \<Rightarrow> task_id \<Rightarrow> task_record \<Rightarrow> string \<Rightarrow> workflow_record \<Rightarrow> ('doc, 'm, candidate) act" where
  "note_reason p tid t reason w =
    (if tk_reason t = Some reason then act_return (NextCandidate w)
     else
      act_bind (act_lift (ok_or (scheduling_error ''task disappeared'') (map_of (wr_tasks w) tid))) (\<lambda>selected.
      act_bind (advance_save p (set_task tid (selected\<lparr>tk_reason := Some reason\<rparr>) w)) (\<lambda>w'.
      act_return (NextCandidate w'))))"

definition retained_start ::
  "('doc, 'm) ports \<Rightarrow> task_id \<Rightarrow> task_record \<Rightarrow> frozen_start \<Rightarrow> workflow_record \<Rightarrow> ('doc, 'm, candidate) act" where
  "retained_start p tid t fz w =
    (if fz_entered fz \<or> tk_stop_requested t then act_return (NextCandidate w)
     else
      act_bind (advance_decided p (set_task tid (t\<lparr>tk_state := Running, tk_reason := None\<rparr>) w) (\<lambda>_. None)) (\<lambda>(_, w').
      act_return (StartedCandidate w' (fz_dispatch fz))))"

definition frozen_for ::
  "u64 \<Rightarrow> task_definition \<Rightarrow> (string, task_input_value) bmap \<Rightarrow> execution_dispatch \<Rightarrow> frozen_start" where
  "frozen_for generation d inputs x = \<lparr>fz_accepted_generation = generation, fz_definition = d,
    fz_inputs = inputs, fz_dispatch = x, fz_entered = False, fz_duration = None, fz_reports = []\<rparr>"

definition started_task :: "timestamp \<Rightarrow> frozen_start \<Rightarrow> task_record \<Rightarrow> task_record" where
  "started_task now fz t = t\<lparr>tk_state := Running, tk_started_at := Some now, tk_reason := None,
    tk_frozen := Some fz\<rparr>"

definition freeze_start ::
  "('doc, 'm) ports \<Rightarrow> task_id \<Rightarrow> task_record \<Rightarrow> (string, task_input_value) bmap \<Rightarrow> execution_dispatch
    \<Rightarrow> timestamp \<Rightarrow> workflow_record \<Rightarrow> ('doc, 'm, candidate) act" where
  "freeze_start p tid t inputs x now w =
    act_bind (act_lift (ok_or (scheduling_error ''task disappeared'') (map_of (wr_tasks w) tid))) (\<lambda>selected.
    act_bind (act_lift (ok_or (scheduling_error ''workflow generation exhausted'')
      (checked_add (wr_generation w) 1))) (\<lambda>generation.
    act_bind (advance_decided p (set_task tid
        (started_task now (frozen_for generation (tk_definition t) inputs x) selected) w) (\<lambda>_. None)) (\<lambda>(_, w').
    act_return (StartedCandidate w' x))))"

definition fail_start ::
  "('doc, 'm) ports \<Rightarrow> task_id \<Rightarrow> runtime_error \<Rightarrow> timestamp \<Rightarrow> workflow_record \<Rightarrow> ('doc, 'm, candidate) act" where
  "fail_start p tid error now w =
    act_bind (act_lift (ok_or (scheduling_error ''task disappeared'') (map_of (wr_tasks w) tid))) (\<lambda>selected.
    act_bind (advance_save p (set_task tid (selected\<lparr>tk_state := Failed,
      tk_reason := bounded_reason (runtime_display (po_quoted p) error), tk_ended_at := Some now\<rparr>) w)) (\<lambda>w'.
    act_return (NextCandidate w')))"

definition retries_later :: "runtime_error \<Rightarrow> bool" where
  "retries_later e = (case e of
      RtExecutor (CapacityUnavailable _) \<Rightarrow> True
    | RtExecutor (Unavailable _) \<Rightarrow> True
    | _ \<Rightarrow> False)"

definition start_ready ::
  "('doc, 'm) ports \<Rightarrow> task_id \<Rightarrow> task_record \<Rightarrow> (string, task_input_value) bmap \<Rightarrow> workflow_record
    \<Rightarrow> ('doc, 'm, candidate) act" where
  "start_ready p tid t inputs read =
    act_bind (clock_now p) (\<lambda>now.
    act_bind (observe_duration p read now) (\<lambda>w.
    if remaining w = 0 then act_return StopLoop
    else
      act_bind (act_try (prepare_dispatch p w t inputs now)) (\<lambda>outcome. case outcome of
        Inr x \<Rightarrow> freeze_start p tid t inputs x now w
      | Inl e \<Rightarrow>
          if retries_later e
          then note_reason p tid t (truncate_utf8 (runtime_display (po_quoted p) e) 4096) w
          else fail_start p tid e now w)))"

definition tick_candidate ::
  "('doc, 'm) ports \<Rightarrow> task_id \<Rightarrow> workflow_record \<Rightarrow> ('doc, 'm, candidate) act" where
  "tick_candidate p tid w =
    act_bind (act_lift (queued_task w tid)) (\<lambda>t. case tk_frozen t of
      Some fz \<Rightarrow> retained_start p tid t fz w
    | None \<Rightarrow>
        act_bind (active_task_count p) (\<lambda>count.
        act_bind (act_get rt_maximum_active_tasks) (\<lambda>maximum.
        if ucast maximum \<le> count then act_return StopLoop
        else case resolve_inputs (po_codec p) w t of
          Inl reason \<Rightarrow> note_reason p tid t reason w
        | Inr inputs \<Rightarrow> start_ready p tid t inputs w)))"

primrec tick_candidates ::
  "('doc, 'm) ports \<Rightarrow> nat \<Rightarrow> task_id list \<Rightarrow> workflow_record \<Rightarrow> nat \<Rightarrow> execution_dispatch list
    \<Rightarrow> ('doc, 'm, execution_dispatch list) act" where
  "tick_candidates p maximum [] w active dispatches = act_return dispatches"
| "tick_candidates p maximum (tid # rest) w active dispatches =
    (if maximum \<le> length dispatches \<or> concurrency_limit w \<le> active then act_return dispatches
     else
      act_bind (tick_candidate p tid w) (\<lambda>next. case next of
        StopLoop \<Rightarrow> act_return dispatches
      | NextCandidate w' \<Rightarrow> tick_candidates p maximum rest w' active dispatches
      | StartedCandidate w' x \<Rightarrow>
          act_bind (act_lift (ok_or (scheduling_error ''task concurrency overflow'') (usize_add active 1))) (\<lambda>active'.
          tick_candidates p maximum rest w' active' (dispatches @ [x]))))"

definition occupancy :: "workflow_record \<Rightarrow> nat" where
  "occupancy w = length (filter occupies (task_list w))"

definition queued_ids :: "workflow_record \<Rightarrow> task_id list" where
  "queued_ids w = map fst (filter (\<lambda>(_, t). tk_state t = Queued) (wr_tasks w))"

definition tick_workflow ::
  "('doc, 'm) ports \<Rightarrow> nat \<Rightarrow> workflow_id \<Rightarrow> execution_dispatch list \<Rightarrow> ('doc, 'm, execution_dispatch list) act" where
  "tick_workflow p maximum wid dispatches =
    act_bind (require_workflow p wid) (\<lambda>read.
    act_bind (clock_now p) (\<lambda>now.
    act_bind (observe_duration p read now) (\<lambda>observed.
    act_bind (act_lift (request_policy_stop observed)) (\<lambda>(stopped, changed).
    act_bind (if changed then advance_save p stopped else act_return stopped) (\<lambda>w.
    if wr_wait_question w \<noteq> None then act_return dispatches
    else tick_candidates p maximum (queued_ids w) w (occupancy w) dispatches)))))"

definition tick :: "('doc, 'm) ports \<Rightarrow> nat \<Rightarrow> ('doc, 'm, execution_dispatch list) act" where
  "tick p maximum =
    act_bind (act_ensure (0 < maximum \<and> maximum \<le> 200) (scheduling_error ''task tick bound must be 1..=200'')) (\<lambda>_.
    act_bind is_closed (\<lambda>closed.
    if closed then act_return []
    else
      act_bind (act_get rt_cursor) (\<lambda>cursor.
      act_bind (store_read p (\<lambda>s. store_workflows (po_store_codec p) s cursor maximum)) (\<lambda>page.
      act_bind (act_update (\<lambda>rt. rt\<lparr>rt_cursor := pg_next page\<rparr>)) (\<lambda>_.
      act_fold (\<lambda>snap. tick_workflow p maximum (ss_workflow snap)) (pg_items page) [])))))"

section \<open>What a tick keeps\<close>

lemma safely_count_page: "safely p A (count_page p items count) (\<lambda>_. A)"
  unfolding count_page_def
  by (rule safely_fold, rule safely_bind [OF safely_require_workflow], rule safely_lift_bind, rule safely_lift) simp

lemma safely_count_pages: "safely p A (count_pages fuel p cursor count) (\<lambda>_. A)"
proof (induction fuel arbitrary: cursor count)
  case (Suc fuel)
  show ?case
    unfolding count_pages.simps
  proof (rule safely_store_read_bind, rule safely_call_bind [OF safely_count_page])
    fix page :: "'a workflow_page" and count'
    show "safely p A (case pg_next page of None \<Rightarrow> act_return count'
        | Some cursor' \<Rightarrow> count_pages fuel p (Some cursor') count') (\<lambda>_. A)"
      by (cases "pg_next page") (simp_all add: Suc safely_return)
  qed
qed (simp add: safely_fail)

lemma safely_active_count: "safely p A (active_task_count p) (\<lambda>_. A)"
  unfolding active_task_count_def
proof (rule safely_get_bind)
  fix active :: "u64 option"
  show "safely p A (case active of Some count \<Rightarrow> act_return count
    | None \<Rightarrow> act_bind (act_get (\<lambda>rt. Suc (length (st_workflows (rt_store rt))))) (\<lambda>fuel.
        act_bind (count_pages fuel p None 0) (\<lambda>count.
        act_bind (act_update (\<lambda>rt. rt\<lparr>rt_active_tasks := Some count\<rparr>)) (\<lambda>_. act_return count)))) (\<lambda>_. A)"
    by (cases active) (auto intro!: safely_get_bind safely_call_bind [OF safely_count_pages]
        safely_call_bind [OF safely_update] safely_return)
qed

lemma assembled:
  assumes "assemble_dispatch p w t context resolved authorization entry request lease expires_at = Inr x"
  shows "xd_run x = wr_id w" and "xd_node x = rx_node context"
  using assms by (auto simp add: assemble_dispatch_def from_snapshot_def for_task_def with_task_tools_def Let_def
      res_simps)

lemma safely_fresh_identity: "safely p A (fresh_identity kind check) (\<lambda>_. A)"
  unfolding fresh_identity_def by (intro safely_call_bind [OF safely_next_id] safely_lift)

lemma safely_select:
  "safely p A (select_capability p w t now) (\<lambda>r s. A s \<and> rx_node (fst r) = tk_id t)"
  unfolding select_capability_def
  by (intro safely_lift_bind safely_call_bind [OF safely_fresh_identity] safely_call_bind [OF safely_resolve] safely_return)
    (auto simp add: task_node_def task_context_def res_simps)

lemma safely_prepare_dispatch:
  "safely p A (prepare_dispatch p w t inputs now) (\<lambda>x s. A s \<and> xd_run x = wr_id w \<and> xd_node x = tk_id t)"
  unfolding prepare_dispatch_def
proof (rule safely_lift_bind, rule safely_bind [OF safely_select], clarify)
  fix cx resolved authorization
  show "safely p (\<lambda>s. A s \<and> rx_node (fst (cx, resolved, authorization)) = tk_id t)
    (act_bind (fresh_identity ''invocation'' (capability_identity_of ''InvocationId'' 128)) (\<lambda>invocation.
    act_bind (act_lift (invocation_for p w t inputs resolved invocation)) (\<lambda>request.
    act_bind (fresh_identity ''lease'' (store_identity_of ''LeaseId'')) (\<lambda>lease.
    act_bind (act_lift (ok_or (scheduling_error ''task lease deadline overflow'')
      (checked_add now (remaining w)))) (\<lambda>expires_at.
    act_bind (evaluate_now p ((ad_request authorization)\<lparr>aq_evaluated_at := now\<rparr>)) (\<lambda>entry.
    act_bind (act_ensure (is_allowed entry) (scheduling_error ''grant was revoked before task start'')) (\<lambda>_.
    act_lift (assemble_dispatch p w t cx resolved authorization entry request lease expires_at))))))))
    (\<lambda>x s. A s \<and> xd_run x = wr_id w \<and> xd_node x = tk_id t)"
    by (intro safely_call_bind [OF safely_fresh_identity] safely_lift_bind safely_evaluate_bind safely_ensure_bind
        safely_lift) (auto dest: assembled)
qed

lemma safely_advance_decided:
  assumes "roundtrip p" and "progresses (po_codec p) w v" and "wr_id v = wr_id w"
  shows "safely p (\<lambda>s. stored p s i w) (advance_decided p v command)
    (\<lambda>(outcome, w') s. advanced_from p w v w' \<and> ((\<forall>u. command u = None) \<longrightarrow> is_applied outcome)
      \<and> (is_applied outcome \<longrightarrow> stored p s i w'))"
  unfolding advance_decided_def Let_def
proof (rule safely_bind [OF safely_advance [OF assms(2,3)]])
  fix r :: "u64 \<times> workflow_record"
  obtain expected u where r: "r = (expected, u)" by (cases r)
  let ?d = "u\<lparr>wr_decision_generation := wr_generation u\<rparr>"
  show "safely p (\<lambda>s. stored p s i w \<and> advanced_from p w v (snd r))
      (case r of (expected, w') \<Rightarrow> act_bind (save p (w'\<lparr>wr_decision_generation := wr_generation w'\<rparr>) (Some expected)
        (command (w'\<lparr>wr_decision_generation := wr_generation w'\<rparr>))) (\<lambda>outcome.
        act_return (outcome, w'\<lparr>wr_decision_generation := wr_generation w'\<rparr>)))
      (\<lambda>(outcome, w') s. advanced_from p w v w' \<and> ((\<forall>u. command u = None) \<longrightarrow> is_applied outcome)
        \<and> (is_applied outcome \<longrightarrow> stored p s i w'))"
    unfolding r prod.case snd_conv
  proof (rule safely_pure [where c = "advanced_from p w v u"])
    assume a: "advanced_from p w v u"
    then have d: "advanced_from p w v ?d" by (simp add: advanced_from_def)
    have saved: "safely p (\<lambda>s. stored p s i w \<and> advanced_from p w v u) (save p ?d (Some expected) (command ?d))
      (\<lambda>outcome s. (command ?d = None \<longrightarrow> is_applied outcome) \<and> (is_applied outcome \<longrightarrow> stored p s i ?d))"
      by (rule safely_weaken [OF safely_save_stored [OF assms(1), where w = w]])
        (use d in \<open>auto simp add: advanced_from_def\<close>)
    show "safely p (\<lambda>s. stored p s i w \<and> advanced_from p w v u)
        (act_bind (save p ?d (Some expected) (command ?d)) (\<lambda>outcome. act_return (outcome, ?d)))
        (\<lambda>(outcome, w') s. advanced_from p w v w' \<and> ((\<forall>u. command u = None) \<longrightarrow> is_applied outcome)
          \<and> (is_applied outcome \<longrightarrow> stored p s i w'))"
      by (intro safely_bind [OF saved] safely_return) (use d in auto)
  qed simp
qed

text \<open>What a candidate's step does to its own task.\<close>

lemma queued_open [simp]: "tk_state t = Queued \<Longrightarrow> \<not> is_settled (tk_state t)"
  by simp

lemma start_progress:
  assumes "task_ok codec wid tid t" and "tk_frozen t = None" and "tk_state t = Queued"
    and "xd_run x = wid" and "xd_node x = tk_id t"
  shows "task_ok codec wid tid (started_task now (frozen_for generation (tk_definition t) inputs x) t)
    \<and> task_evolves t (started_task now (frozen_for generation (tk_definition t) inputs x) t)"
  using assms by (simp add: started_task_def frozen_for_def task_ok_def start_ok_def reports_ok_def evidence_ok_def
      report_outputs_def accepted.none task_evolves_def opt_keeps_refl)

lemma retain_progress:
  assumes "task_ok codec wid tid t" and "tk_frozen t = Some fz" and "\<not> fz_entered fz" and "tk_state t = Queued"
  shows "task_ok codec wid tid (t\<lparr>tk_state := Running, tk_reason := None\<rparr>)
    \<and> task_evolves t (t\<lparr>tk_state := Running, tk_reason := None\<rparr>)"
  using assms by (auto simp add: task_ok_def start_ok_def evidence_ok_def task_evolves_def opt_keeps_refl
      split: option.splits)

lemma reason_progress:
  assumes "task_ok codec wid tid t" and "tk_state t = Queued"
  shows "task_ok codec wid tid (t\<lparr>tk_reason := r\<rparr>) \<and> task_evolves t (t\<lparr>tk_reason := r\<rparr>)"
  using assms by (auto simp add: task_ok_def start_ok_def evidence_ok_def task_evolves_def opt_keeps_refl
      split: option.splits)

lemma fail_progress:
  assumes "task_ok codec wid tid t" and "tk_frozen t = None" and "tk_state t = Queued"
  shows "task_ok codec wid tid (t\<lparr>tk_state := Failed, tk_reason := r, tk_ended_at := e\<rparr>)
    \<and> task_evolves t (t\<lparr>tk_state := Failed, tk_reason := r, tk_ended_at := e\<rparr>)"
  using assms by (simp add: task_ok_def task_evolves_def opt_keeps_refl)

text \<open>A step leaves the state of every other task and the concurrency limit alone.\<close>

definition others_same :: "task_id \<Rightarrow> workflow_record \<Rightarrow> workflow_record \<Rightarrow> bool" where
  "others_same tid w w' \<longleftrightarrow> concurrency_limit w' = concurrency_limit w
    \<and> (\<forall>tid'. tid' \<noteq> tid \<longrightarrow>
      map_option tk_state (map_of (wr_tasks w') tid') = map_option tk_state (map_of (wr_tasks w) tid'))"

lemma others_same_refl [simp]: "others_same tid w w"
  by (simp add: others_same_def)

lemma concurrency_limit_same:
  "wr_limits w' = wr_limits w \<Longrightarrow> wr_allowance w' = wr_allowance w \<Longrightarrow> concurrency_limit w' = concurrency_limit w"
  by (simp add: concurrency_limit_def cong: option.case_cong)

lemma same_unstarted_limit: "same_unstarted w w' \<Longrightarrow> concurrency_limit w' = concurrency_limit w"
  by (rule concurrency_limit_same) (simp_all add: same_unstarted_def)

lemma same_unstarted_others: "same_unstarted w w' \<Longrightarrow> others_same tid w' w'' \<Longrightarrow> others_same tid w w''"
  by (simp add: others_same_def same_unstarted_limit) (simp add: same_unstarted_def)

lemma advanced_states:
  assumes "advanced_from p w v w'"
  shows "map_option tk_state (map_of (wr_tasks w') tid) = map_option tk_state (map_of (wr_tasks v) tid)"
    and "concurrency_limit w' = concurrency_limit v"
  using assms
  by (auto simp add: advanced_from_def option.map_comp comp_def asks_stop_simps intro: concurrency_limit_same)

lemma advanced_others: "advanced_from p w (set_task tid t w) w' \<Longrightarrow> others_same tid w w'"
  by (simp add: others_same_def advanced_states) (rule concurrency_limit_same, simp_all add: set_task_def)

definition busy_at :: "workflow_record \<Rightarrow> task_id \<Rightarrow> bool" where
  "busy_at w tid \<longleftrightarrow> map_option tk_state (map_of (wr_tasks w) tid) \<in> {Some Running, Some Unresolved}"

lemma advanced_busy:
  assumes "advanced_from p w (set_task tid t' w) w'" and "map_of (wr_tasks w) tid = Some t"
  shows "busy_at w' tid \<longleftrightarrow> occupies t'"
  using assms(2) by (simp add: busy_at_def advanced_states(1) [OF assms(1)] occupies_def)

definition candidate_ok ::
  "('doc, 'm) ports \<Rightarrow> workflow_id \<Rightarrow> task_id \<Rightarrow> workflow_record \<Rightarrow> candidate \<Rightarrow> ('doc, 'm) store \<Rightarrow> bool" where
  "candidate_ok p wid tid w c s = (case c of
      StopLoop \<Rightarrow> (\<exists>w'. stored p s wid w' \<and> others_same tid w w' \<and> \<not> busy_at w' tid)
    | NextCandidate w' \<Rightarrow> stored p s wid w' \<and> others_same tid w w' \<and> \<not> busy_at w' tid
    | StartedCandidate w' x \<Rightarrow> stored p s wid w' \<and> others_same tid w w' \<and> busy_at w' tid \<and> started p x s)"

lemma queued_idle: "map_of (wr_tasks w) tid = Some t \<Longrightarrow> tk_state t = Queued \<Longrightarrow> \<not> busy_at w tid"
  by (simp add: busy_at_def)

lemma safely_note_reason:
  assumes "roundtrip p" and "map_of (wr_tasks w) tid = Some selected" and "tk_state selected = Queued"
  shows "safely p (\<lambda>s. stored p s wid w) (note_reason p tid t reason w) (candidate_ok p wid tid w)"
  unfolding note_reason_def
proof (intro safely_if safely_lift_bind safely_return)
  fix u assume "ok_or (scheduling_error ''task disappeared'') (map_of (wr_tasks w) tid) = Inr u"
  then have u: "u = selected" using assms(2) by (simp add: res_simps)
  let ?v = "set_task tid (u\<lparr>tk_reason := Some reason\<rparr>) w"
  have prog: "progresses (po_codec p) w ?v"
    by (rule progresses_set_task [OF assms(2)]) (use assms(3) u reason_progress in blast)
  have "others_same tid w w' \<and> \<not> busy_at w' tid" if "advanced_from p w ?v w'" for w'
    using advanced_others [OF that] advanced_busy [OF that assms(2)] assms(3) u by (simp add: occupies_def)
  then show "safely p (\<lambda>s. stored p s wid w) (act_bind (advance_save p ?v)
      (\<lambda>w'. act_return (NextCandidate w'))) (candidate_ok p wid tid w)"
    by (intro safely_transition_bind [OF assms(1) prog] safely_return) (simp_all add: candidate_ok_def)
qed (simp add: candidate_ok_def queued_idle [OF assms(2,3)])

lemma safely_fail_start:
  assumes "roundtrip p" and "map_of (wr_tasks w) tid = Some selected" and "tk_state selected = Queued"
    and "tk_frozen selected = None"
  shows "safely p (\<lambda>s. stored p s wid w) (fail_start p tid error now w) (candidate_ok p wid tid w)"
  unfolding fail_start_def
proof (rule safely_lift_bind)
  fix u assume "ok_or (scheduling_error ''task disappeared'') (map_of (wr_tasks w) tid) = Inr u"
  then have u: "u = selected" using assms(2) by (simp add: res_simps)
  let ?v = "set_task tid (u\<lparr>tk_state := Failed, tk_reason := bounded_reason (runtime_display (po_quoted p) error),
    tk_ended_at := Some now\<rparr>) w"
  have prog: "progresses (po_codec p) w ?v"
    by (rule progresses_set_task [OF assms(2)]) (use assms(3,4) u fail_progress in blast)
  have "others_same tid w w' \<and> \<not> busy_at w' tid" if "advanced_from p w ?v w'" for w'
    using advanced_others [OF that] advanced_busy [OF that assms(2)] by (simp add: occupies_def)
  then show "safely p (\<lambda>s. stored p s wid w) (act_bind (advance_save p ?v)
      (\<lambda>w'. act_return (NextCandidate w'))) (candidate_ok p wid tid w)"
    by (intro safely_transition_bind [OF assms(1) prog] safely_return) (simp_all add: candidate_ok_def)
qed

text \<open>The start that was committed is owned by the dispatch that is returned.\<close>

lemma safely_decide_start:
  assumes "roundtrip p" and "map_of (wr_tasks w) tid = Some t"
    and "progresses (po_codec p) w (set_task tid t' w)" and "tk_frozen t' = Some fz" and "tk_state t' = Running"
  shows "safely p (\<lambda>s. stored p s wid w)
    (act_bind (advance_decided p (set_task tid t' w) (\<lambda>_. None)) (\<lambda>(_, w'). act_return (StartedCandidate w' (fz_dispatch fz))))
    (candidate_ok p wid tid w)"
proof (rule safely_bind [OF safely_advance_decided [OF assms(1,3) set_task_simps(1)]], unfold split_def, rule safely_return)
  fix r :: "commit_outcome \<times> workflow_record" and s
  assume "store_ok p s" and "advanced_from p w (set_task tid t' w) (snd r)
      \<and> ((\<forall>u :: workflow_record. None = None) \<longrightarrow> is_applied (fst r)) \<and> (is_applied (fst r) \<longrightarrow> stored p s wid (snd r))"
  then have a: "advanced_from p w (set_task tid t' w) (snd r)" and st: "stored p s wid (snd r)" by simp_all
  obtain t'' where "map_of (wr_tasks (snd r)) tid = Some t''" "tk_frozen t'' = Some fz"
    using advanced_task [OF a set_task_simps(2) [OF assms(2)]] assms(4) by metis
  then have "started p (fz_dispatch fz) s"
    unfolding started_def using ownsI [OF \<open>store_ok p s\<close> st] by simp
  then show "candidate_ok p wid tid w (StartedCandidate (snd r) (fz_dispatch fz)) s"
    using st advanced_others [OF a] advanced_busy [OF a assms(2)] assms(5) by (simp add: candidate_ok_def occupies_def)
qed

lemma safely_retained_start:
  assumes "roundtrip p" and "map_of (wr_tasks w) tid = Some t" and "tk_state t = Queued" and "tk_frozen t = Some fz"
  shows "safely p (\<lambda>s. stored p s wid w) (retained_start p tid t fz w) (candidate_ok p wid tid w)"
  unfolding retained_start_def
proof (intro safely_if safely_return)
  assume "\<not> (fz_entered fz \<or> tk_stop_requested t)"
  then have "progresses (po_codec p) w (set_task tid (t\<lparr>tk_state := Running, tk_reason := None\<rparr>) w)"
    by (intro progresses_set_task [OF assms(2)]) (use assms(3,4) retain_progress in blast)
  then show "safely p (\<lambda>s. stored p s wid w)
      (act_bind (advance_decided p (set_task tid (t\<lparr>tk_state := Running, tk_reason := None\<rparr>) w) (\<lambda>_. None))
        (\<lambda>(_, w'). act_return (StartedCandidate w' (fz_dispatch fz)))) (candidate_ok p wid tid w)"
    by (rule safely_decide_start [OF assms(1,2)]) (simp_all add: assms(4))
qed (simp add: candidate_ok_def queued_idle [OF assms(2,3)])

text \<open>Building a dispatch does not write, whether it succeeds or not.\<close>

definition keeps_store :: "('doc, 'm, 'a) act \<Rightarrow> bool" where
  "keeps_store a \<longleftrightarrow> (\<forall>rt. rt_store (snd (a rt)) = rt_store rt)"

named_theorems keeping

lemma keeps_bind [keeping]: "keeps_store a \<Longrightarrow> (\<And>x. keeps_store (f x)) \<Longrightarrow> keeps_store (act_bind a f)"
  by (auto simp add: keeps_store_def act_bind_def split: prod.splits sum.splits) (metis snd_conv)+

lemma keeps_simple [keeping]:
  "keeps_store (act_return x)" "keeps_store (act_lift r)" "keeps_store (act_ensure b e)" "keeps_store (next_id kind)"
  "keeps_store (resolve_now p requirement cx now)" "keeps_store (evaluate_now p q)"
  by (auto simp add: keeps_store_def act_simps next_id_def resolve_now_def evaluate_now_def act_call_def
      split: prod.splits)

lemma keeps_prepare: "keeps_store (prepare_dispatch p w t inputs now)"
  unfolding prepare_dispatch_def select_capability_def fresh_identity_def split_def by (intro keeping)

lemma safely_try_keeping:
  assumes "safely p A a R" and "keeps_store a" and "\<And>x. safely p (R x) (f (Inr x)) B"
    and "\<And>e. safely p A (f (Inl e)) B"
  shows "safely p A (act_bind (act_try a) f) B"
proof (rule safelyI)
  fix rt r rt'
  assume g: "good p rt" "A (rt_store rt)" and run: "act_bind (act_try a) f rt = (r, rt')"
  obtain q rt1 where a: "a rt = (q, rt1)" by fastforce
  note first = safelyD [OF assms(1) g a]
  have f: "f q rt1 = (r, rt')" using run a by (simp add: act_bind_def act_try_def)
  have g1: "good p rt1" using first(1) by (simp add: follows_def)
  have A1: "A (rt_store rt1)" using assms(2) a g(2) by (metis keeps_store_def snd_conv)
  have "follows p rt1 rt' \<and> (\<forall>x. r = Inr x \<longrightarrow> B x (rt_store rt'))"
  proof (cases q)
    case (Inl e)
    then show ?thesis using safelyD [OF assms(4) g1 A1 f [unfolded Inl]] by blast
  next
    case (Inr x)
    then show ?thesis using safelyD [OF assms(3) g1 first(2) [OF Inr] f [unfolded Inr]] by blast
  qed
  then show "follows p rt rt' \<and> (\<forall>x. r = Inr x \<longrightarrow> B x (rt_store rt'))"
    using first(1) follows_trans by blast
qed

lemma safely_freeze_start:
  assumes "roundtrip p" and "map_of (wr_tasks w) tid = Some t" and "tk_state t = Queued" and "tk_frozen t = None"
    and "xd_run x = wr_id w" and "xd_node x = tk_id t"
  shows "safely p (\<lambda>s. stored p s wid w) (freeze_start p tid t inputs x now w) (candidate_ok p wid tid w)"
  unfolding freeze_start_def
proof (intro safely_lift_bind)
  fix u generation
  assume "ok_or (scheduling_error ''task disappeared'') (map_of (wr_tasks w) tid) = Inr u"
  then have u: "u = t" using assms(2) by (simp add: res_simps)
  let ?fz = "frozen_for generation (tk_definition t) inputs x"
  have "progresses (po_codec p) w (set_task tid (started_task now ?fz u) w)"
    unfolding u by (rule progresses_set_task [OF assms(2)]) (use assms(3-6) start_progress in blast)
  from safely_decide_start [OF assms(1,2) this, of ?fz]
  show "safely p (\<lambda>s. stored p s wid w) (act_bind (advance_decided p (set_task tid (started_task now ?fz u) w) (\<lambda>_. None))
      (\<lambda>(_, w'). act_return (StartedCandidate w' x))) (candidate_ok p wid tid w)"
    by (simp add: started_task_def frozen_for_def)
qed

lemma candidate_ok_observed:
  "same_unstarted w w' \<Longrightarrow> candidate_ok p wid tid w' c s \<Longrightarrow> candidate_ok p wid tid w c s"
  by (auto simp add: candidate_ok_def intro: same_unstarted_others split: candidate.splits)

lemma safely_start_ready:
  assumes "roundtrip p" and "map_of (wr_tasks w) tid = Some t" and "tk_state t = Queued" and "tk_frozen t = None"
  shows "safely p (\<lambda>s. stored p s wid w) (start_ready p tid t inputs w) (candidate_ok p wid tid w)"
  unfolding start_ready_def
proof (rule safely_clock_bind, rule safely_observe_bind [OF assms(1)])
  fix now and w' :: workflow_record
  assume w': "wr_id w' = wid" and same: "same_unstarted w w'"
  then have t: "map_of (wr_tasks w') tid = Some t" using assms(2,4) by (simp add: same_unstarted_def)
  have tried: "safely p (\<lambda>s. stored p s wid w') (act_bind (act_try (prepare_dispatch p w' t inputs now)) (\<lambda>outcome.
      case outcome of Inr x \<Rightarrow> freeze_start p tid t inputs x now w'
      | Inl e \<Rightarrow> if retries_later e
          then note_reason p tid t (truncate_utf8 (runtime_display (po_quoted p) e) 4096) w'
          else fail_start p tid e now w')) (candidate_ok p wid tid w')"
  proof (rule safely_try_keeping [OF safely_prepare_dispatch keeps_prepare])
    fix x
    show "safely p (\<lambda>s. stored p s wid w' \<and> xd_run x = wr_id w' \<and> xd_node x = tk_id t)
      (case Inr x of Inr x \<Rightarrow> freeze_start p tid t inputs x now w'
        | Inl e \<Rightarrow> if retries_later e
          then note_reason p tid t (truncate_utf8 (runtime_display (po_quoted p) e) 4096) w'
          else fail_start p tid e now w') (candidate_ok p wid tid w')"
      unfolding sum.case
    proof (rule safely_pure [where c = "xd_run x = wr_id w' \<and> xd_node x = tk_id t"])
      assume x: "xd_run x = wr_id w' \<and> xd_node x = tk_id t"
      show "safely p (\<lambda>s. stored p s wid w' \<and> xd_run x = wr_id w' \<and> xd_node x = tk_id t)
        (freeze_start p tid t inputs x now w') (candidate_ok p wid tid w')"
        by (rule safely_weaken [OF safely_freeze_start [OF assms(1) t assms(3,4)]]) (use x in simp_all)
    qed simp
  next
    fix e
    show "safely p (\<lambda>s. stored p s wid w') (case Inl e of Inr x \<Rightarrow> freeze_start p tid t inputs x now w'
        | Inl e \<Rightarrow> if retries_later e
          then note_reason p tid t (truncate_utf8 (runtime_display (po_quoted p) e) 4096) w'
          else fail_start p tid e now w') (candidate_ok p wid tid w')"
      unfolding sum.case
      by (intro safely_if safely_note_reason safely_fail_start assms(1)) (use t assms(3,4) in auto)
  qed
  have stop: "safely p (\<lambda>s. stored p s wid w') (act_return StopLoop) (candidate_ok p wid tid w')"
    by (rule safely_return) (use queued_idle [OF t assms(3)] in \<open>auto simp add: candidate_ok_def\<close>)
  show "safely p (\<lambda>s. stored p s wid w') (if remaining w' = 0 then act_return StopLoop
      else act_bind (act_try (prepare_dispatch p w' t inputs now)) (\<lambda>outcome. case outcome of
        Inr x \<Rightarrow> freeze_start p tid t inputs x now w'
      | Inl e \<Rightarrow> if retries_later e
          then note_reason p tid t (truncate_utf8 (runtime_display (po_quoted p) e) 4096) w'
          else fail_start p tid e now w')) (candidate_ok p wid tid w)"
    by (rule safely_weaken [OF safely_if [OF stop tried]]) (use candidate_ok_observed [OF same] in blast)+
qed

lemma safely_tick_candidate:
  assumes "roundtrip p" and "map_option tk_state (map_of (wr_tasks w) tid) = Some Queued"
  shows "safely p (\<lambda>s. stored p s wid w) (tick_candidate p tid w) (candidate_ok p wid tid w)"
  unfolding tick_candidate_def
proof (rule safely_lift_bind)
  fix t assume "queued_task w tid = Inr t"
  then have t: "map_of (wr_tasks w) tid = Some t" "tk_state t = Queued"
    using assms(2) by (auto simp add: queued_task_def res_simps)
  let ?rest = "act_bind (active_task_count p) (\<lambda>count. act_bind (act_get rt_maximum_active_tasks) (\<lambda>maximum.
    if ucast maximum \<le> count then act_return StopLoop
    else case resolve_inputs (po_codec p) w t of
      Inl reason \<Rightarrow> note_reason p tid t reason w | Inr inputs \<Rightarrow> start_ready p tid t inputs w))"
  have "safely p (\<lambda>s. stored p s wid w) ?rest (candidate_ok p wid tid w)" if none: "tk_frozen t = None"
  proof (intro safely_call_bind [OF safely_active_count] safely_get_bind safely_if safely_return)
    show "safely p (\<lambda>s. stored p s wid w) (case resolve_inputs (po_codec p) w t of
        Inl reason \<Rightarrow> note_reason p tid t reason w | Inr inputs \<Rightarrow> start_ready p tid t inputs w)
      (candidate_ok p wid tid w)"
      by (cases "resolve_inputs (po_codec p) w t")
        (simp_all add: safely_note_reason [OF assms(1) t] safely_start_ready [OF assms(1) t none])
  qed (use queued_idle [OF t] in \<open>auto simp add: candidate_ok_def\<close>)
  then show "safely p (\<lambda>s. stored p s wid w) (case tk_frozen t of Some fz \<Rightarrow> retained_start p tid t fz w | None \<Rightarrow> ?rest)
      (candidate_ok p wid tid w)"
    by (cases "tk_frozen t") (simp_all add: safely_retained_start [OF assms(1) t])
qed

section \<open>Concurrency\<close>

lemma occupancy_card:
  assumes "bm_wf (wr_tasks w)"
  shows "occupancy w = card {tid. busy_at w tid}" and "finite {tid. busy_at w tid}"
proof -
  let ?busy = "filter (\<lambda>(_, t). occupies t) (wr_tasks w)"
  have d: "distinct (map fst (wr_tasks w))" using assms by (simp add: bm_wf_def bm_keys_def strict_sorted_iff)
  then have "set (map fst ?busy) = {tid. busy_at w tid}"
    by (force simp add: busy_at_def occupies_def dest: map_of_SomeD)
  moreover have "distinct (map fst ?busy)" using d by (rule distinct_map_filter)
  moreover have "occupancy w = length ?busy"
    by (simp add: occupancy_def task_list_def bm_values_def filter_map comp_def split_def)
  ultimately show "occupancy w = card {tid. busy_at w tid}" "finite {tid. busy_at w tid}"
    by (metis distinct_card length_map, metis List.finite_set)
qed

lemma occupancy_step:
  assumes "record_ok codec w" and "record_ok codec w'" and "others_same tid w w'" and "\<not> busy_at w tid"
  shows "occupancy w' = (if busy_at w' tid then Suc (occupancy w) else occupancy w)"
proof -
  have wf: "bm_wf (wr_tasks w)" "bm_wf (wr_tasks w')" using assms(1,2) by (simp_all add: record_ok_def)
  have "busy_at w' tid' = busy_at w tid'" if "tid' \<noteq> tid" for tid'
    using assms(3) that by (simp add: others_same_def busy_at_def)
  then have "{tid'. busy_at w' tid'} = (if busy_at w' tid then insert tid {tid'. busy_at w tid'} else {tid'. busy_at w tid'})"
    using assms(4) by (intro set_eqI) (metis (mono_tags, lifting) insert_iff mem_Collect_eq)
  then show ?thesis
    using occupancy_card [OF wf(1)] occupancy_card(1) [OF wf(2)] assms(4) by simp
qed

lemma occupancy_same:
  assumes "record_ok codec w" and "record_ok codec w'" and "same_unstarted w w'"
  shows "occupancy w' = occupancy w"
proof -
  have wf: "bm_wf (wr_tasks w)" "bm_wf (wr_tasks w')" using assms(1,2) by (simp_all add: record_ok_def)
  show ?thesis
    using assms(3) by (simp add: occupancy_card(1) wf busy_at_def same_unstarted_def)
qed

definition queued_left :: "workflow_record \<Rightarrow> task_id list \<Rightarrow> bool" where
  "queued_left w rest \<longleftrightarrow> distinct rest
    \<and> (\<forall>tid \<in> set rest. map_option tk_state (map_of (wr_tasks w) tid) = Some Queued)"

lemma queued_left_step: "queued_left w (tid # rest) \<Longrightarrow> others_same tid w w' \<Longrightarrow> queued_left w' rest"
  unfolding queued_left_def others_same_def by (metis distinct.simps(2) list.set_intros(2))

lemma queued_left_ids:
  assumes "bm_wf (wr_tasks w)"
  shows "queued_left w (queued_ids w)"
proof -
  have d: "distinct (map fst (wr_tasks w))" using assms by (simp add: bm_wf_def bm_keys_def strict_sorted_iff)
  then show ?thesis by (auto simp add: queued_left_def queued_ids_def distinct_map_filter)
qed

text \<open>
  What the loop over the candidates leaves: every returned dispatch is a committed start, no more
  than the bound are returned, and no more tasks are busy than before or than the limit allows.
\<close>

definition loop_ok ::
  "('doc, 'm) ports \<Rightarrow> workflow_id \<Rightarrow> nat \<Rightarrow> workflow_record \<Rightarrow> execution_dispatch list \<Rightarrow> execution_dispatch list
    \<Rightarrow> ('doc, 'm) store \<Rightarrow> bool" where
  "loop_ok p wid maximum w xs xs' s \<longleftrightarrow> all_started p xs' s \<and> length xs' \<le> max maximum (length xs)
    \<and> (\<exists>w'. stored p s wid w' \<and> concurrency_limit w' = concurrency_limit w
        \<and> occupancy w' \<le> max (occupancy w) (concurrency_limit w))"

lemma loop_ok_next:
  assumes "loop_ok p wid maximum w' xs xs' s" and "others_same tid w w'" and "occupancy w' = occupancy w"
  shows "loop_ok p wid maximum w xs xs' s"
  using assms by (simp add: loop_ok_def others_same_def)

lemma loop_ok_started:
  assumes "loop_ok p wid maximum w' (xs @ [x]) xs' s" and "others_same tid w w'" and "occupancy w' = Suc (occupancy w)"
    and "length xs < maximum" and "occupancy w < concurrency_limit w"
  shows "loop_ok p wid maximum w xs xs' s"
  using assms by (auto simp add: loop_ok_def others_same_def)

lemma safely_tick_candidates:
  assumes "roundtrip p" and "queued_left w rest"
  shows "safely p (\<lambda>s. stored p s wid w \<and> all_started p xs s)
    (tick_candidates p maximum rest w (occupancy w) xs) (loop_ok p wid maximum w xs)"
  using assms(2)
proof (induction rest arbitrary: w xs)
  case Nil
  show ?case by (auto simp add: loop_ok_def intro!: safely_return)
next
  case (Cons tid rest)
  let ?A = "\<lambda>s. stored p s wid w \<and> all_started p xs s"
  let ?k = "\<lambda>next. case next of StopLoop \<Rightarrow> act_return xs
      | NextCandidate w' \<Rightarrow> tick_candidates p maximum rest w' (occupancy w) xs
      | StartedCandidate w' x \<Rightarrow>
          act_bind (act_lift (ok_or (scheduling_error ''task concurrency overflow'') (usize_add (occupancy w) 1))) (\<lambda>active'.
          tick_candidates p maximum rest w' active' (xs @ [x]))"
  have state: "map_option tk_state (map_of (wr_tasks w) tid) = Some Queued"
    using Cons.prems by (simp add: queued_left_def)
  then have idle: "\<not> busy_at w tid" by (auto simp add: busy_at_def)
  have k: "safely p (\<lambda>s. candidate_ok p wid tid w c s \<and> all_started p xs s) (?k c) (loop_ok p wid maximum w xs)"
    if ok: "record_ok (po_codec p) w" and room: "length xs < maximum" "occupancy w < concurrency_limit w" for c
  proof (cases c)
    case StopLoop
    show ?thesis
      unfolding StopLoop candidate.case
    proof (rule safely_return)
      fix s assume s: "store_ok p s" and c: "candidate_ok p wid tid w StopLoop s \<and> all_started p xs s"
      then obtain w' where w': "stored p s wid w'" "others_same tid w w'" "\<not> busy_at w' tid"
        by (auto simp add: candidate_ok_def)
      with occupancy_step [OF ok stored_ok(1) [OF s w'(1)] w'(2) idle] show "loop_ok p wid maximum w xs xs s"
        using c by (auto simp add: loop_ok_def others_same_def)
    qed
  next
    case (NextCandidate w')
    show ?thesis
      unfolding NextCandidate candidate.case
    proof (rule safely_pure [where c = "others_same tid w w' \<and> occupancy w' = occupancy w"])
      show "others_same tid w w' \<and> occupancy w' = occupancy w"
        if "store_ok p s" "candidate_ok p wid tid w (NextCandidate w') s \<and> all_started p xs s" for s
        using that occupancy_step [OF ok stored_ok(1)] idle by (auto simp add: candidate_ok_def)
      assume w': "others_same tid w w' \<and> occupancy w' = occupancy w"
      note ih = Cons.IH [OF queued_left_step [OF Cons.prems conjunct1 [OF w']], of xs]
      show "safely p (\<lambda>s. candidate_ok p wid tid w (NextCandidate w') s \<and> all_started p xs s)
          (tick_candidates p maximum rest w' (occupancy w) xs) (loop_ok p wid maximum w xs)"
        by (rule safely_weaken [OF ih [unfolded conjunct2 [OF w']]])
          (use w' in \<open>auto simp add: candidate_ok_def intro: loop_ok_next\<close>)
    qed
  next
    case (StartedCandidate w' x)
    show ?thesis
      unfolding StartedCandidate candidate.case
    proof (rule safely_pure [where c = "others_same tid w w' \<and> occupancy w' = Suc (occupancy w)"], rule_tac [2] safely_lift_bind)
      show "others_same tid w w' \<and> occupancy w' = Suc (occupancy w)"
        if "store_ok p s" "candidate_ok p wid tid w (StartedCandidate w' x) s \<and> all_started p xs s" for s
        using that occupancy_step [OF ok stored_ok(1)] idle by (auto simp add: candidate_ok_def)
      fix active' assume w': "others_same tid w w' \<and> occupancy w' = Suc (occupancy w)"
        and "ok_or (scheduling_error ''task concurrency overflow'') (usize_add (occupancy w) 1) = Inr active'"
      then have a: "active' = occupancy w'" by (auto simp add: res_simps usize_add_def split: if_splits)
      note ih = Cons.IH [OF queued_left_step [OF Cons.prems conjunct1 [OF w']], of "xs @ [x]"]
      show "safely p (\<lambda>s. candidate_ok p wid tid w (StartedCandidate w' x) s \<and> all_started p xs s)
          (tick_candidates p maximum rest w' active' (xs @ [x])) (loop_ok p wid maximum w xs)"
        unfolding a by (rule safely_weaken [OF ih])
          (use w' room in \<open>auto simp add: candidate_ok_def all_started_def intro: loop_ok_started\<close>)
    qed
  qed
  show ?case
    unfolding tick_candidates.simps
  proof (rule safely_pure [where c = "record_ok (po_codec p) w"])
    show "record_ok (po_codec p) w" if "store_ok p s" "?A s" for s using stored_ok that by blast
    assume ok: "record_ok (po_codec p) w"
    show "safely p ?A (if maximum \<le> length xs \<or> concurrency_limit w \<le> occupancy w then act_return xs
        else act_bind (tick_candidate p tid w) ?k) (loop_ok p wid maximum w xs)"
      by (intro safely_if safely_return
          safely_bind [OF safely_frame [OF safely_tick_candidate [OF assms(1) state] stable_all_started]] k [OF ok])
        (auto simp add: loop_ok_def)
  qed
qed

lemma policy_stop_unchanged:
  assumes "request_policy_stop w = Inr (w', False)"
  shows "w' = w"
proof (cases "policy_reason w")
  case (Inr reason)
  show ?thesis
  proof (cases reason)
    case None
    then show ?thesis using assms Inr by (simp add: request_policy_stop_def)
  next
    case (Some question)
    then have asks: "wr_wait_question w \<noteq> None" and none: "\<not> list_ex policy_stops (task_list w)"
      and w': "w' = w\<lparr>wr_tasks := bm_map (\<lambda>_ t. if policy_stops t then t\<lparr>tk_stop_requested := True\<rparr> else t) (wr_tasks w)\<rparr>"
      using assms Inr by (auto simp add: request_policy_stop_def Let_def)
    have "bm_map (\<lambda>_ t. if policy_stops t then t\<lparr>tk_stop_requested := True\<rparr> else t) (wr_tasks w) = wr_tasks w"
      unfolding bm_map_def
      by (rule map_idI) (use none in \<open>force simp add: list_ex_iff task_list_def bm_values_def\<close>)
    then show ?thesis using w' by simp
  qed
qed (use assms in \<open>simp add: request_policy_stop_def\<close>)

lemma safely_policy_stop:
  assumes "roundtrip p" and "request_policy_stop w = Inr (stopped, changed)"
  shows "safely p (\<lambda>s. stored p s wid w) (if changed then advance_save p stopped else act_return stopped)
    (\<lambda>w' s. stored p s wid w' \<and> same_unstarted w w')"
proof (rule safely_if)
  have same: "same_unstarted w stopped" using same_unstarted_policy_stop [OF assms(2)] .
  then have wid: "wr_id stopped = wr_id w" by (simp add: same_unstarted_def)
  show "safely p (\<lambda>s. stored p s wid w) (advance_save p stopped) (\<lambda>w' s. stored p s wid w' \<and> same_unstarted w w')"
    by (rule safely_weaken [OF safely_advance_save [OF assms(1) policy_stop_progresses [OF assms(2)] wid]])
      (use same_unstarted_advanced [OF _ same wid] in blast)+
  assume "\<not> changed"
  then have "stopped = w" using policy_stop_unchanged assms(2) by simp
  then show "safely p (\<lambda>s. stored p s wid w) (act_return stopped) (\<lambda>w' s. stored p s wid w' \<and> same_unstarted w w')"
    by (intro safely_return) simp
qed

lemma loop_ok_same:
  assumes "loop_ok p wid maximum w' xs xs' s" and "same_unstarted w w'" and "occupancy w' = occupancy w"
  shows "loop_ok p wid maximum w xs xs' s"
  using assms same_unstarted_limit [OF assms(2)] by (simp add: loop_ok_def)

lemma safely_tick_workflow:
  assumes "roundtrip p"
  shows "safely p (\<lambda>s. stored p s wid w0 \<and> all_started p xs s) (tick_workflow p maximum wid xs)
    (loop_ok p wid maximum w0 xs)"
  unfolding tick_workflow_def
proof (rule safely_read_keep, rule safely_clock_bind)
  fix read :: workflow_record and now
  assume ok: "record_ok (po_codec p) read"
  let ?A = "\<lambda>w s. (stored p s wid w \<and> same_unstarted read w) \<and> all_started p xs s"
  have loop: "safely p (?A w) (if wr_wait_question w \<noteq> None then act_return xs
      else tick_candidates p maximum (queued_ids w) w (occupancy w) xs) (loop_ok p wid maximum read xs)" for w
  proof (rule safely_pure [where c = "record_ok (po_codec p) w \<and> same_unstarted read w"])
    show "record_ok (po_codec p) w \<and> same_unstarted read w" if "store_ok p s" "?A w s" for s
      using that stored_ok by blast
    assume w: "record_ok (po_codec p) w \<and> same_unstarted read w"
    then have same: "same_unstarted read w" "occupancy w = occupancy read"
      using occupancy_same [OF ok] by simp_all
    have run: "safely p (\<lambda>s. stored p s wid w \<and> all_started p xs s) (if wr_wait_question w \<noteq> None then act_return xs
        else tick_candidates p maximum (queued_ids w) w (occupancy w) xs) (loop_ok p wid maximum w xs)"
      by (intro safely_if safely_return safely_tick_candidates [OF assms] queued_left_ids)
        (use w in \<open>auto simp add: loop_ok_def record_ok_def\<close>)
    show "safely p (?A w) (if wr_wait_question w \<noteq> None then act_return xs
        else tick_candidates p maximum (queued_ids w) w (occupancy w) xs) (loop_ok p wid maximum read xs)"
      by (rule safely_weaken [OF run]) (use loop_ok_same [OF _ same] in auto)
  qed
  have body: "safely p (\<lambda>s. stored p s wid read \<and> all_started p xs s)
    (act_bind (observe_duration p read now) (\<lambda>observed.
    act_bind (act_lift (request_policy_stop observed)) (\<lambda>(stopped, changed).
    act_bind (if changed then advance_save p stopped else act_return stopped) (\<lambda>w.
    if wr_wait_question w \<noteq> None then act_return xs
    else tick_candidates p maximum (queued_ids w) w (occupancy w) xs)))) (loop_ok p wid maximum read xs)"
  proof (rule safely_bind [OF safely_frame [OF safely_observe_duration [OF assms] stable_all_started]],
      rule safely_lift_bind, clarify)
    fix observed :: workflow_record and stopped changed
    assume stop: "request_policy_stop observed = Inr (stopped, changed)"
    show "safely p (?A observed) (act_bind (if changed then advance_save p stopped else act_return stopped) (\<lambda>w.
      if wr_wait_question w \<noteq> None then act_return xs
      else tick_candidates p maximum (queued_ids w) w (occupancy w) xs)) (loop_ok p wid maximum read xs)"
    proof (rule safely_pure [where c = "same_unstarted read observed"])
      assume same: "same_unstarted read observed"
      have "safely p (?A observed) (if changed then advance_save p stopped else act_return stopped) ?A"
        by (rule safely_weaken [OF safely_frame [OF safely_policy_stop [OF assms stop] stable_all_started]])
          (use same_unstarted_trans [OF same] in auto)
      from safely_bind [OF this loop] show "safely p (?A observed)
        (act_bind (if changed then advance_save p stopped else act_return stopped) (\<lambda>w.
        if wr_wait_question w \<noteq> None then act_return xs
        else tick_candidates p maximum (queued_ids w) w (occupancy w) xs)) (loop_ok p wid maximum read xs)" .
    qed simp
  qed
  show "safely p (\<lambda>s. stored p s wid read \<and> stored p s wid w0 \<and> all_started p xs s)
    (act_bind (observe_duration p read now) (\<lambda>observed.
    act_bind (act_lift (request_policy_stop observed)) (\<lambda>(stopped, changed).
    act_bind (if changed then advance_save p stopped else act_return stopped) (\<lambda>w.
    if wr_wait_question w \<noteq> None then act_return xs
    else tick_candidates p maximum (queued_ids w) w (occupancy w) xs)))) (loop_ok p wid maximum w0 xs)"
  proof (rule safely_pure [where c = "w0 = read"])
    show "w0 = read" if "stored p s wid read \<and> stored p s wid w0 \<and> all_started p xs s" for s
      using that stored_unique by blast
    assume "w0 = read"
    then show ?thesis by (intro safely_weaken [OF body]) simp_all
  qed
qed

text \<open>Without knowing what the workflow was before.\<close>

lemma safely_tick_page:
  assumes "roundtrip p"
  shows "safely p (\<lambda>s. all_started p xs s \<and> length xs \<le> maximum) (tick_workflow p maximum wid xs)
    (\<lambda>xs s. all_started p xs s \<and> length xs \<le> maximum)"
proof (rule safelyI)
  fix rt r rt'
  assume g: "good p rt" "all_started p xs (rt_store rt) \<and> length xs \<le> maximum"
    and run: "tick_workflow p maximum wid xs rt = (r, rt')"
  show "follows p rt rt' \<and> (\<forall>xs. r = Inr xs \<longrightarrow> all_started p xs (rt_store rt') \<and> length xs \<le> maximum)"
  proof (cases "\<exists>w. stored p (rt_store rt) wid w")
    case True
    then obtain w where "stored p (rt_store rt) wid w \<and> all_started p xs (rt_store rt)" using g(2) by blast
    from safelyD [OF safely_tick_workflow [OF assms] g(1) this run] show ?thesis
      using g(2) by (auto simp add: loop_ok_def)
  next
    case False
    have "safely p (\<lambda>s. \<nexists>w. stored p s wid w) (tick_workflow p maximum wid xs) (\<lambda>_ _. False)"
      unfolding tick_workflow_def
    proof (rule safely_read_keep)
      fix w :: workflow_record and k :: "workflow_record \<Rightarrow> ('a, 'b, execution_dispatch list) act"
      show "safely p (\<lambda>s. stored p s wid w \<and> (\<nexists>w. stored p s wid w)) a B" for a B
        by (rule safely_pure [where c = False]) blast+
    qed
    from safelyD [OF this g(1) False run] show ?thesis by blast
  qed
qed

lemma safely_tick:
  assumes "roundtrip p"
  shows "safely p (\<lambda>_. True) (tick p maximum) (\<lambda>xs s. all_started p xs s \<and> length xs \<le> maximum)"
  unfolding tick_def is_closed_def
proof (intro safely_ensure_bind safely_get_bind safely_if safely_return safely_store_read_bind
    safely_call_bind [OF safely_update])
  fix page :: "'a workflow_page"
  have "safely p (\<lambda>s. all_started p [] s \<and> length ([] :: execution_dispatch list) \<le> maximum)
      (act_fold (\<lambda>snap. tick_workflow p maximum (ss_workflow snap)) (pg_items page) [])
      (\<lambda>xs s. all_started p xs s \<and> length xs \<le> maximum)"
    by (rule safely_fold [where J = "\<lambda>xs s. all_started p xs s \<and> length xs \<le> maximum"])
      (rule safely_tick_page [OF assms])
  then show "safely p (\<lambda>_. True) (act_fold (\<lambda>snap. tick_workflow p maximum (ss_workflow snap)) (pg_items page) [])
      (\<lambda>xs s. all_started p xs s \<and> length xs \<le> maximum)"
    by (rule safely_weaken) (simp_all add: all_started_def)
qed (simp_all add: all_started_def)

end
