(* ===== verification/Admission.thy ===== *)
theory Admission
  imports Scheduling
begin

text \<open>
  Commands on workflows, \<^verbatim>\<open>crates/runtime/src/tasks/admission.rs\<close>: the canonical form of a
  request, the replay of an accepted one, the creation of a workflow, and the edit of its future
  work, whose changes are applied in the order they are written and committed in one transaction
  (with \<^verbatim>\<open>admit_model_batch\<close> of \<^verbatim>\<open>tasks/model_actions.rs\<close>).  The lemmas show that an
  accepted command leaves a record that keeps its invariant and evolved from the one it was checked
  against, and that a repeated command is answered from its receipt.
\<close>

section \<open>Canonical requests and replay\<close>

definition command_error :: "string \<Rightarrow> runtime_error" where
  "command_error text = InvalidCommand text"

definition canonical_transport_value :: "('doc, 'm) ports \<Rightarrow> string \<Rightarrow> runtime_error + json" where
  "canonical_transport_value p bytes =
    res_bind (ensure (bytes \<noteq> [] \<and> length bytes \<le> 1000000)
      (command_error ''canonical public request exceeds its bounded receipt allowance'')) (\<lambda>_.
    res_bind (map_err RtJson (po_parse p bytes)) (\<lambda>v.
    res_bind (case v of JObject _ \<Rightarrow> res_map (\<lambda>again. again = bytes)
          (encode_json (bc_json (tc_blueprint (po_codec p))) v)
        | _ \<Rightarrow> Inr False) (\<lambda>canonical.
    res_bind (ensure canonical (command_error ''public request must be a canonical JSON object'')) (\<lambda>_.
    Inr v))))"

definition canonical_request ::
  "('doc, 'm) ports \<Rightarrow> workflow_id option \<Rightarrow> json \<Rightarrow> runtime_error + string" where
  "canonical_request p target request = encode_json (bc_json (tc_blueprint (po_codec p))) (case target of
      Some wid \<Rightarrow> JObject [(''batch'', request), (''operation'', JString ''edit_workflow''), (''workflow'', JString wid)]
    | None \<Rightarrow> JObject [(''operation'', JString ''create_workflow''), (''request'', request)])"

definition request_identity ::
  "('doc, 'm) ports \<Rightarrow> string option \<Rightarrow> json_error + json \<Rightarrow> runtime_error + json" where
  "request_identity p transport typed =
    res_bind (case transport of None \<Rightarrow> Inr None | Some bytes \<Rightarrow> res_map Some (canonical_transport_value p bytes)) (\<lambda>given.
    res_bind (map_err RtJson typed) (\<lambda>v.
    Inr (case given of None \<Rightarrow> v | Some v' \<Rightarrow> v')))"

definition replay ::
  "('doc, 'm) ports \<Rightarrow> string \<Rightarrow> string \<Rightarrow> string \<Rightarrow> ('doc, 'm, command_receipt option) act" where
  "replay p actor key request =
    act_bind (store_read p (\<lambda>s. workflow_receipt s actor key)) (\<lambda>found. case found of
      None \<Rightarrow> act_return None
    | Some r \<Rightarrow>
        if cm_canonical_request (rc_acceptance r) = request then act_return (Some r)
        else act_fail (RtPersistence (WorkflowIdempotencyConflict actor key)))"

definition replay_exact ::
  "('doc, 'm) ports \<Rightarrow> string \<Rightarrow> string \<Rightarrow> workflow_id option \<Rightarrow> string \<Rightarrow> ('doc, 'm, command_receipt option) act" where
  "replay_exact p actor key target transport =
    act_bind (act_lift (canonical_transport_value p transport)) (\<lambda>identity.
    act_bind (act_lift (canonical_request p target identity)) (\<lambda>request.
    replay p actor key request))"

definition replay_edit ::
  "('doc, 'm) ports \<Rightarrow> string \<Rightarrow> string \<Rightarrow> workflow_id \<Rightarrow> task_batch \<Rightarrow> ('doc, 'm, command_receipt option) act" where
  "replay_edit p actor key wid batch =
    act_bind (act_lift (map_err RtJson (po_batch_value p batch))) (\<lambda>identity.
    act_bind (act_lift (canonical_request p (Some wid) identity)) (\<lambda>request.
    replay p actor key request))"

definition receipt :: "commit_outcome \<Rightarrow> runtime_error + command_receipt" where
  "receipt outcome = (case outcome of
      Applied (Some r) \<Rightarrow> Inr r
    | Replay r \<Rightarrow> Inr r
    | Applied None \<Rightarrow> Inl (InvalidHistory ''external task acceptance omitted its receipt''))"

definition command_identity :: "string \<Rightarrow> string \<Rightarrow> runtime_error + string" where
  "command_identity kind text = res_map (\<lambda>_. text)
    (map_err (\<lambda>e. command_error (identity_display e)) (validate_identity text kind 128))"

definition workflow_identity :: "('doc, 'm) ports \<Rightarrow> string \<Rightarrow> string \<Rightarrow> runtime_error + workflow_id" where
  "workflow_identity p actor key =
    res_bind (encode_json (bc_json (tc_blueprint (po_codec p))) (JArray [JString actor, JString key])) (\<lambda>bytes.
    command_identity ''WorkflowId'' (''workflow_'' @ po_blake3 p bytes))"

definition aliases_value :: "(task_id, task_id) bmap \<Rightarrow> json" where
  "aliases_value aliases = JObject (map (\<lambda>(alias, tid). (alias, JString tid)) aliases)"

definition command_result :: "workflow_id \<Rightarrow> u64 \<Rightarrow> (task_id, task_id) bmap \<Rightarrow> json" where
  "command_result wid generation aliases = JObject [
    (''aliases'', aliases_value aliases),
    (''generation'', JNumber (dec64 generation)),
    (''workflow_id'', JString wid)]"

definition acceptance ::
  "string option \<Rightarrow> string \<Rightarrow> string \<Rightarrow> string \<Rightarrow> json \<Rightarrow> command_acceptance" where
  "acceptance reserved actor key request outcome = \<lparr>cm_actor = actor, cm_key = key,
    cm_reserved_action = reserved, cm_canonical_request = request, cm_result = outcome\<rparr>"


section \<open>Task definitions of a command\<close>

definition renamed :: "(task_id, task_id) bmap \<Rightarrow> task_id \<Rightarrow> task_id" where
  "renamed aliases tid = (case map_of aliases tid of None \<Rightarrow> tid | Some tid' \<Rightarrow> tid')"

definition remap_binding :: "(task_id, task_id) bmap \<Rightarrow> task_input_binding \<Rightarrow> task_input_binding" where
  "remap_binding aliases binding = (case binding of
      TaskOutput task output optional \<Rightarrow> TaskOutput (renamed aliases task) output optional
    | SettledOutcome task \<Rightarrow> SettledOutcome (renamed aliases task)
    | _ \<Rightarrow> binding)"

definition remap_definition :: "(task_id, task_id) bmap \<Rightarrow> task_definition \<Rightarrow> task_definition" where
  "remap_definition aliases d = d\<lparr>
    td_dependencies := bs_of_list (map (renamed aliases) (td_dependencies d)),
    td_inputs := bm_map (\<lambda>_. remap_binding aliases) (td_inputs d),
    td_corrective_of := map_option (renamed aliases) (td_corrective_of d)\<rparr>"

definition definitions :: "(task_id, task_record) bmap \<Rightarrow> task_set" where
  "definitions tasks = map (\<lambda>(tid, t). (tid, tk_definition t)) (filter (\<lambda>(_, t). \<not> tk_removed t) tasks)"

definition new_task_record :: "task_id \<Rightarrow> task_definition \<Rightarrow> timestamp \<Rightarrow> task_record" where
  "new_task_record tid d now = \<lparr>tk_id = tid, tk_version = 1, tk_definition = d, tk_previous_definitions = [],
    tk_removed = False, tk_state = Queued, tk_reason = None, tk_created_at = now, tk_started_at = None,
    tk_ended_at = None, tk_stop_requested = False, tk_cancellation_sent = False, tk_frozen = None,
    tk_result = None, tk_adopted_correction = None\<rparr>"

definition definition_result :: "task_definition_error + 'a \<Rightarrow> runtime_error + 'a" where
  "definition_result r = map_err (\<lambda>e. command_error (definition_display e)) r"


section \<open>Creating a workflow\<close>

definition name_task :: "new_task \<Rightarrow> (task_id, task_id) bmap \<Rightarrow> ('doc, 'm, (task_id, task_id) bmap) act" where
  "name_task task aliases =
    act_bind (fresh_identity ''task'' (command_identity ''TaskId'')) (\<lambda>tid.
    act_return (bm_insert (nt_alias task) tid aliases))"

definition add_new_task ::
  "(task_id, task_id) bmap \<Rightarrow> timestamp \<Rightarrow> new_task \<Rightarrow> (task_id, task_record) bmap
    \<Rightarrow> runtime_error + (task_id, task_record) bmap" where
  "add_new_task aliases now task tasks =
    res_bind (ok_or (command_error ''task alias missing'') (map_of aliases (nt_alias task))) (\<lambda>tid.
    Inr (bm_insert tid (new_task_record tid (remap_definition aliases (nt_definition task)) now) tasks))"

definition validate_create ::
  "('doc, 'm) ports \<Rightarrow> workflow_create \<Rightarrow> (task_id, task_record) bmap \<Rightarrow> runtime_error + unit" where
  "validate_create p request tasks = (let codec = tc_blueprint (po_codec p) in
    res_bind (definition_result (validate_task_set codec (definitions tasks) (wc_limits request) (\<lambda>_ _. None))) (\<lambda>_.
    res_bind (res_all (\<lambda>v. definition_result (input_value_validate codec v)) (bm_values (wc_inputs request))) (\<lambda>_.
    res_all (\<lambda>t. definition_result (validate_supplied_inputs codec (tk_definition t) (wc_inputs request)))
      (bm_values tasks))))"

definition new_workflow ::
  "workflow_id \<Rightarrow> string \<Rightarrow> workflow_create \<Rightarrow> authority_decision \<Rightarrow> execution_basis \<Rightarrow> timestamp
    \<Rightarrow> (task_id, task_record) bmap \<Rightarrow> u32 \<Rightarrow> workflow_record" where
  "new_workflow wid owner request decision basis now tasks admitted = \<lparr>wr_decision_generation = 1,
    wr_admissions = [], wr_admitted_model_batches = 0, wr_rejected_responses = 0,
    wr_schema_version = SCHEMA_VERSION, wr_id = wid, wr_title = wc_title request,
    wr_description = wc_description request, wr_generation = 1, wr_owner_actor = owner, wr_created_at = now,
    wr_updated_at = now, wr_state = WfWaiting, wr_inputs = wc_inputs request, wr_limits = wc_limits request,
    wr_finish_when_settled = wc_finish_when_settled request, wr_wait_question = None,
    wr_model_admission_wait = None, wr_tasks = tasks, wr_execution_authority = basis, wr_admitted_tasks = admitted,
    wr_active_execution_ms = 0, wr_allowance = ad_evaluated_budget decision,
    wr_committed_allowance = default_budget, wr_spending_currency = None\<rparr>"

definition check_create :: "string \<Rightarrow> workflow_create \<Rightarrow> authority_decision \<Rightarrow> runtime_error + unit" where
  "check_create owner request decision =
    res_bind (ensure (\<not> (is_blank (wc_title request) \<or> 256 < length (wc_title request)
        \<or> 4096 < length (wc_description request) \<or> MAX_TASK_BATCH_ACTIONS < length (wc_tasks request)
        \<or> wc_tasks request = []))
      (command_error ''workflow needs a bounded title and 1..=32 initial tasks'')) (\<lambda>_.
    ensure (aq_actor (ad_request decision) = owner)
      (command_error ''workflow owner differs from authenticated start decision''))"

definition start_basis ::
  "('doc, 'm) ports \<Rightarrow> authority_decision \<Rightarrow> workflow_id \<Rightarrow> string \<Rightarrow> runtime_error + execution_basis" where
  "start_basis p decision wid request =
    res_bind (map_err (\<lambda>e. command_error (workspace_display e)) (workspace_identity wid ''RunId'' 128)) (\<lambda>_.
    map_err RtAuthority (from_start_decision (po_authority_codec p) decision wid wid (revision_identity p request)))"

definition create_accepted ::
  "('doc, 'm) ports \<Rightarrow> string \<Rightarrow> string \<Rightarrow> workflow_create \<Rightarrow> authority_decision \<Rightarrow> string
    \<Rightarrow> ('doc, 'm, command_receipt) act" where
  "create_accepted p owner key request decision canonical =
    act_bind (act_lift (check_create owner request decision)) (\<lambda>_.
    act_bind (act_lift (workflow_identity p owner key)) (\<lambda>wid.
    act_bind (act_lift (start_basis p decision wid canonical)) (\<lambda>basis.
    act_bind (clock_now p) (\<lambda>now.
    act_bind (act_fold name_task (wc_tasks request) []) (\<lambda>aliases.
    act_bind (act_ensure (length aliases = length (wc_tasks request))
      (command_error ''new task aliases must be unique'')) (\<lambda>_.
    act_bind (act_lift (res_fold (add_new_task aliases now) (wc_tasks request) [])) (\<lambda>tasks.
    act_bind (act_lift (validate_create p request tasks)) (\<lambda>_.
    act_bind (act_lift (ok_or (command_error ''out of range integral type conversion attempted'')
      (try_from_usize (length tasks)))) (\<lambda>admitted.
    let w = new_workflow wid owner request decision basis now tasks admitted in
    act_bind (act_fold (\<lambda>t _. validate_future_definition p w (tk_definition t)) (bm_values tasks) ()) (\<lambda>_.
    act_bind (save p w None (Some (acceptance None owner key canonical (command_result wid 1 aliases)))) (\<lambda>outcome.
    act_lift (receipt outcome))))))))))))"

definition create_request ::
  "('doc, 'm) ports \<Rightarrow> string \<Rightarrow> string \<Rightarrow> workflow_create \<Rightarrow> authority_decision \<Rightarrow> string option
    \<Rightarrow> ('doc, 'm, command_receipt) act" where
  "create_request p owner key request decision transport =
    act_bind (act_lift (request_identity p transport (po_create_value p request))) (\<lambda>identity.
    act_bind (act_lift (canonical_request p None identity)) (\<lambda>canonical.
    act_bind (replay p owner key canonical) (\<lambda>found. case found of
      Some r \<Rightarrow> act_return r
    | None \<Rightarrow>
        act_bind is_closed (\<lambda>closed.
        act_bind (act_ensure (\<not> closed) (command_error ''task admission is closed'')) (\<lambda>_.
        create_accepted p owner key request decision canonical)))))"

definition create_workflow ::
  "('doc, 'm) ports \<Rightarrow> string \<Rightarrow> string \<Rightarrow> workflow_create \<Rightarrow> authority_decision \<Rightarrow> ('doc, 'm, command_receipt) act" where
  "create_workflow p owner key request decision = create_request p owner key request decision None"

definition create_exact ::
  "('doc, 'm) ports \<Rightarrow> string \<Rightarrow> string \<Rightarrow> workflow_create \<Rightarrow> authority_decision \<Rightarrow> string
    \<Rightarrow> ('doc, 'm, command_receipt) act" where
  "create_exact p owner key request decision transport = create_request p owner key request decision (Some transport)"

section \<open>Editing future work\<close>

definition future_task :: "workflow_record \<Rightarrow> task_id \<Rightarrow> u64 \<Rightarrow> runtime_error + task_record" where
  "future_task w tid expected_version =
    res_bind (ok_or (command_error ''task does not exist'') (map_of (wr_tasks w) tid)) (\<lambda>t.
    res_bind (ensure (\<not> (tk_version t \<noteq> expected_version \<or> tk_frozen t \<noteq> None \<or> tk_state t \<noteq> Queued))
      (InvalidTransition ''task version changed or task already started'')) (\<lambda>_.
    Inr t))"

text \<open>The loop tries 4,097 identities.\<close>

primrec unused_task_id ::
  "nat \<Rightarrow> workflow_record \<Rightarrow> (task_id, task_id) bmap \<Rightarrow> ('doc, 'm, task_id) act" where
  "unused_task_id 0 w aliases = act_fail (command_error ''task identity source cannot allocate an unused identity'')"
| "unused_task_id (Suc tries) w aliases =
    act_bind (fresh_identity ''task'' (command_identity ''TaskId'')) (\<lambda>tid.
    if \<not> bm_contains (wr_tasks w) tid \<and> tid \<notin> set (bm_values aliases) then act_return tid
    else unused_task_id tries w aliases)"

definition allocate_alias ::
  "workflow_record \<Rightarrow> task_change \<Rightarrow> (task_id, task_id) bmap \<Rightarrow> ('doc, 'm, (task_id, task_id) bmap) act" where
  "allocate_alias w change aliases = (case change of
      Add alias _ \<Rightarrow>
        act_bind (unused_task_id 4097 w aliases) (\<lambda>tid.
        act_bind (act_ensure (\<not> (bm_contains aliases alias \<or> bm_contains (wr_tasks w) alias))
          (command_error ''new aliases must be unique and cannot name existing tasks'')) (\<lambda>_.
        act_return (bm_insert alias tid aliases)))
    | _ \<Rightarrow> act_return aliases)"

definition dismiss_admission :: "task_id \<Rightarrow> workflow_record \<Rightarrow> runtime_error + workflow_record" where
  "dismiss_admission tid w =
    res_bind (ok_or (command_error ''model admission does not exist'') (map_of (wr_admissions w) tid)) (\<lambda>a.
    res_bind (ensure (ma_status a = RejectedAdmission)
      (command_error ''only a rejected model admission can be dismissed'')) (\<lambda>_.
    Inr (clear_owned_wait tid (set_admission tid (a\<lparr>ma_status := DismissedAdmission\<rparr>) w))))"

definition add_task ::
  "(task_id, task_id) bmap \<Rightarrow> timestamp \<Rightarrow> task_id \<Rightarrow> task_definition \<Rightarrow> workflow_record
    \<Rightarrow> runtime_error + workflow_record" where
  "add_task aliases now alias d w =
    res_bind (ok_or (command_error ''missing allocated alias'') (map_of aliases alias)) (\<lambda>tid.
    res_bind (ok_or (command_error ''admitted task accounting overflow'')
      (checked_add (wr_admitted_tasks w) 1)) (\<lambda>admitted.
    res_bind (ensure (admitted \<le> wl_tasks (wr_limits w))
      (command_error ''cumulative workflow task capacity exhausted'')) (\<lambda>_.
    Inr (w\<lparr>wr_admitted_tasks := admitted,
      wr_tasks := bm_insert tid (new_task_record tid (remap_definition aliases d) now) (wr_tasks w)\<rparr>))))"

definition revise_task ::
  "(task_id, task_id) bmap \<Rightarrow> task_id \<Rightarrow> u64 \<Rightarrow> task_definition \<Rightarrow> workflow_record
    \<Rightarrow> runtime_error + workflow_record" where
  "revise_task aliases tid expected_version d w =
    res_bind (future_task w tid expected_version) (\<lambda>t.
    res_bind (ensure (length (tk_previous_definitions t) < 128)
      (command_error ''retained task definition version capacity exhausted'')) (\<lambda>_.
    res_bind (ok_or (command_error ''task version exhausted'') (checked_add (tk_version t) 1)) (\<lambda>version.
    Inr (set_task tid (t\<lparr>tk_previous_definitions := tk_previous_definitions t @ [tk_definition t],
      tk_definition := remap_definition aliases d, tk_version := version, tk_reason := None\<rparr>) w))))"

definition remove_task ::
  "timestamp \<Rightarrow> task_id \<Rightarrow> u64 \<Rightarrow> workflow_record \<Rightarrow> runtime_error + workflow_record" where
  "remove_task now tid expected_version w =
    res_bind (future_task w tid expected_version) (\<lambda>t.
    Inr (set_task tid (t\<lparr>tk_removed := True, tk_state := Stopped, tk_ended_at := Some now,
      tk_reason := Some ''unstarted obligation removed by an authorized edit''\<rparr>) w))"

definition bind_input ::
  "blueprint_codec \<Rightarrow> string \<Rightarrow> task_input_value \<Rightarrow> workflow_record \<Rightarrow> runtime_error + workflow_record" where
  "bind_input codec name v w =
    res_bind (definition_result (input_value_validate codec v)) (\<lambda>_.
    res_bind (ensure (\<not> (name = [] \<or> 128 < length name
        \<or> 256 \<le> length (wr_inputs w) \<and> \<not> bm_contains (wr_inputs w) name))
      (command_error ''workflow input name or count exceeds its bound'')) (\<lambda>_.
    Inr (w\<lparr>wr_inputs := bm_insert name v (wr_inputs w), wr_wait_question := None,
      wr_model_admission_wait := None\<rparr>)))"

definition stopped_task :: "timestamp \<Rightarrow> task_record \<Rightarrow> task_record" where
  "stopped_task now t =
    (if is_settled (tk_state t) then t
     else if tk_frozen t = None then t\<lparr>tk_stop_requested := True, tk_state := Stopped, tk_ended_at := Some now,
       tk_reason := Some ''stopped before task start''\<rparr>
     else t\<lparr>tk_stop_requested := True\<rparr>)"

definition stop_task :: "timestamp \<Rightarrow> task_id \<Rightarrow> workflow_record \<Rightarrow> runtime_error + workflow_record" where
  "stop_task now tid w =
    res_bind (ok_or (command_error ''stop task does not exist'') (map_of (wr_tasks w) tid)) (\<lambda>t.
    Inr (set_task tid (stopped_task now t) w))"

definition wait_for :: "string \<Rightarrow> workflow_record \<Rightarrow> runtime_error + workflow_record" where
  "wait_for question w =
    res_bind (ensure (\<not> (is_blank question \<or> 4096 < length question))
      (command_error ''wait question is empty or oversized'')) (\<lambda>_.
    Inr (w\<lparr>wr_wait_question := Some question, wr_model_admission_wait := None\<rparr>))"


subsection \<open>Adopting a correction\<close>

definition validate_redirect_output ::
  "(string, task_output_declaration) bmap \<Rightarrow> (string, artifact_reference) bmap \<Rightarrow> string \<Rightarrow> artifact_reference
    \<Rightarrow> runtime_error + unit" where
  "validate_redirect_output declarations original_outputs name replacement = (case map_of declarations name of
      Some contract \<Rightarrow> definition_result (validate_reference contract replacement)
    | None \<Rightarrow>
        res_bind (ok_or (command_error ''redirected source lacks a retained named output'')
          (map_of original_outputs name)) (\<lambda>original.
        res_bind (ok_or (command_error ''redirected source lacks retained media type'')
          (ar_media_type original)) (\<lambda>media_type.
        let contract = \<lparr>od_required = True, od_media_type = Some media_type, od_max_bytes = MAX_TASK_OUTPUT_BYTES\<rparr> in
        res_bind (definition_result (validate_reference contract original)) (\<lambda>_.
        definition_result (validate_reference contract replacement)))))"

definition redirected :: "task_id \<Rightarrow> string \<Rightarrow> task_record \<Rightarrow> task_record" where
  "redirected correction name t = (let d = tk_definition t in t\<lparr>tk_definition := d\<lparr>
    td_inputs := bm_adjust name (\<lambda>b. case b of
        TaskOutput _ output optional \<Rightarrow> TaskOutput correction output optional | _ \<Rightarrow> b) (td_inputs d),
    td_dependencies := bs_insert correction (td_dependencies d)\<rparr>\<rparr>)"

definition retain_definition :: "task_id bset \<Rightarrow> task_id \<Rightarrow> task_record \<Rightarrow> runtime_error + task_record" where
  "retain_definition changed tid t =
    (if tid \<in> set changed then Inr t
     else res_bind (ensure (length (tk_previous_definitions t) < 128)
        (command_error ''retained task definition capacity exhausted'')) (\<lambda>_.
      Inr (t\<lparr>tk_previous_definitions := tk_previous_definitions t @ [tk_definition t]\<rparr>)))"

record redirect_state =
  rs_record :: workflow_record
  rs_changed :: "task_id bset"
  rs_seen :: "(task_id \<times> string) list"

definition redirect_input ::
  "task_id \<Rightarrow> task_id \<Rightarrow> (string, task_output_declaration) bmap \<Rightarrow> (string, artifact_reference) bmap
    \<Rightarrow> (string, artifact_reference) bmap \<Rightarrow> task_binding_redirect \<Rightarrow> redirect_state \<Rightarrow> runtime_error + redirect_state" where
  "redirect_input original correction declarations original_outputs outputs redirect state =
    (let consumer_id = rd_consumer redirect; name = rd_input redirect in
    res_bind (ensure ((consumer_id, name) \<notin> set (rs_seen state))
      (command_error ''correction redirects the same input more than once'')) (\<lambda>_.
    res_bind (future_task (rs_record state) consumer_id (rd_expected_version redirect)) (\<lambda>consumer.
    res_bind (case map_of (td_inputs (tk_definition consumer)) name of
        Some (TaskOutput task output _) \<Rightarrow> Inr (task, output)
      | _ \<Rightarrow> Inl (command_error ''correction redirect must name an existing task-output binding'')) (\<lambda>(task, output).
    res_bind (case map_of outputs output of
        Some replacement \<Rightarrow> if task = original then Inr replacement
          else Inl (command_error ''correction redirect names another source or an absent replacement output'')
      | None \<Rightarrow> Inl (command_error ''correction redirect names another source or an absent replacement output''))
      (\<lambda>replacement.
    res_bind (validate_redirect_output declarations original_outputs output replacement) (\<lambda>_.
    res_bind (retain_definition (rs_changed state) consumer_id consumer) (\<lambda>retained.
    Inr \<lparr>rs_record = set_task consumer_id (redirected correction name retained) (rs_record state),
      rs_changed = bs_insert consumer_id (rs_changed state),
      rs_seen = (consumer_id, name) # rs_seen state\<rparr>)))))))"

definition still_binds :: "task_id \<Rightarrow> task_definition \<Rightarrow> bool" where
  "still_binds original d \<longleftrightarrow> list_ex (\<lambda>b. case b of
      TaskOutput task _ _ \<Rightarrow> task = original | SettledOutcome task \<Rightarrow> task = original | _ \<Rightarrow> False)
    (bm_values (td_inputs d))"

definition finish_redirect :: "task_id \<Rightarrow> task_id \<Rightarrow> workflow_record \<Rightarrow> runtime_error + workflow_record" where
  "finish_redirect original tid w =
    res_bind (ok_or (command_error ''redirected consumer disappeared'') (map_of (wr_tasks w) tid)) (\<lambda>t.
    let d = tk_definition t;
        d' = (if still_binds original d then d
          else d\<lparr>td_dependencies := filter (\<lambda>i. i \<noteq> original) (td_dependencies d)\<rparr>) in
    res_bind (ok_or (command_error ''task version exhausted'') (checked_add (tk_version t) 1)) (\<lambda>version.
    Inr (set_task tid (t\<lparr>tk_definition := d', tk_version := version, tk_reason := None\<rparr>) w)))"

definition check_adoption ::
  "workflow_record \<Rightarrow> task_id \<Rightarrow> task_id \<Rightarrow> runtime_error + (task_record \<times> task_result)" where
  "check_adoption w original correction =
    res_bind (ok_or (command_error ''corrected task does not exist'') (map_of (wr_tasks w) original)) (\<lambda>t.
    res_bind (ensure ((tk_state t = Failed \<or> tk_state t = Stopped) \<and> tk_adopted_correction t = None)
      (command_error ''adoption requires a settled failed/stopped task without an existing adoption'')) (\<lambda>_.
    res_bind (ok_or (command_error ''corrective task does not exist'') (map_of (wr_tasks w) correction)) (\<lambda>r.
    res_bind (ensure (tk_state r = Completed \<and> td_corrective_of (tk_definition r) = Some original
        \<and> tk_adopted_correction r = None)
      (command_error ''adoption requires successful explicitly linked correction without an adoption chain'')) (\<lambda>_.
    res_bind (ok_or (command_error ''successful correction lacks immutable result'') (tk_result r)) (\<lambda>outcome.
    res_bind (case output_contract_failure (tk_definition t) (tr_outputs outcome) of
        None \<Rightarrow> Inr ()
      | Some reason \<Rightarrow> Inl (command_error (''correction does not satisfy original outputs: '' @ reason))) (\<lambda>_.
    Inr (t, outcome)))))))"

definition mark_adopted :: "task_id \<Rightarrow> task_id \<Rightarrow> workflow_record \<Rightarrow> runtime_error + workflow_record" where
  "mark_adopted original correction w =
    res_bind (ok_or (command_error ''corrected task disappeared'') (map_of (wr_tasks w) original)) (\<lambda>t.
    Inr (set_task original (t\<lparr>tk_adopted_correction := Some correction\<rparr>) w))"

definition adopt_correction ::
  "task_id \<Rightarrow> task_id \<Rightarrow> task_binding_redirect list \<Rightarrow> workflow_record \<Rightarrow> runtime_error + workflow_record" where
  "adopt_correction original correction redirects w =
    res_bind (ensure (\<not> (64 < length redirects \<or> original = correction))
      (command_error ''correction redirects exceed their bound or form a cycle'')) (\<lambda>_.
    res_bind (check_adoption w original correction) (\<lambda>(t, outcome).
    res_bind (res_fold (redirect_input original correction (td_outputs (tk_definition t))
        (case tk_result t of None \<Rightarrow> [] | Some r \<Rightarrow> tr_outputs r) (tr_outputs outcome)) redirects
      \<lparr>rs_record = w, rs_changed = [], rs_seen = []\<rparr>) (\<lambda>state.
    res_bind (res_fold (finish_redirect original) (rs_changed state) (rs_record state)) (\<lambda>w'.
    mark_adopted original correction w'))))"


subsection \<open>The batch\<close>

definition apply_change ::
  "('doc, 'm) ports \<Rightarrow> (task_id, task_id) bmap \<Rightarrow> timestamp \<Rightarrow> task_change \<Rightarrow> workflow_record
    \<Rightarrow> ('doc, 'm, workflow_record) act" where
  "apply_change p aliases now change w = (case change of
      DismissAdmission tid \<Rightarrow> act_lift (dismiss_admission tid w)
    | SetLimits limits \<Rightarrow> act_lift (change_limits w limits)
    | Add alias d \<Rightarrow>
        act_bind (validate_future_definition p w d) (\<lambda>_. act_lift (add_task aliases now alias d w))
    | Revise tid version d \<Rightarrow>
        act_bind (validate_future_definition p w d) (\<lambda>_. act_lift (revise_task aliases tid version d w))
    | Remove tid version \<Rightarrow> act_lift (remove_task now tid version w)
    | BindInput name v \<Rightarrow> act_lift (bind_input (tc_blueprint (po_codec p)) name v w)
    | Stop tid \<Rightarrow> act_lift (stop_task now tid w)
    | AdoptCorrection tid correction redirects \<Rightarrow>
        act_lift (adopt_correction tid (renamed aliases correction) redirects w)
    | Continue \<Rightarrow> act_lift (resume w)
    | Wait question \<Rightarrow> act_lift (wait_for question w)
    | Finish \<Rightarrow> act_return (w\<lparr>wr_finish_when_settled := True\<rparr>))"

definition published :: "workflow_record \<Rightarrow> task_id \<Rightarrow> string \<Rightarrow> artifact_reference option" where
  "published w producer name = Option.bind (map_of (wr_tasks w) producer) (\<lambda>t.
    Option.bind (tk_result t) (\<lambda>r. map_of (tr_outputs r) name))"

definition validate_edit :: "('doc, 'm) ports \<Rightarrow> workflow_record \<Rightarrow> runtime_error + unit" where
  "validate_edit p w = (let codec = tc_blueprint (po_codec p) in
    res_bind (definition_result (validate_task_set codec (definitions (wr_tasks w)) (wr_limits w) (published w))) (\<lambda>_.
    res_all (\<lambda>t. definition_result (validate_supplied_inputs codec (tk_definition t) (wr_inputs w)))
      (filter (\<lambda>t. tk_frozen t = None \<and> \<not> tk_removed t) (task_list w))))"

definition is_stop :: "task_change \<Rightarrow> bool" where
  "is_stop change = (case change of Stop _ \<Rightarrow> True | _ \<Rightarrow> False)"

definition stop_key :: "workflow_id \<Rightarrow> task_id \<Rightarrow> string" where
  "stop_key wid tid = ''stop:'' @ wid @ '':'' @ tid"

definition reserved_stop :: "workflow_record \<Rightarrow> workflow_id \<Rightarrow> string \<Rightarrow> task_change list \<Rightarrow> string option" where
  "reserved_stop w wid key changes = (case changes of
      [Stop tid] \<Rightarrow> if key = stop_key wid tid
          \<and> opt_any (\<lambda>t. \<not> tk_stop_requested t \<and> \<not> is_settled (tk_state t)) (map_of (wr_tasks w) tid)
        then Some key else None
    | _ \<Rightarrow> None)"

definition check_basis ::
  "workflow_record \<Rightarrow> task_batch \<Rightarrow> (task_id \<times> bool) option \<Rightarrow> runtime_error + unit" where
  "check_basis w batch source = (case source of
      Some (tid, repair) \<Rightarrow> check_admission w tid batch repair
    | None \<Rightarrow> ensure (tb_expected_generation batch = wr_generation w)
        (InvalidTransition (''stale workflow generation: expected '' @ dec64 (tb_expected_generation batch)
          @ '', actual '' @ dec64 (wr_generation w))))"

definition settle_source ::
  "(task_id \<times> bool) option \<Rightarrow> string \<Rightarrow> (task_id, task_id) bmap \<Rightarrow> workflow_record
    \<Rightarrow> runtime_error + workflow_record" where
  "settle_source source key aliases w = (case source of
      None \<Rightarrow> Inr w
    | Some (tid, repair) \<Rightarrow> accept_admission tid key aliases repair w)"

text \<open>The record after the batch, with the identities its aliases were given.\<close>

definition edited_record ::
  "('doc, 'm) ports \<Rightarrow> string \<Rightarrow> task_batch \<Rightarrow> (task_id \<times> bool) option \<Rightarrow> workflow_record
    \<Rightarrow> ('doc, 'm, (task_id, task_id) bmap \<times> workflow_record) act" where
  "edited_record p key batch source w =
    act_bind (act_fold (allocate_alias w) (tb_changes batch) []) (\<lambda>aliases.
    act_bind (clock_now p) (\<lambda>now.
    act_bind (act_fold (apply_change p aliases now) (tb_changes batch) w) (\<lambda>edited.
    act_bind (act_lift (validate_edit p edited)) (\<lambda>_.
    act_bind (act_lift (settle_source source key aliases edited)) (\<lambda>settled.
    act_return (aliases, settled))))))"

definition edit_accepted ::
  "('doc, 'm) ports \<Rightarrow> string \<Rightarrow> string \<Rightarrow> workflow_id \<Rightarrow> task_batch \<Rightarrow> (task_id \<times> bool) option \<Rightarrow> string
    \<Rightarrow> ('doc, 'm, command_receipt) act" where
  "edit_accepted p owner key wid batch source canonical =
    act_bind (require_workflow p wid) (\<lambda>w.
    act_bind (act_lift (check_basis w batch source)) (\<lambda>_.
    act_bind (act_ensure (tb_changes batch \<noteq> [] \<and> length (tb_changes batch) \<le> MAX_TASK_BATCH_ACTIONS)
      (command_error ''task batch must contain 1..=32 changes'')) (\<lambda>_.
    act_bind (edited_record p key batch source w) (\<lambda>(aliases, settled).
    act_bind (advance_decided p settled (\<lambda>decided. Some (acceptance (reserved_stop w wid key (tb_changes batch))
      owner key canonical (command_result wid (wr_generation decided) aliases)))) (\<lambda>(outcome, _).
    act_lift (receipt outcome))))))"

definition edit_request ::
  "('doc, 'm) ports \<Rightarrow> string \<Rightarrow> string \<Rightarrow> workflow_id \<Rightarrow> task_batch \<Rightarrow> string option \<Rightarrow> (task_id \<times> bool) option
    \<Rightarrow> ('doc, 'm, command_receipt) act" where
  "edit_request p owner key wid batch transport source =
    act_bind (act_lift (request_identity p transport (po_batch_value p batch))) (\<lambda>identity.
    act_bind (act_lift (canonical_request p (Some wid) identity)) (\<lambda>canonical.
    act_bind (replay p owner key canonical) (\<lambda>found. case found of
      Some r \<Rightarrow> act_return r
    | None \<Rightarrow>
        act_bind is_closed (\<lambda>closed.
        act_bind (act_ensure (\<not> (closed \<and> list_ex (\<lambda>change. \<not> is_stop change) (tb_changes batch)))
          (command_error ''task edits are closed during shutdown; stop remains available'')) (\<lambda>_.
        edit_accepted p owner key wid batch source canonical)))))"

definition edit ::
  "('doc, 'm) ports \<Rightarrow> string \<Rightarrow> string \<Rightarrow> workflow_id \<Rightarrow> task_batch \<Rightarrow> ('doc, 'm, command_receipt) act" where
  "edit p owner key wid batch = edit_request p owner key wid batch None None"

definition edit_exact ::
  "('doc, 'm) ports \<Rightarrow> string \<Rightarrow> string \<Rightarrow> workflow_id \<Rightarrow> task_batch \<Rightarrow> string \<Rightarrow> ('doc, 'm, command_receipt) act" where
  "edit_exact p owner key wid batch transport = edit_request p owner key wid batch (Some transport) None"

definition model_key :: "workflow_id \<Rightarrow> task_id \<Rightarrow> bool \<Rightarrow> string" where
  "model_key wid source repair = ''model:'' @ (if repair then ''repair'' else ''actions'') @ '':'' @ wid @ '':'' @ source"

definition admit_model_batch ::
  "('doc, 'm) ports \<Rightarrow> string \<Rightarrow> workflow_id \<Rightarrow> task_id \<Rightarrow> task_batch \<Rightarrow> bool \<Rightarrow> ('doc, 'm, command_receipt) act" where
  "admit_model_batch p actor wid source batch repair =
    edit_request p actor (model_key wid source repair) wid batch None (Some (source, repair))"

section \<open>What the changes keep\<close>

text \<open>An edit of the record that only touches existing tasks and free fields.\<close>

definition same_frame :: "workflow_record \<Rightarrow> workflow_record \<Rightarrow> bool" where
  "same_frame w w' \<longleftrightarrow> wr_generation w' = wr_generation w \<and> wr_admissions w' = wr_admissions w
    \<and> wr_limits w' = wr_limits w \<and> wr_admitted_model_batches w' = wr_admitted_model_batches w"

definition edits :: "runtime_codec \<Rightarrow> workflow_record \<Rightarrow> workflow_record \<Rightarrow> bool" where
  "edits codec w w' \<longleftrightarrow> progresses codec w w' \<and> wr_id w' = wr_id w \<and> same_frame w w'
    \<and> bm_keys (wr_tasks w') = bm_keys (wr_tasks w)"

lemma edits_refl [simp]: "edits codec w w"
  by (simp add: edits_def same_frame_def)

lemma edits_trans: "edits codec a b \<Longrightarrow> edits codec b c \<Longrightarrow> edits codec a c"
  by (auto simp add: edits_def same_frame_def intro: progresses_trans)

lemma edits_set_task:
  assumes "map_of (wr_tasks w) tid = Some t"
    and "task_ok codec (wr_id w) tid t \<Longrightarrow> task_ok codec (wr_id w) tid t' \<and> task_evolves t t'"
  shows "edits codec w (set_task tid t' w)"
  using progresses_set_task [OF assms] by (simp add: edits_def same_frame_def set_task_def)

lemma future_task_Inr:
  "future_task w tid version = Inr t \<longleftrightarrow>
    map_of (wr_tasks w) tid = Some t \<and> tk_version t = version \<and> tk_frozen t = None \<and> tk_state t = Queued"
  by (auto simp add: future_task_def res_simps)

text \<open>A task that was not started may be given another definition, version and history.\<close>

lemma future_edits:
  assumes t: "map_of (wr_tasks w) tid = Some t" "tk_frozen t = None" "tk_state t = Queued"
    and "tk_id t' = tk_id t" and "tk_created_at t' = tk_created_at t" and "tk_version t \<le> tk_version t'"
    and "prefix (tk_previous_definitions t) (tk_previous_definitions t')" and "tk_removed t \<longrightarrow> tk_removed t'"
    and "tk_stop_requested t \<longrightarrow> tk_stop_requested t'" and "tk_cancellation_sent t' = tk_cancellation_sent t"
    and "tk_frozen t' = None" and "tk_result t' = tk_result t" and "tk_adopted_correction t' = tk_adopted_correction t"
    and "tk_state t' = Queued \<or> tk_state t' = Stopped"
  shows "edits codec w (set_task tid t' w)"
proof (rule edits_set_task [OF t(1)])
  assume "task_ok codec (wr_id w) tid t"
  then show "task_ok codec (wr_id w) tid t' \<and> task_evolves t t'"
    using assms by (auto simp add: task_ok_def task_evolves_def opt_keeps_refl)
qed

lemma version_grows: "checked_add (n :: u64) 1 = Some m \<Longrightarrow> n \<le> m"
  by (simp add: checked_add_unat word_order_nat)

lemma revise_edits:
  assumes "revise_task aliases tid version d w = Inr w'"
  shows "edits codec w w'"
  using assms
  by (auto simp add: revise_task_def res_simps future_task_Inr version_grows intro!: future_edits)

lemma remove_edits:
  assumes "remove_task now tid version w = Inr w'"
  shows "edits codec w w'"
  using assms by (auto simp add: remove_task_def res_simps future_task_Inr intro!: future_edits)

lemma stop_edits:
  assumes "stop_task now tid w = Inr w'"
  shows "edits codec w w'"
proof -
  obtain t where t: "map_of (wr_tasks w) tid = Some t" and w': "w' = set_task tid (stopped_task now t) w"
    using assms by (auto simp add: stop_task_def res_simps)
  consider "is_settled (tk_state t) \<or> tk_frozen t \<noteq> None" | "\<not> is_settled (tk_state t)" "tk_frozen t = None"
    by blast
  then show ?thesis
    unfolding w'
  proof cases
    case 1
    then show "edits codec w (set_task tid (stopped_task now t) w)"
      by (intro edits_set_task [OF t]) (auto simp add: stopped_task_def)
  next
    case 2
    show "edits codec w (set_task tid (stopped_task now t) w)"
    proof (rule edits_set_task [OF t])
      assume ok: "task_ok codec (wr_id w) tid t"
      then have "tk_state t = Queued" using 2 by (cases "tk_state t") (auto simp add: task_ok_def)
      then show "task_ok codec (wr_id w) tid (stopped_task now t) \<and> task_evolves t (stopped_task now t)"
        using ok 2 by (simp add: stopped_task_def task_ok_def task_evolves_def opt_keeps_refl)
    qed
  qed
qed

lemma free_edits:
  "bind_input bcodec name v w = Inr w' \<Longrightarrow> edits codec w w'"
  "wait_for question w = Inr w' \<Longrightarrow> edits codec w w'"
  "resume w = Inr w' \<Longrightarrow> edits codec w w'"
  "edits codec w (w\<lparr>wr_finish_when_settled := True\<rparr>)"
  by (auto simp add: bind_input_def wait_for_def resume_def res_simps edits_def same_frame_def)
    (simp add: progresses_def workflow_evolves_def opt_keeps_refl)

text \<open>The redirects of an adoption touch queued consumers only, so the corrected task stays as it was.\<close>

definition redirecting ::
  "runtime_codec \<Rightarrow> workflow_record \<Rightarrow> task_id \<Rightarrow> task_record \<Rightarrow> task_id bset \<Rightarrow> workflow_record \<Rightarrow> bool" where
  "redirecting codec w original t changed w' \<longleftrightarrow> edits codec w w' \<and> map_of (wr_tasks w') original = Some t
    \<and> original \<notin> set changed
    \<and> (\<forall>c \<in> set changed. \<exists>u. map_of (wr_tasks w') c = Some u \<and> tk_frozen u = None \<and> tk_state u = Queued)"

lemma redirecting_step:
  assumes old: "redirecting codec w original t changed v" and u: "map_of (wr_tasks v) c = Some u" "c \<noteq> original"
    and queued: "tk_frozen u = None" "tk_state u = Queued"
    and u': "tk_frozen u' = None" "tk_state u' = Queued" and edit: "edits codec v (set_task c u' v)"
  shows "redirecting codec w original t (bs_insert c changed) (set_task c u' v)"
  unfolding redirecting_def
proof (intro conjI ballI)
  show "edits codec w (set_task c u' v)" using old edit edits_trans by (auto simp add: redirecting_def)
  show "map_of (wr_tasks (set_task c u' v)) original = Some t" using old u(2) by (simp add: redirecting_def)
  show "original \<notin> set (bs_insert c changed)" using old u(2) by (simp add: redirecting_def)
  fix d assume d: "d \<in> set (bs_insert c changed)"
  show "\<exists>v'. map_of (wr_tasks (set_task c u' v)) d = Some v' \<and> tk_frozen v' = None \<and> tk_state v' = Queued"
  proof (cases "d = c")
    case True
    then show ?thesis using u(1) u' by simp
  next
    case False
    then show ?thesis using d old by (simp add: redirecting_def)
  qed
qed

lemma retain_definition_Inr:
  assumes "retain_definition changed tid t = Inr t'"
  obtains ds where "t' = t\<lparr>tk_previous_definitions := tk_previous_definitions t @ ds\<rparr>"
proof (cases "tid \<in> set changed")
  case True
  then show ?thesis using assms that [of "[]"] by (simp add: retain_definition_def)
next
  case False
  then show ?thesis using assms that [of "[tk_definition t]"] by (auto simp add: retain_definition_def res_simps)
qed

lemma redirect_input_keeps:
  assumes "redirect_input original correction declarations original_outputs outputs redirect state = Inr state'"
    and old: "redirecting codec w original t (rs_changed state) (rs_record state)" and settled: "is_settled (tk_state t)"
  shows "redirecting codec w original t (rs_changed state') (rs_record state')"
proof -
  let ?c = "rd_consumer redirect"
  obtain consumer retained where f: "future_task (rs_record state) ?c (rd_expected_version redirect) = Inr consumer"
    and keep: "retain_definition (rs_changed state) ?c consumer = Inr retained"
    and s: "rs_record state' = set_task ?c (redirected correction (rd_input redirect) retained) (rs_record state)"
      "rs_changed state' = bs_insert ?c (rs_changed state)"
    using assms(1) unfolding redirect_input_def Let_def split_def res_bind_Inr_iff by auto
  have c: "map_of (wr_tasks (rs_record state)) ?c = Some consumer" "tk_frozen consumer = None" "tk_state consumer = Queued"
    using f by (simp_all add: future_task_Inr)
  obtain ds where r: "retained = consumer\<lparr>tk_previous_definitions := tk_previous_definitions consumer @ ds\<rparr>"
    using retain_definition_Inr [OF keep] .
  have "?c \<noteq> original" using old c settled by (auto simp add: redirecting_def)
  moreover have q: "tk_frozen (redirected correction (rd_input redirect) retained) = None"
    "tk_state (redirected correction (rd_input redirect) retained) = Queued"
    using c r by (simp_all add: redirected_def Let_def)
  moreover have "edits codec (rs_record state) (set_task ?c (redirected correction (rd_input redirect) retained) (rs_record state))"
    by (intro future_edits [OF c]) (simp_all add: r redirected_def Let_def c)
  ultimately show ?thesis
    unfolding s by (intro redirecting_step [OF old c(1) _ c(2,3)])
qed

lemma finish_redirect_keeps:
  assumes "finish_redirect original c v = Inr v'" and "c \<in> set changed" and old: "redirecting codec w original t changed v"
  shows "redirecting codec w original t changed v'"
proof -
  obtain u where u: "map_of (wr_tasks v) c = Some u" "tk_frozen u = None" "tk_state u = Queued" and c: "c \<noteq> original"
    using old assms(2) unfolding redirecting_def by metis
  obtain d version where v: "checked_add (tk_version u) 1 = Some version"
    and v': "v' = set_task c (u\<lparr>tk_definition := d, tk_version := version, tk_reason := None\<rparr>) v"
    using assms(1) u(1) by (auto simp add: finish_redirect_def Let_def res_simps)
  have "redirecting codec w original t (bs_insert c changed) v'"
    unfolding v' by (intro redirecting_step [OF old u(1) c u(2,3)] future_edits [OF u]) (simp_all add: u version_grows [OF v])
  then show ?thesis using assms(2) by (simp add: redirecting_def insert_absorb)
qed

lemma adopted_progress:
  assumes "task_ok codec wid tid t" and "tk_adopted_correction t = None"
  shows "task_ok codec wid tid (t\<lparr>tk_adopted_correction := Some c\<rparr>)
    \<and> task_evolves t (t\<lparr>tk_adopted_correction := Some c\<rparr>)"
proof
  show "task_ok codec wid tid (t\<lparr>tk_adopted_correction := Some c\<rparr>)"
    using assms(1) by (simp add: task_ok_def start_ok_def evidence_ok_def split: option.splits)
  have "final_task t (t\<lparr>tk_adopted_correction := Some c\<rparr>)"
    unfolding final_task_def by (intro exI [of _ "tk_cancellation_sent t"] exI [of _ "Some c"]) simp
  then show "task_evolves t (t\<lparr>tk_adopted_correction := Some c\<rparr>)"
    using assms(2) by (simp add: task_evolves_def opt_keeps_refl)
qed

lemma adopt_edits:
  assumes "adopt_correction original correction redirects w = Inr w'"
  shows "edits codec w w'"
proof -
  obtain t outcome state v where t: "check_adoption w original correction = Inr (t, outcome)"
    and first: "res_fold (redirect_input original correction (td_outputs (tk_definition t))
        (case tk_result t of None \<Rightarrow> [] | Some r \<Rightarrow> tr_outputs r) (tr_outputs outcome)) redirects
      \<lparr>rs_record = w, rs_changed = [], rs_seen = []\<rparr> = Inr state"
    and second: "res_fold (finish_redirect original) (rs_changed state) (rs_record state) = Inr v"
    and mark: "mark_adopted original correction v = Inr w'"
    using assms by (auto simp add: adopt_correction_def res_simps)
  have w: "map_of (wr_tasks w) original = Some t" "is_settled (tk_state t)" "tk_adopted_correction t = None"
    using t by (auto simp add: check_adoption_def res_simps)
  have "redirecting codec w original t (rs_changed state) (rs_record state)"
    by (rule res_fold_invariant [OF first, where P = "\<lambda>s. redirecting codec w original t (rs_changed s) (rs_record s)"])
      (use w redirect_input_keeps in \<open>auto simp add: redirecting_def\<close>)
  then have v: "redirecting codec w original t (rs_changed state) v"
    by (rule res_fold_invariant [OF second]) (use finish_redirect_keeps in blast)
  then have t: "map_of (wr_tasks v) original = Some t" by (simp add: redirecting_def)
  then have "w' = set_task original (t\<lparr>tk_adopted_correction := Some correction\<rparr>) v"
    using mark by (simp add: mark_adopted_def)
  then have "edits codec v w'" using edits_set_task [OF t adopted_progress] w(3) by simp
  then show ?thesis using v edits_trans by (auto simp add: redirecting_def)
qed

lemma dismiss_keeps:
  assumes "dismiss_admission tid w = Inr w'"
  shows "progresses codec w w'" and "wr_id w' = wr_id w" and "wr_generation w' = wr_generation w"
    and "wr_tasks w' = wr_tasks w"
proof -
  obtain a where a: "map_of (wr_admissions w) tid = Some a" "ma_status a = RejectedAdmission"
    and w': "w' = clear_owned_wait tid (set_admission tid (a\<lparr>ma_status := DismissedAdmission\<rparr>) w)"
    using assms by (auto simp add: dismiss_admission_def res_simps)
  have "progresses codec w (set_admission tid (a\<lparr>ma_status := DismissedAdmission\<rparr>) w)"
    by (rule set_admission_progresses [OF a(1)])
      (simp add: a(2) admission_evolves_def status_follows_def blocks_completion_def)
  then show "progresses codec w w'" by (simp add: w' clear_owned_wait_def)
  show "wr_id w' = wr_id w" "wr_generation w' = wr_generation w" "wr_tasks w' = wr_tasks w"
    by (simp_all add: w' clear_owned_wait_def set_admission_def)
qed

lemma limits_keep:
  assumes "change_limits w limits = Inr w'"
  shows "progresses codec w w'" and "wr_id w' = wr_id w" and "wr_generation w' = wr_generation w"
    and "wr_tasks w' = wr_tasks w"
  using assms
  by (auto simp add: change_limits_def res_simps progresses_def record_ok_def workflow_evolves_def opt_keeps_refl
      not_less)

text \<open>Adding a task under an identity no task has.\<close>

lemma length_bm_insert: "map_of m k = None \<Longrightarrow> length (bm_insert k v m) = Suc (length m)"
  by (induction k v m rule: bm_insert.induct) (auto split: if_splits)

lemma new_task_ok: "task_ok codec wid tid (new_task_record tid d now)"
  by (simp add: task_ok_def new_task_record_def)

lemma add_keeps:
  assumes "add_task aliases now alias d w = Inr w'" and tid: "map_of aliases alias = Some tid"
    and fresh: "map_of (wr_tasks w) tid = None" and wf: "bm_wf (wr_tasks w)"
  shows "progresses codec w w'" and "wr_id w' = wr_id w" and "same_frame w w'"
    and "dom (map_of (wr_tasks w')) = insert tid (dom (map_of (wr_tasks w)))"
proof -
  let ?t = "new_task_record tid (remap_definition aliases d) now"
  obtain admitted where a: "checked_add (wr_admitted_tasks w) 1 = Some admitted" "admitted \<le> wl_tasks (wr_limits w)"
    and w': "w' = w\<lparr>wr_admitted_tasks := admitted, wr_tasks := bm_insert tid ?t (wr_tasks w)\<rparr>"
    using assms(1,2) by (auto simp add: add_task_def res_simps)
  have n: "unat admitted = Suc (unat (wr_admitted_tasks w))" using a(1) by (simp add: checked_add_unat)
  have keep: "map_of (bm_insert tid ?t (wr_tasks w)) i = Some t" if "map_of (wr_tasks w) i = Some t" for i t
    using that fresh wf by auto
  show "progresses codec w w'"
    unfolding progresses_def
  proof (intro impI conjI)
    assume ok: "record_ok codec w"
    have "opt_any model_reported (map_of (bm_insert tid ?t (wr_tasks w)) i)"
      if b: "map_of (wr_admissions w) i = Some b" for i b
    proof -
      obtain t where "map_of (wr_tasks w) i = Some t" "model_reported t"
        using ok b unfolding record_ok_def opt_any_iff by blast
      then show ?thesis using keep by (simp add: opt_any_iff)
    qed
    then show "record_ok codec w'"
      using ok a(2) n by (auto simp add: w' record_ok_def length_bm_insert [OF fresh] new_task_ok)
    have "wr_admitted_tasks w \<le> admitted" using n by (simp add: word_order_nat)
    then show "workflow_evolves w w'"
      using keep by (simp add: w' workflow_evolves_def opt_keeps_refl) (simp add: opt_keeps_def)
  qed
  show "wr_id w' = wr_id w" "same_frame w w'" "dom (map_of (wr_tasks w')) = insert tid (dom (map_of (wr_tasks w)))"
    using wf by (auto simp add: w' same_frame_def)
qed

definition adds :: "task_change list \<Rightarrow> task_id list" where
  "adds changes = List.map_filter (\<lambda>c. case c of Add alias _ \<Rightarrow> Some alias | _ \<Rightarrow> None) changes"

lemma adds_simps [simp]:
  "adds [] = []" "adds (Add alias d # changes) = alias # adds changes"
  "\<not> (\<exists>alias d. c = Add alias d) \<Longrightarrow> adds (c # changes) = adds changes"
  by (auto simp add: adds_def List.map_filter_def split: task_change.splits)

text \<open>What is left of a batch still names identities no task has.\<close>

definition distinct_ids :: "(task_id, task_id) bmap \<Rightarrow> bool" where
  "distinct_ids aliases \<longleftrightarrow> (\<forall>a b tid. map_of aliases a = Some tid \<longrightarrow> map_of aliases b = Some tid \<longrightarrow> a = b)"

definition unused_by :: "(task_id, task_id) bmap \<Rightarrow> task_change list \<Rightarrow> workflow_record \<Rightarrow> bool" where
  "unused_by aliases rest w \<longleftrightarrow> distinct (adds rest)
    \<and> (\<forall>alias \<in> set (adds rest). \<forall>tid. map_of aliases alias = Some tid \<longrightarrow> map_of (wr_tasks w) tid = None)"

definition change_ok ::
  "runtime_codec \<Rightarrow> (task_id, task_id) bmap \<Rightarrow> task_change \<Rightarrow> task_change list \<Rightarrow> workflow_record \<Rightarrow> workflow_record \<Rightarrow> bool" where
  "change_ok codec aliases change rest w w' \<longleftrightarrow> progresses codec w w' \<and> wr_id w' = wr_id w
    \<and> wr_generation w' = wr_generation w \<and> (\<not> closes_policy change \<longrightarrow> same_frame w w') \<and> unused_by aliases rest w'"

lemma edits_change_ok:
  assumes "edits codec w w'" and "unused_by aliases (change # rest) w" and "\<not> (\<exists>alias d. change = Add alias d)"
  shows "change_ok codec aliases change rest w w'"
proof -
  have "dom (map_of (wr_tasks w')) = dom (map_of (wr_tasks w))"
    using assms(1) by (metis edits_def set_bm_keys)
  then have "unused_by aliases rest w'" using assms(2,3) by (simp add: unused_by_def) (metis domIff)
  then show ?thesis using assms(1) by (simp add: change_ok_def edits_def same_frame_def)
qed

lemma policy_change_ok:
  assumes "progresses codec w w'" and "wr_id w' = wr_id w" and "wr_generation w' = wr_generation w"
    and "wr_tasks w' = wr_tasks w" and "closes_policy change" and "unused_by aliases (change # rest) w"
  shows "change_ok codec aliases change rest w w'"
proof -
  have "\<not> (\<exists>alias d. change = Add alias d)" using assms(5) by (auto simp add: closes_policy_def)
  then show ?thesis using assms by (simp add: change_ok_def unused_by_def)
qed

lemma add_change_ok:
  assumes run: "add_task aliases now alias d w = Inr w'" and ids: "distinct_ids aliases"
    and left: "unused_by aliases (Add alias d # rest) w" and wf: "bm_wf (wr_tasks w)"
  shows "change_ok codec aliases (Add alias d) rest w w'"
proof -
  obtain tid where tid: "map_of aliases alias = Some tid" using run by (auto simp add: add_task_def res_simps)
  then have fresh: "map_of (wr_tasks w) tid = None" using left by (simp add: unused_by_def)
  note add = add_keeps [OF run tid fresh wf]
  have "map_of (wr_tasks w') i = None" if b: "b \<in> set (adds rest)" "map_of aliases b = Some i" for b i
  proof -
    have "b \<noteq> alias" using left b(1) by (auto simp add: unused_by_def)
    then have "i \<noteq> tid" using ids tid b(2) unfolding distinct_ids_def by blast
    moreover have "map_of (wr_tasks w) i = None" using left b by (simp add: unused_by_def)
    ultimately show ?thesis using add(4) by (metis domIff insertE)
  qed
  then show ?thesis using add left by (simp add: change_ok_def unused_by_def same_frame_def)
qed

lemma safely_edit:
  assumes "unused_by aliases (change # rest) w" and "\<And>w'. r = Inr w' \<Longrightarrow> edits (po_codec p) w w'"
    and "\<not> (\<exists>alias d. change = Add alias d)"
  shows "safely p A (act_lift r) (\<lambda>w' s. A s \<and> change_ok (po_codec p) aliases change rest w w')"
  by (rule safely_lift) (use edits_change_ok assms in blast)

lemma safely_apply_change:
  assumes ids: "distinct_ids aliases" and left: "unused_by aliases (change # rest) w" and wf: "bm_wf (wr_tasks w)"
  shows "safely p A (apply_change p aliases now change w)
    (\<lambda>w' s. A s \<and> change_ok (po_codec p) aliases change rest w w')"
proof (cases change)
  case (Add name d)
  then show ?thesis
    unfolding Add apply_change_def task_change.case
    by (intro safely_call_bind [OF safely_validate_future] safely_lift) (use add_change_ok [OF _ ids _ wf] left Add in blast)
next
  case (Revise tid version d)
  then show ?thesis
    unfolding Revise apply_change_def task_change.case
    by (intro safely_call_bind [OF safely_validate_future] safely_lift)
      (use edits_change_ok [OF revise_edits] left Revise in blast)
next
  case (DismissAdmission tid)
  then show ?thesis
    unfolding DismissAdmission apply_change_def task_change.case
    by (intro safely_lift) (use left DismissAdmission in
      \<open>auto intro!: policy_change_ok simp add: dismiss_keeps closes_policy_def\<close>)
next
  case (SetLimits limits)
  then show ?thesis
    unfolding SetLimits apply_change_def task_change.case
    by (intro safely_lift) (use left SetLimits in
      \<open>auto intro!: policy_change_ok simp add: limits_keep closes_policy_def\<close>)
next
  case Finish
  then show ?thesis
    unfolding Finish apply_change_def task_change.case
    by (intro safely_return) (use edits_change_ok [OF free_edits(4)] left Finish in blast)
qed (use left in \<open>simp_all add: apply_change_def safely_edit remove_edits stop_edits adopt_edits free_edits\<close>)

subsection \<open>The identities of new tasks\<close>

lemma adds_append: "adds (xs @ ys) = adds xs @ adds ys"
  by (simp add: adds_def List.map_filter_def)

lemma safely_unused_task_id:
  "safely p A (unused_task_id tries w aliases) (\<lambda>tid s. A s \<and> map_of (wr_tasks w) tid = None \<and> tid \<notin> set (bm_values aliases))"
proof (induction tries)
  case (Suc tries)
  show ?case
    unfolding unused_task_id.simps
    by (intro safely_call_bind [OF safely_fresh_identity] safely_if safely_return Suc) (simp add: bm_contains_iff)
qed (simp add: safely_fail)

definition allocated :: "workflow_record \<Rightarrow> task_change list \<Rightarrow> (task_id, task_id) bmap \<Rightarrow> bool" where
  "allocated w changes aliases \<longleftrightarrow> bm_wf aliases \<and> distinct (adds changes) \<and> set (bm_keys aliases) = set (adds changes)
    \<and> distinct_ids aliases \<and> (\<forall>a tid. map_of aliases a = Some tid \<longrightarrow> map_of (wr_tasks w) tid = None)"

lemma allocated_plain: "allocated w done aliases \<Longrightarrow> \<not> (\<exists>a d. c = Add a d) \<Longrightarrow> allocated w (done @ [c]) aliases"
  by (simp add: allocated_def adds_append)

lemma allocated_add:
  assumes old: "allocated w done aliases" and a: "\<not> bm_contains aliases a"
    and tid: "map_of (wr_tasks w) tid = None" "tid \<notin> set (bm_values aliases)"
  shows "allocated w (done @ [Add a d]) (bm_insert a tid aliases)"
proof -
  have wf: "bm_wf aliases" and none: "map_of aliases a = None" using old a by (simp_all add: allocated_def bm_contains_iff)
  have "map_of aliases b \<noteq> Some tid" for b
    using tid(2) wf by (metis bm_values_def image_eqI list.set_map map_of_SomeD snd_conv)
  then have "distinct_ids (bm_insert a tid aliases)"
    using old wf by (auto simp add: allocated_def distinct_ids_def)
  moreover have "a \<notin> set (adds done)" using old none by (auto simp add: allocated_def set_bm_keys)
  ultimately show ?thesis
    using old tid(1) wf by (auto simp add: allocated_def adds_append set_bm_keys split: if_splits)
qed

lemma safely_allocate:
  "safely p A (act_fold (allocate_alias w) changes []) (\<lambda>aliases s. A s \<and> allocated w changes aliases)"
proof -
  let ?J = "\<lambda>rest aliases s. A s \<and> (\<exists>done. changes = done @ rest \<and> allocated w done aliases)"
  have step: "safely p (?J (c # rest) aliases) (allocate_alias w c aliases) (?J rest)" for c rest aliases
  proof (rule safely_pure)
    show "\<exists>done. changes = done @ c # rest \<and> allocated w done aliases" if "?J (c # rest) aliases s" for s
      using that by blast
    assume "\<exists>done. changes = done @ c # rest \<and> allocated w done aliases"
    then obtain "done" where d: "changes = (done @ [c]) @ rest" and old: "allocated w done aliases" by auto
    show "safely p (?J (c # rest) aliases) (allocate_alias w c aliases) (?J rest)"
    proof (cases "\<exists>a t. c = Add a t")
      case True
      then obtain a t where c: "c = Add a t" by blast
      have "safely p A (allocate_alias w c aliases) (?J rest)"
        unfolding c allocate_alias_def task_change.case
        by (rule safely_bind [OF safely_unused_task_id], intro safely_ensure_bind safely_return)
          (use allocated_add [OF old] d c in blast)
      then show ?thesis by (rule safely_weaken) simp_all
    next
      case False
      then have same: "allocate_alias w c aliases = act_return aliases" by (cases c) (simp_all add: allocate_alias_def)
      show ?thesis
        unfolding same by (rule safely_return) (use allocated_plain [OF old False] d in blast)
    qed
  qed
  have "safely p (?J changes []) (act_fold (allocate_alias w) changes []) (?J [])"
    by (rule safely_fold_rest) (rule step)
  then show ?thesis
    by (rule safely_weaken) (auto simp add: allocated_def distinct_ids_def bm_keys_def intro: exI [of _ "[]"])
qed

subsection \<open>A whole batch\<close>

lemma allocated_unused: "allocated w changes aliases \<Longrightarrow> unused_by aliases changes w"
  by (simp add: allocated_def unused_by_def)

definition batch_ok :: "runtime_codec \<Rightarrow> task_change list \<Rightarrow> workflow_record \<Rightarrow> workflow_record \<Rightarrow> bool" where
  "batch_ok codec changes w w' \<longleftrightarrow> progresses codec w w' \<and> wr_id w' = wr_id w \<and> wr_generation w' = wr_generation w
    \<and> (\<not> list_ex closes_policy changes \<longrightarrow> same_frame w w')"

lemma safely_apply_changes:
  assumes alloc: "allocated w changes aliases" and ok: "record_ok (po_codec p) w"
  shows "safely p A (act_fold (apply_change p aliases now) changes w)
    (\<lambda>w' s. A s \<and> batch_ok (po_codec p) changes w w')"
proof -
  let ?P = "\<lambda>rest w'. set rest \<subseteq> set changes \<and> batch_ok (po_codec p) changes w w' \<and> unused_by aliases rest w'"
  let ?J = "\<lambda>rest w' s. A s \<and> ?P rest w'"
  have ids: "distinct_ids aliases" using alloc by (simp add: allocated_def)
  have step: "safely p (?J (c # rest) v) (apply_change p aliases now c v) (?J rest)" for c rest v
  proof (rule safely_pure)
    show "?P (c # rest) v" if "?J (c # rest) v s" for s using that by blast
    assume v: "?P (c # rest) v"
    then have wf: "bm_wf (wr_tasks v)" using ok by (simp add: batch_ok_def progresses_def record_ok_def)
    have "batch_ok (po_codec p) changes w v'" if "change_ok (po_codec p) aliases c rest v v'" for v'
      using v that by (auto simp add: batch_ok_def change_ok_def same_frame_def list_ex_iff intro: progresses_trans)
    then show "safely p (?J (c # rest) v) (apply_change p aliases now c v) (?J rest)"
      using v by (intro safely_weaken [OF safely_apply_change [OF ids _ wf, where rest = rest and A = A]])
        (auto simp add: change_ok_def)
  qed
  have "safely p (?J changes w) (act_fold (apply_change p aliases now) changes w) (?J [])"
    by (rule safely_fold_rest) (rule step)
  then show ?thesis
    by (rule safely_weaken) (use allocated_unused [OF alloc] in \<open>auto simp add: batch_ok_def same_frame_def\<close>)
qed

lemma settle_source_keeps:
  assumes edited: "batch_ok codec (tb_changes batch) w v" and basis: "check_basis w batch source = Inr ()"
    and run: "settle_source source key aliases v = Inr v'"
  shows "progresses codec w v'" and "wr_id v' = wr_id w" and "wr_generation v' = wr_generation w"
proof -
  have "progresses codec v v' \<and> wr_id v' = wr_id v \<and> wr_generation v' = wr_generation v"
  proof (cases source)
    case None
    then show ?thesis using run by (simp add: settle_source_def)
  next
    case (Some e)
    obtain tid repair where e: "e = (tid, repair)" by (cases e)
    have accept: "accept_admission tid key aliases repair v = Inr v'" using run Some e by (simp add: settle_source_def)
    obtain a where a: "map_of (wr_admissions w) tid = Some a"
        "ma_status a = (if repair then RejectedAdmission else PendingAdmission)"
      and room: "wr_admitted_model_batches w < wl_model_batches (wr_limits w)" "\<not> list_ex closes_policy (tb_changes batch)"
      using basis Some e by (auto simp add: check_basis_def elim: check_admission_Inr)
    have "same_frame w v" using edited room(2) by (simp add: batch_ok_def)
    then show ?thesis
      using accept_progresses [OF _ _ _ accept] a room(1) by (simp add: same_frame_def)
  qed
  then show "progresses codec w v'" "wr_id v' = wr_id w" "wr_generation v' = wr_generation w"
    using edited progresses_trans [of codec w v v'] by (simp_all add: batch_ok_def)
qed

lemma safely_edited_record:
  assumes ok: "record_ok (po_codec p) w" and basis: "check_basis w batch source = Inr ()"
  shows "safely p A (edited_record p key batch source w) (\<lambda>r s. A s \<and> progresses (po_codec p) w (snd r)
    \<and> wr_id (snd r) = wr_id w \<and> wr_generation (snd r) = wr_generation w)"
  unfolding edited_record_def
proof (rule safely_bind [OF safely_allocate], rule safely_pure, erule conjunct2, rule safely_clock_bind)
  fix aliases now
  assume alloc: "allocated w (tb_changes batch) aliases"
  show "safely p (\<lambda>s. A s \<and> allocated w (tb_changes batch) aliases)
    (act_bind (act_fold (apply_change p aliases now) (tb_changes batch) w) (\<lambda>edited.
    act_bind (act_lift (validate_edit p edited)) (\<lambda>_.
    act_bind (act_lift (settle_source source key aliases edited)) (\<lambda>settled.
    act_return (aliases, settled)))))
    (\<lambda>r s. A s \<and> progresses (po_codec p) w (snd r) \<and> wr_id (snd r) = wr_id w \<and> wr_generation (snd r) = wr_generation w)"
    by (rule safely_bind [OF safely_apply_changes [OF alloc ok]], intro safely_lift_bind safely_return)
      (use settle_source_keeps [OF _ basis] in \<open>metis snd_conv\<close>)
qed

lemma safely_replay: "safely p A (replay p actor key request) (\<lambda>_. A)"
  unfolding replay_def
proof (rule safely_store_read_bind)
  fix found :: "command_receipt option"
  show "safely p A (case found of None \<Rightarrow> act_return None
    | Some r \<Rightarrow> if cm_canonical_request (rc_acceptance r) = request then act_return (Some r)
        else act_fail (RtPersistence (WorkflowIdempotencyConflict actor key))) (\<lambda>_. A)"
    by (cases found) (simp_all add: safely_return safely_fail)
qed

text \<open>
  An accepted batch left the next generation of a record that keeps its invariant, or the store
  answered it from a receipt.
\<close>

definition edit_done ::
  "('doc, 'm) ports \<Rightarrow> workflow_id \<Rightarrow> workflow_record \<Rightarrow> command_receipt \<Rightarrow> ('doc, 'm) store \<Rightarrow> bool" where
  "edit_done p wid w r s \<longleftrightarrow> (\<exists>outcome w'. receipt outcome = Inr r
    \<and> unat (wr_generation w') = Suc (unat (wr_generation w)) \<and> (is_applied outcome \<longrightarrow> stored p s wid w'))"

lemma safely_edit_accepted:
  assumes "roundtrip p"
  shows "safely p (\<lambda>s. stored p s wid w0) (edit_accepted p owner key wid batch source canonical) (edit_done p wid w0)"
  unfolding edit_accepted_def
proof (rule safely_read_keep, intro safely_lift_bind safely_ensure_bind)
  fix w :: workflow_record and u :: unit
  assume ok: "record_ok (po_codec p) w" and "check_basis w batch source = Inr u"
  then have basis: "check_basis w batch source = Inr ()" by simp
  let ?command = "\<lambda>aliases decided. Some (acceptance (reserved_stop w wid key (tb_changes batch))
      owner key canonical (command_result wid (wr_generation decided) aliases))"
  let ?A = "\<lambda>s. stored p s wid w \<and> stored p s wid w0"
  have commit: "safely p (\<lambda>s. ?A s \<and> progresses (po_codec p) w (snd r) \<and> wr_id (snd r) = wr_id w
        \<and> wr_generation (snd r) = wr_generation w)
      (case r of (aliases, settled) \<Rightarrow> act_bind (advance_decided p settled (?command aliases)) (\<lambda>(outcome, _).
        act_lift (receipt outcome))) (edit_done p wid w0)" for r
  proof (rule safely_pure)
    show "w0 = w \<and> progresses (po_codec p) w (snd r) \<and> wr_id (snd r) = wr_id w \<and> wr_generation (snd r) = wr_generation w"
      if "?A s \<and> progresses (po_codec p) w (snd r) \<and> wr_id (snd r) = wr_id w \<and> wr_generation (snd r) = wr_generation w" for s
      using that stored_unique by blast
    assume r: "w0 = w \<and> progresses (po_codec p) w (snd r) \<and> wr_id (snd r) = wr_id w \<and> wr_generation (snd r) = wr_generation w"
    obtain aliases settled where s: "r = (aliases, settled)" by (cases r)
    have prog: "progresses (po_codec p) w settled" "wr_id settled = wr_id w" using r s by simp_all
    have "safely p (\<lambda>s. stored p s wid w) (act_bind (advance_decided p settled (?command aliases)) (\<lambda>(outcome, _).
        act_lift (receipt outcome))) (edit_done p wid w0)"
    proof (rule safely_bind [OF safely_advance_decided [OF assms prog]], unfold split_def, rule safely_lift)
      fix q :: "commit_outcome \<times> workflow_record" and x s
      assume rec: "receipt (fst q) = Inr x" and q: "advanced_from p w settled (snd q)
        \<and> ((\<forall>u. ?command aliases u = None) \<longrightarrow> is_applied (fst q)) \<and> (is_applied (fst q) \<longrightarrow> stored p s wid (snd q))"
      then have "unat (wr_generation (snd q)) = Suc (unat (wr_generation w0))"
        using r s by (simp add: advanced_from_def)
      then show "edit_done p wid w0 x s" using rec q unfolding edit_done_def by blast
    qed
    then show "safely p (\<lambda>s. ?A s \<and> progresses (po_codec p) w (snd r) \<and> wr_id (snd r) = wr_id w
        \<and> wr_generation (snd r) = wr_generation w)
      (case r of (aliases, settled) \<Rightarrow> act_bind (advance_decided p settled (?command aliases)) (\<lambda>(outcome, _).
        act_lift (receipt outcome))) (edit_done p wid w0)"
      unfolding s prod.case by (rule safely_weaken) simp_all
  qed
  show "safely p ?A (act_bind (edited_record p key batch source w) (\<lambda>(aliases, settled).
      act_bind (advance_decided p settled (?command aliases)) (\<lambda>(outcome, _). act_lift (receipt outcome))))
    (edit_done p wid w0)"
    by (rule safely_bind [OF safely_edited_record [OF ok basis]]) (rule commit)
qed

lemma safely_exists:
  assumes "\<And>w. safely p (\<lambda>s. C w s) a B" and "safely p (\<lambda>s. \<nexists>w. C w s) a B"
  shows "safely p A a B"
proof (rule safelyI)
  fix rt r rt' assume g: "good p rt" and run: "a rt = (r, rt')"
  show "follows p rt rt' \<and> (\<forall>x. r = Inr x \<longrightarrow> B x (rt_store rt'))"
    using safelyD [OF assms(1) g _ run] safelyD [OF assms(2) g _ run] by blast
qed

text \<open>A handler that reads a workflow the store does not have does not get past the read.\<close>

lemma safely_absent:
  "safely p (\<lambda>s. \<nexists>w. stored p s wid w) (act_bind (require_workflow p wid) f) B"
proof (rule safely_read_keep)
  fix w :: workflow_record
  show "safely p (\<lambda>s. stored p s wid w \<and> (\<nexists>w. stored p s wid w)) (f w) B"
    by (rule safely_pure [where c = False]) blast+
qed

lemma safely_edit_request:
  assumes "roundtrip p"
  shows "safely p A (edit_request p owner key wid batch transport source) (\<lambda>_ _. True)"
  unfolding edit_request_def
proof (intro safely_lift_bind safely_call_bind [OF safely_replay])
  fix found :: "command_receipt option" and canonical
  have run: "safely p A (edit_accepted p owner key wid batch source canonical) (\<lambda>_ _. True)"
  proof (rule safely_exists [where C = "\<lambda>w s. stored p s wid w"])
    show "safely p (\<lambda>s. \<nexists>w. stored p s wid w) (edit_accepted p owner key wid batch source canonical) (\<lambda>_ _. True)"
      unfolding edit_accepted_def by (rule safely_absent)
  qed (rule safely_true [OF safely_edit_accepted [OF assms]])
  show "safely p A (case found of Some r \<Rightarrow> act_return r | None \<Rightarrow> act_bind is_closed (\<lambda>closed.
      act_bind (act_ensure (\<not> (closed \<and> list_ex (\<lambda>change. \<not> is_stop change) (tb_changes batch)))
        (command_error ''task edits are closed during shutdown; stop remains available'')) (\<lambda>_.
      edit_accepted p owner key wid batch source canonical))) (\<lambda>_ _. True)"
    unfolding is_closed_def by (cases found) (auto intro!: safely_return safely_get_bind safely_ensure_bind run)
qed

subsection \<open>A new workflow\<close>

lemma new_tasks_ok:
  assumes "res_fold (add_new_task aliases now) requested [] = Inr tasks"
  shows "bm_wf tasks" and "map_of tasks tid = Some t \<Longrightarrow> \<exists>d. t = new_task_record tid d now"
proof -
  have "bm_wf tasks \<and> (\<forall>tid t. map_of tasks tid = Some t \<longrightarrow> (\<exists>d. t = new_task_record tid d now))"
    by (rule res_fold_invariant [OF assms]) (auto simp add: add_new_task_def res_simps split: if_splits)
  then show "bm_wf tasks" "map_of tasks tid = Some t \<Longrightarrow> \<exists>d. t = new_task_record tid d now" by blast+
qed

lemma new_workflow_ok:
  assumes tasks: "res_fold (add_new_task aliases now) requested [] = Inr tasks"
    and valid: "validate_create p request tasks = Inr u" and admitted: "try_from_usize (length tasks) = Some admitted"
  shows "record_ok (po_codec p) (new_workflow wid owner request decision basis now tasks admitted)"
proof -
  note new = new_tasks_ok [OF tasks]
  have "\<not> tk_removed (snd e)" if "e \<in> set tasks" for e
    using that new(2) [of "fst e" "snd e"] bm_wf_distinct [OF new(1)] by (auto simp add: new_task_record_def)
  then have "length (definitions tasks) = length tasks" by (simp add: definitions_def split_def)
  moreover have "length (definitions tasks) \<le> unat (wl_tasks (wc_limits request))"
    using valid by (auto simp add: validate_create_def definition_result_def Let_def validate_task_set_def res_simps)
  moreover have "unat admitted = length tasks"
    using admitted by (simp add: try_from_usize_Some)
  moreover have "task_ok (po_codec p) wid tid t" if "map_of tasks tid = Some t" for tid t
    using new(2) [OF that] new_task_ok by blast
  ultimately show ?thesis
    using new(1) by (simp add: record_ok_def new_workflow_def word_order_nat fits_within_def within_def default_budget_def)
qed

lemma safely_name_tasks: "safely p A (act_fold name_task requested aliases) (\<lambda>_. A)"
  by (rule safely_fold, unfold name_task_def, intro safely_call_bind [OF safely_fresh_identity] safely_return)

lemma safely_create_accepted:
  assumes "roundtrip p"
  shows "safely p A (create_accepted p owner key request decision canonical) (\<lambda>_ _. True)"
  unfolding create_accepted_def Let_def
proof (intro safely_lift_bind safely_clock_bind safely_call_bind [OF safely_name_tasks] safely_ensure_bind)
  fix wid basis now aliases tasks u and admitted :: u32
  assume t: "res_fold (add_new_task aliases now) (wc_tasks request) [] = Inr tasks"
    and v: "validate_create p request tasks = Inr u"
    and a: "ok_or (command_error ''out of range integral type conversion attempted'') (try_from_usize (length tasks)) = Inr admitted"
  let ?w = "new_workflow wid owner request decision basis now tasks admitted"
  have "try_from_usize (length tasks) = Some admitted" using a by (simp add: res_simps)
  from new_workflow_ok [OF t v this] have ok: "record_ok (po_codec p) ?w" .
  have save: "safely p A (save p ?w None (Some (acceptance None owner key canonical (command_result wid 1 aliases))))
      (\<lambda>_ _. True)"
    by (rule safely_true [OF safely_save [OF assms]]) (use ok in simp_all)
  show "safely p A
    (act_bind (act_fold (\<lambda>t _. validate_future_definition p ?w (tk_definition t)) (bm_values tasks) ()) (\<lambda>_.
    act_bind (save p ?w None (Some (acceptance None owner key canonical (command_result wid 1 aliases)))) (\<lambda>outcome.
    act_lift (receipt outcome)))) (\<lambda>_ _. True)"
    by (rule safely_bind [OF safely_fold [where J = "\<lambda>_. A"]])
      (auto intro!: safely_validate_future safely_bind [OF save] safely_lift)
qed

lemma safely_create_request:
  assumes "roundtrip p"
  shows "safely p A (create_request p owner key request decision transport) (\<lambda>_ _. True)"
  unfolding create_request_def is_closed_def
proof (intro safely_lift_bind safely_call_bind [OF safely_replay])
  fix found :: "command_receipt option" and canonical
  show "safely p A (case found of Some r \<Rightarrow> act_return r | None \<Rightarrow> act_bind (act_get rt_admission_closed) (\<lambda>closed.
      act_bind (act_ensure (\<not> closed) (command_error ''task admission is closed'')) (\<lambda>_.
      create_accepted p owner key request decision canonical))) (\<lambda>_ _. True)"
    by (cases found)
      (auto intro!: safely_return safely_get_bind safely_ensure_bind safely_create_accepted [OF assms])
qed

end
