(* ===== verification/Workers.thy ===== *)
theory Workers
  imports Admission "HOL-Library.Code_Target_Nat"
begin

text \<open>
  The task runtime under concurrency.  Its methods are called by several threads; each holds the
  transition gate (a mutex) for a section at a time and releases it around calls of the executor.  A
  thread inside \<^verbatim>\<open>execute\<close> or \<^verbatim>\<open>execute_cancellation\<close> of
  \<^verbatim>\<open>crates/runtime/src/tasks/effects.rs\<close> is a \<^verbatim>\<open>worker\<close>: where it is, and the values it
  carries to its next section.  \<^verbatim>\<open>work\<close> runs that section; a step of the system runs one
  section of any worker, starts one, runs a command that holds the gate throughout, or restarts the
  daemon, which loses the workers and everything that is not durable.

  The invariant of the reachable states gives the properties: the durable records stay well formed,
  every call of the executor rests on a durable fact, no task is entered twice, and the life of every
  task refines an abstract one.
\<close>

section \<open>Workers\<close>

datatype worker =
    Checking execution_dispatch
  | Preparing execution_dispatch
  | Deferring execution_dispatch string
  | Admitting execution_dispatch prepared_execution
  | Finishing execution_dispatch task_state string bool
  | Marking execution_dispatch string
  | Settling execution_dispatch
  | Entering prepared_execution execution_dispatch
  | Reporting execution_dispatch "adapter_call list" "executor_error + unit"
  | Returned execution_dispatch "executor_error + unit"
  | Releasing invocation_id
  | Cancelling workflow_id cancellation_dispatch "(task_id \<times> task_record) list"
  | Answering workflow_id task_id cancellation_request "executor_error + cancellation_acknowledgement"
      cancellation_dispatch "(task_id \<times> task_record) list"

text \<open>What is left to do after a section that decided not to enter.\<close>

fun leave :: "execution_dispatch \<Rightarrow> pending \<Rightarrow> worker" where
  "leave x NothingLeft = Releasing (dispatch_invocation x)"
| "leave x (SettleIt y) = Settling y"
| "leave x (FinishIt state reason pause) = Finishing x state reason pause"
| "leave x (EnterIt y) = Releasing (dispatch_invocation x)"

definition prepared_next ::
  "('doc, 'm) ports \<Rightarrow> execution_dispatch \<Rightarrow> executor_error + prepared_execution \<Rightarrow> worker" where
  "prepared_next p x answer = (case answer of
      Inl (CapacityUnavailable reason) \<Rightarrow> Deferring x reason
    | Inl e \<Rightarrow> if refused_before_entry e
        then Finishing x Failed (''local preparation refused before entry: '' @ executor_display (po_quoted p) e) False
        else Marking x (''preparation could not establish exclusive non-entry: '' @ executor_display (po_quoted p) e)
    | Inr prepared \<Rightarrow> Admitting x prepared)"

definition returned_next ::
  "('doc, 'm) ports \<Rightarrow> execution_dispatch \<Rightarrow> executor_error + unit \<Rightarrow> task_record \<Rightarrow> worker" where
  "returned_next p x outcome t =
    (if is_settled (tk_state t) then Settling x
     else if tk_state t = Unresolved then Releasing (dispatch_invocation x)
     else Marking x (case outcome of
        Inr _ \<Rightarrow> ''adapter returned without durable terminal evidence''
      | Inl e \<Rightarrow> ''external outcome remains uncertain: '' @ executor_display (po_quoted p) e))"

text \<open>Entering the prepared adapter: the calls it will make of its reporter, and what it returns.\<close>

definition enter_adapter ::
  "('doc, 'm) ports \<Rightarrow> prepared_execution \<Rightarrow> execution_dispatch \<Rightarrow> ('doc, 'm, worker) act" where
  "enter_adapter p prepared exact = (case require_final_dispatch (po_payload_digest p) prepared exact of
      Inl e \<Rightarrow> act_return (Returned exact (Inl e))
    | Inr _ \<Rightarrow> (\<lambda>rt. case po_enter p (rt_calls rt) exact of (calls, outcome) \<Rightarrow>
        (Inr (Reporting exact calls outcome), rt\<lparr>rt_calls := EnterCall exact # rt_calls rt\<rparr>)))"

text \<open>One task of a cancellation: skipped, finished without entry, or sent to the executor.\<close>

definition cancel_next ::
  "('doc, 'm) ports \<Rightarrow> workflow_id \<Rightarrow> cancellation_dispatch \<Rightarrow> task_id \<times> task_record
    \<Rightarrow> (task_id \<times> task_record) list \<Rightarrow> ('doc, 'm, worker) act" where
  "cancel_next p wid dispatch entry rest = (case entry of (tid, t) \<Rightarrow>
    if \<not> cancellation_due t then act_return (Cancelling wid dispatch rest)
    else case tk_frozen t of
      None \<Rightarrow> act_return (Cancelling wid dispatch rest)
    | Some fz \<Rightarrow>
        if xd_attempt (fz_dispatch fz) \<noteq> xc_attempt dispatch
          \<or> task_invocation fz \<noteq> cr_invocation (xc_request dispatch)
        then act_return (Cancelling wid dispatch rest)
        else if \<not> fz_entered fz \<and> fz_duration fz = None
        then act_bind (finish_without_entry p wid tid Stopped ''stop won before external entry'') (\<lambda>_.
          act_return (Cancelling wid dispatch rest))
        else
          act_bind (act_lift (cancellation_for fz)) (\<lambda>request.
          act_bind (cancel_now p request) (\<lambda>answer.
          act_return (Answering wid tid request answer dispatch rest))))"

definition handle_answer ::
  "('doc, 'm) ports \<Rightarrow> workflow_id \<Rightarrow> task_id \<Rightarrow> cancellation_request
    \<Rightarrow> executor_error + cancellation_acknowledgement \<Rightarrow> ('doc, 'm, unit) act" where
  "handle_answer p wid tid request answer = (case answer of
      Inr acknowledgement \<Rightarrow>
        if ca_invocation acknowledgement = cr_invocation request
          \<and> ca_sequence acknowledgement = cr_sequence request
        then acknowledge_cancellation p wid tid
        else mark_uncertain p wid tid
          ''cancellation acknowledgement named a different invocation or request''
    | Inl e \<Rightarrow> mark_uncertain p wid tid
        (''stop request outcome is unresolved: '' @ executor_display (po_quoted p) e))"

definition released :: "execution_dispatch \<Rightarrow> ('doc, 'm, unit) act \<Rightarrow> ('doc, 'm, worker option) act" where
  "released x a = act_bind a (\<lambda>_. act_return (Some (Releasing (dispatch_invocation x))))"

text \<open>The next section of a worker; None when it is done.\<close>

fun work :: "('doc, 'm) ports \<Rightarrow> worker \<Rightarrow> ('doc, 'm, worker option) act" where
  "work p (Checking x) =
    act_bind (act_lift (workflow_of_run (xd_run x))) (\<lambda>wid.
    act_bind (act_lift (task_of_node (xd_node x))) (\<lambda>tid.
    act_bind (check_owned p wid tid x) (\<lambda>stopping.
    act_return (Some (if stopping then Finishing x Stopped ''stopped before external entry'' False
      else Preparing x)))))"
| "work p (Preparing x) = act_bind (prepare_now p x) (\<lambda>answer. act_return (Some (prepared_next p x answer)))"
| "work p (Deferring x reason) =
    act_bind (defer_before_entry p (xd_run x) (xd_node x) x reason) (\<lambda>next.
    act_return (if next = NothingLeft then None else Some (leave x next)))"
| "work p (Admitting x prepared) =
    act_bind (entry_section p (xd_run x) (xd_node x) x prepared) (\<lambda>next.
    act_return (Some (case next of EnterIt exact \<Rightarrow> Entering prepared exact | _ \<Rightarrow> leave x next)))"
| "work p (Finishing x state reason pause) =
    released x (finish_without_entry_policy p (xd_run x) (xd_node x) state reason pause)"
| "work p (Marking x reason) = released x (mark_uncertain p (xd_run x) (xd_node x) reason)"
| "work p (Settling x) = released x (settle_now p x)"
| "work p (Entering prepared exact) = act_bind (enter_adapter p prepared exact) (\<lambda>k. act_return (Some k))"
| "work p (Reporting x [] outcome) = act_return (Some (Returned x outcome))"
| "work p (Reporting x (c # calls) outcome) =
    act_bind (act_try (reporter_call p (xd_run x) (xd_node x) x c)) (\<lambda>_.
    act_return (Some (Reporting x calls outcome)))"
| "work p (Returned x outcome) =
    act_bind (require_workflow p (xd_run x)) (\<lambda>w.
    act_bind (act_lift (find_task w (xd_node x) ''entered task disappeared'')) (\<lambda>t.
    act_return (Some (returned_next p x outcome t))))"
| "work p (Releasing invocation) = act_bind (release_claim invocation) (\<lambda>_. act_return None)"
| "work p (Cancelling wid dispatch []) = act_return None"
| "work p (Cancelling wid dispatch (entry # rest)) =
    act_bind (cancel_next p wid dispatch entry rest) (\<lambda>k. act_return (Some k))"
| "work p (Answering wid tid request answer dispatch rest) =
    act_bind (handle_answer p wid tid request answer) (\<lambda>_. act_return (Some (Cancelling wid dispatch rest)))"

text \<open>
  An error ends the method; an execution still drops its claim.
\<close>

fun claim_of :: "worker \<Rightarrow> invocation_id option" where
  "claim_of (Checking x) = Some (dispatch_invocation x)"
| "claim_of (Preparing x) = Some (dispatch_invocation x)"
| "claim_of (Deferring x _) = Some (dispatch_invocation x)"
| "claim_of (Admitting x _) = Some (dispatch_invocation x)"
| "claim_of (Finishing x _ _ _) = Some (dispatch_invocation x)"
| "claim_of (Marking x _) = Some (dispatch_invocation x)"
| "claim_of (Settling x) = Some (dispatch_invocation x)"
| "claim_of (Entering _ x) = Some (dispatch_invocation x)"
| "claim_of (Reporting x _ _) = Some (dispatch_invocation x)"
| "claim_of (Returned x _) = Some (dispatch_invocation x)"
| "claim_of (Releasing _) = None"
| "claim_of (Cancelling _ _ _) = None"
| "claim_of (Answering _ _ _ _ _ _) = None"

definition abandoned :: "worker \<Rightarrow> worker option" where
  "abandoned k = map_option Releasing (claim_of k)"


section \<open>The system\<close>

text \<open>Commands that hold the gate from their first read to their last write.\<close>

datatype command =
    Tick nat
  | Create string string workflow_create authority_decision "string option"
  | Edit string string workflow_id task_batch "string option"
  | AdmitBatch string workflow_id task_id task_batch bool
  | RejectBatch workflow_id task_id string bool
  | RefuseRepair workflow_id task_id string
  | FindCancellations nat
  | Shutdown

definition void :: "('doc, 'm, 'a) act \<Rightarrow> ('doc, 'm, unit) act" where
  "void a = act_bind a (\<lambda>_. act_return ())"

fun run_command :: "('doc, 'm) ports \<Rightarrow> command \<Rightarrow> ('doc, 'm, unit) act" where
  "run_command p (Tick maximum) = void (tick p maximum)"
| "run_command p (Create owner key request decision transport) =
    void (create_request p owner key request decision transport)"
| "run_command p (Edit owner key wid batch transport) = void (edit_request p owner key wid batch transport None)"
| "run_command p (AdmitBatch actor wid source batch repair) = void (admit_model_batch p actor wid source batch repair)"
| "run_command p (RejectBatch wid source reason repair_allowed) = reject_model_batch p wid source reason repair_allowed"
| "run_command p (RefuseRepair wid source reason) = refuse_model_repair p wid source reason"
| "run_command p (FindCancellations maximum) = void (cancellation_actions p maximum)"
| "run_command p Shutdown = begin_shutdown"

definition begin_execution :: "execution_dispatch \<Rightarrow> ('doc, 'm, worker) act" where
  "begin_execution x = act_bind (claim_execution (dispatch_invocation x)) (\<lambda>_. act_return (Checking x))"

definition begin_cancellation :: "('doc, 'm) ports \<Rightarrow> cancellation_dispatch \<Rightarrow> ('doc, 'm, worker) act" where
  "begin_cancellation p dispatch =
    act_bind (act_lift (workflow_of_run (xc_run dispatch))) (\<lambda>wid.
    act_bind (require_workflow p wid) (\<lambda>w.
    act_return (Cancelling (wr_id w) dispatch (wr_tasks w))))"

text \<open>
  A restart keeps the store, and here the record of the calls made so far; the identity generator
  starts from any state.
\<close>

definition restarted :: "id_generator \<Rightarrow> ('doc, 'm) runtime \<Rightarrow> ('doc, 'm) runtime" where
  "restarted ids rt = (runtime_new (rt_store rt) ids)\<lparr>rt_maximum_active_tasks := rt_maximum_active_tasks rt,
    rt_calls := rt_calls rt\<rparr>"

type_synonym ('doc, 'm) system = "('doc, 'm) runtime \<times> worker list"

text \<open>
  The clock, the evaluator and the store's reads are also called by others than the runtime; such a
  call, too, is a step.
\<close>

primrec effectful :: "external_call \<Rightarrow> bool" where
  "effectful ReadCall = False"
| "effectful CommitCall = False"
| "effectful ClockCall = False"
| "effectful (EvaluateCall _) = False"
| "effectful (ResolveCall _ _ _) = False"
| "effectful (PrepareCall _) = True"
| "effectful (EnterCall _) = True"
| "effectful (CancelCall _) = True"
| "effectful (SettleCall _) = True"
| "effectful (MetadataCall _) = False"
| "effectful (ChunkCall _) = False"

inductive system_step :: "('doc, 'm) ports \<Rightarrow> ('doc, 'm) system \<Rightarrow> ('doc, 'm) system \<Rightarrow> bool" for p where
  command: "run_command p c rt = (r, rt') \<Longrightarrow> system_step p (rt, ws) (rt', ws)"
| spawn: "begin_execution x rt = (Inr k, rt') \<Longrightarrow> system_step p (rt, ws) (rt', k # ws)"
| spawn_refused: "begin_execution x rt = (Inl e, rt') \<Longrightarrow> system_step p (rt, ws) (rt', ws)"
| cancel: "begin_cancellation p dispatch rt = (Inr k, rt') \<Longrightarrow> system_step p (rt, ws) (rt', k # ws)"
| cancel_refused: "begin_cancellation p dispatch rt = (Inl e, rt') \<Longrightarrow> system_step p (rt, ws) (rt', ws)"
| run_section: "work p k rt = (Inr next, rt') \<Longrightarrow>
    system_step p (rt, ws @ k # ws') (rt', ws @ (case next of None \<Rightarrow> [] | Some k' \<Rightarrow> [k']) @ ws')"
| section_error: "work p k rt = (Inl e, rt') \<Longrightarrow>
    system_step p (rt, ws @ k # ws') (rt', ws @ (case abandoned k of None \<Rightarrow> [] | Some k' \<Rightarrow> [k']) @ ws')"
| outside: "\<not> effectful c \<Longrightarrow> system_step p (rt, ws) (rt\<lparr>rt_calls := c # rt_calls rt\<rparr>, ws)"
| restart: "recover p (restarted ids rt) = (r, rt') \<Longrightarrow> system_step p (rt, ws) (rt', [])"

abbreviation reaches :: "('doc, 'm) ports \<Rightarrow> ('doc, 'm) system \<Rightarrow> ('doc, 'm) system \<Rightarrow> bool" where
  "reaches p \<equiv> (system_step p)\<^sup>*\<^sup>*"

section \<open>What a worker knows\<close>

fun worker_ok :: "('doc, 'm) ports \<Rightarrow> worker \<Rightarrow> ('doc, 'm) store \<Rightarrow> bool" where
  "worker_ok p (Preparing x) s = started p x s"
| "worker_ok p (Deferring x _) s = started p x s"
| "worker_ok p (Admitting x _) s = started p x s"
| "worker_ok p (Finishing _ state _ _) s = (state = Failed \<or> state = Stopped)"
| "worker_ok p (Settling x) s = has_settled p x s"
| "worker_ok p (Entering _ x) s = has_entered p x s"
| "worker_ok p (Reporting x _ _) s = has_entered p x s"
| "worker_ok p (Returned x _) s = has_entered p x s"
| "worker_ok p (Cancelling _ _ rest) s = stops_asked p (map snd rest) s"
| "worker_ok p (Answering _ _ _ _ _ rest) s = stops_asked p (map snd rest) s"
| "worker_ok p _ s = True"

lemma stable_worker_ok: "stable p (worker_ok p k)"
  unfolding stable_def
proof (intro allI impI)
  fix s s' assume e: "store_evolves p s s'" and ok: "worker_ok p k s"
  note keep = stableD [OF stable_started e] stableD [OF stable_entered e] stableD [OF stable_settled e]
    stableD [OF stable_stops_asked e]
  show "worker_ok p k s'" using ok by (cases k) (auto intro: keep)
qed

fun entering :: "worker \<Rightarrow> (run_id \<times> node_id) option" where
  "entering (Entering _ x) = Some (xd_run x, xd_node x)"
| "entering _ = None"

definition next_ok :: "('doc, 'm) ports \<Rightarrow> worker option \<Rightarrow> ('doc, 'm) store \<Rightarrow> bool" where
  "next_ok p next s \<longleftrightarrow> (\<forall>k. next = Some k \<longrightarrow> worker_ok p k s)"

lemma next_ok_simps [simp]: "next_ok p None s" "next_ok p (Some k) s = worker_ok p k s"
  by (simp_all add: next_ok_def)

lemma leave_ok: "started p x s \<Longrightarrow> pending_ok p x next s \<Longrightarrow> worker_ok p (leave x next) s"
  by (cases "next") (auto simp add: started_settled)

lemma safely_released:
  assumes "safely p A a (\<lambda>_ _. True)"
  shows "safely p A (released x a) (next_ok p)"
  unfolding released_def by (rule safely_bind [OF assms], rule safely_return) simp

lemma safely_reporter_call:
  assumes "roundtrip p"
  shows "safely p A (reporter_call p wid tid x c) (\<lambda>_ _. True)"
  unfolding reporter_call_def
  by (cases c) (simp_all add: safely_record_report [OF assms] safely_check_continuation [OF assms])

lemma safely_try_ignore:
  assumes "safely p A a (\<lambda>_ _. True)"
  shows "safely p A (act_bind (act_try a) (\<lambda>_. act_return k)) (\<lambda>r s. r = k)"
  by (rule safely_try_bind [OF assms]) (simp_all add: safely_return)

lemma returned_next_ok:
  assumes "store_ok p s" and "has_entered p x s" and "stored p s (xd_run x) w" and "map_of (wr_tasks w) (xd_node x) = Some t"
  shows "worker_ok p (returned_next p x outcome t) s"
proof -
  obtain w' t' fz where w': "stored p s (xd_run x) w'" and t': "map_of (wr_tasks w') (xd_node x) = Some t'"
    and fz: "tk_frozen t' = Some fz" "rebound x (fz_dispatch fz)"
    using assms(2) unfolding has_entered_def owns_def by blast
  have "t' = t" using stored_unique [OF assms(3) w'] assms(4) t' by simp
  then have "has_settled p x s" if "is_settled (tk_state t)"
    using that w' t' fz unfolding has_settled_def owns_def by blast
  then show ?thesis by (simp add: returned_next_def)
qed

lemma stops_asked_tail: "stops_asked p (t # ts) s \<Longrightarrow> stops_asked p ts s"
  by (simp add: stops_asked_def)

lemma safely_handle_answer:
  assumes "roundtrip p"
  shows "safely p A (handle_answer p wid tid request answer) (\<lambda>_ _. True)"
  unfolding handle_answer_def
  by (cases answer) (simp_all add: safely_acknowledge [OF assms] safely_mark_uncertain [OF assms])

lemma safely_cancel_next:
  assumes "roundtrip p"
  shows "safely p (stops_asked p (map snd (entry # rest))) (cancel_next p wid dispatch entry rest) (worker_ok p)"
proof -
  obtain tid t where entry: "entry = (tid, t)" by (cases entry)
  let ?A = "stops_asked p (t # map snd rest)"
  have skip: "safely p ?A (act_return (Cancelling wid dispatch rest)) (worker_ok p)"
    by (rule safely_return) (simp add: stops_asked_tail)
  have finish: "safely p ?A (act_bind (finish_without_entry p wid tid Stopped reason) (\<lambda>_.
      act_return (Cancelling wid dispatch rest))) (worker_ok p)" for reason
    unfolding finish_without_entry_def
    by (rule safely_bind [OF safely_kept [OF safely_finish [OF assms] stable_stops_asked]], simp, assumption, rule skip)
  have send: "safely p ?A (act_bind (act_lift (cancellation_for fz)) (\<lambda>request. act_bind (cancel_now p request) (\<lambda>answer.
      act_return (Answering wid tid request answer dispatch rest)))) (worker_ok p)"
    if fz: "tk_frozen t = Some fz" "tk_stop_requested t" for fz
  proof (rule safely_lift_bind, rule safely_bind [OF safely_cancel], rule_tac [2] safely_return)
    fix request s assume "cancellation_for fz = Inr request" and "?A s"
    then show "stop_asked p (cr_invocation request) s"
      using fz by (auto simp add: cancellation_for_def cancellation_new_def res_simps stops_asked_def)
  qed (simp add: stops_asked_tail)
  show ?thesis
  proof (cases "tk_frozen t")
    case None
    show ?thesis unfolding entry cancel_next_def prod.case None option.case by (simp add: skip)
  next
    case (Some fz)
    show ?thesis
      unfolding entry cancel_next_def prod.case Some option.case list.map snd_conv cancellation_due_def
      by (rule safely_if, rule skip, rule safely_if, rule skip, rule safely_if, rule finish, rule send [OF Some]) simp
  qed
qed

text \<open>Every section but the entry itself keeps the durable state, and leaves its worker well informed.\<close>

lemma safely_work:
  assumes "roundtrip p" and "entering k = None"
  shows "safely p (worker_ok p k) (work p k) (next_ok p)"
proof (cases k)
  case (Checking x)
  have owned: "safely p (\<lambda>_. True) (check_owned p wid tid x) (\<lambda>_. started p x)" for wid tid
    by (rule safely_check_owned)
  have "safely p (\<lambda>_. True) (work p k) (next_ok p)"
    unfolding Checking work.simps by (intro safely_lift_bind safely_bind [OF owned] safely_return) simp
  then show ?thesis by (rule safely_weaken) simp_all
next
  case (Preparing x)
  have "safely p (started p x) (work p k) (next_ok p)"
    unfolding Preparing work.simps
    by (rule safely_bind [OF safely_prepare], assumption, rule safely_return)
      (auto simp add: prepared_next_def split: sum.split executor_error.split)
  then show ?thesis by (rule safely_weaken) (simp_all add: Preparing)
next
  case (Deferring x reason)
  have "safely p (\<lambda>s. True \<and> started p x s) (work p k) (next_ok p)"
    unfolding Deferring work.simps
    by (rule safely_bind [OF safely_frame [OF safely_defer [OF assms(1)] stable_started]], rule safely_return)
      (simp add: leave_ok)
  then show ?thesis by (rule safely_weaken) (simp_all add: Deferring)
next
  case (Admitting x prepared)
  have "safely p (\<lambda>s. True \<and> started p x s) (work p k) (next_ok p)"
    unfolding Admitting work.simps
  proof (rule safely_bind [OF safely_frame [OF safely_entry_section [OF assms(1)] stable_started]], rule safely_return)
    fix "next" s assume "pending_ok p x next s \<and> started p x s"
    then show "next_ok p (Some (case next of EnterIt exact \<Rightarrow> Entering prepared exact | _ \<Rightarrow> leave x next)) s"
      using leave_ok [of p x s "next"] by (cases "next") simp_all
  qed
  then show ?thesis by (rule safely_weaken) (simp_all add: Admitting)
next
  case (Finishing x state reason pause)
  show ?thesis
    unfolding Finishing work.simps
  proof (rule safely_pure)
    show "safely p (worker_ok p (Finishing x state reason pause))
        (released x (finish_without_entry_policy p (xd_run x) (xd_node x) state reason pause)) (next_ok p)"
      if "state = Failed \<or> state = Stopped"
      by (rule safely_released [OF safely_finish [OF assms(1) that]])
  qed simp
next
  case (Marking x reason)
  show ?thesis unfolding Marking work.simps by (rule safely_released [OF safely_mark_uncertain [OF assms(1)]])
next
  case (Settling x)
  have "safely p (has_settled p x) (work p k) (next_ok p)"
    unfolding Settling work.simps by (rule safely_released [OF safely_true [OF safely_settle]])
  then show ?thesis by (rule safely_weaken) (simp_all add: Settling)
next
  case (Entering prepared x)
  then show ?thesis using assms(2) by simp
next
  case (Reporting x calls outcome)
  show ?thesis
  proof (cases calls)
    case Nil
    show ?thesis unfolding Reporting Nil work.simps by (rule safely_return) simp
  next
    case (Cons c rest)
    have "safely p (\<lambda>s. True \<and> has_entered p x s) (work p k) (\<lambda>r s. r = Some (Reporting x rest outcome) \<and> has_entered p x s)"
      unfolding Reporting Cons work.simps
      by (rule safely_frame [OF safely_try_ignore [OF safely_reporter_call [OF assms(1)]] stable_entered])
    then show ?thesis unfolding Reporting Cons by (rule safely_weaken) simp_all
  qed
next
  case (Returned x outcome)
  have "safely p (has_entered p x) (work p k) (next_ok p)"
    unfolding Returned work.simps
    by (rule safely_read_keep, intro safely_lift_bind safely_return) (auto simp add: find_task_Inr intro: returned_next_ok)
  then show ?thesis by (rule safely_weaken) (simp_all add: Returned)
next
  case (Releasing invocation)
  show ?thesis unfolding Releasing work.simps by (intro safely_call_bind [OF safely_release] safely_return) simp
next
  case (Cancelling wid dispatch entries)
  show ?thesis
  proof (cases entries)
    case Nil
    show ?thesis unfolding Cancelling Nil work.simps by (rule safely_return) simp
  next
    case (Cons entry rest)
    have "safely p (stops_asked p (map snd (entry # rest))) (work p k) (next_ok p)"
      unfolding Cancelling Cons work.simps
      by (rule safely_bind [OF safely_cancel_next [OF assms(1)]], rule safely_return) simp
    then show ?thesis by (rule safely_weaken) (simp_all add: Cancelling Cons)
  qed
next
  case (Answering wid tid request answer dispatch rest)
  have "safely p (\<lambda>s. True \<and> stops_asked p (map snd rest) s) (work p k) (next_ok p)"
    unfolding Answering work.simps
    by (rule safely_bind [OF safely_frame [OF safely_handle_answer [OF assms(1)] stable_stops_asked]], rule safely_return) simp
  then show ?thesis by (rule safely_weaken) (simp_all add: Answering)
qed

text \<open>A task that was entered is not entered again.\<close>

definition entered_at :: "('doc, 'm) ports \<Rightarrow> run_id \<times> node_id \<Rightarrow> ('doc, 'm) store \<Rightarrow> bool" where
  "entered_at p c s \<longleftrightarrow> (\<exists>x. xd_run x = fst c \<and> xd_node x = snd c \<and> has_entered p x s)"

lemma stable_entered_at: "stable p (entered_at p c)"
  using stable_entered unfolding stable_def entered_at_def by blast

lemma entered_start:
  assumes "entered_at p (wid, tid) s" and "stored p s wid w"
  obtains t fz where "map_of (wr_tasks w) tid = Some t" and "tk_frozen t = Some fz" and "fz_entered fz"
proof -
  obtain x where x: "xd_run x = wid" "xd_node x = tid" and h: "has_entered p x s"
    using assms(1) unfolding entered_at_def by auto
  obtain w' t fz where "stored p s (xd_run x) w'"
    "map_of (wr_tasks w') (xd_node x) = Some t" "tk_frozen t = Some fz" "fz_entered fz"
    using h unfolding has_entered_def owns_def by auto
  then show thesis using x stored_unique [OF assms(2)] by (intro that [of t fz]) auto
qed

lemma enter_owned_once:
  assumes "map_of (wr_tasks w) tid = Some t" and "tk_frozen t = Some fz" and "fz_entered fz"
  shows "safely p A (enter_owned p tid x now reservation w) B"
  unfolding enter_owned_def
  by (intro safely_lift_bind safely_ensure_bind, unfold find_simps) (use assms in \<open>simp add: owns_unentered_def\<close>)

lemma safely_entry_once:
  assumes "roundtrip p"
  shows "safely p (entered_at p (wid, tid)) (entry_section p wid tid x prepared) (\<lambda>next _. \<forall>y. next \<noteq> EnterIt y)"
  unfolding entry_section_def
proof (rule safely_read_keep, rule safely_clock_bind,
    rule safely_bind [OF safely_frame [OF safely_observe_duration [OF assms] stable_entered_at]], rule safely_pure)
  fix w v :: workflow_record and now s
  assume "(stored p s wid v \<and> same_unstarted w v) \<and> entered_at p (wid, tid) s"
  then show "\<exists>t fz. map_of (wr_tasks v) tid = Some t \<and> tk_frozen t = Some fz \<and> fz_entered fz"
    by (metis entered_start)
next
  fix w v :: workflow_record and now
  assume "\<exists>t fz. map_of (wr_tasks v) tid = Some t \<and> tk_frozen t = Some fz \<and> fz_entered fz"
  then obtain t fz where v: "map_of (wr_tasks v) tid = Some t" "tk_frozen t = Some fz" "fz_entered fz" by blast
  show "safely p (\<lambda>s. (stored p s wid v \<and> same_unstarted w v) \<and> entered_at p (wid, tid) s)
    (if opt_any (\<lambda>t. is_settled (tk_state t)) (map_of (wr_tasks v) tid) then act_return (SettleIt x)
     else case wr_wait_question v of
      Some reason \<Rightarrow> act_return (FinishIt Failed (''workflow paused before external entry: '' @ reason) False)
    | None \<Rightarrow> (case entry_reservation v x (pe_envelope prepared) of
        Inl error \<Rightarrow> act_return (FinishIt Failed (runtime_display (po_quoted p) error) True)
      | Inr reservation \<Rightarrow> enter_owned p tid x now reservation v)) (\<lambda>next _. \<forall>y. next \<noteq> EnterIt y)"
    by (cases "wr_wait_question v"; cases "entry_reservation v x (pe_envelope prepared)")
      (simp_all add: safely_return enter_owned_once [OF v])
qed

text \<open>So a worker comes to the entry only of a task that was not entered.\<close>

definition yields :: "('doc, 'm, 'a) act \<Rightarrow> ('a \<Rightarrow> bool) \<Rightarrow> bool" where
  "yields a Q \<longleftrightarrow> (\<forall>rt x rt'. a rt = (Inr x, rt') \<longrightarrow> Q x)"

lemma yields_bind:
  assumes "yields a R" and "\<And>x. R x \<Longrightarrow> yields (f x) Q"
  shows "yields (act_bind a f) Q"
  using assms unfolding yields_def act_bind_def by (fastforce split: prod.splits sum.splits)

lemma yields_any: "yields a (\<lambda>_. True)"
  by (simp add: yields_def)

lemma yields_return: "Q x \<Longrightarrow> yields (act_return x) Q"
  by (simp add: yields_def act_return_def)

lemma entering_leave [simp]: "entering (leave x next) = None"
  by (cases "next") simp_all

lemma entering_next [simp]: "entering (prepared_next p x answer) = None" "entering (returned_next p x outcome t) = None"
  by (simp_all add: prepared_next_def returned_next_def split: sum.split executor_error.split)

lemma yields_cancel: "yields (cancel_next p wid dispatch entry rest) (\<lambda>k. entering k = None)"
  unfolding cancel_next_def
  by (auto intro!: yields_bind [OF yields_any] yields_return split: prod.split option.split)

lemma yields_entry: "yields (enter_adapter p prepared exact) (\<lambda>k. entering k = None)"
  by (auto simp add: yields_def enter_adapter_def act_return_def split: sum.splits prod.splits)

lemma yields_some:
  assumes "yields a (\<lambda>k. entering k = None)"
  shows "yields (act_bind a (\<lambda>k. act_return (Some k))) (\<lambda>next. \<forall>k'. next = Some k' \<longrightarrow> entering k' = None)"
  by (rule yields_bind [OF assms], rule yields_return) simp

lemma work_elsewhere:
  assumes "\<And>x prepared. k \<noteq> Admitting x prepared"
  shows "yields (work p k) (\<lambda>next. \<forall>k'. next = Some k' \<longrightarrow> entering k' = None)"
  using assms
  by (cases "(p, k)" rule: work.cases)
    (auto simp add: released_def yields_some [OF yields_cancel] yields_some [OF yields_entry] split: if_splits
      intro!: yields_return yields_bind [OF yields_any])

lemma work_enters_fresh:
  assumes "roundtrip p" and "good p rt" and "worker_ok p k (rt_store rt)"
    and "work p k rt = (Inr (Some k'), rt')" and "entering k' = Some c"
  shows "\<not> entered_at p c (rt_store rt)"
proof
  assume e: "entered_at p c (rt_store rt)"
  obtain x prepared where k: "k = Admitting x prepared"
    using work_elsewhere [of k p] assms(4,5) unfolding yields_def by (metis option.distinct(1))
  obtain q rt1 where q: "entry_section p (xd_run x) (xd_node x) x prepared rt = (q, rt1)" by fastforce
  have run: "work p (Admitting x prepared) rt = (Inr (Some k'), rt')" using assms(4) k by simp
  obtain decision where decision: "q = Inr decision"
    using run q by (cases q) (simp_all add: act_bind_def)
  have d: "entry_section p (xd_run x) (xd_node x) x prepared rt = (Inr decision, rt')"
    and k': "k' = (case decision of EnterIt exact \<Rightarrow> Entering prepared exact | _ \<Rightarrow> leave x decision)"
    using run q by (simp_all add: act_bind_def act_return_def decision)
  obtain exact where exact: "decision = EnterIt exact" using k' assms(5) by (cases decision) auto
  have "pending_ok p x decision (rt_store rt')"
    by (rule safelyD(2) [OF safely_entry_section [OF assms(1)] assms(2) _ d refl]) (rule TrueI)
  then have "rebound x exact" by (simp add: exact)
  moreover have "c = (xd_run exact, xd_node exact)" using assms(5) k' exact by simp
  ultimately have "c = (xd_run x, xd_node x)" by simp
  then have here: "entered_at p (xd_run x, xd_node x) (rt_store rt)" using e by simp
  have "\<forall>y. decision \<noteq> EnterIt y" by (rule safelyD(2) [OF safely_entry_once [OF assms(1)] assms(2) here d refl])
  then show False using exact by simp
qed

section \<open>Reachable states\<close>

abbreviation coordinates :: "execution_dispatch \<Rightarrow> run_id \<times> node_id" where
  "coordinates x \<equiv> (xd_run x, xd_node x)"

text \<open>The tasks whose adapter was entered, or is about to be.\<close>

definition entries :: "worker list \<Rightarrow> trace \<Rightarrow> (run_id \<times> node_id) list" where
  "entries ws calls = List.map_filter entering ws @ map coordinates (entry_calls calls)"

definition system_ok :: "('doc, 'm) ports \<Rightarrow> ('doc, 'm) system \<Rightarrow> bool" where
  "system_ok p st \<longleftrightarrow> good p (fst st) \<and> (\<forall>k \<in> set (snd st). worker_ok p k (rt_store (fst st)))
    \<and> distinct (entries (snd st) (rt_calls (fst st)))"

lemma entries_simps [simp]:
  "entries [] calls = map coordinates (entry_calls calls)"
  "entering k = None \<Longrightarrow> entries (k # ws) calls = entries ws calls"
  "entering k = None \<Longrightarrow> entries (ws @ k # ws') calls = entries (ws @ ws') calls"
  by (simp_all add: entries_def List.map_filter_def)

lemma entry_calls_Cons:
  "entry_calls (c # calls) = (case c of EnterCall x \<Rightarrow> x # entry_calls calls | _ \<Rightarrow> entry_calls calls)"
  by (cases c) (simp_all add: entry_calls_def List.map_filter_def)

lemma set_entry_calls [simp]: "x \<in> set (entry_calls calls) \<longleftrightarrow> EnterCall x \<in> set calls"
proof (induction calls)
  case Nil
  show ?case by (simp add: entry_calls_def List.map_filter_def)
next
  case (Cons c calls)
  then show ?case by (cases c) (simp_all add: entry_calls_Cons)
qed

lemma entering_Some: "entering k = Some c \<longleftrightarrow> (\<exists>prepared x. k = Entering prepared x \<and> c = coordinates x)"
  by (cases k) auto

lemma entries_entered:
  assumes "system_ok p (rt, ws)" and "c \<in> set (entries ws (rt_calls rt))"
  shows "entered_at p c (rt_store rt)"
proof -
  have workers: "\<And>k. k \<in> set ws \<Longrightarrow> worker_ok p k (rt_store rt)"
    and calls: "\<And>c. c \<in> set (rt_calls rt) \<Longrightarrow> justified p (rt_store rt) c"
    using assms(1) by (simp_all add: system_ok_def good_def)
  have "(\<exists>k \<in> set ws. entering k = Some c) \<or> (\<exists>x. EnterCall x \<in> set (rt_calls rt) \<and> c = coordinates x)"
    using assms(2) by (auto simp add: entries_def List.map_filter_def)
  then obtain x where "has_entered p x (rt_store rt)" and "c = coordinates x"
    unfolding entering_Some using workers calls by (metis justified.simps(2) worker_ok.simps(6))
  then show ?thesis unfolding entered_at_def by (metis fst_conv snd_conv)
qed

text \<open>A section that enters no adapter, and the worker it leaves.\<close>

lemma system_follows:
  assumes "system_ok p (rt, ws)" and "follows p rt rt'"
  shows "system_ok p (rt', ws)"
  using assms stableD [OF stable_worker_ok] by (fastforce simp add: system_ok_def follows_def entries_def)

lemma system_replace:
  assumes ok: "system_ok p (rt, ws @ k # ws')" and f: "follows p rt rt'" and k: "entering k = None"
    and k': "worker_ok p k' (rt_store rt')" "\<And>c. entering k' = Some c \<Longrightarrow> \<not> entered_at p c (rt_store rt)"
  shows "system_ok p (rt', ws @ k' # ws')"
proof -
  have calls: "entry_calls (rt_calls rt') = entry_calls (rt_calls rt)" using f by (simp add: follows_def)
  have "distinct (entries (ws @ k' # ws') (rt_calls rt'))"
  proof (cases "entering k'")
    case None
    then show ?thesis using ok k by (simp add: system_ok_def entries_def calls List.map_filter_def)
  next
    case (Some c)
    have "c \<notin> set (entries (ws @ k # ws') (rt_calls rt))"
      using entries_entered [OF ok] k'(2) [OF Some] by blast
    then show ?thesis using ok k Some
      by (auto simp add: system_ok_def entries_def calls List.map_filter_def)
  qed
  then show ?thesis using system_follows [OF ok f] k'(1) by (simp add: system_ok_def)
qed

lemma system_drop:
  assumes "system_ok p (rt, ws @ k # ws')"
  shows "system_ok p (rt, ws @ ws')"
  using assms by (auto simp add: system_ok_def entries_def List.map_filter_def split: if_splits)

lemma system_add:
  assumes "system_ok p (rt, ws)" and "follows p rt rt'" and "worker_ok p k (rt_store rt')" and "entering k = None"
  shows "system_ok p (rt', k # ws)"
  using system_follows [OF assms(1,2)] assms(3,4) by (simp add: system_ok_def)

subsection \<open>Every step keeps the invariant\<close>

lemma safely_void: "safely p A a (\<lambda>_ _. True) \<Longrightarrow> safely p A (void a) (\<lambda>_ _. True)"
  unfolding void_def by (erule safely_bind) (simp add: safely_return)

lemma safely_command:
  assumes "roundtrip p"
  shows "safely p (\<lambda>_. True) (run_command p c) (\<lambda>_ _. True)"
  by (cases c) (simp_all add: safely_void safely_true [OF safely_tick [OF assms]] safely_create_request [OF assms]
    safely_edit_request [OF assms] admit_model_batch_def safely_reject [OF assms] safely_refuse [OF assms]
    safely_cancellation_actions begin_shutdown_def safely_true [OF safely_update])

lemma safely_begin_execution:
  "safely p (\<lambda>_. True) (begin_execution x) (\<lambda>k s. worker_ok p k s \<and> entering k = None)"
proof -
  have "safely p (\<lambda>_. True) (claim_execution i) (\<lambda>_ _. True)" for i
    by (rule safelyI) (auto simp add: claim_execution_def follows_def good_def split: if_splits)
  then show ?thesis unfolding begin_execution_def by (rule safely_bind) (simp add: safely_return)
qed

lemma safely_begin_cancellation:
  "safely p (\<lambda>_. True) (begin_cancellation p dispatch) (\<lambda>k s. worker_ok p k s \<and> entering k = None)"
  unfolding begin_cancellation_def
  by (rule safely_lift_bind, rule safely_read_bind, rule safely_return)
    (simp add: stored_stops_asked [unfolded task_list_def bm_values_def])

text \<open>The entry itself: the worker's promise becomes a call.\<close>

lemma entry_step:
  assumes ok: "system_ok p (rt, ws @ Entering prepared x # ws')"
    and run: "work p (Entering prepared x) rt = (r, rt')"
  obtains k where "r = Inr (Some k)" and "system_ok p (rt', ws @ k # ws')"
proof -
  have entered: "has_entered p x (rt_store rt)" using ok by (simp add: system_ok_def)
  have others: "\<forall>k \<in> set (ws @ ws'). worker_ok p k (rt_store rt)" using ok by (auto simp add: system_ok_def)
  have good: "good p rt" using ok by (simp add: system_ok_def)
  show thesis
  proof (cases "require_final_dispatch (po_payload_digest p) prepared x")
    case (Inl e)
    have "r = Inr (Some (Returned x (Inl e)))" "rt' = rt"
      using run by (simp_all add: enter_adapter_def Inl act_bind_def act_return_def)
    moreover have "system_ok p (rt, ws @ Returned x (Inl e) # ws')"
      using ok entered by (simp add: system_ok_def entries_def List.map_filter_def)
    ultimately show thesis using that by blast
  next
    case (Inr u)
    obtain calls outcome where enter: "po_enter p (rt_calls rt) x = (calls, outcome)" by fastforce
    have r: "r = Inr (Some (Reporting x calls outcome))" and rt': "rt' = rt\<lparr>rt_calls := EnterCall x # rt_calls rt\<rparr>"
      using run by (simp_all add: enter_adapter_def Inr act_bind_def act_return_def enter)
    have "distinct (entries (ws @ ws') (EnterCall x # rt_calls rt))"
      using ok by (auto simp add: system_ok_def entries_def entry_calls_Cons List.map_filter_def)
    moreover have "good p rt'" using good entered by (simp add: good_def rt')
    ultimately have "system_ok p (rt', ws @ Reporting x calls outcome # ws')"
      using others entered by (auto simp add: system_ok_def rt')
    with r show thesis by (rule that)
  qed
qed

lemma section_step:
  assumes rt: "roundtrip p" and ok: "system_ok p (rt, ws @ k # ws')" and k: "entering k = None"
    and run: "work p k rt = (r, rt')"
  shows "follows p rt rt'" and "r = Inr (Some k') \<Longrightarrow> system_ok p (rt', ws @ k' # ws')"
proof -
  have good: "good p rt" and here: "worker_ok p k (rt_store rt)" using ok by (simp_all add: system_ok_def)
  note d = safelyD [OF safely_work [OF rt k] good here run]
  show "follows p rt rt'" by (rule d(1))
  show "system_ok p (rt', ws @ k' # ws')" if "r = Inr (Some k')"
  proof (rule system_replace [OF ok d(1) k])
    show "worker_ok p k' (rt_store rt')" using d(2) that by fastforce
    show "\<not> entered_at p c (rt_store rt)" if "entering k' = Some c" for c
      using work_enters_fresh [OF rt good here run [unfolded \<open>r = Inr (Some k')\<close>] that] .
  qed
qed

lemma follows_outside:
  assumes "good p rt" and "\<not> effectful c"
  shows "follows p rt (rt\<lparr>rt_calls := c # rt_calls rt\<rparr>)"
  by (rule good_call [OF assms(1)]; use assms(2) in \<open>cases c\<close>) simp_all

lemma system_safely:
  assumes "safely p (\<lambda>_. True) a B" and "system_ok p (rt, ws)" and "a rt = (r, rt')"
  shows "follows p rt rt'" and "r = Inr x \<Longrightarrow> B x (rt_store rt')"
  using safelyD [OF assms(1) _ TrueI assms(3)] assms(2) by (simp_all add: system_ok_def)

lemma system_restarted:
  assumes "system_ok p (rt, ws)"
  shows "system_ok p (restarted ids rt, [])" and "rt_store (restarted ids rt) = rt_store rt"
proof -
  have kept: "rt_store (restarted ids rt) = rt_store rt" "rt_calls (restarted ids rt) = rt_calls rt"
    by (simp_all add: restarted_def runtime_new_def)
  show "system_ok p (restarted ids rt, [])"
    using assms by (simp add: system_ok_def kept good_def entries_def List.map_filter_def)
  show "rt_store (restarted ids rt) = rt_store rt" by (rule kept)
qed

lemma work_evolves:
  assumes rt: "roundtrip p" and ok: "system_ok p (rt, ws @ k # ws')" and run: "work p k rt = (r, rt')"
  shows "store_evolves p (rt_store rt) (rt_store rt')"
proof (cases "entering k")
  case None
  from section_step(1) [OF rt ok this run] show ?thesis by (simp add: follows_def)
next
  case (Some c)
  then obtain prepared x where "k = Entering prepared x" by (auto simp add: entering_Some)
  then have "rt_store rt' = rt_store rt"
    using run by (auto simp add: enter_adapter_def act_bind_def act_return_def split: sum.splits prod.splits)
  then show ?thesis by simp
qed

lemma system_step_ok:
  assumes "roundtrip p" and "system_step p st st'" and "system_ok p st"
  shows "system_ok p st'"
  using assms(2,3)
proof (induction rule: system_step.induct)
  case (command c rt r rt' ws)
  show ?case by (rule system_follows [OF command(2) system_safely(1) [OF safely_command [OF assms(1)] command(2,1)]])
next
  case (spawn x rt k rt' ws)
  note d = system_safely [OF safely_begin_execution [of p x] spawn(2,1)]
  show ?case by (rule system_add [OF spawn(2) d(1)]) (use d(2) in simp_all)
next
  case (spawn_refused x rt e rt' ws)
  show ?case
    by (rule system_follows [OF spawn_refused(2) system_safely(1) [OF safely_begin_execution spawn_refused(2,1)]])
next
  case (cancel dispatch rt k rt' ws)
  note d = system_safely [OF safely_begin_cancellation [of p dispatch] cancel(2,1)]
  show ?case by (rule system_add [OF cancel(2) d(1)]) (use d(2) in simp_all)
next
  case (cancel_refused dispatch rt e rt' ws)
  show ?case
    by (rule system_follows [OF cancel_refused(2) system_safely(1) [OF safely_begin_cancellation cancel_refused(2,1)]])
next
  case (run_section k rt "next" rt' ws ws')
  show ?case
  proof (cases "entering k")
    case None
    note d = section_step [OF assms(1) run_section(2) None run_section(1)]
    show ?thesis
      using d(2) system_drop [OF system_follows [OF run_section(2) d(1)]] by (cases "next") simp_all
  next
    case (Some c)
    then obtain prepared x where k: "k = Entering prepared x" by (auto simp add: entering_Some)
    obtain k' where "Inr next = (Inr (Some k') :: runtime_error + worker option)" and "system_ok p (rt', ws @ k' # ws')"
      by (rule entry_step [OF run_section(2) [unfolded k] run_section(1) [unfolded k]])
    then show ?thesis by simp
  qed
next
  case (section_error k rt e rt' ws ws')
  show ?case
  proof (cases "entering k")
    case None
    have f: "follows p rt rt'" by (rule section_step [OF assms(1) section_error(2) None section_error(1)])
    have "system_ok p (rt', ws @ Releasing i # ws')" for i
      by (rule system_replace [OF section_error(2) f None]) simp_all
    then show ?thesis
      using system_drop [OF system_follows [OF section_error(2) f]] by (cases "claim_of k") (simp_all add: abandoned_def)
  next
    case (Some c)
    then obtain prepared x where k: "k = Entering prepared x" by (auto simp add: entering_Some)
    show ?thesis by (rule entry_step [OF section_error(2) [unfolded k] section_error(1) [unfolded k]]) simp
  qed
next
  case (outside c rt ws)
  have "good p rt" using outside(2) by (simp add: system_ok_def)
  from follows_outside [OF this outside(1)] show ?case by (rule system_follows [OF outside(2)])
next
  case (restart ids rt r rt' ws)
  note ok = system_restarted(1) [OF restart(2), of ids]
  show ?case by (rule system_follows [OF ok system_safely(1) [OF safely_recover [OF assms(1)] ok restart(1)]])
qed

lemma initial_ok: "store_ok p (rt_store rt) \<Longrightarrow> rt_calls rt = [] \<Longrightarrow> system_ok p (rt, [])"
  by (simp add: system_ok_def good_def entry_calls_def List.map_filter_def)

section \<open>Whole methods are runs of the system\<close>

text \<open>
  With nobody else at work, the sections of a worker compose to the method: an execution and a
  cancellation, as the code writes them, are runs of the steps above.  The worker ends released, unless
  its section already dropped the claim, which the method's value False says.
\<close>

lemma act_bind_return: "act_bind (act_return x) f = f x"
  by (simp add: act_bind_def act_return_def)

lemma act_bind_assoc: "act_bind (act_bind a f) g = act_bind a (\<lambda>x. act_bind (f x) g)"
  by (rule ext) (simp add: act_bind_def split: prod.splits sum.splits)

lemma act_lift_cases: "act_lift (Inr x) = act_return x" "act_bind (act_lift (Inl e)) f = act_lift (Inl e)"
  by (simp_all add: act_bind_def act_return_def act_lift_def)

definition leaves_claim ::
  "('doc, 'm) ports \<Rightarrow> worker list \<Rightarrow> invocation_id \<Rightarrow> worker \<Rightarrow> ('doc, 'm, bool) act \<Rightarrow> bool" where
  "leaves_claim p ws i k a \<longleftrightarrow> (\<forall>rt r rt'. a rt = (r, rt') \<longrightarrow>
    reaches p (rt, k # ws) (rt', if r = Inr False then ws else Releasing i # ws))"

lemma reaches_section:
  "work p k rt = (Inr (Some k'), rt1) \<Longrightarrow> reaches p (rt1, k' # ws) st \<Longrightarrow> reaches p (rt, k # ws) st"
  using run_section [of p k rt "Some k'" rt1 "[]" ws] by (simp add: converse_rtranclp_into_rtranclp)

lemma reaches_done: "work p k rt = (Inr None, rt1) \<Longrightarrow> reaches p (rt1, ws) st \<Longrightarrow> reaches p (rt, k # ws) st"
  using run_section [of p k rt None rt1 "[]" ws] by (simp add: converse_rtranclp_into_rtranclp)

lemma reaches_error:
  "work p k rt = (Inl e, rt1) \<Longrightarrow> reaches p (rt, k # ws) (rt1, (case abandoned k of None \<Rightarrow> [] | Some k' \<Rightarrow> [k']) @ ws)"
  using section_error [of p k rt e rt1 "[]" ws] by simp

lemma leaves_bind:
  assumes "work p k = act_bind a (\<lambda>v. act_return (Some (g v)))" and "claim_of k = Some i"
    and "yields a Q" and "\<And>v. Q v \<Longrightarrow> leaves_claim p ws i (g v) (f v)"
  shows "leaves_claim p ws i k (act_bind a f)"
  unfolding leaves_claim_def
proof (intro allI impI)
  fix rt r rt' assume run: "act_bind a f rt = (r, rt')"
  obtain q rt1 where a: "a rt = (q, rt1)" by fastforce
  show "reaches p (rt, k # ws) (rt', if r = Inr False then ws else Releasing i # ws)"
  proof (cases q)
    case (Inl e)
    then have "r = Inl e" "rt' = rt1" "work p k rt = (Inl e, rt1)"
      using run a by (simp_all add: act_bind_def assms(1))
    then show ?thesis using reaches_error [of p k rt e rt1 ws] by (simp add: abandoned_def assms(2))
  next
    case (Inr v)
    then have "f v rt1 = (r, rt')" and w: "work p k rt = (Inr (Some (g v)), rt1)"
      using run a by (simp_all add: act_bind_def assms(1) act_return_def)
    then have "reaches p (rt1, g v # ws) (rt', if r = Inr False then ws else Releasing i # ws)"
      using assms(3,4) a Inr unfolding leaves_claim_def yields_def by blast
    then show ?thesis by (rule reaches_section [OF w])
  qed
qed

lemma leaves_released: "leaves_claim p ws i (Releasing i) (act_return True)"
  by (simp add: leaves_claim_def act_return_def)

lemma leaves_last:
  assumes "work p k = released x a" and "claim_of k = Some i" and "dispatch_invocation x = i"
  shows "leaves_claim p ws i k (act_bind a (\<lambda>_. act_return True))"
  by (rule leaves_bind [OF assms(1) [unfolded released_def] assms(2) yields_any]) (simp add: leaves_released assms(3))

lemma leaves_pending:
  assumes "\<And>y. next = SettleIt y \<Longrightarrow> dispatch_invocation y = dispatch_invocation x" and "\<And>y. next \<noteq> EnterIt y"
  shows "leaves_claim p ws (dispatch_invocation x) (leave x next)
    (act_bind (run_pending p (xd_run x) (xd_node x) next) (\<lambda>_. act_return True))"
proof (cases "next")
  case NothingLeft
  then show ?thesis by (simp add: run_pending_def act_bind_return leaves_released)
next
  case (SettleIt y)
  show ?thesis unfolding SettleIt run_pending_def pending.case leave.simps
    by (rule leaves_last [OF work.simps(7)]) (simp_all add: assms(1) [OF SettleIt])
next
  case (FinishIt state reason pause)
  show ?thesis unfolding FinishIt run_pending_def pending.case leave.simps
    by (rule leaves_last [OF work.simps(5)]) simp_all
qed (use assms(2) in simp)

lemma leaves_return: "work p k = act_return (Some k') \<Longrightarrow> leaves_claim p ws i k' a \<Longrightarrow> leaves_claim p ws i k a"
  unfolding leaves_claim_def using reaches_section by (metis act_return_def)

lemma leaves_failed: "work p k = act_lift (Inl e) \<Longrightarrow> claim_of k = Some i \<Longrightarrow> leaves_claim p ws i k (act_lift (Inl e))"
  unfolding leaves_claim_def using reaches_error [of p k _ e _ ws] by (fastforce simp add: act_lift_def abandoned_def)

lemma leaves_returned:
  "leaves_claim p ws (dispatch_invocation x) (Returned x outcome)
    (act_bind (after_entry p (xd_run x) (xd_node x) x outcome) (\<lambda>_. act_return True))"
proof -
  have last: "leaves_claim p ws (dispatch_invocation x) (returned_next p x outcome t)
    (act_bind (if is_settled (tk_state t) then settle_now p x
      else if tk_state t = Unresolved then act_return ()
      else mark_uncertain p (xd_run x) (xd_node x) (case outcome of
        Inr _ \<Rightarrow> ''adapter returned without durable terminal evidence''
      | Inl e \<Rightarrow> ''external outcome remains uncertain: '' @ executor_display (po_quoted p) e)) (\<lambda>_. act_return True))" for t
    by (simp add: returned_next_def act_bind_return leaves_released leaves_last)
  let ?a = "act_bind (require_workflow p (xd_run x)) (\<lambda>w. act_lift (find_task w (xd_node x) ''entered task disappeared''))"
  have "leaves_claim p ws (dispatch_invocation x) (Returned x outcome) (act_bind ?a (\<lambda>t. act_bind (
      if is_settled (tk_state t) then settle_now p x
      else if tk_state t = Unresolved then act_return ()
      else mark_uncertain p (xd_run x) (xd_node x) (case outcome of
        Inr _ \<Rightarrow> ''adapter returned without durable terminal evidence''
      | Inl e \<Rightarrow> ''external outcome remains uncertain: '' @ executor_display (po_quoted p) e)) (\<lambda>_. act_return True)))"
    by (rule leaves_bind [where g = "returned_next p x outcome", OF _ _ yields_any last]) (simp_all add: act_bind_assoc)
  then show ?thesis unfolding after_entry_def act_bind_assoc .
qed

lemma leaves_reporting:
  "leaves_claim p ws (dispatch_invocation x) (Reporting x calls outcome)
    (act_bind (adapter_run p (xd_run x) (xd_node x) x calls) (\<lambda>_.
      act_bind (after_entry p (xd_run x) (xd_node x) x outcome) (\<lambda>_. act_return True)))"
proof (induction calls)
  case Nil
  show ?case
    by (rule leaves_return [OF work.simps(9)]) (simp add: adapter_run_def act_bind_return leaves_returned)
next
  case (Cons c calls)
  show ?case unfolding adapter_run_def act_fold.simps act_bind_assoc act_bind_return
    by (rule leaves_bind [OF work.simps(10) _ yields_any Cons.IH [unfolded adapter_run_def]]) simp
qed

lemma leaves_entering:
  "leaves_claim p ws (dispatch_invocation x) (Entering prepared x)
    (act_bind (enter_prepared p (xd_run x) (xd_node x) prepared x) (\<lambda>outcome.
      act_bind (after_entry p (xd_run x) (xd_node x) x outcome) (\<lambda>_. act_return True)))"
proof (cases "require_final_dispatch (po_payload_digest p) prepared x")
  case (Inl e)
  show ?thesis unfolding enter_prepared_def Inl sum.case act_bind_return
    by (rule leaves_return [OF _ leaves_returned]) (simp add: enter_adapter_def Inl act_bind_return)
next
  case (Inr u)
  let ?enter = "\<lambda>rt. (Inr (po_enter p (rt_calls rt) x), rt\<lparr>rt_calls := EnterCall x # rt_calls rt\<rparr>)"
  have step: "work p (Entering prepared x) = act_bind ?enter (\<lambda>v. act_return (Some (case v of (calls, outcome) \<Rightarrow>
      Reporting x calls outcome)))"
    by (rule ext) (simp add: enter_adapter_def Inr act_bind_def act_return_def split: prod.splits)
  show ?thesis unfolding enter_prepared_def Inr sum.case act_bind_assoc
    by (rule leaves_bind [OF step _ yields_any])
      (auto simp add: act_bind_assoc act_bind_return leaves_reporting split: prod.split)
qed

text \<open>What the two deciding sections may say.\<close>

lemma yields_lift: "(\<And>x. r = Inr x \<Longrightarrow> yields (f x) Q) \<Longrightarrow> yields (act_bind (act_lift r) f) Q"
  by (cases r) (auto simp add: yields_def act_bind_def act_lift_def)

lemma yields_decisions:
  "yields (defer_before_entry p wid tid x reason) (\<lambda>next. (\<forall>y. next = SettleIt y \<longrightarrow> y = x) \<and> (\<forall>y. next \<noteq> EnterIt y))"
  "yields (entry_section p wid tid x prepared)
    (\<lambda>next. (\<forall>y. next = SettleIt y \<longrightarrow> y = x) \<and> (\<forall>y. next = EnterIt y \<longrightarrow> rebound x y))"
proof -
  show "yields (defer_before_entry p wid tid x reason) (\<lambda>next. (\<forall>y. next = SettleIt y \<longrightarrow> y = x) \<and> (\<forall>y. next \<noteq> EnterIt y))"
    unfolding defer_before_entry_def
    by (auto intro!: yields_bind [OF yields_any] yields_return split: prod.split)
  have bound: "yields (act_bind (act_lift (map_err RtExecutor (with_entry_authorization pd x decision))) (\<lambda>exact.
      act_bind (advance_save p (g exact)) (\<lambda>_. act_return (EnterIt exact))))
    (\<lambda>next. (\<forall>y. next = SettleIt y \<longrightarrow> y = x) \<and> (\<forall>y. next = EnterIt y \<longrightarrow> rebound x y))" for pd decision g
    by (rule yields_lift, rule yields_bind [OF yields_any], rule yields_return)
      (auto simp add: with_entry_authorization_Inr map_err_Inr_iff)
  have own: "yields (enter_owned p tid x now reservation w)
    (\<lambda>next. (\<forall>y. next = SettleIt y \<longrightarrow> y = x) \<and> (\<forall>y. next = EnterIt y \<longrightarrow> rebound x y))" for now reservation w
    unfolding enter_owned_def
    by (auto simp add: bound intro!: yields_return yields_bind [OF yields_any])
  show "yields (entry_section p wid tid x prepared)
    (\<lambda>next. (\<forall>y. next = SettleIt y \<longrightarrow> y = x) \<and> (\<forall>y. next = EnterIt y \<longrightarrow> rebound x y))"
    unfolding entry_section_def
    by (auto simp add: own intro!: yields_bind [OF yields_any] yields_return split: option.split sum.split)
qed

lemma leaves_admitting:
  "leaves_claim p ws (dispatch_invocation x) (Admitting x prepared)
    (act_bind (entry_section p (xd_run x) (xd_node x) x prepared) (\<lambda>next. case next of
        EnterIt exact \<Rightarrow>
          act_bind (enter_prepared p (xd_run x) (xd_node x) prepared exact) (\<lambda>outcome.
          act_bind (after_entry p (xd_run x) (xd_node x) exact outcome) (\<lambda>_. act_return True))
      | _ \<Rightarrow> act_bind (run_pending p (xd_run x) (xd_node x) next) (\<lambda>_. act_return True)))"
proof (rule leaves_bind [OF work.simps(4) _ yields_decisions(2)])
  fix decision
  assume d: "(\<forall>y. decision = SettleIt y \<longrightarrow> y = x) \<and> (\<forall>y. decision = EnterIt y \<longrightarrow> rebound x y)"
  have enter: "leaves_claim p ws (dispatch_invocation x) (Entering prepared y)
    (act_bind (enter_prepared p (xd_run x) (xd_node x) prepared y) (\<lambda>outcome.
      act_bind (after_entry p (xd_run x) (xd_node x) y outcome) (\<lambda>_. act_return True)))" if "decision = EnterIt y" for y
  proof -
    have "rebound x y" using d that by blast
    then have "xd_run y = xd_run x" "xd_node y = xd_node x" "dispatch_invocation y = dispatch_invocation x"
      by (simp_all add: dispatch_invocation_def)
    with leaves_entering [of p ws y prepared] show ?thesis by simp
  qed
  show "leaves_claim p ws (dispatch_invocation x)
      (case decision of EnterIt exact \<Rightarrow> Entering prepared exact | _ \<Rightarrow> leave x decision)
      (case decision of
        EnterIt exact \<Rightarrow>
          act_bind (enter_prepared p (xd_run x) (xd_node x) prepared exact) (\<lambda>outcome.
          act_bind (after_entry p (xd_run x) (xd_node x) exact outcome) (\<lambda>_. act_return True))
      | _ \<Rightarrow> act_bind (run_pending p (xd_run x) (xd_node x) decision) (\<lambda>_. act_return True))"
    using enter leaves_pending [of decision x p ws] d by (cases decision) auto
qed simp

lemma leaves_deferring:
  "leaves_claim p ws (dispatch_invocation x) (Deferring x reason)
    (act_bind (defer_before_entry p (xd_run x) (xd_node x) x reason) (\<lambda>next.
      act_bind (run_pending p (xd_run x) (xd_node x) next) (\<lambda>_. act_return (next \<noteq> NothingLeft))))"
  unfolding leaves_claim_def
proof (intro allI impI)
  fix rt r rt'
  assume run: "act_bind (defer_before_entry p (xd_run x) (xd_node x) x reason) (\<lambda>next.
      act_bind (run_pending p (xd_run x) (xd_node x) next) (\<lambda>_. act_return (next \<noteq> NothingLeft))) rt = (r, rt')"
  let ?last = "(rt', if r = Inr False then ws else Releasing (dispatch_invocation x) # ws)"
  obtain q rt1 where q: "defer_before_entry p (xd_run x) (xd_node x) x reason rt = (q, rt1)" by fastforce
  show "reaches p (rt, Deferring x reason # ws) ?last"
  proof (cases q)
    case (Inl e)
    have w: "work p (Deferring x reason) rt = (Inl e, rt1)" using q Inl by (simp add: act_bind_def)
    have "r = Inl e" "rt' = rt1" using run q Inl by (simp_all add: act_bind_def)
    then show ?thesis using reaches_error [OF w, of ws] by (simp add: abandoned_def)
  next
    case (Inr decision)
    have w: "work p (Deferring x reason) rt = (Inr (if decision = NothingLeft then None else Some (leave x decision)), rt1)"
      using q Inr by (simp add: act_bind_def act_return_def)
    have tail: "act_bind (run_pending p (xd_run x) (xd_node x) decision) (\<lambda>_. act_return (decision \<noteq> NothingLeft)) rt1 = (r, rt')"
      using run q Inr by (simp add: act_bind_def)
    show ?thesis
    proof (cases "decision = NothingLeft")
      case True
      then have "r = Inr False" "rt' = rt1" using tail by (simp_all add: run_pending_def act_bind_def act_return_def)
      then show ?thesis using reaches_done [of p "Deferring x reason" rt rt1 ws] w True by simp
    next
      case False
      have "leaves_claim p ws (dispatch_invocation x) (leave x decision)
          (act_bind (run_pending p (xd_run x) (xd_node x) decision) (\<lambda>_. act_return True))"
        using yields_decisions(1) [of p "xd_run x" "xd_node x" x reason] q Inr
        by (intro leaves_pending) (auto simp add: yields_def)
      then have "reaches p (rt1, leave x decision # ws) ?last" using tail False by (simp add: leaves_claim_def)
      then show ?thesis by (rule reaches_section [OF w [unfolded if_not_P [OF False]]])
    qed
  qed
qed

lemma leaves_preparing:
  "leaves_claim p ws (dispatch_invocation x) (Preparing x)
    (act_bind (prepare_now p x) (\<lambda>prepared. case prepared of
      Inl (CapacityUnavailable reason) \<Rightarrow>
        act_bind (defer_before_entry p (xd_run x) (xd_node x) x reason) (\<lambda>next.
        act_bind (run_pending p (xd_run x) (xd_node x) next) (\<lambda>_. act_return (next \<noteq> NothingLeft)))
    | Inl e \<Rightarrow>
        act_bind (if refused_before_entry e
          then finish_without_entry p (xd_run x) (xd_node x) Failed
            (''local preparation refused before entry: '' @ executor_display (po_quoted p) e)
          else mark_uncertain p (xd_run x) (xd_node x)
            (''preparation could not establish exclusive non-entry: '' @ executor_display (po_quoted p) e))
          (\<lambda>_. act_return True)
    | Inr prepared \<Rightarrow>
        act_bind (entry_section p (xd_run x) (xd_node x) x prepared) (\<lambda>next. case next of
          EnterIt exact \<Rightarrow>
            act_bind (enter_prepared p (xd_run x) (xd_node x) prepared exact) (\<lambda>outcome.
            act_bind (after_entry p (xd_run x) (xd_node x) exact outcome) (\<lambda>_. act_return True))
        | _ \<Rightarrow> act_bind (run_pending p (xd_run x) (xd_node x) next) (\<lambda>_. act_return True))))"
proof (rule leaves_bind [OF work.simps(2) _ yields_any], simp)
  fix answer :: "executor_error + prepared_execution"
  have refused: "leaves_claim p ws (dispatch_invocation x)
    (if refused_before_entry e
      then Finishing x Failed (''local preparation refused before entry: '' @ executor_display (po_quoted p) e) False
      else Marking x (''preparation could not establish exclusive non-entry: '' @ executor_display (po_quoted p) e))
    (act_bind (if refused_before_entry e
      then finish_without_entry p (xd_run x) (xd_node x) Failed
        (''local preparation refused before entry: '' @ executor_display (po_quoted p) e)
      else mark_uncertain p (xd_run x) (xd_node x)
        (''preparation could not establish exclusive non-entry: '' @ executor_display (po_quoted p) e))
      (\<lambda>_. act_return True))" for e
    by (simp add: finish_without_entry_def leaves_last)
  show "leaves_claim p ws (dispatch_invocation x) (prepared_next p x answer) (case answer of
      Inl (CapacityUnavailable reason) \<Rightarrow>
        act_bind (defer_before_entry p (xd_run x) (xd_node x) x reason) (\<lambda>next.
        act_bind (run_pending p (xd_run x) (xd_node x) next) (\<lambda>_. act_return (next \<noteq> NothingLeft)))
    | Inl e \<Rightarrow>
        act_bind (if refused_before_entry e
          then finish_without_entry p (xd_run x) (xd_node x) Failed
            (''local preparation refused before entry: '' @ executor_display (po_quoted p) e)
          else mark_uncertain p (xd_run x) (xd_node x)
            (''preparation could not establish exclusive non-entry: '' @ executor_display (po_quoted p) e))
          (\<lambda>_. act_return True)
    | Inr prepared \<Rightarrow>
        act_bind (entry_section p (xd_run x) (xd_node x) x prepared) (\<lambda>next. case next of
          EnterIt exact \<Rightarrow>
            act_bind (enter_prepared p (xd_run x) (xd_node x) prepared exact) (\<lambda>outcome.
            act_bind (after_entry p (xd_run x) (xd_node x) exact outcome) (\<lambda>_. act_return True))
        | _ \<Rightarrow> act_bind (run_pending p (xd_run x) (xd_node x) next) (\<lambda>_. act_return True)))"
  proof (cases answer)
    case (Inl e)
    show ?thesis unfolding Inl sum.case prepared_next_def
      by (cases e) (simp_all only: executor_error.case refused leaves_deferring)
  next
    case (Inr prepared)
    show ?thesis unfolding Inr sum.case prepared_next_def by (rule leaves_admitting)
  qed
qed

lemma leaves_checking:
  "leaves_claim p ws (dispatch_invocation x) (Checking x)
    (act_bind (act_lift (workflow_of_run (xd_run x))) (\<lambda>wid.
     act_bind (act_lift (task_of_node (xd_node x))) (\<lambda>tid. execute_claimed p wid tid x)))"
proof -
  have run: "workflow_of_run i = Inr wid \<Longrightarrow> wid = i" "task_of_node i = Inr tid \<Longrightarrow> tid = i" for i wid tid
    by (auto simp add: workflow_of_run_def task_of_node_def res_simps)
  have owned: "leaves_claim p ws (dispatch_invocation x) (Checking x) (execute_claimed p (xd_run x) (xd_node x) x)"
    if "workflow_of_run (xd_run x) = Inr (xd_run x)" "task_of_node (xd_node x) = Inr (xd_node x)"
    unfolding execute_claimed_def
  proof (rule leaves_bind [OF _ _ yields_any])
    show "work p (Checking x) = act_bind (check_owned p (xd_run x) (xd_node x) x) (\<lambda>stopping.
        act_return (Some (if stopping then Finishing x Stopped ''stopped before external entry'' False else Preparing x)))"
      by (simp add: that act_lift_cases act_bind_return)
  qed (simp_all add: finish_without_entry_def leaves_last leaves_preparing)
  show ?thesis
  proof (cases "workflow_of_run (xd_run x)")
    case (Inl e)
    show ?thesis unfolding Inl act_lift_cases by (rule leaves_failed) (simp_all add: Inl act_lift_cases)
  next
    case (Inr wid)
    then have wid: "workflow_of_run (xd_run x) = Inr (xd_run x)" using run(1) by simp
    show ?thesis
    proof (cases "task_of_node (xd_node x)")
      case (Inl e)
      show ?thesis unfolding wid Inl act_lift_cases act_bind_return
        by (rule leaves_failed) (simp_all add: wid Inl act_lift_cases act_bind_return)
    next
      case (Inr tid)
      then have tid: "task_of_node (xd_node x) = Inr (xd_node x)" using run(2) by simp
      show ?thesis unfolding wid tid act_lift_cases act_bind_return by (rule owned [OF wid tid])
    qed
  qed
qed

lemma execute_runs:
  assumes "execute p x rt = (r, rt')"
  shows "reaches p (rt, ws) (rt', ws)"
proof -
  let ?i = "dispatch_invocation x"
  obtain q rt1 where claim: "claim_execution ?i rt = (q, rt1)" by fastforce
  show ?thesis
  proof (cases q)
    case (Inl e)
    have "begin_execution x rt = (Inl e, rt1)" by (simp add: begin_execution_def act_bind_def claim Inl)
    moreover have "rt' = rt1" using assms by (simp add: execute_def act_bind_def claim Inl)
    ultimately show ?thesis using spawn_refused by blast
  next
    case (Inr u)
    let ?body = "act_bind (act_lift (workflow_of_run (xd_run x))) (\<lambda>wid.
      act_bind (act_lift (task_of_node (xd_node x))) (\<lambda>tid. execute_claimed p wid tid x))"
    obtain outcome rt2 where body: "?body rt1 = (outcome, rt2)" by fastforce
    have "begin_execution x rt = (Inr (Checking x), rt1)"
      using claim Inr by (simp add: begin_execution_def act_bind_def act_return_def)
    then have first: "reaches p (rt, ws) (rt1, Checking x # ws)" using spawn by blast
    have rest: "reaches p (rt1, Checking x # ws) (rt2, if outcome = Inr False then ws else Releasing ?i # ws)"
      using leaves_checking [of p ws x] body unfolding leaves_claim_def by blast
    have rt': "(if outcome = Inr False then act_return () else release_claim ?i) rt2 = (Inr (), rt')"
      using assms claim Inr body
      by (auto simp add: execute_def act_bind_def act_try_def act_return_def act_lift_def release_claim_def act_update_def
          split: if_splits)
    have "reaches p (rt2, if outcome = Inr False then ws else Releasing ?i # ws) (rt', ws)"
    proof (cases "outcome = Inr False")
      case True
      then show ?thesis using rt' by (simp add: act_return_def)
    next
      case False
      then have "work p (Releasing ?i) rt2 = (Inr None, rt')" using rt' by (simp add: act_bind_def act_return_def)
      from reaches_done [OF this rtranclp.rtrancl_refl] show ?thesis using False by simp
    qed
    with first rest show ?thesis by (meson rtranclp_trans)
  qed
qed

lemma cancel_entered_answer:
  "cancel_entered p wid tid fz = act_bind (act_lift (cancellation_for fz)) (\<lambda>request.
    act_bind (cancel_now p request) (handle_answer p wid tid request))"
  unfolding cancel_entered_def handle_answer_def ..

lemma reaches_cancelled:
  assumes "cancel_task p wid dispatch entry rt = (r, rt')"
  shows "reaches p (rt, Cancelling wid dispatch (entry # rest) # ws)
    (rt', if is_ok r then Cancelling wid dispatch rest # ws else ws)"
proof -
  obtain tid t where entry: "entry = (tid, t)" by (cases entry)
  let ?here = "Cancelling wid dispatch (entry # rest)" and ?last = "(rt', if is_ok r then Cancelling wid dispatch rest # ws else ws)"
  have one: "reaches p (rt, ?here # ws) ?last"
    if "cancel_next p wid dispatch entry rest = act_bind a (\<lambda>_. act_return (Cancelling wid dispatch rest))" "a rt = (r, rt')" for a
  proof (cases r)
    case (Inl e)
    then have "work p ?here rt = (Inl e, rt')" using that by (simp add: act_bind_def)
    from reaches_error [OF this, of ws] show ?thesis by (simp add: Inl abandoned_def is_ok_def)
  next
    case (Inr u)
    then have "work p ?here rt = (Inr (Some (Cancelling wid dispatch rest)), rt')"
      using that by (simp add: act_bind_def act_return_def)
    then show ?thesis by (rule reaches_section) (simp add: Inr is_ok_def)
  qed
  have sent: "reaches p (rt, ?here # ws) ?last"
    if next_def: "cancel_next p wid dispatch entry rest = act_bind (act_lift (cancellation_for fz)) (\<lambda>request.
        act_bind (cancel_now p request) (\<lambda>answer. act_return (Answering wid tid request answer dispatch rest)))"
      and run: "cancel_entered p wid tid fz rt = (r, rt')" for fz
  proof (cases "cancellation_for fz")
    case (Inl e)
    then have "work p ?here rt = (Inl e, rt)" "r = Inl e" "rt' = rt"
      using next_def run by (simp_all add: cancel_entered_def act_lift_cases act_simps)
    then show ?thesis using reaches_error [of p ?here rt e rt ws] by (simp add: abandoned_def is_ok_def)
  next
    case (Inr request)
    obtain q rt1 where q: "cancel_now p request rt = (q, rt1)" by fastforce
    obtain answer where answer: "q = Inr answer" using q by (auto simp add: cancel_now_def act_try_call_def)
    let ?mid = "Answering wid tid request answer dispatch rest"
    have w: "work p ?here rt = (Inr (Some ?mid), rt1)"
      using next_def by (simp add: Inr act_simps q answer)
    have h: "handle_answer p wid tid request answer rt1 = (r, rt')"
      using run by (simp add: cancel_entered_answer Inr act_simps q answer)
    have "reaches p (rt1, ?mid # ws) ?last"
    proof (cases r)
      case (Inl e)
      then have "work p ?mid rt1 = (Inl e, rt')" using h by (simp add: act_bind_def)
      from reaches_error [OF this, of ws] show ?thesis by (simp add: Inl abandoned_def is_ok_def)
    next
      case (Inr u)
      then have "work p ?mid rt1 = (Inr (Some (Cancelling wid dispatch rest)), rt')"
        using h by (simp add: act_bind_def act_return_def)
      then show ?thesis by (rule reaches_section) (simp add: Inr is_ok_def)
    qed
    then show ?thesis by (rule reaches_section [OF w])
  qed
  show ?thesis
    using assms one [of "act_return ()"] one [of "finish_without_entry p wid tid Stopped ''stop won before external entry''"] sent
    by (auto simp add: entry cancel_task_def cancel_next_def act_bind_return split: if_splits option.splits)
qed

lemma execute_cancellation_runs:
  assumes "execute_cancellation p dispatch rt = (r, rt')"
  shows "reaches p (rt, ws) (rt', ws)"
proof -
  have loop: "reaches p (rt1, Cancelling wid dispatch es # ws) (rt', ws)"
    if "act_fold (\<lambda>entry _. cancel_task p wid dispatch entry) es () rt1 = (r, rt')" for wid es rt1
    using that
  proof (induction es arbitrary: rt1)
    case Nil
    then show ?case using reaches_done [of p "Cancelling wid dispatch []" rt1 rt1 ws] by (simp add: act_return_def)
  next
    case (Cons e es)
    obtain q rt2 where q: "cancel_task p wid dispatch e rt1 = (q, rt2)" by fastforce
    note step = reaches_cancelled [OF q, of es ws]
    show ?case
    proof (cases q)
      case (Inl e)
      then show ?thesis using step Cons.prems by (simp add: act_bind_def q is_ok_def)
    next
      case (Inr u)
      then have "reaches p (rt2, Cancelling wid dispatch es # ws) (rt', ws)"
        using Cons.prems by (intro Cons.IH) (simp add: act_bind_def q)
      then show ?thesis using step Inr by (simp add: is_ok_def)
    qed
  qed
  obtain q rt1 where q: "begin_cancellation p dispatch rt = (q, rt1)" by fastforce
  show ?thesis
  proof (cases q)
    case (Inl e)
    then have "rt' = rt1"
      using assms q by (auto simp add: begin_cancellation_def execute_cancellation_def act_simps split: prod.splits sum.splits)
    then show ?thesis using cancel_refused q Inl by blast
  next
    case (Inr k)
    then obtain wid es where k: "k = Cancelling wid dispatch es"
      and rest: "act_fold (\<lambda>entry _. cancel_task p wid dispatch entry) es () rt1 = (r, rt')"
      using assms q by (auto simp add: begin_cancellation_def execute_cancellation_def act_simps split: prod.splits sum.splits)
    have "reaches p (rt, ws) (rt1, k # ws)" using cancel q Inr by blast
    then show ?thesis using loop [OF rest] k by simp
  qed
qed

section \<open>The life of a task\<close>

text \<open>
  What a task is to its owner: planned, accepted under one request, entered once with one dispatch, and
  ended.  A task that was entered ends only with the result its adapter reported, in the state that
  result means for its definition; one that was not entered never completes.
\<close>

datatype life =
    Planned
  | Accepted task_definition invocation_request
  | Entered task_definition execution_dispatch
  | Ended task_state "task_result option"

inductive life_step :: "life \<Rightarrow> life \<Rightarrow> bool" where
  accept: "life_step Planned (Accepted d q)"
| enter: "xd_request x = q \<Longrightarrow> life_step (Accepted d q) (Entered d x)"
| drop_planned: "state = Failed \<or> state = Stopped \<Longrightarrow> life_step Planned (Ended state None)"
| drop_accepted: "state = Failed \<or> state = Stopped \<Longrightarrow> life_step (Accepted d q) (Ended state None)"
| finish: "state = result_state d r \<Longrightarrow> life_step (Entered d x) (Ended state (Some r))"

inductive_cases ended_step: "life_step (Ended state r) l"

abbreviation life_steps :: "life \<Rightarrow> life \<Rightarrow> bool" where
  "life_steps \<equiv> life_step\<^sup>*\<^sup>*"

definition life_of :: "task_record \<Rightarrow> life" where
  "life_of t = (if is_settled (tk_state t) then Ended (tk_state t) (tk_result t)
    else case tk_frozen t of
      None \<Rightarrow> Planned
    | Some fz \<Rightarrow> if fz_entered fz then Entered (fz_definition fz) (fz_dispatch fz)
        else Accepted (fz_definition fz) (xd_request (fz_dispatch fz)))"

text \<open>A start, from its acceptance on, and where a well formed task can be with it.\<close>

lemma life_entered:
  assumes "task_ok codec wid tid t" and "tk_frozen t = Some fz" and "fz_entered fz"
  shows "life_steps (Entered (fz_definition fz) (fz_dispatch fz)) (life_of t)"
proof (cases "is_settled (tk_state t)")
  case True
  then obtain r where "tk_result t = Some r" "tk_state t = result_state (fz_definition fz) r"
    using assms by (auto simp add: task_ok_def start_ok_def evidence_ok_def split: option.splits)
  then show ?thesis using True by (auto simp add: life_of_def intro: r_into_rtranclp life_step.finish)
qed (simp add: life_of_def assms(2,3))

lemma life_unentered:
  assumes "task_ok codec wid tid t" and "tk_frozen t = Some fz" and "\<not> fz_entered fz"
  shows "life_steps (Accepted (fz_definition fz) (xd_request (fz_dispatch fz))) (life_of t)"
proof (cases "is_settled (tk_state t)")
  case True
  have "tk_result t = None" "tk_state t \<noteq> Completed"
    using assms by (auto simp add: task_ok_def start_ok_def evidence_ok_def split: option.splits)
  then show ?thesis using True
    by (cases "tk_state t") (auto simp add: life_of_def intro: r_into_rtranclp life_step.drop_accepted)
qed (simp add: life_of_def assms(2,3))

lemma life_accepted:
  assumes "task_ok codec wid tid t" and "tk_frozen t = Some fz"
  shows "life_steps (Accepted (fz_definition fz) (xd_request (fz_dispatch fz))) (life_of t)"
proof (cases "fz_entered fz")
  case True
  have "life_step (Accepted (fz_definition fz) (xd_request (fz_dispatch fz))) (Entered (fz_definition fz) (fz_dispatch fz))"
    by (rule life_step.enter) simp
  then show ?thesis using life_entered [OF assms True] by (rule converse_rtranclp_into_rtranclp)
qed (rule life_unentered [OF assms])

lemma life_planned:
  assumes "task_ok codec wid tid t"
  shows "life_steps Planned (life_of t)"
proof (cases "tk_frozen t")
  case None
  then have "tk_result t = None" "tk_state t \<noteq> Completed" using assms by (auto simp add: task_ok_def)
  then show ?thesis
    by (cases "tk_state t") (auto simp add: life_of_def None intro: r_into_rtranclp life_step.drop_planned)
next
  case (Some fz)
  show ?thesis by (rule converse_rtranclp_into_rtranclp [OF life_step.accept life_accepted [OF assms Some]])
qed

lemma life_evolves:
  assumes "task_evolves t t'" and "task_ok codec wid tid t'"
  shows "life_steps (life_of t) (life_of t')"
proof (cases "is_settled (tk_state t)")
  case True
  then have "final_task t t'" using assms(1) by (simp add: task_evolves_def)
  then have "tk_state t' = tk_state t" "tk_result t' = tk_result t" by (auto simp add: final_task_def)
  then show ?thesis using True by (simp add: life_of_def)
next
  case open_task: False
  show ?thesis
  proof (cases "tk_frozen t")
    case None
    then show ?thesis using life_planned [OF assms(2)] open_task by (simp add: life_of_def)
  next
    case (Some fz)
    obtain fz' where fz': "tk_frozen t' = Some fz'" and e: "frozen_evolves fz fz'"
      using assms(1) Some by (auto simp add: task_evolves_def opt_keeps_def)
    have same: "fz_definition fz' = fz_definition fz" "xd_request (fz_dispatch fz') = xd_request (fz_dispatch fz)"
      using e by (simp_all add: frozen_evolves_def)
    show ?thesis
    proof (cases "fz_entered fz")
      case True
      then have "fz_entered fz'" "fz_dispatch fz' = fz_dispatch fz" using e by (simp_all add: frozen_evolves_def)
      then show ?thesis using life_entered [OF assms(2) fz'] open_task Some True same by (simp add: life_of_def)
    next
      case False
      then show ?thesis using life_accepted [OF assms(2) fz'] open_task Some same by (simp add: life_of_def)
    qed
  qed
qed

text \<open>The lives of the tasks a store holds.\<close>

definition lives :: "('doc, 'm) ports \<Rightarrow> ('doc, 'm) store \<Rightarrow> workflow_id \<times> task_id \<Rightarrow> life option" where
  "lives p s = (\<lambda>(wid, tid). case store_workflow s wid of
      None \<Rightarrow> None
    | Some snap \<Rightarrow> (case po_from_value p (ss_document snap) of
        Inl _ \<Rightarrow> None
      | Inr w \<Rightarrow> map_option life_of (map_of (wr_tasks w) tid)))"

definition lives_on :: "(workflow_id \<times> task_id \<Rightarrow> life option) \<Rightarrow> (workflow_id \<times> task_id \<Rightarrow> life option) \<Rightarrow> bool" where
  "lives_on f g \<longleftrightarrow> (\<forall>c. (\<forall>l. f c = Some l \<longrightarrow> (\<exists>l'. g c = Some l' \<and> life_steps l l'))
    \<and> (\<forall>l'. f c = None \<longrightarrow> g c = Some l' \<longrightarrow> life_steps Planned l'))"

lemma lives_Some:
  "lives p s (wid, tid) = Some l \<longleftrightarrow> (\<exists>w t. stored p s wid w \<and> map_of (wr_tasks w) tid = Some t \<and> l = life_of t)"
  unfolding lives_def stored_def by (auto split: option.splits sum.splits)

lemma lives_ok:
  assumes "store_ok p s" and "stored p s wid w" and "map_of (wr_tasks w) tid = Some t"
  shows "task_ok (po_codec p) (wr_id w) tid t"
  using stored_ok [OF assms(1,2)] assms(3) by (auto simp add: record_ok_def)

lemma lives_evolve:
  assumes "store_ok p s'" and "store_evolves p s s'"
  shows "lives_on (lives p s) (lives p s')"
  unfolding lives_on_def
proof (intro allI conjI impI)
  fix c l assume "lives p s c = Some l"
  moreover obtain wid tid where c: "c = (wid, tid)" by (cases c)
  ultimately obtain w t where w: "stored p s wid w" and t: "map_of (wr_tasks w) tid = Some t" and l: "l = life_of t"
    unfolding c lives_Some by blast
  obtain w' where w': "stored p s' wid w'" and e: "workflow_evolves w w'"
    using assms(2) w unfolding store_evolves_def by blast
  obtain t' where t': "map_of (wr_tasks w') tid = Some t'" and te: "task_evolves t t'"
    using e t unfolding workflow_evolves_def opt_keeps_def by blast
  show "\<exists>l'. lives p s' c = Some l' \<and> life_steps l l'"
    using life_evolves [OF te lives_ok [OF assms(1) w' t']] w' t' unfolding c lives_Some l by blast
next
  fix c l' assume "lives p s' c = Some l'"
  moreover obtain wid tid where c: "c = (wid, tid)" by (cases c)
  ultimately obtain w t where "stored p s' wid w" "map_of (wr_tasks w) tid = Some t" and l: "l' = life_of t"
    unfolding c lives_Some by blast
  then show "life_steps Planned l'" unfolding l using lives_ok [OF assms(1)] by (blast intro: life_planned)
qed

lemma system_step_evolves:
  assumes "roundtrip p" and "system_step p st st'" and "system_ok p st"
  shows "store_evolves p (rt_store (fst st)) (rt_store (fst st'))"
  using assms(2,3)
proof (induction rule: system_step.induct)
  case (restart ids rt r rt' ws)
  note ok = system_restarted [OF restart(2), of ids]
  show ?case using system_safely(1) [OF safely_recover [OF assms(1)] ok(1) restart(1)] ok(2) by (simp add: follows_def)
qed (simp_all add: work_evolves [OF assms(1)]
    system_safely(1) [OF safely_command [OF assms(1)], THEN follows_def [THEN iffD1]]
    system_safely(1) [OF safely_begin_execution, THEN follows_def [THEN iffD1]]
    system_safely(1) [OF safely_begin_cancellation, THEN follows_def [THEN iffD1]])

lemma reaches_evolves:
  assumes "roundtrip p" and "reaches p st st'" and "system_ok p st"
  shows "store_evolves p (rt_store (fst st)) (rt_store (fst st')) \<and> system_ok p st'"
  using assms(2)
proof (induction rule: rtranclp_induct)
  case base
  show ?case using assms(3) by simp
next
  case (step st1 st2)
  then show ?case
    using system_step_evolves [OF assms(1) step(2)] system_step_ok [OF assms(1) step(2)] store_evolves_trans by blast
qed

section \<open>A concrete system\<close>

text \<open>
  One workflow with one accepted start, over ports that render nothing, read and commit without faults,
  and whose executor has no capacity.
\<close>

definition sample_record :: workflow_record where
  "sample_record = (sample_workflow [sample_task ''t'' Running (Some (sample_start ''i'' False None))])
    \<lparr>wr_admitted_tasks := 1\<rparr>"

definition identity_codec :: "workflow_record store_codec" where
  "identity_codec = \<lparr>sc_snapshot = (\<lambda>_. Inr ''{}''), sc_receipt = (\<lambda>_. Inr ''{}''), sc_document = (\<lambda>_. Inr ''{}''),
    sc_json = (\<lambda>_. Inr ''null''), sc_command = (\<lambda>_. Inr ''{}''), sc_parse = (\<lambda>_. Inr JNull)\<rparr>"

definition sample_ports :: "(workflow_record, unit) ports" where
  "sample_ports = \<lparr>po_store_codec = identity_codec, po_managed = sample_managed_ops,
    po_storage_limits = default_storage_limits, po_codec = sample_runtime_codec,
    po_to_value = Inr, po_from_value = Inr, po_blake3 = (\<lambda>_. sample_digest),
    po_payload_digest = sample_payload_digest, po_authority_codec = sample_authority_codec,
    po_extensions = (\<lambda>_. Inr ''{}''), po_model_document = (\<lambda>_. Inr JNull), po_create_value = (\<lambda>_. Inr JNull),
    po_batch_value = (\<lambda>_. Inr JNull), po_parse = (\<lambda>_. Inr JNull), po_outputs_value = (\<lambda>_. JNull),
    po_limits_value = (\<lambda>_. JNull), po_definition_value = (\<lambda>_. JNull), po_render = (\<lambda>_. ''null''),
    po_quoted = (\<lambda>s. s), po_failure_debug = (\<lambda>_. ''failure''), po_read = (\<lambda>_. Inr ()),
    po_store_clock = (\<lambda>_. Inr 30), po_faults = (\<lambda>_. no_faults), po_clock = (\<lambda>_. Inr 30),
    po_evaluate = (\<lambda>_ q. Inr (sample_decision q)),
    po_resolve = (\<lambda>_ _ _ _. Inl (Unavailable ''none'')),
    po_prepare = (\<lambda>_ x. Inr \<lparr>pe_dispatch = x, pe_envelope = sample_envelope\<rparr>),
    po_enter = (\<lambda>_ _. ([], Inr ())), po_cancel = (\<lambda>_ _. Inl (Unavailable ''none'')),
    po_settle = (\<lambda>_ _. Inr ())\<rparr>"

definition sample_runtime :: "(workflow_record, unit) runtime" where
  "sample_runtime = runtime_new \<lparr>st_workflows = [(''w'', snapshot_of sample_record sample_record 0 1 0)],
    st_receipts = [], st_action_owners = [], st_accounting = empty_accounting\<lparr>sa_history_bytes := 2, sa_reserved_receipts := 1\<rparr>, st_watermark = None, st_managed = (),
    st_committed_bytes = [], st_pending_bytes = [], st_content_bytes = 0\<rparr>
    \<lparr>ig_prefix = ''n'', ig_next = 1\<rparr>"

lemma sample_roundtrip: "roundtrip sample_ports"
  by (simp add: roundtrip_def sample_ports_def)

lemma sample_stored_record: "stored sample_ports (rt_store sample_runtime) i w \<longleftrightarrow> i = ''w'' \<and> w = sample_record"
  by (auto simp add: stored_def sample_runtime_def runtime_new_def store_workflow_def sample_ports_def snapshot_of_def)

lemma sample_record_ok: "record_ok codec sample_record"
  by (simp add: record_ok_def sample_record_def sample_state sample_dispatch_def task_ok_def start_ok_def reports_ok_def
      evidence_ok_def report_outputs_def List.map_filter_def bm_wf_def
      accepted.intros SCHEMA_VERSION_def default_limits_def
      DEFAULT_WORKFLOW_TASKS_def fits_within_def within_def default_budget_def)

lemma sample_store_ok: "store_ok sample_ports (rt_store sample_runtime)"
proof -
  let ?snap = "snapshot_of sample_record sample_record 0 1 0"
  have "sealed sample_ports ''w'' ?snap sample_record"
    unfolding sealed_def using sample_record_ok
    by (intro conjI exI) (auto simp add: sample_ports_def snapshot_of_def sample_record_def sample_workflow_def)
  then show ?thesis
    by (auto simp add: store_ok_def sample_runtime_def runtime_new_def store_workflow_def empty_store_def bm_wf_def)
qed

text \<open>The worker that claimed the start checks it, has it prepared, records its entry and enters the adapter.\<close>

primrec run_sections :: "('doc, 'm) ports \<Rightarrow> nat \<Rightarrow> worker \<Rightarrow> ('doc, 'm) runtime \<Rightarrow> (worker \<times> ('doc, 'm) runtime) option" where
  "run_sections p 0 k rt = Some (k, rt)"
| "run_sections p (Suc n) k rt = (case work p k rt of (Inr (Some k'), rt') \<Rightarrow> run_sections p n k' rt' | _ \<Rightarrow> None)"

lemma run_sections_reaches:
  "run_sections p n k rt = Some (k', rt') \<Longrightarrow> reaches p (rt, k # ws) (rt', k' # ws)"
  by (induction n arbitrary: k rt) (auto split: prod.splits sum.splits option.splits intro: reaches_section)

definition sample_claimed :: "(workflow_record, unit) runtime" where
  "sample_claimed = sample_runtime\<lparr>rt_executing := [''i'']\<rparr>"

definition sample_entered :: "worker \<times> (workflow_record, unit) runtime" where
  "sample_entered = the (run_sections sample_ports 4 (Checking (sample_dispatch ''i'')) sample_claimed)"

lemma sample_entry:
  "case run_sections sample_ports 4 (Checking (sample_dispatch ''i'')) sample_claimed of
     None \<Rightarrow> False | Some (k, rt) \<Rightarrow> map coordinates (entry_calls (rt_calls rt)) = [(''w'', ''t'')]"
  by code_simp

lemma sample_reaches: "reaches sample_ports (sample_runtime, []) (snd sample_entered, [fst sample_entered])"
proof -
  have "begin_execution (sample_dispatch ''i'') sample_runtime = (Inr (Checking (sample_dispatch ''i'')), sample_claimed)"
    by (simp add: begin_execution_def claim_execution_def act_simps sample_claimed_def sample_runtime_def runtime_new_def
        dispatch_invocation_def sample_dispatch_def)
  from spawn [OF this, of sample_ports "[]"]
  have "reaches sample_ports (sample_runtime, []) (sample_claimed, [Checking (sample_dispatch ''i'')])" by simp
  moreover have "run_sections sample_ports 4 (Checking (sample_dispatch ''i'')) sample_claimed = Some sample_entered"
    using sample_entry by (simp add: sample_entered_def split: option.splits)
  then have "reaches sample_ports (sample_claimed, [Checking (sample_dispatch ''i'')]) (snd sample_entered, [fst sample_entered])"
    by (intro run_sections_reaches) simp
  ultimately show ?thesis by (rule rtranclp_trans)
qed

section \<open>Properties of the running system\<close>

text \<open>
  C2.  Whatever the threads, their order, the ports' answers and the restarts, every call the runtime
  ever made of its executor rests on what is durably recorded: an adapter is asked to prepare only an
  accepted start, entered only with the recorded dispatch of a recorded entry, told to settle only what
  settled, and asked to cancel only the invocation of a task that was asked to stop.
\<close>

theorem calls_justified:
  assumes "roundtrip p" and "store_ok p (rt_store rt)" and "rt_calls rt = []" and "reaches p (rt, []) (rt', ws)"
  shows "\<forall>c \<in> set (rt_calls rt'). justified p (rt_store rt') c"
  using reaches_evolves [OF assms(1,4) initial_ok [OF assms(2,3)]] by (simp add: system_ok_def good_def)

text \<open>
  C1.  No task is entered twice: over the whole history, any number of workers and restarts included,
  the tasks whose adapters were entered are distinct.
\<close>

theorem entered_at_most_once:
  assumes "roundtrip p" and "store_ok p (rt_store rt)" and "rt_calls rt = []" and "reaches p (rt, []) (rt', ws)"
  shows "distinct (map coordinates (entry_calls (rt_calls rt')))"
  using reaches_evolves [OF assms(1,4) initial_ok [OF assms(2,3)]] by (simp add: system_ok_def entries_def)

text \<open>
  C4.  Every workflow document a reachable store holds is a well formed record of its own key: its tasks
  and admissions are keyed and within the limits, every start belongs to its task, reports are in
  sequence from that start's invocation, an entered task is settled only by a terminal report and in the
  state that report means, and what was committed fits the allowance.
\<close>

theorem reachable_records_well_formed:
  assumes "roundtrip p" and "store_ok p (rt_store rt)" and "rt_calls rt = []" and "reaches p (rt, []) (rt', ws)"
    and "stored p (rt_store rt') wid w"
  shows "record_ok (po_codec p) w \<and> wr_id w = wid"
proof -
  have "store_ok p (rt_store rt')"
    using reaches_evolves [OF assms(1,4) initial_ok [OF assms(2,3)]] by (simp add: system_ok_def good_def)
  from stored_ok [OF this assms(5)] show ?thesis ..
qed

text \<open>
  C3.  The running system refines the life of a task: between any two states of a run, every task of the
  first is still there and moved along the abstract life (planned, accepted under a fixed request,
  entered with a fixed dispatch, ended by its adapter's result or without ever being entered), and every
  task that is new began as planned.
\<close>

theorem task_lives_refined:
  assumes "roundtrip p" and "store_ok p (rt_store rt)" and "rt_calls rt = []" and "reaches p (rt, []) (rt1, ws1)"
    and "reaches p (rt1, ws1) (rt2, ws2)"
  shows "lives_on (lives p (rt_store rt1)) (lives p (rt_store rt2))"
proof -
  have "system_ok p (rt1, ws1)" using reaches_evolves [OF assms(1,4) initial_ok [OF assms(2,3)]] ..
  from reaches_evolves [OF assms(1,5) this] show ?thesis
    by (intro lives_evolve) (simp_all add: system_ok_def good_def)
qed

text \<open>
  C37.  The two long methods of the runtime, as the code writes them, are runs of the system: a call of
  \<^verbatim>\<open>execute\<close> or \<^verbatim>\<open>execute_cancellation\<close> that is not interrupted takes the runtime where a
  worker's sections take it, so what holds of every interleaving holds of every sequence of calls.
\<close>

theorem methods_are_runs:
  "(execute p x rt = (r, rt') \<longrightarrow> reaches p (rt, ws) (rt', ws))
   \<and> (execute_cancellation p dispatch rt = (r, rt') \<longrightarrow> reaches p (rt, ws) (rt', ws))"
  using execute_runs execute_cancellation_runs by blast

subsection \<open>The concrete run\<close>

lemmas sample_start_state = sample_roundtrip sample_store_ok

lemma sample_no_calls: "rt_calls sample_runtime = []"
  by (simp add: sample_runtime_def runtime_new_def)

lemma sample_entered_calls: "map coordinates (entry_calls (rt_calls (snd sample_entered))) = [(''w'', ''t'')]"
  using sample_entry by (auto simp add: sample_entered_def split: option.splits)

theorem calls_justified_witness:
  "\<exists>x. EnterCall x \<in> set (rt_calls (snd sample_entered)) \<and> has_entered sample_ports x (rt_store (snd sample_entered))"
proof -
  have "entry_calls (rt_calls (snd sample_entered)) \<noteq> []" using sample_entered_calls by auto
  then obtain x where "x \<in> set (entry_calls (rt_calls (snd sample_entered)))" by (meson hd_in_set)
  then have x: "EnterCall x \<in> set (rt_calls (snd sample_entered))" by (simp only: set_entry_calls)
  have "justified sample_ports (rt_store (snd sample_entered)) (EnterCall x)"
    by (rule bspec [OF calls_justified [OF sample_start_state sample_no_calls sample_reaches] x])
  then show ?thesis using x unfolding justified.simps by (intro exI conjI)
qed

theorem entered_at_most_once_witness:
  "distinct (map coordinates (entry_calls (rt_calls (snd sample_entered))))
   \<and> map coordinates (entry_calls (rt_calls (snd sample_entered))) = [(''w'', ''t'')]"
  using entered_at_most_once [OF sample_start_state sample_no_calls sample_reaches] sample_entered_calls by simp

theorem reachable_records_well_formed_witness:
  "\<exists>w. stored sample_ports (rt_store (snd sample_entered)) ''w'' w \<and> record_ok (po_codec sample_ports) w"
proof -
  have "store_evolves sample_ports (rt_store sample_runtime) (rt_store (snd sample_entered))"
    using reaches_evolves [OF sample_roundtrip sample_reaches initial_ok [OF sample_store_ok sample_no_calls]] by simp
  then obtain w where "stored sample_ports (rt_store (snd sample_entered)) ''w'' w"
    using sample_stored_record unfolding store_evolves_def by blast
  then show ?thesis
    using reachable_records_well_formed [OF sample_start_state sample_no_calls sample_reaches] by blast
qed

theorem task_lives_refined_witness:
  "lives sample_ports (rt_store sample_runtime) (''w'', ''t'') \<noteq> None
   \<and> lives_on (lives sample_ports (rt_store sample_runtime)) (lives sample_ports (rt_store (snd sample_entered)))"
proof
  have "map_of (wr_tasks sample_record) ''t'' = Some (sample_task ''t'' Running (Some (sample_start ''i'' False None)))"
    by (simp add: sample_record_def sample_workflow_def sample_task_def)
  then show "lives sample_ports (rt_store sample_runtime) (''w'', ''t'') \<noteq> None"
    using lives_Some [of sample_ports "rt_store sample_runtime" "''w''" "''t''"] sample_stored_record by blast
  show "lives_on (lives sample_ports (rt_store sample_runtime)) (lives sample_ports (rt_store (snd sample_entered)))"
    by (rule task_lives_refined [OF sample_start_state sample_no_calls rtranclp.rtrancl_refl sample_reaches])
qed

theorem methods_are_runs_witness:
  "reaches sample_ports (sample_runtime, []) (snd (execute sample_ports (sample_dispatch ''i'') sample_runtime), [])"
  using methods_are_runs [of sample_ports "sample_dispatch ''i''" sample_runtime] by (metis prod.collapse)

end
