(* ===== verification/Control.thy ===== *)
theory Control
  imports Workers "HOL-Library.Product_Lexorder"
begin

text \<open>
  The control service of \<^verbatim>\<open>crates/control/src\<close>: the authorization front through which people and
  models change workflows (\<^verbatim>\<open>tasks.rs\<close>), the check of selected historical outputs
  (\<^verbatim>\<open>tasks/sources.rs\<close>) and the admission of model proposals (\<^verbatim>\<open>tasks/model_actions.rs\<close>),
  with the claim of \<^verbatim>\<open>crates/runtime/src/command.rs\<close>.  The service shares the clock, the evaluator
  and the store with the runtime it fronts, and its calls join the runtime's trace.  The artifact store
  and the decoders of a model response are arguments.  The theorems show that a command changes the
  store only after the evaluator allowed every operation it needs, that only verified bytes of a
  response are read as a proposal, and that the service, too, is a run of the concurrent system, so
  what holds of every reachable state holds behind it.
\<close>

section \<open>Errors and contexts\<close>

datatype control_error =
    CtInvalid string
  | CtJson json_error
  | CtDenied "decision_reason list" "string option"
  | CtAuthority authority_error
  | CtPersistence persistence_error
  | CtRuntime runtime_error

definition control_display :: "(string \<Rightarrow> string) \<Rightarrow> control_error \<Rightarrow> string" where
  "control_display quoted e = (case e of
      CtInvalid text \<Rightarrow> ''invalid control contract: '' @ text
    | CtJson text \<Rightarrow> ''invalid control JSON: '' @ text
    | CtDenied reasons _ \<Rightarrow>
        ''authority denied the control request: ['' @ debug_list (map reason_debug reasons) @ '']''
    | CtAuthority error \<Rightarrow> authority_display error
    | CtPersistence error \<Rightarrow> persistence_display error
    | CtRuntime error \<Rightarrow> runtime_display quoted error)"

record authority_claim =
  cl_grant :: grant_id
  cl_grant_revision :: u64
  cl_grant_digest :: string
  cl_revocation_generation :: u64

definition authority_claim_new ::
  "grant_id \<Rightarrow> u64 \<Rightarrow> string \<Rightarrow> u64 \<Rightarrow> runtime_error + authority_claim" where
  "authority_claim_new grant revision digest revocation =
    (if revision = 0 then Inl (InvalidCommand ''authority grant revision must be nonzero'')
     else Inr \<lparr>cl_grant = grant, cl_grant_revision = revision, cl_grant_digest = digest,
       cl_revocation_generation = revocation\<rparr>)"

record actor_context =
  ac_actor :: actor_ref
  ac_authority :: authority_claim

text \<open>What the service calls besides the runtime's ports.\<close>

record control_ports =
  cp_metadata :: "trace \<Rightarrow> string \<Rightarrow> persistence_error + artifact_metadata option"
  cp_read_chunk :: "trace \<Rightarrow> read_request \<Rightarrow> persistence_error + read_chunk"
  cp_decision_bytes :: "actor_ref \<times> workflow_id \<times> authority_operation \<times> string \<Rightarrow> json_error + string"
  cp_source_bytes :: "actor_ref \<times> workflow_id \<times> task_id \<times> string \<times> authority_operation \<Rightarrow> json_error + string"
  cp_to_hex :: "u8 list \<Rightarrow> string"
  cp_response :: "string \<Rightarrow> string + model_response"
  cp_batch :: "json \<Rightarrow> json_error + task_batch"

type_synonym ('doc, 'm, 'a) cact = "(('doc, 'm) runtime, control_error, 'a) action"

definition in_runtime :: "('doc, 'm, 'a) act \<Rightarrow> ('doc, 'm, 'a) cact" where
  "in_runtime a = (\<lambda>rt. case a rt of (r, rt') \<Rightarrow> (map_err CtRuntime r, rt'))"

definition metadata_now :: "control_ports \<Rightarrow> string \<Rightarrow> ('doc, 'm, artifact_metadata option) cact" where
  "metadata_now c artifact = act_call (MetadataCall artifact) (\<lambda>calls. cp_metadata c calls artifact) CtPersistence"

definition read_chunk_now :: "control_ports \<Rightarrow> read_request \<Rightarrow> ('doc, 'm, read_chunk) cact" where
  "read_chunk_now c q = act_call (ChunkCall q) (\<lambda>calls. cp_read_chunk c calls q) CtPersistence"

definition decide_now :: "('doc, 'm) ports \<Rightarrow> authority_request \<Rightarrow> ('doc, 'm, authority_decision) cact" where
  "decide_now p q =
    act_bind (act_call (EvaluateCall q) (\<lambda>calls. po_evaluate p calls q) CtAuthority) (\<lambda>decision.
    if is_allowed decision then act_return decision
    else act_fail (CtDenied (ad_reason_codes decision) (Some (ad_digest decision))))"

definition claim_request ::
  "actor_context \<Rightarrow> decision_id \<Rightarrow> authority_operation \<Rightarrow> requested_facts \<Rightarrow> authority_budget \<Rightarrow> u64
    \<Rightarrow> authority_request" where
  "claim_request context decision oper resources budget now = (let claim = ac_authority context in
    \<lparr>aq_decision = decision, aq_actor = ac_actor context, aq_grant = cl_grant claim,
     aq_grant_revision = cl_grant_revision claim, aq_grant_digest = cl_grant_digest claim,
     aq_revocation_generation = cl_revocation_generation claim, aq_operation = oper,
     aq_resources = resources, aq_budget = budget, aq_evaluated_at = now, aq_provenance = no_provenance\<rparr>)"


section \<open>Authorization\<close>

definition authorize ::
  "('doc, 'm) ports \<Rightarrow> control_ports \<Rightarrow> actor_context \<Rightarrow> workflow_id \<Rightarrow> authority_operation \<Rightarrow> string
    \<Rightarrow> ('doc, 'm, authority_decision) cact" where
  "authorize p c context wid oper request_key =
    act_bind (act_lift (map_err (\<lambda>e. CtInvalid (workspace_display e)) (workspace_identity wid ''RunId'' 128))) (\<lambda>_.
    act_bind (act_lift (map_err CtJson (cp_decision_bytes c (ac_actor context, wid, oper, request_key)))) (\<lambda>identity.
    act_bind (act_lift (map_err CtAuthority
      (authority_identity ''DecisionId'' (''task_decision_'' @ po_blake3 p identity)))) (\<lambda>decision.
    act_bind (in_runtime (clock_now p)) (\<lambda>now.
    decide_now p (claim_request context decision oper
      (empty_facts\<lparr>rf_workflow := Some wid, rf_run := Some wid\<rparr>) default_budget now)))))"

definition authorize_when ::
  "bool \<Rightarrow> ('doc, 'm) ports \<Rightarrow> control_ports \<Rightarrow> actor_context \<Rightarrow> workflow_id \<Rightarrow> authority_operation \<Rightarrow> string
    \<Rightarrow> ('doc, 'm, unit) cact" where
  "authorize_when needed p c context wid oper request_key =
    (if needed then act_bind (authorize p c context wid oper request_key) (\<lambda>_. act_return ()) else act_return ())"

definition control_workflow ::
  "('doc, 'm) ports \<Rightarrow> control_ports \<Rightarrow> actor_context \<Rightarrow> workflow_id \<Rightarrow> ('doc, 'm, workflow_record option) cact" where
  "control_workflow p c context wid =
    act_bind (authorize p c context wid InspectRun ''read-workflow'') (\<lambda>_.
    in_runtime (workflow p wid))"

definition control_replay_exact ::
  "('doc, 'm) ports \<Rightarrow> control_ports \<Rightarrow> actor_context \<Rightarrow> string \<Rightarrow> workflow_id option \<Rightarrow> string
    \<Rightarrow> ('doc, 'm, command_receipt option) cact" where
  "control_replay_exact p c context key target transport =
    act_bind (act_lift (case target of Some wid \<Rightarrow> Inr wid
      | None \<Rightarrow> map_err CtRuntime (workflow_identity p (ac_actor context) key))) (\<lambda>identity.
    act_bind (act_try (in_runtime (replay_exact p (ac_actor context) key target transport))) (\<lambda>found.
    if found = Inr None then act_return None
    else
      act_bind (authorize p c context identity InspectRun ''read-receipt'') (\<lambda>_.
      act_lift found)))"

definition create_permitted ::
  "('doc, 'm) ports \<Rightarrow> actor_context \<Rightarrow> string \<Rightarrow> workflow_create \<Rightarrow> string option \<Rightarrow> authority_decision
    \<Rightarrow> ('doc, 'm, command_receipt) cact" where
  "create_permitted p context key request transport decision =
    in_runtime (case transport of
        Some bytes \<Rightarrow> create_exact p (ac_actor context) key request decision bytes
      | None \<Rightarrow> create_workflow p (ac_actor context) key request decision)"

definition control_create ::
  "('doc, 'm) ports \<Rightarrow> control_ports \<Rightarrow> actor_context \<Rightarrow> string \<Rightarrow> workflow_create \<Rightarrow> string option
    \<Rightarrow> ('doc, 'm, command_receipt) cact" where
  "control_create p c context key request transport =
    act_bind (act_lift (map_err CtRuntime (workflow_identity p (ac_actor context) key))) (\<lambda>wid.
    act_bind (authorize p c context wid CreateRun key) (\<lambda>_.
    act_bind (authorize p c context wid StartRun key)
    (create_permitted p context key request transport)))"


section \<open>Selected outputs\<close>

definition binding_sources ::
  "task_definition \<Rightarrow> (task_id \<times> string, bool) bmap \<Rightarrow> (task_id \<times> string, bool) bmap" where
  "binding_sources d sources = fold (\<lambda>binding sources. case binding of
      TaskOutput task output _ \<Rightarrow>
        (if bm_contains sources (task, output) then sources else bm_insert (task, output) False sources)
    | _ \<Rightarrow> sources) (bm_values (td_inputs d)) sources"

definition redirect_sources ::
  "workflow_record \<Rightarrow> task_id \<Rightarrow> task_id \<Rightarrow> task_binding_redirect
    \<Rightarrow> (task_id \<times> string, bool) bmap \<Rightarrow> (task_id \<times> string, bool) bmap" where
  "redirect_sources w task correction redirect sources =
    (case Option.bind (map_of (wr_tasks w) (rd_consumer redirect))
        (\<lambda>consumer. map_of (td_inputs (tk_definition consumer)) (rd_input redirect)) of
      Some (TaskOutput _ output _) \<Rightarrow>
        if opt_any (\<lambda>source. \<not> bm_contains (td_outputs (tk_definition source)) output) (map_of (wr_tasks w) task)
        then bm_insert (correction, output) True (bm_insert (task, output) True sources)
        else sources
    | _ \<Rightarrow> sources)"

definition change_sources ::
  "workflow_record \<Rightarrow> task_change \<Rightarrow> (task_id \<times> string, bool) bmap \<Rightarrow> (task_id \<times> string, bool) bmap" where
  "change_sources w change sources = (case change of
      Add _ d \<Rightarrow> binding_sources d sources
    | Revise _ _ d \<Rightarrow> binding_sources d sources
    | AdoptCorrection task correction redirects \<Rightarrow>
        fold (redirect_sources w task correction) redirects sources
    | _ \<Rightarrow> sources)"

definition authorize_read ::
  "('doc, 'm) ports \<Rightarrow> control_ports \<Rightarrow> actor_context \<Rightarrow> workflow_id \<Rightarrow> task_id \<Rightarrow> string \<Rightarrow> string \<Rightarrow> artifact_metadata
    \<Rightarrow> authority_operation \<Rightarrow> ('doc, 'm, unit) cact" where
  "authorize_read p c context wid task output artifact metadata oper =
    act_bind (act_lift (map_err CtJson (cp_source_bytes c (ac_actor context, wid, task, output, oper)))) (\<lambda>identity.
    act_bind (act_lift (map_err CtAuthority
      (authority_identity ''DecisionId'' (''task_source_'' @ po_blake3 p identity)))) (\<lambda>decision.
    act_bind (in_runtime (clock_now p)) (\<lambda>now.
    act_bind (decide_now p (claim_request context decision oper
      (empty_facts\<lparr>rf_workflow := Some wid, rf_run := Some wid, rf_artifact := Some artifact,
        rf_artifact_sensitivity := Some (am_sensitivity metadata)\<rparr>)
      (default_budget\<lparr>ab_artifact_bytes := Some (wa_size_bytes (am_reference metadata))\<rparr>) now)) (\<lambda>_.
    act_return ()))))"

definition UNAVAILABLE_OUTPUT :: string where
  "UNAVAILABLE_OUTPUT = ''selected output is unavailable''"

definition authorize_published_output ::
  "('doc, 'm) ports \<Rightarrow> control_ports \<Rightarrow> actor_context \<Rightarrow> workflow_record \<Rightarrow> task_id \<Rightarrow> string \<Rightarrow> artifact_reference
    \<Rightarrow> ('doc, 'm, unit) cact" where
  "authorize_published_output p c context w task output reference =
    act_bind (act_lift (map_err (\<lambda>_. CtInvalid UNAVAILABLE_OUTPUT)
      (workspace_identity (ar_identity reference) ''ArtifactId'' 192))) (\<lambda>_.
    let artifact = ar_identity reference in
    act_bind (metadata_now c artifact) (\<lambda>found.
    act_bind (act_lift (ok_or (CtDenied [ArtifactScopeMismatch] None) found)) (\<lambda>metadata.
    act_bind (act_lift (map_err (\<lambda>e. CtInvalid (workspace_display e)) (workspace_identity (wr_id w) ''RunId'' 128))) (\<lambda>_.
    act_bind (act_fold (\<lambda>oper _. authorize_read p c context (wr_id w) task output artifact metadata oper)
      [ReadArtifactMetadata, ReadArtifactContent] ()) (\<lambda>_.
    let stored = am_reference metadata in
    act_ensure (cp_to_hex c (wa_digest stored) = ar_digest reference
        \<and> Some (wa_media_type stored) = ar_media_type reference
        \<and> Some (wa_size_bytes stored) = ar_size_bytes reference)
      (CtInvalid ''selected output differs from its retained publication''))))))"

definition authorize_source ::
  "('doc, 'm) ports \<Rightarrow> control_ports \<Rightarrow> actor_context \<Rightarrow> workflow_record \<Rightarrow> (task_id \<times> string) \<times> bool
    \<Rightarrow> ('doc, 'm, unit) cact" where
  "authorize_source p c context w = (\<lambda>((task, output), required).
    case map_of (wr_tasks w) task of
      None \<Rightarrow> act_return ()
    | Some producer \<Rightarrow>
        if \<not> required \<and> bm_contains (td_outputs (tk_definition producer)) output then act_return ()
        else
          act_bind (authorize p c context (wr_id w) InspectRun ''connect-output'') (\<lambda>_.
          act_bind (act_lift (ok_or (CtInvalid UNAVAILABLE_OUTPUT)
            (Option.bind (tk_result producer) (\<lambda>r. map_of (tr_outputs r) output)))) (\<lambda>reference.
          authorize_published_output p c context w task output reference)))"

definition authorize_sources ::
  "('doc, 'm) ports \<Rightarrow> control_ports \<Rightarrow> actor_context \<Rightarrow> workflow_record \<Rightarrow> task_batch \<Rightarrow> ('doc, 'm, unit) cact" where
  "authorize_sources p c context w batch =
    act_fold (\<lambda>source _. authorize_source p c context w source)
      (fold (change_sources w) (tb_changes batch) []) ()"

definition edit_unreplayed ::
  "('doc, 'm) ports \<Rightarrow> control_ports \<Rightarrow> actor_context \<Rightarrow> string \<Rightarrow> workflow_id \<Rightarrow> task_batch \<Rightarrow> string option
    \<Rightarrow> ('doc, 'm, command_receipt) cact" where
  "edit_unreplayed p c context key wid batch transport =
    act_bind (in_runtime (workflow p wid)) (\<lambda>record.
    act_bind (case record of None \<Rightarrow> act_return () | Some w \<Rightarrow> authorize_sources p c context w batch) (\<lambda>_.
    in_runtime (case transport of
        Some bytes \<Rightarrow> edit_exact p (ac_actor context) key wid batch bytes
      | None \<Rightarrow> edit p (ac_actor context) key wid batch)))"

definition edit_permitted ::
  "('doc, 'm) ports \<Rightarrow> control_ports \<Rightarrow> actor_context \<Rightarrow> string \<Rightarrow> workflow_id \<Rightarrow> task_batch \<Rightarrow> string option
    \<Rightarrow> ('doc, 'm, command_receipt) cact" where
  "edit_permitted p c context key wid batch transport =
    act_bind (in_runtime (case transport of
        Some bytes \<Rightarrow> replay_exact p (ac_actor context) key (Some wid) bytes
      | None \<Rightarrow> replay_edit p (ac_actor context) key wid batch)) (\<lambda>found. case found of
      Some r \<Rightarrow> act_return r
    | None \<Rightarrow> edit_unreplayed p c context key wid batch transport)"

definition control_edit ::
  "('doc, 'm) ports \<Rightarrow> control_ports \<Rightarrow> actor_context \<Rightarrow> string \<Rightarrow> workflow_id \<Rightarrow> task_batch \<Rightarrow> string option
    \<Rightarrow> ('doc, 'm, command_receipt) cact" where
  "control_edit p c context key wid batch transport =
    act_bind (authorize_when (list_ex is_stop (tb_changes batch)) p c context wid Cancel key) (\<lambda>_.
    act_bind (authorize_when (list_ex (\<lambda>change. \<not> is_stop change) (tb_changes batch)) p c context wid Apply key) (\<lambda>_.
    edit_permitted p c context key wid batch transport))"


section \<open>Reading a proposal\<close>

definition MODEL_RESPONSE_BYTES :: nat where "MODEL_RESPONSE_BYTES = 2097152"

text \<open>
  The chunk loop of \<^verbatim>\<open>read_batch\<close>.  A chunk either ends the artifact or makes progress, and
  the bytes never pass the bound, so the loop ends.
\<close>

function read_content ::
  "control_ports \<Rightarrow> ws_artifact \<Rightarrow> read_authority \<Rightarrow> string \<Rightarrow> ('doc, 'm, string) cact" where
  "read_content c reference authority bytes rt =
    (case try_from_usize (length bytes) of
      None \<Rightarrow> (Inl (CtInvalid OUT_OF_RANGE), rt)
    | Some offset \<Rightarrow>
      (case read_request_new reference offset 262144 authority of
        Inl e \<Rightarrow> (Inl (CtPersistence e), rt)
      | Inr q \<Rightarrow>
        (case read_chunk_now c q rt of
          (Inl e, rt') \<Rightarrow> (Inl e, rt')
        | (Inr chunk, rt') \<Rightarrow>
          if opt_all (\<lambda>n. MODEL_RESPONSE_BYTES < n) (usize_add (length bytes) (length (ch_bytes chunk)))
            \<or> ch_bytes chunk = [] \<and> \<not> ch_end_of_artifact chunk
          then (Inl (CtInvalid ''model response chunk exceeded its bound or made no progress''), rt')
          else if ch_end_of_artifact chunk then (Inr (bytes @ ch_bytes chunk), rt')
          else read_content c reference authority (bytes @ ch_bytes chunk) rt')))"
  by pat_completeness auto
termination
proof (relation "measure (\<lambda>(_, _, _, bytes, _). MODEL_RESPONSE_BYTES + 1 - length bytes)")
qed (auto simp add: usize_add_def opt_all_def length_greater_0_conv [symmetric] simp del: length_greater_0_conv
    split: option.splits if_splits)

declare read_content.simps [simp del]

definition authorize_response ::
  "('doc, 'm) ports \<Rightarrow> control_ports \<Rightarrow> workflow_record \<Rightarrow> task_id \<Rightarrow> artifact_reference
    \<Rightarrow> ('doc, 'm, ws_artifact \<times> read_authority) cact" where
  "authorize_response p c w source reference =
    act_bind (act_lift (map_err (\<lambda>e. CtInvalid (workspace_display e))
      (workspace_identity (ar_identity reference) ''ArtifactId'' 192))) (\<lambda>_.
    act_bind (metadata_now c (ar_identity reference)) (\<lambda>found.
    act_bind (act_lift (ok_or (CtInvalid ''saved model response is unavailable'') found)) (\<lambda>metadata.
    act_bind (act_lift (map_err CtAuthority (authority_identity ''DecisionId'' (''model_read_'' @ source)))) (\<lambda>decision_id.
    act_bind (in_runtime (clock_now p)) (\<lambda>now.
    act_bind (decide_now p (basis_request (wr_execution_authority w) decision_id ReadArtifactContent
      (empty_facts\<lparr>rf_artifact := Some (ar_identity reference),
        rf_artifact_sensitivity := Some (am_sensitivity metadata)\<rparr>) default_budget now no_provenance)) (\<lambda>decision.
    act_bind (act_ensure (opt_any (\<lambda>bytes. bytes \<le> 2097152) (ar_size_bytes reference))
      (CtInvalid ''model response exceeds the bounded reader'')) (\<lambda>_.
    let evidence = ''model-read-'' @ ad_digest decision in
    act_bind (act_lift (map_err CtPersistence (store_validate_identity evidence ''EvidenceId''))) (\<lambda>_.
    act_return (am_reference metadata, Authorized (eb_actor (wr_execution_authority w)) evidence)))))))))"

definition decode_batch ::
  "('doc, 'm) ports \<Rightarrow> control_ports \<Rightarrow> artifact_reference \<Rightarrow> string \<Rightarrow> control_error + task_batch" where
  "decode_batch p c reference bytes =
    res_bind (ensure (try_from_usize (length bytes) = ar_size_bytes reference \<and> po_blake3 p bytes = ar_digest reference)
      (CtInvalid ''retained model response differs from its immutable reference'')) (\<lambda>_.
    res_bind (map_err CtInvalid (cp_response c bytes)) (\<lambda>response.
    res_bind (ok_or (CtInvalid (''model response has no structured TaskBatch; result text is never''
      @ '' interpreted as actions'')) (mp_structured response)) (\<lambda>structured.
    map_err CtJson (cp_batch c structured))))"

definition read_batch ::
  "('doc, 'm) ports \<Rightarrow> control_ports \<Rightarrow> workflow_record \<Rightarrow> task_id \<Rightarrow> ('doc, 'm, task_batch) cact" where
  "read_batch p c w source =
    act_bind (act_lift (ok_or (CtInvalid ''action-enabled task did not publish a canonical model_response'')
      (Option.bind (map_of (wr_admissions w) source) ma_response))) (\<lambda>reference.
    act_bind (authorize_response p c w source reference) (\<lambda>(stored, authority).
    act_bind (read_content c stored authority []) (\<lambda>bytes.
    act_lift (decode_batch p c reference bytes))))"


section \<open>Feedback for a rejected proposal\<close>

definition feedback_name :: "nat \<Rightarrow> string" where
  "feedback_name index = (if index = 0 then ''rejected_response'' else ''rejected_response_'' @ dec index)"

definition feedback_inputs :: "task_record \<Rightarrow> (string, task_input_binding) bmap" where
  "feedback_inputs original = (case tk_frozen original of None \<Rightarrow> []
    | Some start \<Rightarrow> bm_map (\<lambda>_. InlineBinding) (fz_inputs start))"

definition feedback_definition :: "task_id \<Rightarrow> model_admission \<Rightarrow> task_record \<Rightarrow> task_definition" where
  "feedback_definition source admission original = (let d = tk_definition original in
    d\<lparr>td_title := ''Repair actions: '' @ truncate_utf8 (td_title d) 220,
      td_description := ''Feedback for retained model response from '' @ source,
      td_corrective_of := None, td_required := False, td_inputs := feedback_inputs original,
      td_dependencies := [],
      td_instructions := ''Repair the rejected structured action batch. Preserve the original intent within the same''
        @ '' authority. Use the refreshed snapshot supplied with this task. Do not repeat started work. Rejection: ''
        @ (case ma_reason admission of None \<Rightarrow> ''invalid actions'' | Some reason \<Rightarrow> reason)
        @ [CHR 0x0A] @ ''Original instructions: '' @ td_instructions d\<rparr>)"

definition with_rejected_response ::
  "artifact_reference \<Rightarrow> task_definition \<Rightarrow> control_error + task_definition" where
  "with_rejected_response response d =
    res_bind (ensure (length (td_inputs d) < 64)
      (CtInvalid ''automatic feedback cannot add its response to 64 frozen inputs'')) (\<lambda>_.
    res_bind (ok_or (CtInvalid ''automatic feedback response input namespace exhausted'')
      (find (\<lambda>name. \<not> bm_contains (td_inputs d) name) (map feedback_name [0..<65]))) (\<lambda>name.
    Inr (d\<lparr>td_instructions := td_instructions d @ [CHR 0x0A] @ ''The immutable rejected response is supplied as input ''
        @ name @ ''.'',
      td_inputs := bm_insert name (InlineBinding (ArtifactInput response)) (td_inputs d)\<rparr>)))"

definition feedback_batch :: "workflow_record \<Rightarrow> task_id \<Rightarrow> control_error + task_batch" where
  "feedback_batch w source =
    res_bind (ok_or (CtInvalid ''feedback source missing'') (map_of (wr_admissions w) source)) (\<lambda>admission.
    res_bind (ok_or (CtInvalid ''feedback task missing'') (map_of (wr_tasks w) source)) (\<lambda>original.
    let d = feedback_definition source admission original in
    res_bind (case ma_response admission of None \<Rightarrow> Inr d | Some response \<Rightarrow> with_rejected_response response d) (\<lambda>d'.
    res_bind (map_err (\<lambda>e. CtInvalid (identity_display e)) (validate_identity ''feedback'' ''TaskId'' 128)) (\<lambda>_.
    Inr \<lparr>tb_expected_generation = wr_generation w, tb_changes = [Add ''feedback'' d']\<rparr>))))"


section \<open>Admitting proposals\<close>

definition has_distinct_wait :: "workflow_record \<Rightarrow> task_id \<Rightarrow> bool" where
  "has_distinct_wait w source \<longleftrightarrow> wr_wait_question w \<noteq> None \<and> wr_model_admission_wait w \<noteq> Some source"

definition storage_error :: "control_error \<Rightarrow> persistence_error option" where
  "storage_error e = (case e of CtPersistence e \<Rightarrow> Some e | CtRuntime (RtPersistence e) \<Rightarrow> Some e | _ \<Rightarrow> None)"

definition is_capacity_error :: "control_error \<Rightarrow> bool" where
  "is_capacity_error e = (case storage_error e of
      Some (StoreBounds _ _) \<Rightarrow> True | Some (Storage ResourceExhaustedClass _) \<Rightarrow> True | _ \<Rightarrow> False)"

definition indeterminate :: "control_error \<Rightarrow> bool" where
  "indeterminate e \<longleftrightarrow> storage_error e \<noteq> None \<and> \<not> is_capacity_error e"

definition is_denial :: "control_error \<Rightarrow> bool" where
  "is_denial e = (case e of CtDenied _ _ \<Rightarrow> True | CtAuthority _ \<Rightarrow> True
    | CtRuntime (RtExecutor (AuthorityDenied _ _)) \<Rightarrow> True | _ \<Rightarrow> False)"

definition authorize_batch ::
  "('doc, 'm) ports \<Rightarrow> control_ports \<Rightarrow> actor_context \<Rightarrow> workflow_record \<Rightarrow> task_batch \<Rightarrow> ('doc, 'm, unit) cact" where
  "authorize_batch p c context w batch =
    act_bind (authorize p c context (wr_id w) Apply ''model-actions'') (\<lambda>_.
    act_bind (authorize_when (list_ex is_stop (tb_changes batch)) p c context (wr_id w) Cancel ''model-actions'') (\<lambda>_.
    authorize_sources p c context w batch))"

definition admit_batch ::
  "('doc, 'm) ports \<Rightarrow> control_ports \<Rightarrow> actor_context \<Rightarrow> workflow_record \<Rightarrow> task_id \<Rightarrow> bool \<Rightarrow> task_batch
    \<Rightarrow> ('doc, 'm, command_receipt) cact" where
  "admit_batch p c context w source repair batch =
    act_bind (authorize_batch p c context w batch) (\<lambda>_.
    in_runtime (admit_model_batch p (ac_actor context) (wr_id w) source batch repair))"

definition automatic_repair_enabled :: "workflow_record \<Rightarrow> task_id \<Rightarrow> bool" where
  "automatic_repair_enabled w source \<longleftrightarrow>
    opt_any automatic_repair (Option.bind (map_of (wr_tasks w) source) (\<lambda>t. td_actions (tk_definition t)))"

definition process_rejected ::
  "('doc, 'm) ports \<Rightarrow> control_ports \<Rightarrow> actor_context \<Rightarrow> workflow_record \<Rightarrow> task_id \<Rightarrow> ('doc, 'm, unit) cact" where
  "process_rejected p c context w source =
    (if has_distinct_wait w source then act_return ()
     else
       act_bind (act_try (act_bind (act_lift (feedback_batch w source)) (admit_batch p c context w source True))) (\<lambda>result.
       case result of
         Inr _ \<Rightarrow> act_return ()
       | Inl e \<Rightarrow>
           if indeterminate e then act_fail e
           else
             act_bind (in_runtime (workflow p (wr_id w))) (\<lambda>found.
             act_bind (act_lift (ok_or (CtInvalid ''feedback workflow disappeared'') found)) (\<lambda>current.
             if has_distinct_wait current source then act_return ()
             else in_runtime (refuse_model_repair p (wr_id w) source (control_display (po_quoted p) e))))))"

definition process_pending ::
  "('doc, 'm) ports \<Rightarrow> control_ports \<Rightarrow> actor_context \<Rightarrow> workflow_record \<Rightarrow> task_id \<Rightarrow> ('doc, 'm, unit) cact" where
  "process_pending p c context w source =
    act_bind (act_try (act_bind (read_batch p c w source) (admit_batch p c context w source False))) (\<lambda>result.
    case result of
      Inr _ \<Rightarrow> act_return ()
    | Inl e \<Rightarrow>
        if indeterminate e then act_fail e
        else in_runtime (reject_model_batch p (wr_id w) source (control_display (po_quoted p) e)
          (\<not> is_capacity_error e \<and> \<not> is_denial e \<and> automatic_repair_enabled w source)))"

definition basis_context :: "execution_basis \<Rightarrow> control_error + actor_context" where
  "basis_context basis = res_bind (map_err CtRuntime (authority_claim_new (eb_grant basis) (eb_grant_revision basis)
      (eb_grant_digest basis) (eb_revocation_generation basis))) (\<lambda>claim.
    Inr \<lparr>ac_actor = eb_actor basis, ac_authority = claim\<rparr>)"

definition process_response ::
  "('doc, 'm) ports \<Rightarrow> control_ports \<Rightarrow> workflow_record \<Rightarrow> task_id \<Rightarrow> ('doc, 'm, unit) cact" where
  "process_response p c w source =
    act_bind (act_lift (ok_or (CtInvalid ''model source disappeared'') (map_of (wr_admissions w) source))) (\<lambda>admission.
    act_bind (act_lift (ok_or (CtInvalid ''model source task disappeared'') (map_of (wr_tasks w) source))) (\<lambda>task.
    if \<not> is_settled (tk_state task) then act_return ()
    else if tk_state task \<noteq> Completed
    then in_runtime (reject_model_batch p (wr_id w) source
      ''source response is retained but its task did not complete successfully'' False)
    else
      act_bind (act_lift (basis_context (wr_execution_authority w))) (\<lambda>context.
      if ma_status admission = RejectedAdmission then process_rejected p c context w source
      else process_pending p c context w source)))"

definition admission_due :: "workflow_record \<Rightarrow> task_id \<times> model_admission \<Rightarrow> bool" where
  "admission_due w = (\<lambda>(source, admission).
    opt_any (\<lambda>task. is_settled (tk_state task)) (map_of (wr_tasks w) source)
    \<and> (ma_status admission = PendingAdmission
       \<or> ma_status admission = RejectedAdmission \<and> ma_repair_allowed admission \<and> \<not> has_distinct_wait w source))"

definition control_record :: "('doc, 'm) ports \<Rightarrow> workflow_id \<Rightarrow> ('doc, 'm, workflow_record) cact" where
  "control_record p wid =
    act_bind (in_runtime (workflow p wid)) (\<lambda>found.
    act_lift (ok_or (CtInvalid ''admission workflow disappeared'') found))"

definition process_workflow ::
  "('doc, 'm) ports \<Rightarrow> control_ports \<Rightarrow> workflow_id \<Rightarrow> ('doc, 'm, unit) cact" where
  "process_workflow p c wid =
    act_bind (control_record p wid) (\<lambda>w.
    act_fold (\<lambda>source _.
      act_bind (control_record p wid) (\<lambda>current. process_response p c current source))
      (map fst (take 32 (filter (admission_due w) (wr_admissions w)))) ())"

text \<open>One bounded page of workflows; the cursor moves only when the whole page was processed.\<close>

definition process_page ::
  "('doc, 'm) ports \<Rightarrow> control_ports \<Rightarrow> string option \<Rightarrow> ('doc, 'm, string option) cact" where
  "process_page p c cursor =
    act_bind (act_call ReadCall (po_read p) CtPersistence) (\<lambda>_.
    act_bind (act_get rt_store) (\<lambda>s.
    act_bind (act_lift (map_err CtPersistence (store_workflows (po_store_codec p) s cursor 16))) (\<lambda>page.
    act_bind (act_fold (\<lambda>snap _. process_workflow p c (ss_workflow snap)) (pg_items page) ()) (\<lambda>_.
    act_return (pg_next page)))))"

record ('doc, 'm) control =
  ct_runtime :: "('doc, 'm) runtime"
  ct_admission_cursor :: "string option"

definition process_model_admissions ::
  "('doc, 'm) ports \<Rightarrow> control_ports \<Rightarrow> (('doc, 'm) control, control_error, unit) action" where
  "process_model_admissions p c = (\<lambda>s. case process_page p c (ct_admission_cursor s) (ct_runtime s) of
      (Inl e, rt') \<Rightarrow> (Inl e, s\<lparr>ct_runtime := rt'\<rparr>)
    | (Inr next, rt') \<Rightarrow> (Inr (), \<lparr>ct_runtime = rt', ct_admission_cursor = next\<rparr>))"


section \<open>The service runs in the system\<close>

text \<open>Every call and command an action makes is a step of the system, whichever workers are running.\<close>

definition runs :: "('doc, 'm) ports \<Rightarrow> (('doc, 'm) runtime, 'e, 'a) action \<Rightarrow> bool" where
  "runs p a \<longleftrightarrow> (\<forall>rt ws. reaches p (rt, ws) (snd (a rt), ws))"

named_theorems runs_rules

lemma runsD: "runs p a \<Longrightarrow> a rt = (r, rt') \<Longrightarrow> reaches p (rt, ws) (rt', ws)"
  unfolding runs_def by (metis snd_conv)

lemma runs_simple [runs_rules]:
  "runs p (act_return x)" "runs p (act_fail e)" "runs p (act_lift r)" "runs p (act_get g)" "runs p (act_ensure b e)"
  by (simp_all add: runs_def act_simps)

lemma runs_bind [runs_rules]:
  assumes "runs p a" and "\<And>x. runs p (f x)"
  shows "runs p (act_bind a f)"
  unfolding runs_def
proof (intro allI)
  fix rt ws
  obtain r rt1 where a: "a rt = (r, rt1)" by (cases "a rt")
  have "reaches p (rt, ws) (rt1, ws)" by (rule runsD [OF assms(1) a])
  moreover have "reaches p (rt1, ws) (snd (f x rt1), ws)" for x using assms(2) by (simp add: runs_def)
  ultimately show "reaches p (rt, ws) (snd (act_bind a f rt), ws)"
    by (cases r) (auto simp add: act_simps a intro: rtranclp_trans)
qed

lemma runs_try [runs_rules]: "runs p a \<Longrightarrow> runs p (act_try a)"
  by (simp add: runs_def act_try_def split_def)

lemma runs_fold [runs_rules]: "(\<And>x s. runs p (f x s)) \<Longrightarrow> runs p (act_fold f xs s)"
  by (induction xs arbitrary: s) (auto intro: runs_rules)

lemma runs_if [runs_rules]: "runs p a \<Longrightarrow> runs p a' \<Longrightarrow> runs p (if b then a else a')"
  by simp

lemma runs_option [runs_rules]: "runs p a \<Longrightarrow> (\<And>x. runs p (f x)) \<Longrightarrow> runs p (case v of None \<Rightarrow> a | Some x \<Rightarrow> f x)"
  by (cases v) simp_all

lemma runs_sum [runs_rules]: "(\<And>e. runs p (g e)) \<Longrightarrow> (\<And>x. runs p (f x)) \<Longrightarrow> runs p (case v of Inl e \<Rightarrow> g e | Inr x \<Rightarrow> f x)"
  by (cases v) simp_all

lemma runs_let [runs_rules]: "runs p (f x) \<Longrightarrow> runs p (Let x f)"
  by simp

lemma runs_call:
  assumes "\<not> effectful c"
  shows "runs p (act_call c f err)"
  unfolding runs_def act_call_def using system_step.outside [OF assms] by (auto intro: r_into_rtranclp)

lemma runs_in_runtime [runs_rules]: "runs p a \<Longrightarrow> runs p (in_runtime a)"
  by (simp add: runs_def in_runtime_def split_def)

lemma runs_void: "runs p (void a) \<Longrightarrow> runs p a"
proof -
  have "snd (void a rt) = snd (a rt)" for rt
    by (simp add: void_def act_simps split_def split: sum.splits)
  then show "runs p (void a) \<Longrightarrow> runs p a" by (simp add: runs_def)
qed

lemma runs_command: "runs p (run_command p c)"
  unfolding runs_def
proof (intro allI)
  fix rt ws
  obtain r rt' where run: "run_command p c rt = (r, rt')" by (cases "run_command p c rt")
  have "system_step p (rt, ws) (rt', ws)" by (rule system_step.command [OF run])
  then show "reaches p (rt, ws) (snd (run_command p c rt), ws)" by (simp add: run r_into_rtranclp)
qed

lemma runs_commands [runs_rules]:
  "runs p (create_exact p owner key request decision bytes)" "runs p (create_workflow p owner key request decision)"
  "runs p (edit_exact p owner key wid batch bytes)" "runs p (edit p owner key wid batch)"
  "runs p (admit_model_batch p owner wid source batch repair)"
  "runs p (reject_model_batch p wid source reason repair_allowed)" "runs p (refuse_model_repair p wid source reason)"
proof -
  have "runs p (create_request p owner key request decision transport)" for transport
    using runs_command [of p "Create owner key request decision transport"] by (simp add: runs_void)
  then show "runs p (create_exact p owner key request decision bytes)" "runs p (create_workflow p owner key request decision)"
    by (simp_all add: create_exact_def create_workflow_def)
  have "runs p (edit_request p owner key wid batch transport None)" for transport
    using runs_command [of p "Edit owner key wid batch transport"] by (simp add: runs_void)
  then show "runs p (edit_exact p owner key wid batch bytes)" "runs p (edit p owner key wid batch)"
    by (simp_all add: edit_exact_def edit_def)
  show "runs p (admit_model_batch p owner wid source batch repair)"
    using runs_command [of p "AdmitBatch owner wid source batch repair"] by (simp add: runs_void)
  show "runs p (reject_model_batch p wid source reason repair_allowed)" "runs p (refuse_model_repair p wid source reason)"
    using runs_command [of p "RejectBatch wid source reason repair_allowed"]
      runs_command [of p "RefuseRepair wid source reason"] by simp_all
qed

lemma runs_read [runs_rules]: "runs p (store_read p f)"
  unfolding store_read_def by (intro runs_rules runs_call) simp

lemma runs_reads [runs_rules]:
  "runs p (clock_now p)" "runs p (workflow p wid)" "runs p (replay p actor key request)"
  "runs p (metadata_now c artifact)" "runs p (read_chunk_now c q)"
  unfolding clock_now_def workflow_def replay_def metadata_now_def read_chunk_now_def
  by (intro runs_rules runs_call; simp split: if_split)+

lemma runs_replays [runs_rules]:
  "runs p (replay_exact p actor key target transport)" "runs p (replay_edit p actor key wid batch)"
  unfolding replay_exact_def replay_edit_def by (intro runs_rules)+

lemma runs_decide [runs_rules]: "runs p (decide_now p q)"
  unfolding decide_now_def by (intro runs_rules runs_call) simp

lemma runs_authorize [runs_rules]:
  "runs p (authorize p c context wid oper key)" "runs p (authorize_when b p c context wid oper key)"
proof -
  show "runs p (authorize p c context wid oper key)" unfolding authorize_def by (intro runs_rules)
  then show "runs p (authorize_when b p c context wid oper key)" unfolding authorize_when_def by (intro runs_rules)
qed

lemma runs_sources [runs_rules]: "runs p (authorize_sources p c context w batch)"
proof -
  have "runs p (authorize_read p c context wid task name artifact metadata oper)" for wid task name artifact metadata oper
    unfolding authorize_read_def by (intro runs_rules)
  then have "runs p (authorize_published_output p c context w task name reference)" for task name reference
    unfolding authorize_published_output_def by (intro runs_rules)
  then show ?thesis
    unfolding authorize_sources_def authorize_source_def split_def by (intro runs_rules)
qed

lemma runs_read_content [runs_rules]: "runs p (read_content c reference authority bytes)"
proof -
  have "reaches p (rt, ws) (snd (read_content c reference authority bytes rt), ws)" for rt ws
  proof (induction c reference authority bytes rt rule: read_content.induct)
    case (1 c reference authority bytes rt)
    have chunk: "reaches p (rt, ws) (rt', ws)" if "read_chunk_now c q rt = (r, rt')" for q r rt'
      by (rule runsD [OF runs_reads(5) that])
    have "reaches p (rt, ws) (snd (read_content c reference authority (bytes @ ch_bytes chunk) rt'), ws)"
      if "read_chunk_now c q rt = (Inr chunk, rt')"
        "reaches p (rt', ws) (snd (read_content c reference authority (bytes @ ch_bytes chunk) rt'), ws)" for q chunk rt'
      by (rule rtranclp_trans [OF chunk [OF that(1)] that(2)])
    with 1 chunk show ?case
      by (subst read_content.simps) (auto simp del: read_content.simps split: option.splits sum.splits prod.splits)
  qed
  then show ?thesis by (simp add: runs_def)
qed

lemma runs_read_batch [runs_rules]: "runs p (read_batch p c w source)"
  unfolding read_batch_def authorize_response_def split_def by (intro runs_rules)

lemma runs_admissions [runs_rules]:
  "runs p (process_response p c w source)" "runs p (process_page p c cursor)"
proof -
  have admit: "runs p (admit_batch p c actor w source repair batch)" for actor w source repair batch
    unfolding admit_batch_def authorize_batch_def by (intro runs_rules)
  show response: "runs p (process_response p c w source)" for w source
    unfolding process_response_def process_rejected_def process_pending_def by (intro runs_rules admit)
  show "runs p (process_page p c cursor)"
    unfolding process_page_def process_workflow_def control_record_def by (intro runs_rules runs_call response) simp
qed


section \<open>What an operation leaves of the store\<close>

definition keeps :: "(('doc, 'm) store \<Rightarrow> 'b) \<Rightarrow> (('doc, 'm) runtime, 'e, 'a) action \<Rightarrow> bool" where
  "keeps f a \<longleftrightarrow> (\<forall>rt. f (rt_store (snd (a rt))) = f (rt_store rt))"

named_theorems keeps_rules

lemma keepsD: "keeps f a \<Longrightarrow> a rt = (r, rt') \<Longrightarrow> f (rt_store rt') = f (rt_store rt)"
  unfolding keeps_def by (metis snd_conv)

lemma keeps_simple_rules [keeps_rules]:
  "keeps f (act_return x)" "keeps f (act_fail e)" "keeps f (act_lift r)" "keeps f (act_get g)" "keeps f (act_ensure b e)"
  "keeps f (act_call call h err)"
  by (simp_all add: keeps_def act_simps act_call_def)

lemma keeps_bind_rule [keeps_rules]:
  assumes "keeps f a" and "\<And>x. keeps f (g x)"
  shows "keeps f (act_bind a g)"
  unfolding keeps_def
proof
  fix rt
  obtain r rt1 where a: "a rt = (r, rt1)" by (cases "a rt")
  have "f (rt_store rt1) = f (rt_store rt)" by (rule keepsD [OF assms(1) a])
  moreover have "f (rt_store (snd (g x rt1))) = f (rt_store rt1)" for x using assms(2) by (simp add: keeps_def)
  ultimately show "f (rt_store (snd (act_bind a g rt))) = f (rt_store rt)"
    by (cases r) (simp_all add: act_simps a)
qed

lemma keeps_control_rules [keeps_rules]:
  "keeps f a \<Longrightarrow> keeps f (act_try a)" "keeps f b \<Longrightarrow> keeps f (in_runtime b)"
  "keeps f d \<Longrightarrow> keeps f d' \<Longrightarrow> keeps f (if q then d else d')" "keeps f (h y) \<Longrightarrow> keeps f (Let y h)"
  by (simp_all add: keeps_def act_try_def in_runtime_def split_def)

lemma keeps_case_rules [keeps_rules]:
  "keeps f a \<Longrightarrow> (\<And>x. keeps f (g x)) \<Longrightarrow> keeps f (case v of None \<Rightarrow> a | Some x \<Rightarrow> g x)"
  "(\<And>e. keeps f (h e)) \<Longrightarrow> (\<And>x. keeps f (g x)) \<Longrightarrow> keeps f (case u of Inl e \<Rightarrow> h e | Inr x \<Rightarrow> g x)"
  "(\<And>x y. keeps f (k x y)) \<Longrightarrow> keeps f (case z of (x, y) \<Rightarrow> k x y)"
  by (simp_all split: option.split sum.split prod.split)

lemma keeps_fold_rule [keeps_rules]: "(\<And>x s. keeps f (g x s)) \<Longrightarrow> keeps f (act_fold g xs s)"
  by (induction xs arbitrary: s) (auto intro: keeps_rules)

lemma keeps_reads_rules [keeps_rules]:
  "keeps f (clock_now p)" "keeps f (store_read p h)" "keeps f (workflow p wid)" "keeps f (require_workflow p wid)"
  "keeps f (replay p actor key request)" "keeps f (metadata_now c artifact)" "keeps f (read_chunk_now c q)"
  unfolding clock_now_def require_workflow_def workflow_def replay_def store_read_def metadata_now_def read_chunk_now_def
  by (intro keeps_rules)+

lemma keeps_replays_rules [keeps_rules]:
  "keeps f (replay_exact p actor key target transport)" "keeps f (replay_edit p actor key wid batch)"
  unfolding replay_exact_def replay_edit_def by (intro keeps_rules)+

lemma keeps_authorize [keeps_rules]:
  "keeps f (decide_now p q)" "keeps f (authorize p c context wid oper key)" "keeps f (authorize_when b p c context wid oper key)"
  unfolding authorize_when_def authorize_def decide_now_def by (intro keeps_rules)+

lemma keeps_sources [keeps_rules]: "keeps f (authorize_sources p c context w batch)"
  unfolding authorize_sources_def authorize_source_def authorize_published_output_def authorize_read_def split_def
  by (intro keeps_rules)

lemma keeps_read_content [keeps_rules]: "keeps f (read_content c reference authority bytes)"
proof -
  have "f (rt_store (snd (read_content c reference authority bytes rt))) = f (rt_store rt)" for rt
  proof (induction c reference authority bytes rt rule: read_content.induct)
    case (1 c reference authority bytes rt)
    have chunk: "f (rt_store rt') = f (rt_store rt)" if "read_chunk_now c q rt = (r, rt')" for q r rt'
      by (rule keepsD [OF keeps_reads_rules(7) that])
    with 1 show ?case
      by (subst read_content.simps) (auto simp del: read_content.simps split: option.splits sum.splits prod.splits)
  qed
  then show ?thesis by (simp add: keeps_def)
qed

lemma keeps_read_batch [keeps_rules]: "keeps f (read_batch p c w source)"
  unfolding read_batch_def authorize_response_def split_def by (intro keeps_rules)

text \<open>A save that answers no command leaves the receipts as they are.\<close>

lemma plain_commit_receipts:
  assumes "commit_workflow codec ops limits sample faults c s = (r, s')" and "wc_command c = None"
  shows "st_receipts s' = st_receipts s"
  using assms(1)
proof (cases rule: commit_workflow_cases)
  case (written key)
  have "receipt_of c = None" using assms(2) by (simp add: receipt_of_def)
  then show ?thesis using written(3) by (auto simp add: prepare_commit_def Let_def res_simps split: option.splits)
qed simp_all

lemma plain_save_receipts [keeps_rules]: "keeps st_receipts (save p w expected None)"
proof -
  have "keeps st_receipts (commit_now p c)" if "wc_command c = None" for c
    unfolding keeps_def
  proof
    fix rt
    show "st_receipts (rt_store (snd (commit_now p c rt))) = st_receipts (rt_store rt)"
      using plain_commit_receipts [OF _ that] by (auto simp add: commit_now_def commit_in_def split: prod.splits)
  qed
  moreover have "keeps f (next_active p w active)" for f :: "('a, 'b) store \<Rightarrow> 'd" and active
    unfolding next_active_def by (intro keeps_rules)
  moreover have "keeps st_receipts (act_update (\<lambda>rt. if b then rt\<lparr>rt_active_tasks := n\<rparr> else rt))" for b n
    by (simp add: keeps_def act_simps)
  ultimately show ?thesis
    unfolding save_def by (intro keeps_rules) simp_all
qed

lemma keeps_decisions [keeps_rules]:
  "keeps st_receipts (reject_model_batch p wid source reason repair_allowed)"
  "keeps st_receipts (refuse_model_repair p wid source reason)"
  unfolding reject_model_batch_def refuse_model_repair_def advance_save_def advance_def
  by (intro keeps_rules)+


section \<open>Commands are authorized\<close>

text \<open>
  Between two states the evaluator allowed a request while the store was still the first one's.
\<close>

definition allowed_between ::
  "('doc, 'm) ports \<Rightarrow> authority_request \<Rightarrow> ('doc, 'm) runtime \<Rightarrow> ('doc, 'm) runtime \<Rightarrow> bool" where
  "allowed_between p q rt rt' \<longleftrightarrow> (\<exists>rt1 d. reaches p (rt, []) (rt1, []) \<and> rt_store rt1 = rt_store rt
    \<and> po_evaluate p (rt_calls rt1) q = Inr d \<and> is_allowed d
    \<and> reaches p (rt1\<lparr>rt_calls := EvaluateCall q # rt_calls rt1\<rparr>, []) (rt', []))"

definition asked :: "actor_context \<Rightarrow> workflow_id \<Rightarrow> authority_operation \<Rightarrow> authority_request \<Rightarrow> bool" where
  "asked context wid oper q \<longleftrightarrow> aq_actor q = ac_actor context \<and> aq_grant q = cl_grant (ac_authority context)
    \<and> aq_grant_revision q = cl_grant_revision (ac_authority context)
    \<and> aq_grant_digest q = cl_grant_digest (ac_authority context)
    \<and> aq_revocation_generation q = cl_revocation_generation (ac_authority context)
    \<and> aq_operation q = oper \<and> rf_workflow (aq_resources q) = Some wid \<and> rf_run (aq_resources q) = Some wid"

definition granted ::
  "('doc, 'm) ports \<Rightarrow> actor_context \<Rightarrow> workflow_id \<Rightarrow> authority_operation \<Rightarrow> ('doc, 'm) runtime \<Rightarrow> ('doc, 'm) runtime \<Rightarrow> bool" where
  "granted p context wid oper rt rt' \<longleftrightarrow> (\<exists>q. asked context wid oper q \<and> allowed_between p q rt rt')"

lemma granted_later:
  assumes "granted p context wid oper rt1 rt2" and "reaches p (rt, []) (rt1, [])" and "rt_store rt1 = rt_store rt"
    and "reaches p (rt2, []) (rt', [])"
  shows "granted p context wid oper rt rt'"
  using assms unfolding granted_def allowed_between_def by (metis rtranclp_trans)

lemma decide_Inr:
  "decide_now p q rt = (Inr d, rt') \<longleftrightarrow> po_evaluate p (rt_calls rt) q = Inr d \<and> is_allowed d
    \<and> rt' = rt\<lparr>rt_calls := EvaluateCall q # rt_calls rt\<rparr>"
  by (auto simp add: decide_now_def act_bind_Inr act_call_def act_run res_simps split: if_splits)

lemma in_runtime_Inr: "in_runtime a rt = (Inr x, rt') \<longleftrightarrow> a rt = (Inr x, rt')"
  by (auto simp add: in_runtime_def res_simps split: prod.splits)

lemma authorize_granted:
  assumes "authorize p c context wid oper key rt = (Inr d, rt1)"
  shows "granted p context wid oper rt rt1"
proof -
  obtain now decision rt0 where clock: "clock_now p rt = (Inr now, rt0)"
    and decide: "decide_now p (claim_request context decision oper
      (empty_facts\<lparr>rf_workflow := Some wid, rf_run := Some wid\<rparr>) default_budget now) rt0 = (Inr d, rt1)"
      (is "decide_now p ?q rt0 = _")
    using assms unfolding authorize_def by (auto simp add: act_bind_Inr act_run in_runtime_Inr)
  have "reaches p (rt, []) (rt0, [])" by (rule runsD [OF runs_reads(1) clock])
  moreover have "rt_store rt0 = rt_store rt" by (rule keepsD [OF keeps_reads_rules(1) clock])
  moreover have "asked context wid oper ?q" by (simp add: asked_def claim_request_def Let_def)
  ultimately show ?thesis
    using decide unfolding granted_def allowed_between_def decide_Inr by blast
qed

text \<open>A step that was authorized first: whatever runs after it keeps the evidence.\<close>

lemma authorize_bind:
  assumes "act_bind (authorize p c context wid oper key) f rt = (r, rt')" and "\<And>d. runs p (f d)"
    and "g (rt_store rt') \<noteq> g (rt_store rt)"
  obtains d rt1 where "f d rt1 = (r, rt')" "rt_store rt1 = rt_store rt" "reaches p (rt, []) (rt1, [])"
    "granted p context wid oper rt rt'"
proof -
  obtain v rt1 where auth: "authorize p c context wid oper key rt = (v, rt1)" by (cases "authorize p c context wid oper key rt")
  have same: "rt_store rt1 = rt_store rt" by (rule keepsD [OF keeps_authorize(2) auth])
  obtain d where v: "v = Inr d" and rest: "f d rt1 = (r, rt')"
    using assms(1,3) same by (cases v) (auto simp add: act_simps auth)
  have "granted p context wid oper rt rt'"
    using granted_later [OF authorize_granted [OF auth [unfolded v]] rtranclp.rtrancl_refl refl]
      runsD [OF assms(2) rest] by blast
  with rest same runsD [OF runs_authorize(1) auth] show thesis using that by blast
qed

lemma authorize_when_bind:
  assumes "act_bind (authorize_when b p c context wid oper key) f rt = (r, rt')" and "\<And>d. runs p (f d)"
    and "g (rt_store rt') \<noteq> g (rt_store rt)"
  obtains rt1 where "f () rt1 = (r, rt')" "rt_store rt1 = rt_store rt" "reaches p (rt, []) (rt1, [])"
    "b \<longrightarrow> granted p context wid oper rt rt'"
proof (cases b)
  case True
  have "act_bind (authorize p c context wid oper key) (\<lambda>_. f ()) rt = (r, rt')"
    using assms(1) True by (simp add: authorize_when_def act_simps split: sum.splits prod.splits)
  then show thesis by (rule authorize_bind [where g = g]) (use assms(2,3) that in auto)
next
  case False
  then show thesis using assms(1) that [of rt] by (simp add: authorize_when_def act_simps)
qed

lemma runs_permitted [runs_rules]:
  "runs p (create_permitted p context key request transport decision)"
  "runs p (edit_unreplayed p c context key wid batch transport)"
  "runs p (edit_permitted p c context key wid batch transport)"
  unfolding create_permitted_def edit_permitted_def edit_unreplayed_def by (intro runs_rules)+

lemma create_granted:
  assumes "control_create p c context key request transport rt = (r, rt')" and "rt_store rt' \<noteq> rt_store rt"
  shows "\<exists>wid. workflow_identity p (ac_actor context) key = Inr wid
    \<and> granted p context wid CreateRun rt rt' \<and> granted p context wid StartRun rt rt'"
proof -
  obtain wid where wid: "workflow_identity p (ac_actor context) key = Inr wid"
    using assms by (cases "workflow_identity p (ac_actor context) key") (auto simp add: control_create_def act_simps)
  have "act_bind (authorize p c context wid CreateRun key) (\<lambda>_. act_bind (authorize p c context wid StartRun key)
      (create_permitted p context key request transport)) rt = (r, rt')"
    using assms(1) by (simp add: control_create_def act_simps wid)
  then obtain rt1 where rest: "act_bind (authorize p c context wid StartRun key)
      (create_permitted p context key request transport) rt1 = (r, rt')"
    and first: "rt_store rt1 = rt_store rt" "reaches p (rt, []) (rt1, [])" "granted p context wid CreateRun rt rt'"
    by (rule authorize_bind [where g = "\<lambda>s. s"]) (auto intro!: runs_rules simp add: assms(2))
  from rest have "granted p context wid StartRun rt1 rt'"
    by (rule authorize_bind [where g = "\<lambda>s. s"]) (auto intro!: runs_rules simp add: assms(2) first(1))
  then have "granted p context wid StartRun rt rt'"
    by (rule granted_later [OF _ first(2,1) rtranclp.rtrancl_refl])
  with wid first(3) show ?thesis by blast
qed

lemma edit_granted:
  assumes "control_edit p c context key wid batch transport rt = (r, rt')" and "rt_store rt' \<noteq> rt_store rt"
  obtains rt1 where "list_ex is_stop (tb_changes batch) \<longrightarrow> granted p context wid Cancel rt rt'"
    and "list_ex (\<lambda>change. \<not> is_stop change) (tb_changes batch) \<longrightarrow> granted p context wid Apply rt rt'"
    and "edit_permitted p c context key wid batch transport rt1 = (r, rt')" and "rt_store rt1 = rt_store rt"
    and "reaches p (rt, []) (rt1, [])"
proof -
  from assms(1) [unfolded control_edit_def] obtain rt1 where
    rest: "act_bind (authorize_when (list_ex (\<lambda>change. \<not> is_stop change) (tb_changes batch)) p c context wid Apply key)
      (\<lambda>_. edit_permitted p c context key wid batch transport) rt1 = (r, rt')"
    and first: "rt_store rt1 = rt_store rt" "reaches p (rt, []) (rt1, [])"
      "list_ex is_stop (tb_changes batch) \<longrightarrow> granted p context wid Cancel rt rt'"
    by (rule authorize_when_bind [where g = "\<lambda>s. s"]) (auto intro!: runs_rules simp add: assms(2))
  from rest obtain rt2 where second: "edit_permitted p c context key wid batch transport rt2 = (r, rt')"
    "rt_store rt2 = rt_store rt1" "reaches p (rt1, []) (rt2, [])"
    "list_ex (\<lambda>change. \<not> is_stop change) (tb_changes batch) \<longrightarrow> granted p context wid Apply rt1 rt'"
    by (rule authorize_when_bind [where g = "\<lambda>s. s"]) (auto intro!: runs_rules simp add: assms(2) first(1))
  show thesis
    by (rule that [OF first(3) _ second(1)]) (use first second in \<open>auto intro: granted_later rtranclp_trans\<close>)
qed

text \<open>Every step of a loop of reads happens between the start and the last state of the loop.\<close>

lemma fold_steps:
  assumes "act_fold f xs u rt = (Inr v, rt')" and "x \<in> set xs" and "\<And>x u. runs p (f x u)" and "\<And>x u. keeps (\<lambda>s. s) (f x u)"
  obtains u1 rt1 u2 rt2 where "f x u1 rt1 = (Inr u2, rt2)" "reaches p (rt, []) (rt1, [])" "rt_store rt1 = rt_store rt"
    "reaches p (rt2, []) (rt', [])"
  using assms(1,2)
proof (induction xs arbitrary: u rt thesis)
  case (Cons y ys)
  obtain u0 rt0 where first: "f y u rt = (Inr u0, rt0)" and rest: "act_fold f ys u0 rt0 = (Inr v, rt')"
    using Cons.prems(2) by (auto simp add: act_bind_Inr)
  have step: "reaches p (rt, []) (rt0, [])" "rt_store rt0 = rt_store rt"
    using runsD [OF assms(3) first] keepsD [OF assms(4) first] by simp_all
  have tail: "reaches p (rt0, []) (rt', [])"
    by (rule runsD [OF runs_fold rest]) (rule assms(3))
  show ?case
  proof (cases "x = y")
    case True
    then show ?thesis using Cons.prems(1) [of u rt u0 rt0] first tail by simp
  next
    case False
    then have "x \<in> set ys" using Cons.prems(3) by simp
    with rest obtain u1 rt1 u2 rt2 where "f x u1 rt1 = (Inr u2, rt2)" "reaches p (rt0, []) (rt1, [])"
      "rt_store rt1 = rt_store rt0" "reaches p (rt2, []) (rt', [])"
      using Cons.IH by blast
    then show ?thesis using Cons.prems(1) step by (metis rtranclp_trans)
  qed
qed simp

text \<open>The requests of the service.\<close>

datatype control_command =
    ControlCreate actor_context string workflow_create "string option"
  | ControlEdit actor_context string workflow_id task_batch "string option"
  | ControlReplay actor_context string "workflow_id option" string
  | ControlRead actor_context workflow_id
  | ControlAdmissions

definition on_runtime :: "('doc, 'm, 'a) cact \<Rightarrow> (('doc, 'm) control, control_error, unit) action" where
  "on_runtime a = (\<lambda>s. case a (ct_runtime s) of (r, rt') \<Rightarrow> (res_map (\<lambda>_. ()) r, s\<lparr>ct_runtime := rt'\<rparr>))"

primrec run_control ::
  "('doc, 'm) ports \<Rightarrow> control_ports \<Rightarrow> control_command \<Rightarrow> (('doc, 'm) control, control_error, unit) action" where
  "run_control p c (ControlCreate context key request transport) = on_runtime (control_create p c context key request transport)"
| "run_control p c (ControlEdit context key wid batch transport) = on_runtime (control_edit p c context key wid batch transport)"
| "run_control p c (ControlReplay context key target transport) =
    on_runtime (control_replay_exact p c context key target transport)"
| "run_control p c (ControlRead context wid) = on_runtime (control_workflow p c context wid)"
| "run_control p c ControlAdmissions = process_model_admissions p c"

lemma on_runtime_run:
  assumes "on_runtime a s = (r, s')"
  obtains r' where "a (ct_runtime s) = (r', ct_runtime s')"
  using assms by (cases "a (ct_runtime s)") (auto simp add: on_runtime_def)

lemma control_runs [runs_rules]:
  "runs p (control_create p c context key request transport)" "runs p (control_edit p c context key wid batch transport)"
  "runs p (control_replay_exact p c context key target bytes)" "runs p (control_workflow p c context wid)"
  unfolding control_create_def control_edit_def control_replay_exact_def control_workflow_def by (intro runs_rules)+

text \<open>
  C6.  The control service adds no behaviour of its own: whatever it is asked, creating, editing, reading,
  recovering a receipt or processing model proposals, its effect on the runtime and the store is a run
  of the concurrent system, next to any running workers.  What is proved of every reachable state
  therefore holds behind the service.
\<close>

theorem control_is_run:
  assumes "reaches p start (ct_runtime s, ws)" and "run_control p c command s = (r, s')"
  shows "reaches p start (ct_runtime s', ws)"
proof -
  have "reaches p (ct_runtime s, ws) (ct_runtime s', ws)"
  proof (cases command)
    case ControlAdmissions
    then obtain r' where "process_page p c (ct_admission_cursor s) (ct_runtime s) = (r', ct_runtime s')"
      using assms(2) by (auto simp add: process_model_admissions_def split: prod.splits sum.splits)
    then show ?thesis by (rule runsD [OF runs_admissions(2)])
  qed (use assms(2) in \<open>auto elim!: on_runtime_run dest: runsD [OF control_runs(1)] runsD [OF control_runs(2)]
      runsD [OF control_runs(3)] runsD [OF control_runs(4)]\<close>)
  with assms(1) show ?thesis by (rule rtranclp_trans)
qed

text \<open>
  C5.  A command changes the store only with authority: when creating a workflow changed anything, the
  evaluator had allowed the actor, under the presented grant, to create and to start that workflow;
  when an edit did, it had allowed cancelling if the batch stops a task and applying if it does
  anything else.  Each answer was given while the store was still unchanged.  Reading a workflow and
  recovering a receipt never change the store.
\<close>

theorem control_changes_authorized:
  assumes "run_control p c command s = (r, s')" and "rt_store (ct_runtime s') \<noteq> rt_store (ct_runtime s)"
  shows "case command of
      ControlCreate context key _ _ \<Rightarrow> \<exists>wid. workflow_identity p (ac_actor context) key = Inr wid
        \<and> granted p context wid CreateRun (ct_runtime s) (ct_runtime s')
        \<and> granted p context wid StartRun (ct_runtime s) (ct_runtime s')
    | ControlEdit context _ wid batch _ \<Rightarrow>
        (list_ex is_stop (tb_changes batch) \<longrightarrow> granted p context wid Cancel (ct_runtime s) (ct_runtime s'))
        \<and> (list_ex (\<lambda>change. \<not> is_stop change) (tb_changes batch) \<longrightarrow>
          granted p context wid Apply (ct_runtime s) (ct_runtime s'))
    | ControlReplay _ _ _ _ \<Rightarrow> False
    | ControlRead _ _ \<Rightarrow> False
    | ControlAdmissions \<Rightarrow> True"
proof -
  have reads: "keeps (\<lambda>s. s) (control_replay_exact p c cx key target bytes)"
    "keeps (\<lambda>s. s) (control_workflow p c cx wid)" for cx key target bytes wid
    unfolding control_replay_exact_def control_workflow_def by (intro keeps_rules)+
  show ?thesis
  proof (cases command)
    case (ControlCreate cx key request transport)
    then show ?thesis using assms by (auto elim!: on_runtime_run dest: create_granted)
  next
    case (ControlEdit cx key wid batch transport)
    then obtain r' where "control_edit p c cx key wid batch transport (ct_runtime s) = (r', ct_runtime s')"
      using assms(1) by (auto elim: on_runtime_run)
    then show ?thesis unfolding ControlEdit by (rule edit_granted) (use assms(2) in auto)
  next
    case (ControlReplay cx key target bytes)
    then show ?thesis using assms keepsD [OF reads(1)] by (auto elim!: on_runtime_run)
  next
    case (ControlRead cx wid)
    then show ?thesis using assms keepsD [OF reads(2)] by (auto elim!: on_runtime_run)
  qed simp
qed


section \<open>Selected outputs are readable by the editor\<close>

text \<open>
  A change selects an output that its producer does not declare: by binding an input to it, or by
  redirecting a consumer from a corrected task that never declared it.
\<close>

definition undeclared :: "workflow_record \<Rightarrow> task_id \<Rightarrow> string \<Rightarrow> bool" where
  "undeclared w task output \<longleftrightarrow> (\<exists>producer. map_of (wr_tasks w) task = Some producer
    \<and> \<not> bm_contains (td_outputs (tk_definition producer)) output)"

definition binds_output :: "task_definition \<Rightarrow> task_id \<Rightarrow> string \<Rightarrow> bool" where
  "binds_output d task output \<longleftrightarrow> (\<exists>optional. TaskOutput task output optional \<in> set (bm_values (td_inputs d)))"

definition redirects_output :: "workflow_record \<Rightarrow> task_binding_redirect \<Rightarrow> string \<Rightarrow> bool" where
  "redirects_output w redirect output \<longleftrightarrow> (\<exists>consumer task optional. map_of (wr_tasks w) (rd_consumer redirect) = Some consumer
    \<and> map_of (td_inputs (tk_definition consumer)) (rd_input redirect) = Some (TaskOutput task output optional))"

definition selects_output :: "workflow_record \<Rightarrow> task_change \<Rightarrow> task_id \<Rightarrow> string \<Rightarrow> bool" where
  "selects_output w change task output = (case change of
      Add _ d \<Rightarrow> binds_output d task output \<and> undeclared w task output
    | Revise _ _ d \<Rightarrow> binds_output d task output \<and> undeclared w task output
    | AdoptCorrection original correction redirects \<Rightarrow> undeclared w original output
        \<and> (task = original \<or> task = correction) \<and> list_ex (\<lambda>r. redirects_output w r output) redirects
    | _ \<Rightarrow> False)"

text \<open>The sources only grow, and a required source stays required.\<close>

definition grows :: "(task_id \<times> string, bool) bmap \<Rightarrow> (task_id \<times> string, bool) bmap \<Rightarrow> bool" where
  "grows m m' \<longleftrightarrow> (bm_wf m \<longrightarrow> bm_wf m') \<and> (bm_wf m \<longrightarrow> (\<forall>k v. map_of m k = Some v \<longrightarrow> (\<exists>v'. map_of m' k = Some v' \<and> (v \<longrightarrow> v'))))"

lemma grows_refl [simp]: "grows m m"
  by (simp add: grows_def)

lemma grows_trans: "grows a b \<Longrightarrow> grows b c \<Longrightarrow> grows a c"
  unfolding grows_def by metis

lemma grows_fold: "(\<And>x m. x \<in> set xs \<Longrightarrow> grows m (f x m)) \<Longrightarrow> grows m (fold f xs m)"
  by (induction xs arbitrary: m) (auto intro: grows_trans)

lemma grows_insert: "grows m (bm_insert k True m)"
  by (auto simp add: grows_def)

lemma binding_step_grows:
  "grows m (case binding of TaskOutput task output _ \<Rightarrow>
      (if bm_contains m (task, output) then m else bm_insert (task, output) False m) | _ \<Rightarrow> m)"
proof -
  have "map_of m k = None" if "\<not> bm_contains m k" for k
    using that by (simp add: bm_contains_iff)
  then have "grows m (bm_insert k False m)" if "\<not> bm_contains m k" for k
    using that unfolding grows_def by (metis bm_wf_insert map_of_bm_insert fun_upd_other option.distinct(1))
  then show ?thesis by (simp split: task_input_binding.split)
qed

lemma change_sources_grow: "grows m (change_sources w change m)"
proof -
  have "grows m (binding_sources d m)" for d
    unfolding binding_sources_def by (rule grows_fold) (rule binding_step_grows)
  moreover have "grows m (fold (redirect_sources w task correction) redirects m)" for task correction redirects
    by (rule grows_fold) (auto simp add: redirect_sources_def intro: grows_trans [OF grows_insert grows_insert]
        split: option.split task_input_binding.split)
  ultimately show ?thesis by (simp add: change_sources_def split: task_change.split)
qed

lemma fold_known:
  assumes "x \<in> set xs" and "\<And>x m. grows m (f x m)" and "bm_wf m"
    and "\<And>m. bm_wf m \<Longrightarrow> \<exists>v. map_of (f x m) k = Some v \<and> (b \<longrightarrow> v)"
  shows "\<exists>v. map_of (fold f xs m) k = Some v \<and> (b \<longrightarrow> v)"
proof -
  obtain ys zs where xs: "xs = ys @ x # zs" using assms(1) by (auto simp add: in_set_conv_decomp)
  let ?m = "fold f ys m"
  have "bm_wf ?m" using grows_fold [of ys f m] assms(2,3) by (simp add: grows_def)
  with assms(4) obtain v where v: "map_of (f x ?m) k = Some v" "b \<longrightarrow> v" by blast
  have "bm_wf (f x ?m)" using assms(2) [of ?m x] \<open>bm_wf ?m\<close> by (simp add: grows_def)
  moreover have "grows (f x ?m) (fold f zs (f x ?m))" by (rule grows_fold) (rule assms(2))
  ultimately have "\<exists>v'. map_of (fold f zs (f x ?m)) k = Some v' \<and> (v \<longrightarrow> v')"
    using v(1) unfolding grows_def by blast
  then show ?thesis using v(2) by (auto simp add: xs)
qed

lemma redirect_step_grows: "grows m (redirect_sources w task correction redirect m)"
  by (auto simp add: redirect_sources_def intro: grows_trans [OF grows_insert grows_insert]
      split: option.split task_input_binding.split)

lemma sources_known:
  assumes "bm_wf m"
  shows "binds_output d task name \<Longrightarrow> \<exists>v. map_of (binding_sources d m) (task, name) = Some v"
    and "undeclared w original name \<Longrightarrow> redirects_output w r name \<Longrightarrow> r \<in> set redirects \<Longrightarrow>
      task = original \<or> task = correction \<Longrightarrow>
      map_of (fold (redirect_sources w original correction) redirects m) (task, name) = Some True"
proof -
  assume "binds_output d task name"
  then obtain optional where bound: "TaskOutput task name optional \<in> set (bm_values (td_inputs d))"
    by (auto simp add: binds_output_def)
  have "\<exists>v. map_of (binding_sources d m) (task, name) = Some v \<and> (False \<longrightarrow> v)"
    unfolding binding_sources_def
    by (rule fold_known [OF bound binding_step_grows assms]) (auto simp add: bm_contains_iff)
  then show "\<exists>v. map_of (binding_sources d m) (task, name) = Some v" by simp
next
  assume sel: "undeclared w original name" "redirects_output w r name" "r \<in> set redirects" "task = original \<or> task = correction"
  have "\<exists>v. map_of (fold (redirect_sources w original correction) redirects m) (task, name) = Some v \<and> (True \<longrightarrow> v)"
  proof (rule fold_known [OF sel(3) redirect_step_grows assms])
    fix m' :: "(task_id \<times> string, bool) bmap" assume "bm_wf m'"
    then show "\<exists>v. map_of (redirect_sources w original correction r m') (task, name) = Some v \<and> (True \<longrightarrow> v)"
      using sel(1,2,4) by (auto simp add: redirect_sources_def undeclared_def redirects_output_def opt_any_def)
  qed
  then show "map_of (fold (redirect_sources w original correction) redirects m) (task, name) = Some True" by auto
qed

lemma selected_sources:
  assumes "selects_output w change task name" and "change \<in> set changes"
  shows "\<exists>required. ((task, name), required) \<in> set (fold (change_sources w) changes [])
    \<and> (required \<or> undeclared w task name)"
proof -
  let ?b = "\<not> undeclared w task name"
  have "\<exists>v. map_of (fold (change_sources w) changes []) (task, name) = Some v \<and> (?b \<longrightarrow> v)"
  proof (rule fold_known [OF assms(2) change_sources_grow bm_wf_Nil])
    fix m :: "(task_id \<times> string, bool) bmap" assume m: "bm_wf m"
    show "\<exists>v. map_of (change_sources w change m) (task, name) = Some v \<and> (?b \<longrightarrow> v)"
      using assms(1) sources_known [OF m]
      by (cases change) (auto simp add: selects_output_def change_sources_def list_ex_iff)
  qed
  then show ?thesis by (meson map_of_SomeD)
qed

lemma read_step:
  "runs p (authorize_read p c cx wid task name artifact metadata oper)"
  "keeps f (authorize_read p c cx wid task name artifact metadata oper)"
  unfolding authorize_read_def by (intro runs_rules keeps_rules)+

definition reads_artifact :: "actor_ref \<Rightarrow> workflow_id \<Rightarrow> string \<Rightarrow> authority_request \<Rightarrow> bool" where
  "reads_artifact actor wid artifact q \<longleftrightarrow> aq_actor q = actor \<and> aq_operation q = ReadArtifactContent
    \<and> rf_workflow (aq_resources q) = Some wid \<and> rf_artifact (aq_resources q) = Some artifact"

lemma allowed_later:
  assumes "allowed_between p q rt1 rt2" and "reaches p (rt, []) (rt1, [])" and "rt_store rt1 = rt_store rt"
    and "reaches p (rt2, []) (rt', [])"
  shows "allowed_between p q rt rt'"
  using assms unfolding allowed_between_def by (metis rtranclp_trans)

lemma read_allowed:
  assumes "authorize_read p c cx wid task name artifact metadata ReadArtifactContent rt = (Inr u, rt')"
  shows "\<exists>q. reads_artifact (ac_actor cx) wid artifact q \<and> allowed_between p q rt rt'"
proof -
  obtain now decision rt0 d rt1 where clock: "clock_now p rt = (Inr now, rt0)"
    and decide: "decide_now p (claim_request cx decision ReadArtifactContent
      (empty_facts\<lparr>rf_workflow := Some wid, rf_run := Some wid, rf_artifact := Some artifact,
        rf_artifact_sensitivity := Some (am_sensitivity metadata)\<rparr>)
      (default_budget\<lparr>ab_artifact_bytes := Some (wa_size_bytes (am_reference metadata))\<rparr>) now) rt0 = (Inr d, rt1)"
      (is "decide_now p ?q rt0 = _") and "rt' = rt1"
    using assms unfolding authorize_read_def by (auto simp add: act_bind_Inr act_run in_runtime_Inr)
  have "allowed_between p ?q rt0 rt'"
    using decide \<open>rt' = rt1\<close> unfolding decide_Inr allowed_between_def by blast
  then have "allowed_between p ?q rt rt'"
    by (rule allowed_later [OF _ runsD [OF runs_reads(1) clock] keepsD [OF keeps_reads_rules(1) clock] rtranclp.rtrancl_refl])
  moreover have "reads_artifact (ac_actor cx) wid artifact ?q" by (simp add: reads_artifact_def claim_request_def Let_def)
  ultimately show ?thesis by blast
qed

lemma published_readable:
  assumes "authorize_published_output p c cx w task name reference rt = (Inr (), rt')"
  shows "\<exists>q. reads_artifact (ac_actor cx) (wr_id w) (ar_identity reference) q \<and> allowed_between p q rt rt'"
proof -
  obtain found metadata rt0 u where meta: "metadata_now c (ar_identity reference) rt = (Inr found, rt0)"
    and loop: "act_fold (\<lambda>oper _. authorize_read p c cx (wr_id w) task name (ar_identity reference) metadata oper)
      [ReadArtifactMetadata, ReadArtifactContent] () rt0 = (Inr u, rt')"
    using assms unfolding authorize_published_output_def Let_def
    by (auto simp add: act_bind_Inr act_run act_ensure_run split: if_splits)
  obtain u1 rt1 u2 rt2 where run: "authorize_read p c cx (wr_id w) task name (ar_identity reference) metadata
      ReadArtifactContent rt1 = (Inr u2, rt2)"
    and between: "reaches p (rt0, []) (rt1, [])" "rt_store rt1 = rt_store rt0" "reaches p (rt2, []) (rt', [])"
    by (rule fold_steps [OF loop, of ReadArtifactContent p]) (auto intro: read_step)
  obtain q where q: "reads_artifact (ac_actor cx) (wr_id w) (ar_identity reference) q" "allowed_between p q rt1 rt2"
    using read_allowed run by blast
  have "reaches p (rt, []) (rt1, [])" using rtranclp_trans [OF runsD [OF runs_reads(4) meta] between(1)] .
  moreover have "rt_store rt1 = rt_store rt"
    using keepsD [OF keeps_reads_rules(6) [where f = "\<lambda>s. s"] meta] between(2) by simp
  ultimately show ?thesis using q allowed_later [OF q(2) _ _ between(3)] by blast
qed

lemma source_readable:
  assumes "authorize_source p c cx w ((task, name), required) rt = (Inr u, rt')"
    and producer: "map_of (wr_tasks w) task = Some producer" and "required \<or> undeclared w task name"
  shows "\<exists>outcome reference q. tk_result producer = Some outcome \<and> map_of (tr_outputs outcome) name = Some reference
    \<and> reads_artifact (ac_actor cx) (wr_id w) (ar_identity reference) q \<and> allowed_between p q rt rt'"
proof -
  have "\<not> (\<not> required \<and> bm_contains (td_outputs (tk_definition producer)) name)"
    using assms(3) producer by (auto simp add: undeclared_def)
  then obtain d rt1 reference where auth: "authorize p c cx (wr_id w) InspectRun ''connect-output'' rt = (Inr d, rt1)"
    and found: "Option.bind (tk_result producer) (\<lambda>r. map_of (tr_outputs r) name) = Some reference"
    and rest: "authorize_published_output p c cx w task name reference rt1 = (Inr (), rt')"
    using assms(1) producer unfolding authorize_source_def
    by (auto simp add: act_bind_Inr act_run res_simps simp del: de_Morgan_conj split: if_splits)
  obtain q where q: "reads_artifact (ac_actor cx) (wr_id w) (ar_identity reference) q" "allowed_between p q rt1 rt'"
    using published_readable [OF rest] by blast
  have "allowed_between p q rt rt'"
    by (rule allowed_later [OF q(2) runsD [OF runs_authorize(1) auth]
          keepsD [OF keeps_authorize(2) [where f = "\<lambda>s. s"] auth] rtranclp.rtrancl_refl])
  moreover obtain outcome where "tk_result producer = Some outcome" "map_of (tr_outputs outcome) name = Some reference"
    using found by (cases "tk_result producer") simp_all
  ultimately show ?thesis using q(1) by blast
qed

text \<open>A run that changed something passed the reads before it.\<close>

lemma kept_bind:
  assumes "act_bind a f rt = (r, rt')" and "runs p a" and "keeps (\<lambda>s. s) a" and "g (rt_store rt') \<noteq> g (rt_store rt)"
  obtains x rt1 where "a rt = (Inr x, rt1)" "f x rt1 = (r, rt')" "rt_store rt1 = rt_store rt" "reaches p (rt, []) (rt1, [])"
proof -
  obtain v rt1 where a: "a rt = (v, rt1)" by (cases "a rt")
  have same: "rt_store rt1 = rt_store rt" by (rule keepsD [OF assms(3) a])
  then obtain x where "v = Inr x" "f x rt1 = (r, rt')" using assms(1,4) a by (cases v) (auto simp add: act_simps)
  with a same runsD [OF assms(2) a] show thesis using that by blast
qed

lemma workflow_found:
  assumes "workflow p wid rt = (Inr found, rt')" and "stored p (rt_store rt) wid w"
  shows "found = Some w"
  using assms
  by (auto simp add: workflow_def store_read_def act_bind_Inr act_run act_call_def res_simps stored_def read_snapshot_def
      split: option.splits)

lemma source_step:
  "runs p (authorize_source p c cx w source)" "keeps f (authorize_source p c cx w source)"
  unfolding authorize_source_def authorize_published_output_def split_def
  by (intro runs_rules keeps_rules read_step)+

lemma unreplayed_sources:
  assumes "edit_unreplayed p c cx key wid batch transport rt = (r, rt')" and changed: "rt_store rt' \<noteq> rt_store rt"
    and "stored p (rt_store rt) wid w"
  obtains rt1 rt2 where "authorize_sources p c cx w batch rt1 = (Inr (), rt2)" "rt_store rt1 = rt_store rt"
    "reaches p (rt, []) (rt1, [])" "reaches p (rt2, []) (rt', [])"
proof -
  let ?edit = "in_runtime (case transport of
      Some bytes \<Rightarrow> edit_exact p (ac_actor cx) key wid batch bytes | None \<Rightarrow> edit p (ac_actor cx) key wid batch)"
  from assms(1) [unfolded edit_unreplayed_def] obtain seen rt1 where read: "in_runtime (workflow p wid) rt = (Inr seen, rt1)"
    and run: "act_bind (case seen of None \<Rightarrow> act_return () | Some w \<Rightarrow> authorize_sources p c cx w batch) (\<lambda>_. ?edit) rt1
      = (r, rt')"
    and same: "rt_store rt1 = rt_store rt" "reaches p (rt, []) (rt1, [])"
    by (rule kept_bind [where g = "\<lambda>s. s" and p = p]) (use changed in \<open>auto intro!: runs_rules keeps_rules\<close>)
  have "seen = Some w" using workflow_found [OF _ assms(3)] read by (auto simp add: in_runtime_Inr)
  with run have "act_bind (authorize_sources p c cx w batch) (\<lambda>_. ?edit) rt1 = (r, rt')" by simp
  then obtain rt2 where sources: "authorize_sources p c cx w batch rt1 = (Inr (), rt2)" and "?edit rt2 = (r, rt')"
    by (rule kept_bind [where g = "\<lambda>s. s" and p = p]) (use changed same in \<open>auto intro: runs_sources keeps_sources\<close>)
  moreover have "runs p ?edit" by (intro runs_rules)
  ultimately show thesis using that [OF sources same] runsD by blast
qed

text \<open>
  C15.  An editor can wire in only what they may read: when an edit that selects an output its producer does
  not declare, by binding an input to it or by adopting a correction, changed the store, then that
  output was published, and the evaluator had allowed the editor to read its content, while the store
  was still unchanged.
\<close>

theorem selected_outputs_readable:
  assumes "control_edit p c cx key wid batch transport rt = (r, rt')" and changed: "rt_store rt' \<noteq> rt_store rt"
    and w: "stored p (rt_store rt) wid w" and "change \<in> set (tb_changes batch)" and "selects_output w change task name"
    and producer: "map_of (wr_tasks w) task = Some producer"
  shows "\<exists>outcome reference q. tk_result producer = Some outcome \<and> map_of (tr_outputs outcome) name = Some reference
    \<and> reads_artifact (ac_actor cx) (wr_id w) (ar_identity reference) q \<and> allowed_between p q rt rt'"
proof -
  from assms(1,2) obtain rt1 where run: "edit_permitted p c cx key wid batch transport rt1 = (r, rt')"
    and s1: "rt_store rt1 = rt_store rt" "reaches p (rt, []) (rt1, [])" by (rule edit_granted)
  from run [unfolded edit_permitted_def] obtain found rt2 where
    next2: "(case found of Some v \<Rightarrow> act_return v | None \<Rightarrow> edit_unreplayed p c cx key wid batch transport) rt2 = (r, rt')"
    and s2: "rt_store rt2 = rt_store rt1" "reaches p (rt1, []) (rt2, [])"
    by (rule kept_bind [where g = "\<lambda>s. s" and p = p]) (use changed s1 in \<open>auto intro!: runs_rules keeps_rules\<close>)
  have "found = None" using next2 changed s1 s2 by (cases found) (auto simp add: act_simps)
  with next2 have "edit_unreplayed p c cx key wid batch transport rt2 = (r, rt')" by simp
  then obtain rt3 rt4 where sources: "authorize_sources p c cx w batch rt3 = (Inr (), rt4)" and s3: "rt_store rt3 = rt_store rt2"
    "reaches p (rt2, []) (rt3, [])" "reaches p (rt4, []) (rt', [])"
    by (rule unreplayed_sources) (use changed s1 s2 w in auto)
  obtain required where source: "((task, name), required) \<in> set (fold (change_sources w) (tb_changes batch) [])"
    "required \<or> undeclared w task name"
    using selected_sources [OF assms(5,4)] by blast
  obtain u1 rt5 u2 rt6 where step: "authorize_source p c cx w ((task, name), required) rt5 = (Inr u2, rt6)"
    and s5: "reaches p (rt3, []) (rt5, [])" "rt_store rt5 = rt_store rt3" "reaches p (rt6, []) (rt4, [])"
    by (rule fold_steps [OF sources [unfolded authorize_sources_def] source(1), of p]) (auto intro: source_step)
  obtain outcome reference q where found: "tk_result producer = Some outcome" "map_of (tr_outputs outcome) name = Some reference"
    "reads_artifact (ac_actor cx) (wr_id w) (ar_identity reference) q" and allowed: "allowed_between p q rt5 rt6"
    using source_readable [OF _ producer source(2)] step by blast
  have "allowed_between p q rt rt'"
    by (rule allowed_later [OF allowed]) (use s1 s2 s3 s5 in \<open>auto intro: rtranclp_trans\<close>)
  with found show ?thesis by blast
qed


section \<open>Model proposals\<close>

lemma admit_granted:
  assumes "admit_batch p c cx w source repair batch rt = (r, rt')"
    and "st_receipts (rt_store rt') \<noteq> st_receipts (rt_store rt)"
  shows "granted p cx (wr_id w) Apply rt rt'"
proof -
  have "act_bind (authorize p c cx (wr_id w) Apply ''model-actions'') (\<lambda>_. act_bind (act_bind
      (authorize_when (list_ex is_stop (tb_changes batch)) p c cx (wr_id w) Cancel ''model-actions'') (\<lambda>_.
      authorize_sources p c cx w batch)) (\<lambda>_.
      in_runtime (admit_model_batch p (ac_actor cx) (wr_id w) source batch repair))) rt = (r, rt')"
    using assms(1) unfolding admit_batch_def authorize_batch_def by (simp add: act_simps split: prod.splits sum.splits)
  then show ?thesis
    by (rule authorize_bind [where g = st_receipts]) (auto intro!: runs_rules simp add: assms(2))
qed

lemma try_bind_run:
  "act_bind (act_try a) f rt = (r, rt') \<longleftrightarrow> (\<exists>v rt1. a rt = (v, rt1) \<and> f v rt1 = (r, rt'))"
  by (auto simp add: act_simps act_try_def split: prod.splits)

text \<open>An attempt to admit a batch, and whatever decision about it keeps the receipts.\<close>

lemma attempt_granted:
  assumes "act_bind (act_try (act_bind a (admit_batch p c cx w source repair))) decide rt = (r, rt')"
    and "runs p a" and "keeps (\<lambda>s. s) a" and "\<And>v. runs p (decide v)" and "\<And>v. keeps st_receipts (decide v)"
    and changed: "st_receipts (rt_store rt') \<noteq> st_receipts (rt_store rt)"
  shows "granted p cx (wr_id w) Apply rt rt'"
proof -
  obtain v rt1 where attempt: "act_bind a (admit_batch p c cx w source repair) rt = (v, rt1)"
    and rest: "decide v rt1 = (r, rt')"
    using assms(1) by (auto simp add: try_bind_run)
  have changed1: "st_receipts (rt_store rt1) \<noteq> st_receipts (rt_store rt)"
    using changed keepsD [OF assms(5) rest] by simp
  from attempt assms(2,3) this obtain batch rt0 where admit: "admit_batch p c cx w source repair batch rt0 = (v, rt1)"
    and before: "rt_store rt0 = rt_store rt" "reaches p (rt, []) (rt0, [])"
    by (rule kept_bind [where g = st_receipts])
  show ?thesis
    by (rule granted_later [OF admit_granted [OF admit] before(2,1) runsD [OF assms(4) rest]])
      (use changed1 before(1) in simp)
qed

text \<open>
  C16.  A model's proposal takes effect only with authority: processing a response adds a receipt only after the
  evaluator allowed the workflow's own actor, under the grant the workflow was started with, to apply
  changes to that workflow; rejections and refused repairs are recorded without one.
\<close>

theorem model_receipts_authorized:
  assumes "process_response p c w source rt = (r, rt')" and "st_receipts (rt_store rt') \<noteq> st_receipts (rt_store rt)"
  shows "\<exists>cx. basis_context (wr_execution_authority w) = Inr cx \<and> granted p cx (wr_id w) Apply rt rt'"
proof -
  have rejected: "granted p cx (wr_id w) Apply rt rt'" if run: "process_rejected p c cx w source rt = (r, rt')" for cx
  proof (cases "has_distinct_wait w source")
    case True
    then show ?thesis using run assms(2) by (simp add: process_rejected_def act_simps)
  next
    case False
    from run show ?thesis
      unfolding process_rejected_def if_not_P [OF False]
      by (rule attempt_granted) (auto intro!: runs_rules keeps_rules simp add: assms(2))
  qed
  have pending: "granted p cx (wr_id w) Apply rt rt'" if "process_pending p c cx w source rt = (r, rt')" for cx
    using that unfolding process_pending_def
    by (rule attempt_granted) (auto intro!: runs_rules keeps_rules simp add: assms(2))
  have refused: "st_receipts (rt_store rt') = st_receipts (rt_store rt)"
    if "in_runtime (reject_model_batch p (wr_id w) source reason b) rt = (r, rt')" for reason b
  proof -
    have "keeps st_receipts (in_runtime (reject_model_batch p (wr_id w) source reason b))" by (intro keeps_rules)
    then show ?thesis using that by (rule keepsD)
  qed
  show ?thesis
    using assms rejected pending unfolding process_response_def
    by (auto simp add: act_simps dest: refused split: sum.splits if_splits)
qed

text \<open>The reader stays within its bound.\<close>

lemma read_content_bounded:
  "read_content c reference authority bytes rt = (Inr content, rt') \<Longrightarrow> length content \<le> MODEL_RESPONSE_BYTES"
proof (induction c reference authority bytes rt rule: read_content.induct)
  case (1 c reference authority bytes rt)
  from 1(2) show ?case
    by (subst (asm) read_content.simps)
      (auto simp add: opt_all_def usize_add_def split: option.splits sum.splits prod.splits if_splits dest: 1(1))
qed

lemma response_allowed:
  assumes "authorize_response p c w source reference rt = (Inr v, rt')"
  shows "\<exists>q. reads_artifact (eb_actor (wr_execution_authority w)) (eb_workflow (wr_execution_authority w)) (ar_identity reference) q
    \<and> allowed_between p q rt rt'"
proof -
  obtain sensitivity found rt0 now decision rt1 d where meta: "metadata_now c (ar_identity reference) rt = (Inr found, rt0)"
    and clock: "clock_now p rt0 = (Inr now, rt1)"
    and decide: "decide_now p (basis_request (wr_execution_authority w) decision ReadArtifactContent
      (empty_facts\<lparr>rf_artifact := Some (ar_identity reference),
        rf_artifact_sensitivity := Some sensitivity\<rparr>) default_budget now no_provenance) rt1 = (Inr d, rt')"
      (is "decide_now p ?q rt1 = _")
    using assms unfolding authorize_response_def Let_def
    by (auto simp add: act_bind_Inr act_run act_ensure_run in_runtime_Inr res_simps split: if_splits)
  have "allowed_between p ?q rt1 rt'" using decide unfolding decide_Inr allowed_between_def by blast
  then have "allowed_between p ?q rt rt'"
    by (rule allowed_later)
      (use runsD [OF runs_reads(4) meta] runsD [OF runs_reads(1) clock]
        keepsD [OF keeps_reads_rules(6) [where f = "\<lambda>s. s"] meta] keepsD [OF keeps_reads_rules(1) [where f = "\<lambda>s. s"] clock]
        in \<open>auto intro: rtranclp_trans\<close>)
  moreover have "reads_artifact (eb_actor (wr_execution_authority w)) (eb_workflow (wr_execution_authority w)) (ar_identity reference) ?q"
    by (simp add: reads_artifact_def basis_request_def)
  ultimately show ?thesis by blast
qed

text \<open>
  C17.  Only verified content is read as a proposal: a batch obtained from a model response is the decoded
  structured part of bytes that have the size and the digest the admission retained and stay within
  two megabytes, after the evaluator allowed the workflow's actor to read that artifact; nothing
  was written on the way.
\<close>

theorem model_batch_verified:
  assumes "read_batch p c w source rt = (Inr batch, rt')"
  shows "rt_store rt' = rt_store rt \<and> (\<exists>admission reference content response structured q.
    map_of (wr_admissions w) source = Some admission \<and> ma_response admission = Some reference
    \<and> length content \<le> 2097152 \<and> ar_size_bytes reference = Some (of_nat (length content))
    \<and> po_blake3 p content = ar_digest reference
    \<and> cp_response c content = Inr response \<and> mp_structured response = Some structured \<and> cp_batch c structured = Inr batch
    \<and> reads_artifact (eb_actor (wr_execution_authority w)) (eb_workflow (wr_execution_authority w)) (ar_identity reference) q
    \<and> allowed_between p q rt rt')"
proof -
  obtain admission reference stored authority rt1 content where
    reference: "map_of (wr_admissions w) source = Some admission" "ma_response admission = Some reference"
    and auth: "authorize_response p c w source reference rt = (Inr (stored, authority), rt1)"
    and read: "read_content c stored authority [] rt1 = (Inr content, rt')"
    and decoded: "decode_batch p c reference content = Inr batch"
    using assms unfolding read_batch_def
    by (auto simp add: act_bind_Inr act_run res_simps bind_eq_Some_conv split_def)
  obtain q where q: "reads_artifact (eb_actor (wr_execution_authority w)) (eb_workflow (wr_execution_authority w))
      (ar_identity reference) q" "allowed_between p q rt rt1"
    using response_allowed [OF auth] by blast
  have "allowed_between p q rt rt'"
    by (rule allowed_later [OF q(2) rtranclp.rtrancl_refl refl runsD [OF runs_read_content read]])
  moreover have "rt_store rt' = rt_store rt" by (rule keepsD [OF keeps_read_batch assms])
  moreover have length: "length content \<le> 2097152"
    using read_content_bounded [OF read] by (simp add: MODEL_RESPONSE_BYTES_def)
  moreover obtain response structured where "cp_response c content = Inr response" "mp_structured response = Some structured"
    "cp_batch c structured = Inr batch" "po_blake3 p content = ar_digest reference"
    "try_from_usize (length content) = ar_size_bytes reference"
    using decoded by (auto simp add: decode_batch_def res_simps)
  moreover from this(5) length have "ar_size_bytes reference = Some (of_nat (length content))"
    by (simp add: try_from_usize_def)
  ultimately show ?thesis using reference q(1) by blast
qed

text \<open>A fresh name for the rejected response always exists, so its namespace is never exhausted.\<close>

lemma feedback_name_inject: "feedback_name i = feedback_name j \<longleftrightarrow> i = j"
  by (auto simp add: feedback_name_def)

lemma feedback_name_found:
  assumes "length (td_inputs d) < 64"
  shows "\<exists>name. with_rejected_response response d = Inr (d\<lparr>td_instructions := td_instructions d @ [CHR 0x0A]
      @ ''The immutable rejected response is supplied as input '' @ name @ ''.'',
      td_inputs := bm_insert name (InlineBinding (ArtifactInput response)) (td_inputs d)\<rparr>)
    \<and> \<not> bm_contains (td_inputs d) name"
proof -
  let ?names = "map feedback_name [0..<65]" and ?free = "\<lambda>name. \<not> bm_contains (td_inputs d) name"
  have "distinct ?names" by (simp add: distinct_map inj_on_def feedback_name_inject)
  from distinct_card [OF this] have "card (set ?names) = 65" by (simp only: length_map length_upt)
  moreover have "card (set (bm_keys (td_inputs d))) < 65"
    using assms card_length [of "bm_keys (td_inputs d)"] by (simp add: bm_keys_def)
  ultimately have "\<not> set ?names \<subseteq> set (bm_keys (td_inputs d))"
    using card_mono [of "set (bm_keys (td_inputs d))" "set ?names"] by auto
  then obtain n where "n \<in> set ?names" "?free n" by (auto simp add: bm_contains_def)
  then obtain name where "find ?free ?names = Some name" "?free name"
    by (metis (mono_tags, lifting) find_None_iff find_Some_iff option.exhaust)
  then show ?thesis using assms by (auto simp add: with_rejected_response_def res_simps)
qed


section \<open>Concrete instances\<close>

definition sample_context :: actor_context where
  "sample_context = \<lparr>ac_actor = ''actor'', ac_authority = \<lparr>cl_grant = ''g'', cl_grant_revision = 1, cl_grant_digest = ''d'',
    cl_revocation_generation = 0\<rparr>\<rparr>"

definition sample_stored :: artifact_metadata where
  "sample_stored = \<lparr>am_reference = \<lparr>wa_artifact = ''r'', wa_digest = [], wa_media_type = ''text/plain'', wa_size_bytes = 3\<rparr>,
    am_sensitivity = Restricted, am_retention = WhileReferenced,
    am_provenance = \<lparr>ap_producer = CausalInvocation ''i'', ap_causes = []\<rparr>\<rparr>"

definition sample_response :: model_response where
  "sample_response = \<lparr>mp_text = [], mp_structured = Some JNull, mp_tool_calls = [], mp_finish_reason = StopFinish,
    mp_usage = \<lparr>mu_input_units = None, mu_output_units = None, mu_cached_input_units = None, mu_cost_micros = None,
      mu_currency = None\<rparr>, mp_provider_metadata = []\<rparr>"

definition sample_control :: control_ports where
  "sample_control = \<lparr>cp_metadata = (\<lambda>_ _. Inr (Some sample_stored)),
    cp_read_chunk = (\<lambda>_ _. Inr \<lparr>ch_offset = 0, ch_bytes = ''abc'', ch_end_of_artifact = True\<rparr>),
    cp_decision_bytes = (\<lambda>_. Inr ''d''), cp_source_bytes = (\<lambda>_. Inr ''s''), cp_to_hex = (\<lambda>_. sample_digest),
    cp_response = (\<lambda>_. Inr sample_response),
    cp_batch = (\<lambda>_. Inr \<lparr>tb_expected_generation = 1, tb_changes = [Wait ''q'']\<rparr>)\<rparr>"

definition editing_ports :: "(workflow_record, unit) ports" where
  "editing_ports = sample_ports\<lparr>po_store_codec := identity_codec\<lparr>sc_json := (\<lambda>_. Inr ''j'')\<rparr>,
    po_resolve := (\<lambda>_ _ _ _. Inr \<lparr>rv_descriptor = sample_descriptor, rv_snapshot = sample_snapshot,
      rv_authorization = Some (sample_decision (sample_request InvokeCapability 5))\<rparr>)\<rparr>"

definition sample_output :: artifact_reference where
  "sample_output = \<lparr>ar_identity = ''r'', ar_digest = sample_digest, ar_media_type = Some ''text/plain'', ar_size_bytes = Some 3\<rparr>"

definition finished_task :: task_record where
  "finished_task = (sample_task ''t'' Completed (Some (sample_start ''i'' True
      (Some \<lparr>du_started_at = 5, du_accounted_at = 9, du_maximum_ms = 1000\<rparr>))))\<lparr>
    tk_definition := (sample_definition ''t'' [])\<lparr>td_outputs := []\<rparr>, tk_ended_at := Some 9,
    tk_result := Some \<lparr>tr_terminal = sample_terminal Success, tr_outputs = [(''out'', sample_output)], tr_recorded_at = 9\<rparr>\<rparr>"

text \<open>A workflow whose finished task published an undeclared output and a response with a proposal.\<close>

definition model_record :: workflow_record where
  "model_record = (sample_workflow [finished_task])\<lparr>wr_admitted_tasks := 1, wr_finish_when_settled := False,
    wr_admissions := [(''t'', \<lparr>ma_response = Some sample_output, ma_expected_generation = 1, ma_status = PendingAdmission,
      ma_reason = None, ma_repair_allowed = False, ma_receipt_key = None, ma_aliases = []\<rparr>)]\<rparr>"

definition model_runtime :: "(workflow_record, unit) runtime" where
  "model_runtime = sample_runtime\<lparr>rt_store := (rt_store sample_runtime)
    \<lparr>st_workflows := [(''w'', snapshot_of model_record model_record 0 1 0)]\<rparr>\<rparr>"

definition using_output :: task_definition where
  "using_output = (sample_definition ''u'' [])\<lparr>td_inputs := [(''x'', TaskOutput ''t'' ''out'' False)], td_dependencies := [''t'']\<rparr>"

definition output_edit where
  "output_edit = control_edit editing_ports sample_control sample_context ''k1'' ''w''
    \<lparr>tb_expected_generation = 4, tb_changes = [Add ''u'' using_output]\<rparr> None model_runtime"

definition model_response_run where
  "model_response_run = process_response editing_ports sample_control model_record ''t'' model_runtime"

lemma output_edit_changes:
  "map_option ss_generation (store_workflow (rt_store (snd output_edit)) ''w'') = Some 5"
  by code_simp

lemma model_response_receipt: "map fst (st_receipts (rt_store (snd model_response_run))) \<noteq> []"
  by code_simp

lemma model_batch_read:
  "fst (read_batch editing_ports sample_control model_record ''t'' model_runtime)
    = Inr \<lparr>tb_expected_generation = 1, tb_changes = [Wait ''q'']\<rparr>"
  by code_simp

lemma model_stored: "stored editing_ports (rt_store model_runtime) ''w'' model_record"
  by (simp add: stored_def model_runtime_def store_workflow_def snapshot_of_def editing_ports_def sample_ports_def)

lemma output_edit_differs: "rt_store (snd output_edit) \<noteq> rt_store model_runtime"
proof
  assume "rt_store (snd output_edit) = rt_store model_runtime"
  then have "map_option ss_generation (store_workflow (rt_store model_runtime) ''w'') = Some 5"
    using output_edit_changes by simp
  then show False
    by (simp add: model_runtime_def store_workflow_def snapshot_of_def model_record_def sample_workflow_def)
qed

theorem control_is_run_witness:
  "reaches editing_ports (model_runtime, []) (snd output_edit, [])"
proof -
  let ?s = "\<lparr>ct_runtime = model_runtime, ct_admission_cursor = None\<rparr>"
  have "run_control editing_ports sample_control (ControlEdit sample_context ''k1'' ''w''
      \<lparr>tb_expected_generation = 4, tb_changes = [Add ''u'' using_output]\<rparr> None) ?s
      = (res_map (\<lambda>_. ()) (fst output_edit), ?s\<lparr>ct_runtime := snd output_edit\<rparr>)"
    by (simp add: on_runtime_def output_edit_def split_def)
  from control_is_run [OF _ this, of "(model_runtime, [])" "[]"] show ?thesis by simp
qed

theorem control_changes_authorized_witness:
  "granted editing_ports sample_context ''w'' Apply model_runtime (snd output_edit)"
proof -
  let ?s = "\<lparr>ct_runtime = model_runtime, ct_admission_cursor = None\<rparr>"
  have "run_control editing_ports sample_control (ControlEdit sample_context ''k1'' ''w''
      \<lparr>tb_expected_generation = 4, tb_changes = [Add ''u'' using_output]\<rparr> None) ?s
      = (res_map (\<lambda>_. ()) (fst output_edit), ?s\<lparr>ct_runtime := snd output_edit\<rparr>)"
    by (simp add: on_runtime_def output_edit_def split_def)
  from control_changes_authorized [OF this] output_edit_differs show ?thesis by (simp add: is_stop_def)
qed

theorem selected_outputs_readable_witness:
  "\<exists>q. reads_artifact ''actor'' ''w'' ''r'' q \<and> allowed_between editing_ports q model_runtime (snd output_edit)"
proof -
  have run: "control_edit editing_ports sample_control sample_context ''k1'' ''w''
      \<lparr>tb_expected_generation = 4, tb_changes = [Add ''u'' using_output]\<rparr> None model_runtime = (fst output_edit, snd output_edit)"
    by (simp add: output_edit_def)
  have producer: "map_of (wr_tasks model_record) ''t'' = Some finished_task"
    by (simp add: model_record_def sample_workflow_def finished_task_def sample_task_def)
  then have "selects_output model_record (Add ''u'' using_output) ''t'' ''out''"
    by (auto simp add: selects_output_def binds_output_def undeclared_def using_output_def bm_values_def bm_contains_def bm_keys_def
        finished_task_def)
  from selected_outputs_readable [OF run output_edit_differs model_stored _ this producer]
  show ?thesis
    by (auto simp add: finished_task_def sample_output_def sample_context_def model_record_def sample_workflow_def)
qed

theorem model_receipts_authorized_witness:
  "\<exists>cx. basis_context (wr_execution_authority model_record) = Inr cx
    \<and> granted editing_ports cx (wr_id model_record) Apply model_runtime (snd model_response_run)"
proof -
  have run: "process_response editing_ports sample_control model_record ''t'' model_runtime
      = (fst model_response_run, snd model_response_run)"
    by (simp add: model_response_run_def)
  have "st_receipts (rt_store (snd model_response_run)) \<noteq> st_receipts (rt_store model_runtime)"
    using model_response_receipt by (auto simp add: model_runtime_def sample_runtime_def runtime_new_def)
  from model_receipts_authorized [OF run this] show ?thesis .
qed

theorem model_batch_verified_witness:
  "\<exists>q. reads_artifact (eb_actor (wr_execution_authority model_record)) (eb_workflow (wr_execution_authority model_record)) ''r'' q
    \<and> allowed_between editing_ports q model_runtime
      (snd (read_batch editing_ports sample_control model_record ''t'' model_runtime))"
proof -
  have run: "read_batch editing_ports sample_control model_record ''t'' model_runtime
      = (Inr \<lparr>tb_expected_generation = 1, tb_changes = [Wait ''q'']\<rparr>,
        snd (read_batch editing_ports sample_control model_record ''t'' model_runtime))"
    using model_batch_read by (metis prod.collapse)
  have "map_of (wr_admissions model_record) ''t'' = Some a \<Longrightarrow> ma_response a = Some ref \<Longrightarrow> ar_identity ref = ''r''" for a ref
    by (auto simp add: model_record_def sample_output_def)
  then show ?thesis using conjunct2 [OF model_batch_verified [OF run]] by metis
qed

end
