(* ===== verification/Scans.thy ===== *)
theory Scans
  imports Workers
begin

text \<open>
  The scans over all workflows end: \<^verbatim>\<open>active_task_count\<close> of \<^verbatim>\<open>crates/runtime/src/tasks.rs\<close> and
  \<^verbatim>\<open>recover\<close> of \<^verbatim>\<open>tasks/effects.rs\<close> read page after page until there is no further cursor, while
  their bodies may commit changes.  A change made on the way replaces the row of a workflow that is
  there, so the identities stay the same, and each cursor leaves fewer of them to visit.  The locale
  states this for any body that keeps the identities; both scans are instances, and the fuel they are
  given is therefore never used up.
\<close>

section \<open>What a body keeps\<close>

definition stays :: "(('doc, 'm) store \<Rightarrow> bool) \<Rightarrow> ('doc, 'm, 'a) act \<Rightarrow> bool" where
  "stays I a \<longleftrightarrow> (\<forall>rt. I (rt_store rt) \<longrightarrow> I (rt_store (snd (a rt))))"

named_theorems stays_rules

lemma staysD: "stays I a \<Longrightarrow> a rt = (r, rt') \<Longrightarrow> I (rt_store rt) \<Longrightarrow> I (rt_store rt')"
  unfolding stays_def by (metis snd_conv)

lemma stays_simple [stays_rules]:
  "stays I (act_return x)" "stays I (act_fail e)" "stays I (act_lift r)" "stays I (act_get g)" "stays I (act_ensure b e)"
  "stays I (act_call call h err)" "stays I (act_update (\<lambda>rt. if b then rt\<lparr>rt_active_tasks := n\<rparr> else rt))"
  by (simp_all add: stays_def act_simps act_call_def)

lemma stays_bind [stays_rules]:
  fixes a :: "('doc, 'm, 'a) act"
  assumes "stays I a" and "\<And>x. stays I (f x)"
  shows "stays I (act_bind a f)"
  unfolding stays_def
proof (intro allI impI)
  fix rt :: "('doc, 'm) runtime"
  assume I: "I (rt_store rt)"
  obtain r rt1 where a: "a rt = (r, rt1)" by (cases "a rt")
  have "I (rt_store rt1)" by (rule staysD [OF assms(1) a I])
  then show "I (rt_store (snd (act_bind a f rt)))"
    using assms(2) a by (cases r) (simp_all add: act_simps stays_def)
qed

lemma stays_cases [stays_rules]:
  "stays I a \<Longrightarrow> stays I b \<Longrightarrow> stays I (if q then a else b)"
  "stays I a \<Longrightarrow> (\<And>x. stays I (f x)) \<Longrightarrow> stays I (case v of None \<Rightarrow> a | Some x \<Rightarrow> f x)"
  "(\<And>x y. stays I (g x y)) \<Longrightarrow> stays I (case z of (x, y) \<Rightarrow> g x y)"
  by (simp_all split: option.split prod.split)

lemma stays_fold [stays_rules]: "(\<And>x s. stays I (f x s)) \<Longrightarrow> stays I (act_fold f xs s)"
  by (induction xs arbitrary: s) (auto intro: stays_rules)

lemma stays_reads [stays_rules]:
  "stays I (clock_now p)" "stays I (store_read p h)" "stays I (workflow p i)" "stays I (require_workflow p i)"
  "stays I (next_active p w active)" "stays I (settle_now p x)" "stays I (settle_start p t)"
  unfolding clock_now_def require_workflow_def workflow_def store_read_def next_active_def settle_start_def settle_now_def
  by (intro stays_rules)+


section \<open>Identities\<close>

text \<open>The store's rows are keyed by the workflows they hold, and these are their identities.\<close>

definition listed :: "workflow_id list \<Rightarrow> ('doc, 'm) store \<Rightarrow> bool" where
  "listed ids s \<longleftrightarrow> bm_wf (st_workflows s) \<and> (\<forall>row \<in> set (st_workflows s). ss_workflow (snd row) = fst row)
    \<and> map fst (st_workflows s) = ids"

lemma listed_replace:
  assumes "listed ids s" and "map_of (st_workflows s) (ss_workflow snap) \<noteq> None"
    and "st_workflows s' = bm_insert (ss_workflow snap) snap (st_workflows s)"
  shows "listed ids s'"
proof -
  let ?k = "ss_workflow snap" and ?m = "st_workflows s"
  have wf: "bm_wf ?m" and keyed: "\<forall>row \<in> set ?m. ss_workflow (snd row) = fst row" and ids: "map fst ?m = ids"
    using assms(1) by (simp_all add: listed_def)
  have sorted: "bm_wf (bm_insert ?k snap ?m)" using wf by simp
  have rows: "ss_workflow (snd row) = fst row" if row: "row \<in> set (bm_insert ?k snap ?m)" for row
  proof -
    have "map_of (bm_insert ?k snap ?m) (fst row) = Some (snd row)"
      using row bm_wf_distinct [OF sorted] by (simp add: map_of_eq_Some_iff)
    then have "((map_of ?m)(?k \<mapsto> snap)) (fst row) = Some (snd row)" using wf by simp
    then show ?thesis using keyed by (auto split: if_splits dest: map_of_SomeD)
  qed
  have "?k \<in> fst ` set ?m" using assms(2) by (simp add: map_of_eq_None_iff)
  then have "set (map fst (bm_insert ?k snap ?m)) = set (map fst ?m)"
    by (simp add: insert_absorb)
  then have "map fst (bm_insert ?k snap ?m) = map fst ?m"
    using wf sorted strict_sorted_equal unfolding bm_wf_def by metis
  then show ?thesis using sorted rows ids assms(3) by (simp add: listed_def)
qed

lemma stays_save [stays_rules]:
  fixes p :: "('doc, 'm) ports"
  shows "stays (listed ids) (save p w (Some expected) command)"
proof -
  have commit: "stays (listed ids) (commit_now p c)" if "wc_expected_generation c = Some expected" for c
    unfolding stays_def
  proof (intro allI impI)
    fix rt :: "('doc, 'm) runtime"
    assume I: "listed ids (rt_store rt)"
    obtain r s where run: "commit_workflow (po_store_codec p) (po_managed p) (po_storage_limits p)
        (po_store_clock p (rt_calls rt)) (po_faults p (rt_calls rt)) c (rt_store rt) = (r, s)"
      by (rule prod.exhaust)
    then have "listed ids s"
    proof (cases rule: commit_workflow_cases)
      case (written key)
      have "map_of (st_workflows (rt_store rt)) (ss_workflow (wc_snapshot c)) \<noteq> None"
        using prepare_commit_Inr(2) [OF written(3)] that by (auto simp add: require_generation_def res_simps)
      then show ?thesis by (rule listed_replace [OF I _ prepare_commit_Inr(3) [OF written(3)]])
    qed (use I in simp_all)
    then show "listed ids (rt_store (snd (commit_now p c rt)))" using run by (simp add: commit_now_def commit_in_def)
  qed
  show ?thesis unfolding save_def by (intro stays_rules commit) simp
qed

lemma stays_bookkeeping [stays_rules]:
  "stays (listed ids) (advance_save p w)" "stays (listed ids) (observe_duration p w now)"
  "stays (listed ids) (mark_uncertain p wid tid reason)" "stays (listed ids) (requeue_start p wid tid)"
  unfolding advance_save_def advance_def observe_duration_def mark_uncertain_def requeue_start_def
  by (intro stays_rules)+

lemma stays_recover_workflow [stays_rules]: "stays (listed ids) (recover_workflow p wid ready)"
  unfolding recover_workflow_def recover_task_def by (intro stays_rules)

lemma stays_count_page [stays_rules]: "stays I (count_page p items count)"
  unfolding count_page_def by (intro stays_rules)


section \<open>Scans\<close>

text \<open>Identities a scan has still to visit.\<close>

definition identities_after :: "string option \<Rightarrow> workflow_id list \<Rightarrow> workflow_id list" where
  "identities_after cursor ids = filter (\<lambda>k. case cursor of None \<Rightarrow> True | Some a \<Rightarrow> a < k) ids"

lemma cursor_advances:
  assumes "listed ids s" and "store_workflows codec s cursor limit = Inr page" and "pg_next page = Some c"
  shows "length (identities_after (Some c) ids) < length (identities_after cursor ids)"
proof -
  let ?after = "\<lambda>k. case cursor of None \<Rightarrow> True | Some a \<Rightarrow> a < k"
  let ?rows = "filter (\<lambda>(k, v). ?after k) (st_workflows s)"
  have page: "page = page_loop codec limit ?rows [] 0" and limit: "limit \<noteq> 0"
    using assms(2) by (auto simp add: store_workflows_def res_simps)
  obtain n where taken: "map snd (take n ?rows) \<noteq> []" and c: "c = ss_workflow (last (map snd (take n ?rows)))"
    using page_loop_takes [OF limit, of ?rows codec "[]" 0] assms(3) page by auto
  have "last (take n ?rows) \<in> set ?rows" using taken by (intro in_set_takeD [OF last_in_set]) auto
  then have row: "last (take n ?rows) \<in> set (st_workflows s)" "?after (fst (last (take n ?rows)))"
    by (simp_all only: set_filter mem_Collect_eq case_prod_beta)
  have key: "fst (last (take n ?rows)) = c" using row(1) taken c assms(1) by (simp add: listed_def last_map)
  then have "c \<in> set ids" and after: "?after c"
    using row assms(1) by (auto simp add: listed_def)
  then have member: "c \<in> set (identities_after cursor ids)" by (simp add: identities_after_def)
  have "identities_after (Some c) ids = filter (\<lambda>k. c < k) (identities_after cursor ids)"
    unfolding identities_after_def filter_filter using after
    by (intro filter_cong) (auto split: option.splits)
  then show ?thesis using length_filter_less [OF member, of "\<lambda>k. c < k"] by simp
qed

primrec scan ::
  "('doc, 'm, 's) act \<Rightarrow> nat \<Rightarrow> ('doc, 'm) ports \<Rightarrow> ('doc workflow_snapshot list \<Rightarrow> 's \<Rightarrow> ('doc, 'm, 's) act)
    \<Rightarrow> string option \<Rightarrow> 's \<Rightarrow> ('doc, 'm, 's) act" where
  "scan stop 0 p body cursor acc = stop"
| "scan stop (Suc fuel) p body cursor acc =
    act_bind (store_read p (\<lambda>s. store_workflows (po_store_codec p) s cursor 200)) (\<lambda>page.
    act_bind (body (pg_items page) acc) (\<lambda>acc'.
    case pg_next page of
      None \<Rightarrow> act_return acc'
    | Some cursor' \<Rightarrow> scan stop fuel p body (Some cursor') acc'))"

locale page_body =
  fixes body :: "'doc workflow_snapshot list \<Rightarrow> 's \<Rightarrow> ('doc, 'm, 's) act"
  assumes keeps_identities: "stays (listed ids) (body items acc)"
begin

lemma scan_ends:
  assumes "listed ids (rt_store rt)" and "length (identities_after cursor ids) < fuel"
    and "length (identities_after cursor ids) < fuel'"
  shows "scan stop fuel p body cursor acc rt = scan stop' fuel' p body cursor acc rt"
  using assms
proof (induction fuel arbitrary: fuel' cursor acc rt)
  case (Suc fuel)
  obtain fuel1 where fuel': "fuel' = Suc fuel1" using Suc.prems(3) by (cases fuel') auto
  let ?read = "store_read p (\<lambda>s. store_workflows (po_store_codec p) s cursor 200)"
  obtain r rt1 where read: "?read rt = (r, rt1)" by (rule prod.exhaust)
  show ?case
  proof (cases r)
    case (Inr page)
    have rows: "listed ids (rt_store rt1)" by (rule staysD [where I = "listed ids", OF stays_reads(2) read Suc.prems(1)])
    have page: "store_workflows (po_store_codec p) (rt_store rt) cursor 200 = Inr page"
      using read Inr by (auto simp add: store_read_def act_call_def act_bind_Inr act_run res_simps)
    obtain v rt2 where run: "body (pg_items page) acc rt1 = (v, rt2)" by (rule prod.exhaust)
    have rows2: "listed ids (rt_store rt2)" by (rule staysD [OF keeps_identities run rows])
    have rest: "scan stop fuel p body (Some c) acc' rt2 = scan stop' fuel1 p body (Some c) acc' rt2"
      if "pg_next page = Some c" for c acc'
      by (rule Suc.IH [OF rows2])
        (use cursor_advances [OF Suc.prems(1) page that] Suc.prems(2,3) fuel' in simp_all)
    then show ?thesis using read Inr run fuel'
      by (cases v; cases "pg_next page") (simp_all add: act_simps)
  qed (simp add: fuel' read act_simps)
qed simp

end

interpretation counting: page_body "count_page p"
  by unfold_locales (rule stays_rules)

interpretation recovering: page_body "act_fold (\<lambda>snap. recover_workflow p (ss_workflow snap))"
  by unfold_locales (intro stays_rules)

lemma count_pages_scan: "count_pages fuel p cursor count = scan (act_fail SCAN_FUEL_EXHAUSTED) fuel p (count_page p) cursor count"
  by (induction fuel arbitrary: cursor count) (simp_all cong: option.case_cong)

lemma recover_pages_scan:
  "recover_pages fuel p cursor ready
   = scan (act_fail SCAN_FUEL_EXHAUSTED) fuel p (act_fold (\<lambda>snap. recover_workflow p (ss_workflow snap))) cursor ready"
  by (induction fuel arbitrary: cursor ready) (simp_all cong: option.case_cong)

lemma store_ok_listed:
  assumes "store_ok p s"
  shows "listed (map fst (st_workflows s)) s"
proof -
  have "ss_workflow snap = i" if "(i, snap) \<in> set (st_workflows s)" for i snap
  proof -
    have "store_workflow s i = Some snap"
      using that assms by (simp add: store_ok_def store_workflow_def map_of_eq_Some_iff bm_wf_distinct)
    then obtain w where "sealed p i snap w" using assms unfolding store_ok_def by blast
    then show ?thesis by (auto simp add: sealed_def snapshot_of_def)
  qed
  then show ?thesis using assms by (auto simp add: listed_def store_ok_def)
qed

text \<open>
  C30.  The scans over all workflows end.  Recovery after a restart and the count of active starts visit
  every page there is: their results are those of a loop with any larger bound, whatever it would do when
  the bound is reached, although recovery commits changes between the pages.
\<close>

theorem scans_end:
  assumes "store_ok p (rt_store rt)" and "length (st_workflows (rt_store rt)) < n"
  shows "recover p rt = scan stop n p (act_fold (\<lambda>snap. recover_workflow p (ss_workflow snap))) None [] rt
    \<and> count_pages (Suc (length (st_workflows (rt_store rt)))) p None 0 rt = scan stop' n p (count_page p) None 0 rt"
proof -
  let ?rows = "st_workflows (rt_store rt)"
  have rows: "listed (map fst ?rows) (rt_store rt)" by (rule store_ok_listed [OF assms(1)])
  have bound: "length (identities_after None (map fst ?rows)) < Suc (length ?rows)"
    "length (identities_after None (map fst ?rows)) < n"
    using assms(2) by (simp_all add: identities_after_def)
  show ?thesis
    unfolding recover_def count_pages_scan recover_pages_scan
    using recovering.scan_ends [OF rows bound] counting.scan_ends [OF rows bound] by (simp add: act_simps)
qed

theorem scans_end_witness:
  "recover sample_ports sample_runtime
   = scan (act_fail (Scheduling ''unreachable'')) 9 sample_ports
       (act_fold (\<lambda>snap. recover_workflow sample_ports (ss_workflow snap))) None [] sample_runtime"
proof -
  have "length (st_workflows (rt_store sample_runtime)) < 9" by (simp add: sample_runtime_def runtime_new_def)
  from conjunct1 [OF scans_end [OF sample_store_ok this]] show ?thesis .
qed

end
