(* ===== verification/Spec2Isabelle.thy ===== *)
theory Spec2Isabelle
  imports Control Scans
begin

text \<open>
  Milkdrift task workflows: a verification development.

  Milkdrift runs workflows of tasks for people and models.  A client or a model asks the control
  service to create or edit a workflow; the service asks the authority evaluator for every operation
  and hands the command to the task runtime; the runtime keeps one durable record per workflow and
  commits every change of it to a transactional store under an expected generation; a scheduler
  freezes ready tasks into starts, and workers enter each start at an executor, record what it
  reports and recover after a restart.  The development follows these parts from the contracts up.

  \<^bold>\<open>Vocabulary.\<close>  Prelude: results \<^typ>\<open>'e + 'a\<close> for fallible code, checked arithmetic on machine
  words, Rust's ordered maps as sorted association lists behind the locale \<^verbatim>\<open>ordered_map\<close>.  Text and
  Json (\<^verbatim>\<open>crates/contracts/src\<close>): byte strings, truncation at a UTF-8 boundary, identities,
  structural limits of JSON values.  Actions: operations on a mutable world that keep what was changed
  before an early return, with Hoare rules.

  \<^bold>\<open>Contracts.\<close>  Capability and Invocation (\<^verbatim>\<open>crates/capability/src\<close>): descriptors, requirements,
  placement, resolved snapshots, admission envelopes, reports and terminal outcomes.  Blueprint
  (\<^verbatim>\<open>crates/blueprint/src/task.rs\<close>): definitions, edits, and the refusal of every cyclic task set.
  Scopes and Authority (\<^verbatim>\<open>crates/authority/src\<close>): scopes, grants, decisions, the evaluator and the
  basis a workflow stays pinned to.  Workspace (\<^verbatim>\<open>crates/workspace/src\<close>): scopes and lineages,
  values, artifacts, budgets and candidates.  ModelTask (\<^verbatim>\<open>crates/model/src\<close>): requests, responses
  and continuations of model conversations.

  \<^bold>\<open>Ports.\<close>  Ports and Artifacts (\<^verbatim>\<open>crates/persistence/src\<close>): the workflow store's port, as the locale
  \<^verbatim>\<open>workflow_port\<close>, and the artifact port.  Dispatch (\<^verbatim>\<open>crates/runtime/src/executor.rs\<close>): authorized
  resolution, frozen dispatches and prepared entries.  Store (\<^verbatim>\<open>adapters/redb-store/src\<close>): the
  transactional store, which interprets \<^verbatim>\<open>workflow_port\<close>.  Messages: the texts of the error types.

  \<^bold>\<open>Records.\<close>  TaskState (\<^verbatim>\<open>crates/runtime/src/tasks.rs\<close>) is the durable record; Duration, Policy,
  Account, Capacity and Inputs (the files of the same names under \<^verbatim>\<open>crates/runtime/src/tasks\<close>) are the
  rules computed on it: elapsed time, policy pauses, reservations against a grant's ceilings, bytes
  reserved for what must still be recorded, readiness of inputs.

  \<^bold>\<open>The runtime.\<close>  Runtime: reading, saving and advancing a record over the ports, whose calls form a
  trace.  Evolution: what every later record keeps of an earlier one.  Effects, ModelActions,
  Scheduling and Admission (\<^verbatim>\<open>effects.rs\<close>, \<^verbatim>\<open>model_actions.rs\<close>, \<^verbatim>\<open>scheduling.rs\<close>, \<^verbatim>\<open>admission.rs\<close> under
  \<^verbatim>\<open>crates/runtime/src/tasks\<close>): the handlers.  Workers: any number of threads interleaved at the
  points where the transition gate is released, and restarts.  Scans: the loops over all pages end.  Control (\<^verbatim>\<open>crates/control/src\<close>): the
  service in front of it all.

  \<^bold>\<open>What the theorems show.\<close>  Over every interleaving of workers, commands and restarts, no task is
  entered twice, every call of the executor rests on a durable fact, the life of every task refines an
  abstract one, and every stored record is well formed (Workers).  A command through the control
  service is a run of that system, changes the store only after the evaluator allowed the operations it
  needs, connects only outputs its actor may read, and a model's proposal is admitted only from
  verified bytes under the workflow's own authority (Control).  The store commits by compare and swap,
  accepts a command once, loses no update, keeps its accounting exact and its stop capacity reserved,
  and pages through all workflows (Store).  The rules on records are characterised exactly: task sets,
  aggregate state, readiness, lineages, elapsed time, reservations, byte growth (Blueprint, TaskState,
  Inputs, Policy, Duration, Account, Capacity).  The evaluator allows exactly what a stated predicate
  allows, and revocation and pinning hold across changes of the grants (Authority).  The theorems of
  this theory compose the parts: a saved record reads back, a tick stays within its limits, a repeated
  command is answered from its receipt.

  \<^bold>\<open>Parameters and hypotheses.\<close>  \<^verbatim>\<open>serde_json\<close>, \<^verbatim>\<open>blake3\<close>, the executor, the evaluator behind its
  port, the clocks, storage faults and the artifact store are arguments (\<^verbatim>\<open>ports\<close>, \<^verbatim>\<open>control_ports\<close> and
  the codecs).  What is assumed of them is named: \<^verbatim>\<open>roundtrip\<close> says that decoding a stored document
  gives the record that was encoded.  A call's result may depend on all earlier calls, so the
  parameters may be stateful and adversarial.

  \<^bold>\<open>Termination.\<close>  The loops of the source are structural recursions or functions with a
  termination proof.  Two scans over all pages of the store, the count of active starts and the
  recovery after a restart, take the number of workflows plus one as fuel; Scans shows that it is
  enough, whatever the bodies commit on the way.  The bounds on pages, chunks, bytes and depths are the
  source's constants.  Lengths are natural numbers, and a
  conversion to a machine word is checked where the source checks it.

  \<^bold>\<open>Not modelled.\<close>  Poisoned locks; the wire forms of documents, which serde derives; clients and
  servers of the HTTP protocols; hosting of adapters, processes, secrets and managed installations; the
  peer protocol; the applications.  A method that holds the transition gate is one step, and a command
  of the control service is one uninterrupted sequence of such steps.
\<close>

section \<open>Properties of the composed runtime\<close>

lemma save_commits:
  assumes "save p w expected command rt = (Inr (Applied acc), rt')"
  obtains document reserved receipts artifacts rt1 rt2 where
    "po_to_value p w = Inr document" and "rt_store rt1 = rt_store rt"
    and "commit_now p \<lparr>wc_expected_generation = expected,
      wc_snapshot = snapshot_of w document reserved receipts artifacts, wc_command = command\<rparr> rt1
      = (Inr (Applied acc), rt2)"
    and "rt_store rt' = rt_store rt2"
proof -
  from assms obtain document reserved receipts artifacts "next" rt1 rt2 where
    document: "po_to_value p w = Inr document"
    and active: "next_active p w (rt_active_tasks rt) rt = (Inr next, rt1)"
    and commit: "commit_now p \<lparr>wc_expected_generation = expected,
      wc_snapshot = snapshot_of w document reserved receipts artifacts, wc_command = command\<rparr> rt1
      = (Inr (Applied acc), rt2)"
    and rt': "rt_store rt' = rt_store rt2"
    unfolding save_def by (auto simp add: act_bind_Inr act_run act_ensure_run res_simps is_applied_def split: if_splits)
  have "rt_store rt1 = rt_store rt"
    by (rule staysD [where I = "\<lambda>s. s = rt_store rt", OF stays_reads(5) active refl])
  then show thesis using document commit rt' that by blast
qed


text \<open>
  C39.  A tick of one workflow starts only what it may: the dispatches it returns are committed starts and
  at most the number asked for, and afterwards the workflow has no more running or unresolved tasks than
  its concurrency limit, or than it already had.
\<close>

theorem tick_within_limits:
  assumes "roundtrip p" and "good p rt" and "stored p (rt_store rt) wid w"
    and "tick_workflow p maximum wid [] rt = (Inr dispatches, rt')"
  shows "length dispatches \<le> maximum \<and> all_started p dispatches (rt_store rt')
    \<and> (\<exists>w'. stored p (rt_store rt') wid w' \<and> concurrency_limit w' = concurrency_limit w
        \<and> occupancy w' \<le> max (occupancy w) (concurrency_limit w))"
proof -
  have "stored p (rt_store rt) wid w \<and> all_started p [] (rt_store rt)" using assms(3) by (simp add: all_started_def)
  from safelyD(2) [OF safely_tick_workflow [OF assms(1)] assms(2) this assms(4) refl]
  show ?thesis by (simp add: loop_ok_def)
qed

text \<open>
  C40.  A command that was accepted is answered from its receipt: repeating an edit, or a model's batch, under the
  same actor, key and canonical request returns the stored receipt and changes nothing but one read of
  the store, whatever happened to the workflow, the clock or the authority in between; the same key with
  another request is refused.
\<close>

theorem repeated_command_replays:
  assumes "request_identity p transport (po_batch_value p batch) = Inr identity"
    and "canonical_request p (Some wid) identity = Inr canonical"
    and "po_read p (rt_calls rt) = Inr ()"
    and "workflow_receipt (rt_store rt) owner key = Inr (Some r)"
  shows "edit_request p owner key wid batch transport source rt
    = (if cm_canonical_request (rc_acceptance r) = canonical then Inr r
       else Inl (RtPersistence (WorkflowIdempotencyConflict owner key)), rt\<lparr>rt_calls := ReadCall # rt_calls rt\<rparr>)"
  using assms by (simp add: edit_request_def replay_def store_read_def act_call_def act_simps)

section \<open>Concrete instances\<close>

definition sample_next :: workflow_record where
  "sample_next = sample_record\<lparr>wr_generation := 5\<rparr>"

lemma sample_next_reads: "read_version sample_next = Inr ()"
  by (simp add: read_version_def sample_next_def sample_record_def sample_state read_task_def SCHEMA_VERSION_def)

lemma sample_next_saved: "fst (save sample_ports sample_next (Some 4) None sample_runtime) = Inr (Applied None)"
  by code_simp


text \<open>A workflow whose one task is ready, and an executor that resolves it.\<close>

definition sample_queued :: workflow_record where
  "sample_queued = (sample_workflow [sample_task ''t'' Queued None])\<lparr>wr_admitted_tasks := 1\<rparr>"

definition queued_runtime :: "(workflow_record, unit) runtime" where
  "queued_runtime = sample_runtime\<lparr>rt_store := (rt_store sample_runtime)
    \<lparr>st_workflows := [(''w'', snapshot_of sample_queued sample_queued 0 1 0)]\<rparr>\<rparr>"

definition resolving_ports :: "(workflow_record, unit) ports" where
  "resolving_ports = sample_ports\<lparr>po_resolve := (\<lambda>_ _ _ _. Inr \<lparr>rv_descriptor = sample_descriptor,
    rv_snapshot = sample_snapshot, rv_authorization = Some (sample_decision (sample_request InvokeCapability 5))\<rparr>)\<rparr>"

lemma sample_tick:
  "case fst (tick_workflow resolving_ports 3 ''w'' [] queued_runtime) of
     Inl e \<Rightarrow> False | Inr dispatches \<Rightarrow> map xd_node dispatches = [''t'']"
  by code_simp

lemma sample_queued_ok: "record_ok codec sample_queued"
  by (simp add: record_ok_def sample_queued_def sample_state task_ok_def bm_wf_def SCHEMA_VERSION_def
      default_limits_def DEFAULT_WORKFLOW_TASKS_def fits_within_def within_def default_budget_def)

lemma queued_good: "good resolving_ports queued_runtime"
  "stored resolving_ports (rt_store queued_runtime) ''w'' sample_queued"
proof -
  let ?snap = "snapshot_of sample_queued sample_queued 0 1 0"
  have "sealed resolving_ports ''w'' ?snap sample_queued"
    unfolding sealed_def using sample_queued_ok
    by (intro conjI exI) (auto simp add: resolving_ports_def sample_ports_def snapshot_of_def sample_queued_def sample_workflow_def)
  then show "good resolving_ports queued_runtime"
    by (auto simp add: good_def store_ok_def queued_runtime_def sample_runtime_def runtime_new_def store_workflow_def bm_wf_def)
  show "stored resolving_ports (rt_store queued_runtime) ''w'' sample_queued"
    by (simp add: stored_def queued_runtime_def store_workflow_def resolving_ports_def sample_ports_def)
qed

theorem tick_within_limits_witness:
  "\<exists>dispatches rt'. tick_workflow resolving_ports 3 ''w'' [] queued_runtime = (Inr dispatches, rt')
    \<and> map xd_node dispatches = [''t''] \<and> all_started resolving_ports dispatches (rt_store rt')"
proof -
  have "roundtrip resolving_ports" by (simp add: roundtrip_def resolving_ports_def sample_ports_def)
  moreover obtain dispatches rt' where run: "tick_workflow resolving_ports 3 ''w'' [] queued_runtime = (Inr dispatches, rt')"
    and "map xd_node dispatches = [''t'']"
    using sample_tick by (cases "tick_workflow resolving_ports 3 ''w'' [] queued_runtime") (auto split: sum.splits)
  moreover have "all_started resolving_ports dispatches (rt_store rt')"
    by (rule conjunct1 [OF conjunct2 [OF tick_within_limits [OF calculation(1) queued_good run]]])
  ultimately show ?thesis by (intro exI conjI)
qed

definition sample_receipt :: command_receipt where
  "sample_receipt = \<lparr>rc_workflow = ''w'', rc_generation = 4,
    rc_acceptance = (sample_command ''k1'')\<lparr>cm_canonical_request := ''j''\<rparr>\<rparr>"

definition accepted_runtime :: "(workflow_record, unit) runtime" where
  "accepted_runtime = sample_runtime\<lparr>rt_store := (rt_store sample_runtime)\<lparr>st_receipts := [(''2:aik1'', sample_receipt)]\<rparr>\<rparr>"

theorem repeated_command_replays_witness:
  "fst (edit_request sample_ports ''ai'' ''k1'' ''w'' \<lparr>tb_expected_generation = 2, tb_changes = [Continue]\<rparr> None None accepted_runtime)
   = Inr sample_receipt"
proof -
  have identity: "request_identity sample_ports None (po_batch_value sample_ports batch) = Inr JNull" for batch
    by (simp add: request_identity_def sample_ports_def)
  have canonical: "canonical_request sample_ports (Some ''w'') JNull = Inr ''j''"
    by (simp add: canonical_request_def encode_json_def sample_ports_def sample_runtime_codec_def sample_codec_def)
  have reading: "po_read sample_ports (rt_calls accepted_runtime) = Inr ()" by (simp add: sample_ports_def)
  have found: "workflow_receipt (rt_store accepted_runtime) ''ai'' ''k1'' = Inr (Some sample_receipt)"
    by code_simp
  show ?thesis
    using repeated_command_replays [OF identity canonical reading found] by (simp add: sample_receipt_def)
qed

end
